(* ===== verification/Prelude.thy ===== *)
theory Prelude
  imports Main "HOL-Library.Word" "HOL-Library.Signed_Division"
begin

text \<open>
  Shared vocabulary of the development: Go's machine integers, total array access, and
  the generic list lemmas every component uses.

  Go's \<open>int\<close> is a 64-bit two's complement integer.  It is modelled by the type
  \<open>int\<close>; where an addition can leave the 64-bit range the wrap-around is written out with
  \<open>wrap64\<close>.  Go's \<open>/\<close> and \<open>%\<close> truncate towards zero, which is \<open>sdiv\<close> and
  \<open>smod\<close> of the library theory \<open>Signed_Division\<close>, not Isabelle's \<open>div\<close> and \<open>mod\<close>.
\<close>

unbundle bit_operations_syntax

named_theorems go_int "unfolding rules for Go's machine integer operations"
named_theorems board_simps "reading a square of an updated board"
named_theorems wf_intros "introduction rules for well-formedness of boards"

type_synonym byte = "8 word"

section \<open>Machine integers\<close>

definition wrap64 :: "int \<Rightarrow> int" where
  "wrap64 x = (x + 2 ^ 63) mod 2 ^ 64 - 2 ^ 63"

definition int64_range :: "int \<Rightarrow> bool" where
  "int64_range x \<longleftrightarrow> - (2 ^ 63) \<le> x \<and> x < 2 ^ 63"

text \<open>Conversions to \<open>int32\<close> and \<open>uint32\<close>.\<close>

definition wrap32 :: "int \<Rightarrow> int" where
  "wrap32 x = (x + 2 ^ 31) mod 2 ^ 32 - 2 ^ 31"

definition uwrap32 :: "int \<Rightarrow> int" where
  "uwrap32 x = x mod 2 ^ 32"

lemma wrap32_id: "- (2 ^ 31) \<le> x \<Longrightarrow> x < 2 ^ 31 \<Longrightarrow> wrap32 x = x"
  by (simp add: wrap32_def)

lemma uwrap32_id: "0 \<le> x \<Longrightarrow> x < 2 ^ 32 \<Longrightarrow> uwrap32 x = x"
  by (simp add: uwrap32_def)

lemma wrap64_id: "int64_range x \<Longrightarrow> wrap64 x = x"
  by (simp add: wrap64_def int64_range_def)

lemma wrap64_range: "int64_range (wrap64 x)"
  by (simp add: wrap64_def int64_range_def)

text \<open>Truncating division and remainder agree with the flooring ones on non-negative numbers.\<close>

lemma sdiv_nonneg [go_int]: "0 \<le> a \<Longrightarrow> 0 < b \<Longrightarrow> a sdiv b = a div (b :: int)"
  by (cases "a = 0") (simp_all add: signed_divide_int_def sgn_if)

lemma smod_nonneg [go_int]: "0 \<le> a \<Longrightarrow> 0 < b \<Longrightarrow> a smod b = a mod (b :: int)"
  by (cases "a = 0") (simp_all add: smod_int_alt_def sgn_if)

section \<open>Results\<close>

text \<open>
  A Go function that returns a value and an error is a sum: \<open>Inl\<close> the error.  \<open>andThen\<close> is the
  idiom \<open>if err != nil { return err }\<close>.
\<close>

definition andThen :: "'e + 'a \<Rightarrow> ('a \<Rightarrow> 'e + 'b) \<Rightarrow> 'e + 'b" where
  "andThen r f = (case r of Inl e \<Rightarrow> Inl e | Inr x \<Rightarrow> f x)"

lemma andThen_simps [simp]: "andThen (Inl e) f = Inl e" "andThen (Inr x) f = f x"
  by (simp_all add: andThen_def)

lemma andThen_Inr: "andThen r f = Inr y \<longleftrightarrow> (\<exists>x. r = Inr x \<and> f x = Inr y)"
  by (cases r) simp_all

section \<open>Lists\<close>

text \<open>
  A loop that appends to a list: when one iteration adds exactly the elements \<open>X d\<close>, the
  loop adds their union.
\<close>

lemma set_fold_append:
  assumes "\<And>d moves. d \<in> set ds \<Longrightarrow> m \<in> set (g d moves) \<longleftrightarrow> m \<in> set moves \<or> X d"
  shows "m \<in> set (fold g ds moves) \<longleftrightarrow> m \<in> set moves \<or> (\<exists>d \<in> set ds. X d)"
  using assms by (induction ds arbitrary: moves) auto

lemma find_upto_Some:
  "find P [i..j] = Some k \<Longrightarrow> i \<le> k \<and> k \<le> (j :: int) \<and> P k"
  by (auto simp: find_Some_iff dest!: nth_mem)

lemma find_None_iff': "find P xs = None \<longleftrightarrow> (\<forall>x \<in> set xs. \<not> P x)"
  by (auto simp: find_None_iff)

end
