(* ===== verification/Rating.thy ===== *)
theory Rating
  imports Complex_Main Prelude
begin

text \<open>
  Elo updates (\<open>pkg/rating/elo.go\<close>).  A \<open>float64\<close> is idealised as a real number: the
  formulas are the source's, rounding errors of the floating-point operations are not
  modelled.  \<open>math.Pow\<close> with base 10 is \<open>powr\<close>, \<open>math.Floor\<close> followed by \<open>int\<close> is \<open>floor\<close>.
\<close>

definition DefaultRating :: int where
  "DefaultRating = 1200"

datatype RatingOutcome = BlackWon | Drawn | WhiteWon

fun outcomeScore :: "RatingOutcome \<Rightarrow> real" where
  "outcomeScore BlackWon = 0"
| "outcomeScore Drawn = 1 / 2"
| "outcomeScore WhiteWon = 1"

definition KFactor :: "int \<Rightarrow> int \<Rightarrow> real" where
  "KFactor rating gamesPlayed =
     (if gamesPlayed < 30 then 40 else if rating \<ge> 2400 then 10 else 20)"

definition Expected :: "int \<Rightarrow> int \<Rightarrow> real" where
  "Expected a b = 1 / (1 + 10 powr (real_of_int (wrap64 (b - a)) / 400))"

definition roundHalfAway :: "real \<Rightarrow> int" where
  "roundHalfAway f = (if f < 0 then - \<lfloor>- f + 1 / 2\<rfloor> else \<lfloor>f + 1 / 2\<rfloor>)"

definition Update :: "int \<Rightarrow> int \<Rightarrow> RatingOutcome \<Rightarrow> int \<Rightarrow> int \<Rightarrow> int \<times> int" where
  "Update whiteElo blackElo outcome whiteGames blackGames =
     (let expWhite = Expected whiteElo blackElo;
          expBlack = 1 - expWhite;
          scoreWhite = outcomeScore outcome;
          scoreBlack = 1 - scoreWhite
      in (roundHalfAway (KFactor whiteElo whiteGames * (scoreWhite - expWhite)),
          roundHalfAway (KFactor blackElo blackGames * (scoreBlack - expBlack))))"

section \<open>The expected score\<close>

lemma Expected_bounds: "0 < Expected a b" "Expected a b < 1"
proof -
  have "0 < 10 powr (real_of_int (wrap64 (b - a)) / 400)" by simp
  then show "0 < Expected a b" "Expected a b < 1" unfolding Expected_def by (simp_all add: add_pos_pos)
qed

lemma Expected_symmetric:
  assumes "int64_range (b - a)" and "int64_range (a - b)"
  shows "Expected a b + Expected b a = 1"
proof -
  let ?p = "10 powr (real_of_int (b - a) / 400)"
  have w: "wrap64 (b - a) = b - a" "wrap64 (a - b) = a - b" using assms by (simp_all add: wrap64_id)
  have "real_of_int (a - b) / 400 = - (real_of_int (b - a) / 400)" by (simp add: field_simps)
  then have inv: "10 powr (real_of_int (a - b) / 400) = inverse ?p" by (simp only: powr_minus)
  have pos: "0 < ?p" by simp
  have "1 / (1 + x) + 1 / (1 + inverse x) = 1" if "0 < x" for x :: real
  proof -
    have "1 / (1 + inverse x) = x / (1 + x)" using that by (simp add: field_simps)
    then show ?thesis using that by (simp add: add_divide_distrib [symmetric])
  qed
  from this [OF pos] have "1 / (1 + ?p) + 1 / (1 + inverse ?p) = 1" .
  then show ?thesis unfolding Expected_def w inv .
qed

lemma Expected_mono:
  assumes "a \<le> a'" and "int64_range (b - a)" and "int64_range (b - a')"
  shows "Expected a b \<le> Expected a' b"
proof -
  have "10 powr (real_of_int (b - a') / 400) \<le> 10 powr (real_of_int (b - a) / 400)"
    using assms(1) by (intro powr_mono) simp_all
  moreover have "0 < 10 powr (real_of_int (b - a') / 400)" by simp
  ultimately show ?thesis
    using assms by (simp add: Expected_def wrap64_id frac_le add_pos_pos)
qed

section \<open>Rounding\<close>

lemma roundHalfAway_minus: "roundHalfAway (- f) = - roundHalfAway f"
  by (auto simp: roundHalfAway_def)

lemma roundHalfAway_nonneg: "0 \<le> f \<Longrightarrow> 0 \<le> roundHalfAway f"
  by (simp add: roundHalfAway_def)

lemma roundHalfAway_le: "f \<le> real_of_int k \<Longrightarrow> roundHalfAway f \<le> k"
proof -
  assume f: "f \<le> real_of_int k"
  have up: "\<lfloor>g + 1 / 2\<rfloor> \<le> k" if "g \<le> real_of_int k" for g :: real
  proof -
    have "g + 1 / 2 < real_of_int (k + 1)" using that by simp
    then have "\<lfloor>g + 1 / 2\<rfloor> < k + 1" by (simp only: floor_less_iff)
    then show ?thesis by simp
  qed
  have down: "- \<lfloor>- g + 1 / 2\<rfloor> \<le> k" if "g \<le> real_of_int k" for g :: real
  proof -
    have "real_of_int (- k) \<le> - g + 1 / 2" using that by simp
    then have "- k \<le> \<lfloor>- g + 1 / 2\<rfloor>" by (simp only: le_floor_iff)
    then show ?thesis by simp
  qed
  show ?thesis using up [OF f] down [OF f] by (simp add: roundHalfAway_def)
qed

lemma KFactor_bounds: "10 \<le> KFactor r g" "KFactor r g \<le> 40"
  by (simp_all add: KFactor_def)

lemma scaled_bounds:
  assumes "0 \<le> x" and "x \<le> 1"
  shows "0 \<le> KFactor r g * x" and "KFactor r g * x \<le> 40"
proof -
  show "0 \<le> KFactor r g * x" using assms KFactor_bounds(1) [of r g] by simp
  have "KFactor r g * x \<le> 40 * 1" using assms KFactor_bounds [of r g] by (intro mult_mono) simp_all
  then show "KFactor r g * x \<le> 40" by simp
qed

lemma delta_gain:
  assumes "0 \<le> x" and "x \<le> 1"
  shows "0 \<le> roundHalfAway (KFactor r g * x) \<and> roundHalfAway (KFactor r g * x) \<le> 40"
  using roundHalfAway_nonneg roundHalfAway_le [of _ 40] scaled_bounds [OF assms, of r g] by simp

lemma delta_loss:
  assumes "- 1 \<le> x" and "x \<le> 0"
  shows "- 40 \<le> roundHalfAway (KFactor r g * x) \<and> roundHalfAway (KFactor r g * x) \<le> 0"
  using delta_gain [of "- x" r g] assms roundHalfAway_minus [of "KFactor r g * x"] by simp

section \<open>Properties\<close>

text \<open>
  A rating update moves no rating by more than 40 points; the winner of a game never loses
  points and the loser never gains any, whatever the ratings and the numbers of games.
\<close>

theorem Update_bounds:
  "\<bar>fst (Update w b r gw gb)\<bar> \<le> 40 \<and> \<bar>snd (Update w b r gw gb)\<bar> \<le> 40 \<and>
   0 \<le> fst (Update w b WhiteWon gw gb) \<and> snd (Update w b WhiteWon gw gb) \<le> 0 \<and>
   fst (Update w b BlackWon gw gb) \<le> 0 \<and> 0 \<le> snd (Update w b BlackWon gw gb)"
proof -
  let ?e = "Expected w b"
  have e: "0 < ?e" "?e < 1" by (rule Expected_bounds)+
  have win: "0 \<le> fst (Update w b WhiteWon gw gb) \<and> fst (Update w b WhiteWon gw gb) \<le> 40 \<and>
      - 40 \<le> snd (Update w b WhiteWon gw gb) \<and> snd (Update w b WhiteWon gw gb) \<le> 0"
    using delta_gain [of "1 - ?e" w gw] delta_loss [of "- (1 - ?e)" b gb] e by (simp add: Update_def Let_def del: minus_diff_eq)
  have lose: "- 40 \<le> fst (Update w b BlackWon gw gb) \<and> fst (Update w b BlackWon gw gb) \<le> 0 \<and>
      0 \<le> snd (Update w b BlackWon gw gb) \<and> snd (Update w b BlackWon gw gb) \<le> 40"
    using delta_loss [of "0 - ?e" w gw] delta_gain [of "1 - (1 - ?e)" b gb] e by (simp add: Update_def Let_def)
  have any: "- 40 \<le> roundHalfAway (KFactor q g * x) \<and> roundHalfAway (KFactor q g * x) \<le> 40" if "\<bar>x\<bar> \<le> 1" for x q g
    using that delta_gain [of x q g] delta_loss [of x q g] by (cases "0 \<le> x") auto
  have draw: "\<bar>fst (Update w b Drawn gw gb)\<bar> \<le> 40 \<and> \<bar>snd (Update w b Drawn gw gb)\<bar> \<le> 40"
    using any [of "1 / 2 - ?e" w gw] any [of "1 - 1 / 2 - (1 - ?e)" b gb] e by (simp add: Update_def Let_def abs_le_iff)
  show ?thesis using win lose draw by (cases r) auto
qed

text \<open>
  Between players with the same K-factor a rating update is zero-sum: what one side gains the
  other loses, exactly, rounding included.
\<close>

theorem Update_zero_sum:
  assumes "KFactor w gw = KFactor b gb"
  shows "fst (Update w b r gw gb) + snd (Update w b r gw gb) = 0"
proof -
  have "KFactor b gb * (1 - outcomeScore r - (1 - Expected w b)) = - (KFactor w gw * (outcomeScore r - Expected w b))"
    unfolding assms by (simp add: algebra_simps)
  then show ?thesis by (simp add: Update_def Let_def roundHalfAway_minus del: mult_minus_left mult_minus_right)
qed

theorem Update_zero_sum_witness: "fst (Update 1200 1900 WhiteWon 3 7) + snd (Update 1200 1900 WhiteWon 3 7) = 0"
  using Update_zero_sum [of 1200 3 1900 7 WhiteWon] by (simp add: KFactor_def)

end
