(* ===== verification/Go_Strings.thy ===== *)
theory Go_Strings
  imports Prelude
begin

text \<open>
  What the sources use of Go's \<open>strings\<close> and \<open>strconv\<close> packages.  A Go string is a
  sequence of bytes, which is what \<open>string\<close> (a list of 8-bit characters) is.

  \<open>strings.Fields\<close> splits around the white space of \<open>unicode.IsSpace\<close>.  In UTF-8 those
  code points are single ASCII bytes, or one of a few two- and three-byte sequences; no
  continuation byte starts such a sequence, so scanning byte by byte finds exactly the white
  space a rune decoder finds (\<open>space_len\<close> is the length of the white space rune a string
  starts with, 0 when it starts with none).

  The lemmas are the round trips the parsers of the program need: fields of joined words,
  splitting of joined words, and \<open>Atoi (Itoa n) = Some n\<close>.
\<close>

section \<open>White space and fields\<close>

definition ascii_space :: "char \<Rightarrow> bool" where
  "ascii_space c \<longleftrightarrow> c \<in> {CHR 0x09, CHR 0x0A, CHR 0x0B, CHR 0x0C, CHR 0x0D, CHR 0x20}"

definition space2 :: "char \<Rightarrow> char \<Rightarrow> bool" where
  "space2 c d \<longleftrightarrow> c = CHR 0xC2 \<and> d \<in> {CHR 0x85, CHR 0xA0}"

definition space3 :: "char \<Rightarrow> char \<Rightarrow> char \<Rightarrow> bool" where
  "space3 c d e \<longleftrightarrow>
     (c = CHR 0xE1 \<and> d = CHR 0x9A \<and> e = CHR 0x80) \<or>
     (c = CHR 0xE2 \<and> d = CHR 0x80 \<and>
        e \<in> {CHR 0x80, CHR 0x81, CHR 0x82, CHR 0x83, CHR 0x84, CHR 0x85, CHR 0x86,
             CHR 0x87, CHR 0x88, CHR 0x89, CHR 0x8A, CHR 0xA8, CHR 0xA9, CHR 0xAF}) \<or>
     (c = CHR 0xE2 \<and> d = CHR 0x81 \<and> e = CHR 0x9F) \<or>
     (c = CHR 0xE3 \<and> d = CHR 0x80 \<and> e = CHR 0x80)"

fun space_len :: "string \<Rightarrow> nat" where
  "space_len [] = 0"
| "space_len [c] = (if ascii_space c then 1 else 0)"
| "space_len [c, d] = (if ascii_space c then 1 else if space2 c d then 2 else 0)"
| "space_len (c # d # e # _) =
     (if ascii_space c then 1 else if space2 c d then 2 else if space3 c d e then 3 else 0)"

definition flush :: "string \<Rightarrow> string list" where
  "flush cur = (if cur = [] then [] else [cur])"

function fields_aux :: "string \<Rightarrow> string \<Rightarrow> string list" where
  "fields_aux cur [] = flush cur"
| "fields_aux cur (c # cs) =
     (if space_len (c # cs) = 0 then fields_aux (cur @ [c]) cs
      else flush cur @ fields_aux [] (drop (space_len (c # cs)) (c # cs)))"
  by pat_completeness auto
termination
  by (relation "measure (\<lambda>(cur, s). length s)") auto

definition Fields :: "string \<Rightarrow> string list" where
  "Fields s = fields_aux [] s"

text \<open>A plain character is an ASCII character that is not white space.\<close>

definition plain :: "char \<Rightarrow> bool" where
  "plain c \<longleftrightarrow> of_char c < (128 :: nat) \<and> \<not> ascii_space c"

lemma plain_not_lead:
  assumes "plain c"
  shows "\<not> ascii_space c" and "c \<noteq> CHR 0xC2" and "c \<noteq> CHR 0xE1" and "c \<noteq> CHR 0xE2" and "c \<noteq> CHR 0xE3"
  using assms by (auto simp: plain_def)

lemma plain_not_space:
  assumes "plain c"
  shows "\<not> space2 c d" and "\<not> space3 c d e"
  using plain_not_lead [OF assms] by (simp_all add: space2_def space3_def)

lemma space_len_plain [simp]: "plain c \<Longrightarrow> space_len (c # cs) = 0"
  by (cases "c # cs" rule: space_len.cases) (simp_all add: plain_not_space plain_not_lead(1))

lemma fields_aux_plain:
  "list_all plain w \<Longrightarrow> fields_aux cur (w @ rest) = fields_aux (cur @ w) rest"
  by (induction w arbitrary: cur) auto

lemma space_len_blank [simp]: "space_len (CHR '' '' # cs) = 1"
  by (cases "CHR '' '' # cs" rule: space_len.cases) (auto simp: ascii_space_def)

lemma fields_aux_blank [simp]: "fields_aux cur (CHR '' '' # cs) = flush cur @ fields_aux [] cs"
  by simp

declare fields_aux.simps(2) [simp del]

text \<open>The words of a string written as words separated by single blanks.\<close>

fun Join :: "string list \<Rightarrow> string \<Rightarrow> string" where
  "Join [] sep = []"
| "Join [w] sep = w"
| "Join (w # v # ws) sep = w @ sep @ Join (v # ws) sep"

definition word :: "string \<Rightarrow> bool" where
  "word w \<longleftrightarrow> w \<noteq> [] \<and> list_all plain w"

lemma flush_word [simp]: "word w \<Longrightarrow> flush w = [w]"
  by (simp add: flush_def word_def)

lemma fields_aux_word_blank:
  "word w \<Longrightarrow> fields_aux [] (w @ CHR '' '' # rest) = w # fields_aux [] rest"
  using fields_aux_plain [of w "[]" "CHR '' '' # rest"] by (simp add: word_def flush_def)

lemma fields_aux_word_end: "word w \<Longrightarrow> fields_aux [] w = [w]"
  using fields_aux_plain [of w "[]" "[]"] by (simp add: word_def flush_def)

lemma Fields_Join: "list_all word ws \<Longrightarrow> Fields (Join ws '' '') = ws"
  unfolding Fields_def
proof (induction ws rule: induct_list012)
  case 1
  show ?case by (simp add: flush_def)
next
  case (2 w)
  then show ?case by (simp add: fields_aux_word_end)
next
  case (3 w v ws)
  then show ?case by (simp add: fields_aux_word_blank)
qed

section \<open>TrimSpace\<close>

text \<open>
  \<open>strings.TrimSpace\<close> removes the white space runes at both ends; \<open>space_end\<close> is the length of
  the white space rune a reversed string starts with.
\<close>

function trimLeft :: "string \<Rightarrow> string" where
  "trimLeft s = (if space_len s = 0 then s else trimLeft (drop (space_len s) s))"
  by pat_completeness auto
termination
proof (relation "measure length")
  fix s assume "space_len s \<noteq> 0"
  then show "(drop (space_len s) s, s) \<in> measure length" by (cases s) auto
qed simp

fun space_end :: "string \<Rightarrow> nat" where
  "space_end [] = 0"
| "space_end [c] = (if ascii_space c then 1 else 0)"
| "space_end [d, c] = (if ascii_space d then 1 else if space2 c d then 2 else 0)"
| "space_end (e # d # c # _) =
     (if ascii_space e then 1 else if space2 d e then 2 else if space3 c d e then 3 else 0)"

function trimEnd :: "string \<Rightarrow> string" where
  "trimEnd s = (if space_end s = 0 then s else trimEnd (drop (space_end s) s))"
  by pat_completeness auto
termination
proof (relation "measure length")
  fix s assume "space_end s \<noteq> 0"
  then show "(drop (space_end s) s, s) \<in> measure length" by (cases s) auto
qed simp

definition TrimSpace :: "string \<Rightarrow> string" where
  "TrimSpace s = rev (trimEnd (rev (trimLeft s)))"

declare trimLeft.simps [simp del] trimEnd.simps [simp del]

section \<open>Split\<close>

text \<open>\<open>strings.Split(s, sep)\<close> for a separator of one byte.\<close>

fun Split :: "string \<Rightarrow> char \<Rightarrow> string list" where
  "Split [] sep = [[]]"
| "Split (c # cs) sep =
     (if c = sep then [] # Split cs sep
      else (case Split cs sep of [] \<Rightarrow> [[c]] | w # ws \<Rightarrow> (c # w) # ws))"

lemma Split_nonempty [simp]: "Split s sep \<noteq> []"
  by (induction s) (auto split: list.splits)

lemma Split_no_sep: "sep \<notin> set w \<Longrightarrow> Split w sep = [w]"
  by (induction w) auto

lemma Split_append: "sep \<notin> set w \<Longrightarrow> Split (w @ sep # rest) sep = w # Split rest sep"
  by (induction w) auto

lemma Split_Join:
  "ws \<noteq> [] \<Longrightarrow> list_all (\<lambda>w. sep \<notin> set w) ws \<Longrightarrow> Split (Join ws [sep]) sep = ws"
  by (induction ws rule: induct_list012) (auto simp: Split_no_sep Split_append)

section \<open>Itoa and Atoi\<close>

definition digit_char :: "nat \<Rightarrow> char" where
  "digit_char d = char_of (48 + d)"

definition is_digit :: "char \<Rightarrow> bool" where
  "is_digit c \<longleftrightarrow> 48 \<le> (of_char c :: nat) \<and> (of_char c :: nat) \<le> 57"

definition digit_val :: "char \<Rightarrow> int" where
  "digit_val c = of_char c - 48"

fun nat_digits :: "nat \<Rightarrow> string" where
  "nat_digits n = (if n < 10 then [digit_char n] else nat_digits (n div 10) @ [digit_char (n mod 10)])"

declare nat_digits.simps [simp del]

definition Itoa :: "int \<Rightarrow> string" where
  "Itoa i = (if i < 0 then CHR ''-'' # nat_digits (nat (- i)) else nat_digits (nat i))"

definition digits_val :: "string \<Rightarrow> int" where
  "digits_val ds = foldl (\<lambda>a c. 10 * a + digit_val c) 0 ds"

definition Atoi :: "string \<Rightarrow> int option" where
  "Atoi s =
     (let neg = (s \<noteq> [] \<and> hd s = CHR ''-'');
          ds = (if s \<noteq> [] \<and> (hd s = CHR ''-'' \<or> hd s = CHR ''+'') then tl s else s)
      in if ds = [] \<or> \<not> list_all is_digit ds then None
         else let v = (if neg then - digits_val ds else digits_val ds)
              in if int64_range v then Some v else None)"

lemma of_char_digit [simp]: "d < 10 \<Longrightarrow> of_char (digit_char d) = (48 + d :: nat)"
  by (simp add: digit_char_def)

lemma of_char_digit_int: "d < 10 \<Longrightarrow> of_char (digit_char d) = (48 + int d :: int)"
  by (metis of_char_digit of_nat_add of_nat_numeral of_nat_of_char)

lemma digit_char_digit [simp]: "d < 10 \<Longrightarrow> is_digit (digit_char d)"
  by (simp add: is_digit_def)

lemma digit_val_char [simp]: "d < 10 \<Longrightarrow> digit_val (digit_char d) = int d"
  by (simp add: digit_val_def of_char_digit_int)

lemma is_digit_plain: "is_digit c \<Longrightarrow> plain c"
  by (auto simp: is_digit_def plain_def ascii_space_def)

lemma nat_digits_digits: "list_all is_digit (nat_digits n)"
  by (induction n rule: nat_digits.induct) (subst nat_digits.simps, auto)

lemma nat_digits_nonempty [simp]: "nat_digits n \<noteq> []"
  by (subst nat_digits.simps) simp

lemma digits_val_snoc: "digits_val (ds @ [c]) = 10 * digits_val ds + digit_val c"
  by (simp add: digits_val_def)

lemma digits_val_nat_digits: "digits_val (nat_digits n) = int n"
proof (induction n rule: nat_digits.induct)
  case (1 n)
  show ?case
  proof (cases "n < 10")
    case True
    then show ?thesis by (subst nat_digits.simps) (simp add: digits_val_def)
  next
    case False
    with "1.IH" show ?thesis
      by (subst nat_digits.simps) (simp add: digits_val_snoc zdiv_int zmod_int)
  qed
qed

lemma not_digit_minus [simp]: "\<not> is_digit (CHR ''-'')" and not_digit_plus [simp]: "\<not> is_digit (CHR ''+'')"
  by (simp_all add: is_digit_def)

lemma hd_nat_digits: "hd (nat_digits n) \<noteq> CHR ''-'' \<and> hd (nat_digits n) \<noteq> CHR ''+''"
  using nat_digits_digits [of n] nat_digits_nonempty [of n]
  by (cases "nat_digits n") auto

lemma Atoi_Itoa: "int64_range i \<Longrightarrow> Atoi (Itoa i) = Some i"
  using nat_digits_digits hd_nat_digits
  by (auto simp: Atoi_def Itoa_def digits_val_nat_digits)

lemma Itoa_word: "word (Itoa i)"
proof -
  have "list_all plain (nat_digits n)" for n
    using nat_digits_digits [of n] by (rule list.pred_mono_strong) (rule is_digit_plain)
  moreover have "plain (CHR ''-'')" by (simp add: plain_def ascii_space_def)
  ultimately show ?thesis by (simp add: word_def Itoa_def)
qed

end
