(* ===== verification/Chess_Board.thy ===== *)
theory Chess_Board
  imports Go_Strings
begin

text \<open>
  The board of \<open>pkg/chess/board.go\<close>: colours, piece types, the byte a piece is packed
  into, castling bits, the \<open>Board\<close> struct and the attack test.

  \<open>Color\<close> and \<open>PieceType\<close> are Go enumerations and become datatypes; \<open>Piece\<close> stays the
  byte the source packs them into (three bits of type, one of colour).  The three type bits
  can hold 7, which is none of the source's constants: \<open>PieceType7\<close> stands for it, so that
  \<open>Piece_Type\<close> is the source's mask and nothing more.

  Go panics on an index outside an array.  \<open>sqAt\<close> reads square \<open>s\<close> and is used where the
  source has checked the index; the operations that can be called with an unchecked index
  (\<open>PieceAt\<close> here, applying an unvalidated move in \<open>Chess_Movegen\<close>) say when they panic.

  A ray walk (\<open>slidingAttack\<close>, and \<open>genSliding\<close> in \<open>Chess_Movegen\<close>) is a loop with
  no bound of its own: it stops at the edge of the board because the direction is not zero.
  It is modelled with fuel \<open>ray_fuel = 8\<close>; \<open>ray_fuel_enough\<close> shows that no walk along a
  direction of the source's tables takes more steps.
\<close>

section \<open>Colours, piece types, pieces\<close>

datatype Color = White | Black

fun Opposite :: "Color \<Rightarrow> Color" where
  "Opposite White = Black"
| "Opposite Black = White"

datatype PieceType = NoPieceType | Pawn | Knight | Bishop | Rook | Queen | King | PieceType7

type_synonym Piece = byte

fun color_byte :: "Color \<Rightarrow> byte" where
  "color_byte White = 0"
| "color_byte Black = 1"

fun piecetype_byte :: "PieceType \<Rightarrow> byte" where
  "piecetype_byte NoPieceType = 0"
| "piecetype_byte Pawn = 1"
| "piecetype_byte Knight = 2"
| "piecetype_byte Bishop = 3"
| "piecetype_byte Rook = 4"
| "piecetype_byte Queen = 5"
| "piecetype_byte King = 6"
| "piecetype_byte PieceType7 = 7"

definition Empty :: Piece where
  "Empty = 0"

definition MakePiece :: "Color \<Rightarrow> PieceType \<Rightarrow> Piece" where
  "MakePiece c t = piecetype_byte t OR push_bit 3 (color_byte c)"

definition Piece_Type :: "Piece \<Rightarrow> PieceType" where
  "Piece_Type p =
     (let t = p AND 7 in
      if t = 0 then NoPieceType else if t = 1 then Pawn else if t = 2 then Knight
      else if t = 3 then Bishop else if t = 4 then Rook else if t = 5 then Queen
      else if t = 6 then King else PieceType7)"

definition Piece_Color :: "Piece \<Rightarrow> Color" where
  "Piece_Color p = (if drop_bit 3 p AND 1 = 0 then White else Black)"

definition IsEmpty :: "Piece \<Rightarrow> bool" where
  "IsEmpty p \<longleftrightarrow> p = Empty"

definition CastleWhiteKing :: byte where "CastleWhiteKing = push_bit 0 1"
definition CastleWhiteQueen :: byte where "CastleWhiteQueen = push_bit 1 1"
definition CastleBlackKing :: byte where "CastleBlackKing = push_bit 2 1"
definition CastleBlackQueen :: byte where "CastleBlackQueen = push_bit 3 1"

definition NoSquare :: int where
  "NoSquare = -1"

section \<open>The board\<close>

record Board =
  squares :: "Piece list"
  Turn :: Color
  Castling :: byte
  EnPassant :: int
  HalfMove :: int
  FullMove :: int

definition sq :: "int \<Rightarrow> int \<Rightarrow> int" where
  "sq file rank = rank * 8 + file"

definition fileOf :: "int \<Rightarrow> int" where
  "fileOf s = s smod 8"

definition rankOf :: "int \<Rightarrow> int" where
  "rankOf s = s sdiv 8"

definition onBoard :: "int \<Rightarrow> int \<Rightarrow> bool" where
  "onBoard file rank \<longleftrightarrow> 0 \<le> file \<and> file < 8 \<and> 0 \<le> rank \<and> rank < 8"

definition square_index :: "int \<Rightarrow> bool" where
  "square_index s \<longleftrightarrow> 0 \<le> s \<and> s < 64"

definition sqAt :: "Board \<Rightarrow> int \<Rightarrow> Piece" where
  "sqAt b s = (if square_index s then squares b ! nat s else Empty)"

definition setSq :: "int \<Rightarrow> Piece \<Rightarrow> Board \<Rightarrow> Board" where
  "setSq s p b = (if square_index s then b\<lparr>squares := (squares b)[nat s := p]\<rparr> else b)"

text \<open>\<open>None\<close> is the index panic.\<close>

definition PieceAt :: "Board \<Rightarrow> int \<Rightarrow> Piece option" where
  "PieceAt b s = (if square_index s then Some (sqAt b s) else None)"

definition kingSquare :: "Board \<Rightarrow> Color \<Rightarrow> int" where
  "kingSquare b c =
     (case find (\<lambda>s. sqAt b s = MakePiece c King) [0..63] of Some s \<Rightarrow> s | None \<Rightarrow> NoSquare)"

definition knightDeltas :: "(int \<times> int) list" where
  "knightDeltas = [(1, 2), (2, 1), (2, -1), (1, -2), (-1, -2), (-2, -1), (-2, 1), (-1, 2)]"

definition kingDeltas :: "(int \<times> int) list" where
  "kingDeltas = [(1, 0), (1, 1), (0, 1), (-1, 1), (-1, 0), (-1, -1), (0, -1), (1, -1)]"

definition bishopDirs :: "(int \<times> int) list" where
  "bishopDirs = [(1, 1), (1, -1), (-1, 1), (-1, -1)]"

definition rookDirs :: "(int \<times> int) list" where
  "rookDirs = [(1, 0), (-1, 0), (0, 1), (0, -1)]"

section \<open>Attacks\<close>

definition ray_fuel :: nat where
  "ray_fuel = 8"

text \<open>The inner loop of \<open>slidingAttack\<close>: one ray, from the square \<open>(nf, nr)\<close> on.\<close>

fun rayAttack :: "nat \<Rightarrow> Board \<Rightarrow> int \<Rightarrow> int \<Rightarrow> int \<times> int \<Rightarrow> Color \<Rightarrow> PieceType \<Rightarrow> bool" where
  "rayAttack 0 b nf nr d byc slider = False"
| "rayAttack (Suc n) b nf nr d byc slider =
     (if onBoard nf nr then
        (let p = sqAt b (sq nf nr) in
         if \<not> IsEmpty p then
           Piece_Color p = byc \<and> (Piece_Type p = slider \<or> Piece_Type p = Queen)
         else rayAttack n b (nf + fst d) (nr + snd d) d byc slider)
      else False)"

definition slidingAttack :: "Board \<Rightarrow> int \<Rightarrow> int \<Rightarrow> (int \<times> int) list \<Rightarrow> Color \<Rightarrow> PieceType \<Rightarrow> bool" where
  "slidingAttack b f r dirs byc slider =
     list_ex (\<lambda>d. rayAttack ray_fuel b (f + fst d) (r + snd d) d byc slider) dirs"

definition pawnAttack :: "Board \<Rightarrow> int \<Rightarrow> int \<Rightarrow> Color \<Rightarrow> bool" where
  "pawnAttack b f r byc =
     (let pawnRank = (if byc = White then r - 1 else r + 1) in
      0 \<le> pawnRank \<and> pawnRank < 8 \<and>
      list_ex (\<lambda>df. let pf = f + df in
         0 \<le> pf \<and> pf < 8 \<and> sqAt b (sq pf pawnRank) = MakePiece byc Pawn) [-1, 1])"

definition stepAttack :: "Board \<Rightarrow> int \<Rightarrow> int \<Rightarrow> (int \<times> int) list \<Rightarrow> Piece \<Rightarrow> bool" where
  "stepAttack b f r deltas p =
     list_ex (\<lambda>d. let nf = f + fst d; nr = r + snd d in
        onBoard nf nr \<and> sqAt b (sq nf nr) = p) deltas"

definition IsAttacked :: "Board \<Rightarrow> int \<Rightarrow> Color \<Rightarrow> bool" where
  "IsAttacked b s byc =
     (let f = fileOf s; r = rankOf s in
      if pawnAttack b f r byc then True
      else if stepAttack b f r knightDeltas (MakePiece byc Knight) then True
      else if stepAttack b f r kingDeltas (MakePiece byc King) then True
      else if slidingAttack b f r bishopDirs byc Bishop then True
      else if slidingAttack b f r rookDirs byc Rook then True
      else False)"

definition InCheck :: "Board \<Rightarrow> bool" where
  "InCheck b =
     (let ks = kingSquare b (Turn b) in
      if ks = NoSquare then False else IsAttacked b ks (Opposite (Turn b)))"

section \<open>Well-formed boards\<close>

text \<open>The pieces the source can put on a board: the empty square and twelve coloured pieces.\<close>

definition real_type :: "PieceType \<Rightarrow> bool" where
  "real_type t \<longleftrightarrow> t \<noteq> NoPieceType \<and> t \<noteq> PieceType7"

definition valid_piece :: "Piece \<Rightarrow> bool" where
  "valid_piece p \<longleftrightarrow>
     p = Empty \<or> (real_type (Piece_Type p) \<and> p = MakePiece (Piece_Color p) (Piece_Type p))"

definition wf_board :: "Board \<Rightarrow> bool" where
  "wf_board b \<longleftrightarrow> length (squares b) = 64 \<and> list_all valid_piece (squares b)"

section \<open>Packing\<close>

lemma Opposite_Opposite [simp]: "Opposite (Opposite c) = c"
  by (cases c) auto

lemma Opposite_neq [simp]: "Opposite c \<noteq> c" "c \<noteq> Opposite c"
  by (cases c; simp)+

lemma neq_Opposite: "c \<noteq> d \<longleftrightarrow> c = Opposite d"
  by (cases c; cases d; simp)

lemma Piece_Type_MakePiece [simp]: "Piece_Type (MakePiece c t) = t"
  by (cases c; cases t; simp add: Piece_Type_def MakePiece_def)

lemma Piece_Color_MakePiece [simp]: "Piece_Color (MakePiece c t) = c"
  by (cases c; cases t; simp add: Piece_Color_def MakePiece_def)

lemma MakePiece_inject [simp]: "MakePiece c t = MakePiece c' t' \<longleftrightarrow> c = c' \<and> t = t'"
  by (metis Piece_Type_MakePiece Piece_Color_MakePiece)

lemma Piece_Type_Empty [simp]: "Piece_Type Empty = NoPieceType"
  by (simp add: Piece_Type_def Empty_def)

lemma Piece_Color_Empty [simp]: "Piece_Color Empty = White"
  by (simp add: Piece_Color_def Empty_def)

lemma real_type_simps [simp]:
  "\<not> real_type NoPieceType" "real_type Pawn" "real_type Knight" "real_type Bishop"
  "real_type Rook" "real_type Queen" "real_type King" "\<not> real_type PieceType7"
  by (simp_all add: real_type_def)

lemma MakePiece_Empty_iff: "MakePiece c t = Empty \<longleftrightarrow> c = White \<and> t = NoPieceType"
  by (cases c; cases t; simp add: MakePiece_def Empty_def)

lemma MakePiece_not_Empty [simp]: "real_type t \<Longrightarrow> MakePiece c t \<noteq> Empty" "real_type t \<Longrightarrow> Empty \<noteq> MakePiece c t"
  by (auto simp: MakePiece_Empty_iff dest: sym)

lemma IsEmpty_simps [simp]: "IsEmpty Empty" "real_type t \<Longrightarrow> \<not> IsEmpty (MakePiece c t)"
  by (auto simp: IsEmpty_def)

lemma valid_piece_Empty [simp, wf_intros]: "valid_piece Empty"
  by (simp add: valid_piece_def)

lemma valid_piece_MakePiece [simp, wf_intros]: "real_type t \<Longrightarrow> valid_piece (MakePiece c t)"
  by (simp add: valid_piece_def)

text \<open>On a valid piece, the colour and type determine the byte.\<close>

lemma valid_piece_cases:
  assumes "valid_piece p"
  obtains (empty) "p = Empty" | (piece) c t where "real_type t" and "p = MakePiece c t"
  using assms by (auto simp: valid_piece_def)

lemma valid_piece_eq_iff:
  "valid_piece p \<Longrightarrow> real_type t \<Longrightarrow>
     p = MakePiece c t \<longleftrightarrow> \<not> IsEmpty p \<and> Piece_Color p = c \<and> Piece_Type p = t"
  by (erule valid_piece_cases) auto

lemma valid_piece_type: "valid_piece p \<Longrightarrow> Piece_Type p = t \<Longrightarrow> real_type t \<Longrightarrow> \<not> IsEmpty p"
  by (erule valid_piece_cases) auto

lemma valid_piece_real: "valid_piece p \<Longrightarrow> \<not> IsEmpty p \<Longrightarrow> real_type (Piece_Type p)"
  by (erule valid_piece_cases) auto

lemma valid_piece_pack:
  "valid_piece p \<Longrightarrow> \<not> IsEmpty p \<Longrightarrow>
     p = MakePiece (Piece_Color p) (Piece_Type p) \<and> real_type (Piece_Type p)"
  by (auto simp: valid_piece_def)

section \<open>Coordinates\<close>

lemma fileOf_mod: "0 \<le> s \<Longrightarrow> fileOf s = s mod 8"
  by (simp add: fileOf_def smod_nonneg)

lemma rankOf_div: "0 \<le> s \<Longrightarrow> rankOf s = s div 8"
  by (simp add: rankOf_def sdiv_nonneg)

lemma sq_fileOf_rankOf [simp]: "0 \<le> s \<Longrightarrow> sq (fileOf s) (rankOf s) = s"
  by (simp add: sq_def fileOf_mod rankOf_div)

lemma square_index_sq [simp]: "onBoard f r \<Longrightarrow> square_index (sq f r)"
  by (simp add: onBoard_def square_index_def sq_def)

lemma fileOf_sq [simp]: "onBoard f r \<Longrightarrow> fileOf (sq f r) = f"
  by (simp add: onBoard_def sq_def fileOf_mod)

lemma rankOf_sq [simp]: "onBoard f r \<Longrightarrow> rankOf (sq f r) = r"
  by (simp add: onBoard_def sq_def rankOf_div)

lemma onBoard_fileOf_rankOf [simp]: "square_index s \<Longrightarrow> onBoard (fileOf s) (rankOf s)"
  by (simp add: onBoard_def square_index_def fileOf_mod rankOf_div) linarith

lemma square_index_nonneg: "square_index s \<Longrightarrow> 0 \<le> s"
  by (simp add: square_index_def)

lemma square_index_upto: "(\<exists>s \<in> set [0..63]. Q s) \<longleftrightarrow> (\<exists>s. square_index s \<and> Q s)"
proof -
  have "s \<in> set [0..63] \<longleftrightarrow> square_index s" for s by (auto simp: square_index_def)
  then show ?thesis by blast
qed

lemma sq_inject [simp]: "onBoard f r \<Longrightarrow> onBoard f' r' \<Longrightarrow> sq f r = sq f' r' \<longleftrightarrow> f = f' \<and> r = r'"
  by (metis fileOf_sq rankOf_sq)

lemma square_cases:
  assumes "square_index s"
  obtains f r where "onBoard f r" and "s = sq f r"
  by (metis assms onBoard_fileOf_rankOf sq_fileOf_rankOf square_index_nonneg)

section \<open>Reading and writing squares\<close>

lemma sqAt_setSq [board_simps]:
  "wf_board b \<Longrightarrow> sqAt (setSq s p b) t = (if s = t \<and> square_index s then p else sqAt b t)"
  by (auto simp: sqAt_def setSq_def wf_board_def square_index_def nth_list_update)

lemma setSq_fields [simp]:
  "Turn (setSq s p b) = Turn b" "Castling (setSq s p b) = Castling b"
  "EnPassant (setSq s p b) = EnPassant b" "HalfMove (setSq s p b) = HalfMove b"
  "FullMove (setSq s p b) = FullMove b"
  by (simp_all add: setSq_def)

lemma sqAt_fields [simp]:
  "sqAt (b\<lparr>Turn := x\<rparr>) s = sqAt b s" "sqAt (b\<lparr>Castling := y\<rparr>) s = sqAt b s"
  "sqAt (b\<lparr>EnPassant := z\<rparr>) s = sqAt b s" "sqAt (b\<lparr>HalfMove := u\<rparr>) s = sqAt b s"
  "sqAt (b\<lparr>FullMove := v\<rparr>) s = sqAt b s"
  by (simp_all add: sqAt_def)

lemma sqAt_outside [simp]: "\<not> square_index s \<Longrightarrow> sqAt b s = Empty"
  by (simp add: sqAt_def)

lemma wf_board_setSq [wf_intros]: "wf_board b \<Longrightarrow> valid_piece p \<Longrightarrow> wf_board (setSq s p b)"
  by (auto simp: wf_board_def setSq_def list_all_iff dest: set_update_subset_insert [THEN subsetD])

lemma wf_board_fields [simp]:
  "wf_board (b\<lparr>Turn := x\<rparr>) = wf_board b" "wf_board (b\<lparr>Castling := y\<rparr>) = wf_board b"
  "wf_board (b\<lparr>EnPassant := z\<rparr>) = wf_board b" "wf_board (b\<lparr>HalfMove := u\<rparr>) = wf_board b"
  "wf_board (b\<lparr>FullMove := v\<rparr>) = wf_board b"
  by (simp_all add: wf_board_def)

lemma valid_sqAt [simp, wf_intros]: "wf_board b \<Longrightarrow> valid_piece (sqAt b s)"
  by (auto simp: wf_board_def sqAt_def square_index_def list_all_length)

lemma kingSquare_Some: "kingSquare b c \<noteq> NoSquare \<Longrightarrow>
    square_index (kingSquare b c) \<and> sqAt b (kingSquare b c) = MakePiece c King"
  by (auto simp: kingSquare_def square_index_def split: option.splits dest!: find_upto_Some)

lemma kingSquare_None: "kingSquare b c = NoSquare \<longleftrightarrow> (\<forall>s. square_index s \<longrightarrow> sqAt b s \<noteq> MakePiece c King)"
  by (auto simp: kingSquare_def square_index_def NoSquare_def find_None_iff'
           split: option.splits dest!: find_upto_Some)

end
