(* ===== verification/Chess_Attack.thy ===== *)
theory Chess_Attack
  imports Chess_Board
begin

text \<open>
  What it means for a piece to attack a square, stated by geometry (\<open>piece_attacks\<close>), and
  the proof that the ray-casting test \<open>IsAttacked\<close> of \<open>pkg/chess/board.go\<close> decides it:
  a square is attacked by a colour exactly when some piece of that colour attacks it.
\<close>

section \<open>The specification\<close>

text \<open>The squares strictly between \<open>(f, r)\<close> and \<open>(f', r')\<close> on a line are empty.\<close>

definition clear_between :: "Board \<Rightarrow> int \<Rightarrow> int \<Rightarrow> int \<Rightarrow> int \<Rightarrow> bool" where
  "clear_between b f r f' r' \<longleftrightarrow>
     (\<forall>j \<in> {1..<max \<bar>f' - f\<bar> \<bar>r' - r\<bar>}. IsEmpty (sqAt b (sq (f + j * sgn (f' - f)) (r + j * sgn (r' - r)))))"

definition diagonal :: "int \<Rightarrow> int \<Rightarrow> bool" where
  "diagonal df dr \<longleftrightarrow> \<bar>df\<bar> = \<bar>dr\<bar> \<and> df \<noteq> 0"

definition straight :: "int \<Rightarrow> int \<Rightarrow> bool" where
  "straight df dr \<longleftrightarrow> (df = 0) \<noteq> (dr = 0)"

text \<open>How a piece of colour \<open>c\<close> and type \<open>t\<close> on \<open>(f, r)\<close> attacks the square \<open>(f', r')\<close>.\<close>

fun reaches :: "Board \<Rightarrow> Color \<Rightarrow> PieceType \<Rightarrow> int \<Rightarrow> int \<Rightarrow> int \<Rightarrow> int \<Rightarrow> bool" where
  "reaches b c Pawn f r f' r' = (\<bar>f' - f\<bar> = 1 \<and> r' = (if c = White then r + 1 else r - 1))"
| "reaches b c Knight f r f' r' = ({\<bar>f' - f\<bar>, \<bar>r' - r\<bar>} = {1, 2})"
| "reaches b c Bishop f r f' r' = (diagonal (f' - f) (r' - r) \<and> clear_between b f r f' r')"
| "reaches b c Rook f r f' r' = (straight (f' - f) (r' - r) \<and> clear_between b f r f' r')"
| "reaches b c Queen f r f' r' =
     ((diagonal (f' - f) (r' - r) \<or> straight (f' - f) (r' - r)) \<and> clear_between b f r f' r')"
| "reaches b c King f r f' r' = (max \<bar>f' - f\<bar> \<bar>r' - r\<bar> = 1)"
| "reaches b c NoPieceType f r f' r' = False"
| "reaches b c PieceType7 f r f' r' = False"

definition piece_attacks :: "Board \<Rightarrow> int \<Rightarrow> int \<Rightarrow> bool" where
  "piece_attacks b t s \<longleftrightarrow>
     square_index t \<and> \<not> IsEmpty (sqAt b t) \<and>
     reaches b (Piece_Color (sqAt b t)) (Piece_Type (sqAt b t)) (fileOf t) (rankOf t) (fileOf s) (rankOf s)"

definition attacked_by :: "Board \<Rightarrow> int \<Rightarrow> Color \<Rightarrow> bool" where
  "attacked_by b s c \<longleftrightarrow> (\<exists>t. piece_attacks b t s \<and> Piece_Color (sqAt b t) = c)"

section \<open>Rays\<close>

definition hits :: "Piece \<Rightarrow> Color \<Rightarrow> PieceType \<Rightarrow> bool" where
  "hits p c t \<longleftrightarrow> \<not> IsEmpty p \<and> Piece_Color p = c \<and> (Piece_Type p = t \<or> Piece_Type p = Queen)"

text \<open>The first \<open>k\<close> squares of a ray are on the board and empty.\<close>

definition open_ray :: "Board \<Rightarrow> int \<Rightarrow> int \<Rightarrow> int \<times> int \<Rightarrow> nat \<Rightarrow> bool" where
  "open_ray b nf nr d k \<longleftrightarrow>
     (\<forall>j < k. onBoard (nf + int j * fst d) (nr + int j * snd d) \<and>
        IsEmpty (sqAt b (sq (nf + int j * fst d) (nr + int j * snd d))))"

lemma open_ray_0 [simp]: "open_ray b nf nr d 0"
  by (simp add: open_ray_def)

lemma open_ray_Suc:
  "open_ray b nf nr d (Suc k) \<longleftrightarrow>
     onBoard nf nr \<and> IsEmpty (sqAt b (sq nf nr)) \<and> open_ray b (nf + fst d) (nr + snd d) d k"
  by (auto simp: open_ray_def All_less_Suc2 algebra_simps)

lemma rayAttack_iff:
  "rayAttack n b nf nr d c t \<longleftrightarrow>
     (\<exists>k < n. open_ray b nf nr d k \<and> onBoard (nf + int k * fst d) (nr + int k * snd d) \<and>
        hits (sqAt b (sq (nf + int k * fst d) (nr + int k * snd d))) c t)"
proof (induction n arbitrary: nf nr)
  case 0
  show ?case by simp
next
  case (Suc n)
  have "rayAttack (Suc n) b nf nr d c t \<longleftrightarrow>
      onBoard nf nr \<and> (hits (sqAt b (sq nf nr)) c t \<or>
        IsEmpty (sqAt b (sq nf nr)) \<and> rayAttack n b (nf + fst d) (nr + snd d) d c t)"
    by (auto simp: hits_def Let_def)
  then show ?case
    by (auto simp: Ex_less_Suc2 Suc.IH open_ray_Suc algebra_simps)
qed

text \<open>Along a direction of the tables at most eight squares are on the board.\<close>

definition unit_dir :: "int \<times> int \<Rightarrow> bool" where
  "unit_dir d \<longleftrightarrow> \<bar>fst d\<bar> \<le> 1 \<and> \<bar>snd d\<bar> \<le> 1 \<and> d \<noteq> (0, 0)"

lemma unit_dir_dirs: "d \<in> set bishopDirs \<union> set rookDirs \<Longrightarrow> unit_dir d"
  by (auto simp: unit_dir_def bishopDirs_def rookDirs_def)

lemma unit_dir_cases:
  assumes "unit_dir d"
  shows "fst d \<in> {-1, 0, 1} \<and> snd d \<in> {-1, 0, 1} \<and> (fst d \<noteq> 0 \<or> snd d \<noteq> 0)"
  using assms by (cases d) (auto simp: unit_dir_def)

lemma on_board_steps:
  assumes "unit_dir d" and "onBoard f r" and "onBoard (f + int k * fst d) (r + int k * snd d)"
  shows "k < 8"
  using unit_dir_cases [OF assms(1)] assms(2,3) by (auto simp: onBoard_def)

lemma ray_fuel_enough:
  assumes "unit_dir d" and "ray_fuel \<le> n"
  shows "rayAttack n b nf nr d c t = rayAttack ray_fuel b nf nr d c t"
proof -
  have "k < ray_fuel"
    if "open_ray b nf nr d k" and "onBoard (nf + int k * fst d) (nr + int k * snd d)" for k
  proof (cases k)
    case 0
    then show ?thesis by (simp add: ray_fuel_def)
  next
    case (Suc k')
    with that(1) have "onBoard nf nr" by (simp add: open_ray_Suc)
    then show ?thesis unfolding ray_fuel_def using assms(1) that(2) on_board_steps by blast
  qed
  then show ?thesis
    using assms(2) by (auto simp: rayAttack_iff dest: less_le_trans)
qed

section \<open>Ray casting is the geometric attack relation\<close>

lemma onBoard_convex:
  assumes "unit_dir d" and "onBoard f r" and "onBoard (f + int k * fst d) (r + int k * snd d)" and "j \<le> k"
  shows "onBoard (f + int j * fst d) (r + int j * snd d)"
  using unit_dir_cases [OF assms(1)] assms(2-4) by (auto simp: onBoard_def)

lemma sgn_steps: "(0 :: int) < k \<Longrightarrow> x \<in> {-1, 0, 1} \<Longrightarrow> sgn (k * x) = x"
  by auto

lemma max_steps:
  "unit_dir d \<Longrightarrow> 0 < k \<Longrightarrow> max \<bar>k * fst d\<bar> \<bar>k * snd d\<bar> = k"
  using unit_dir_cases [of d] by auto

lemma steps_sgn:
  assumes "unit_dir d" and "(0 :: int) < k"
  shows "sgn (k * fst d) = fst d" "sgn (k * snd d) = snd d"
  using assms unit_dir_cases [OF assms(1)] by (auto intro!: sgn_steps simp del: sgn_mult)

text \<open>
  Walking a ray from a square of the board: what the walk finds after \<open>n\<close> empty squares is
  what lies at distance \<open>n + 1\<close> behind a clear line.  Both ray walks of the program (the
  attack test and the generator) rest on this lemma.
\<close>

definition clear_steps :: "Board \<Rightarrow> int \<Rightarrow> int \<Rightarrow> int \<times> int \<Rightarrow> int \<Rightarrow> bool" where
  "clear_steps b f r d k \<longleftrightarrow> (\<forall>j \<in> {1..<k}. IsEmpty (sqAt b (sq (f + j * fst d) (r + j * snd d))))"

lemma clear_between_to:
  assumes "unit_dir d" and "(0 :: int) < k"
  shows "clear_between b f r (f + k * fst d) (r + k * snd d) \<longleftrightarrow> clear_steps b f r d k"
  using steps_sgn [OF assms] max_steps [OF assms] by (simp add: clear_between_def clear_steps_def)

lemma clear_between_from:
  assumes "unit_dir d" and "(0 :: int) < k"
  shows "clear_between b (f + k * fst d) (r + k * snd d) f r \<longleftrightarrow> clear_steps b f r d k" (is "?L \<longleftrightarrow> ?R")
proof -
  have "?L \<longleftrightarrow> (\<forall>j \<in> {1..<k}. IsEmpty (sqAt b (sq (f + (k - j) * fst d) (r + (k - j) * snd d))))"
    using steps_sgn [OF assms] max_steps [OF assms]
    by (simp add: clear_between_def sgn_minus algebra_simps)
  also have "\<dots> \<longleftrightarrow> (\<forall>j \<in> (\<lambda>j. k - j) ` {1..<k}. IsEmpty (sqAt b (sq (f + j * fst d) (r + j * snd d))))"
    by blast
  also have "(\<lambda>j. k - j) ` {1..<k} = {1..<k}"
  proof (intro equalityI subsetI)
    fix j assume "j \<in> {1..<k}"
    then have "j = k - (k - j)" "k - j \<in> {1..<k}" by auto
    then show "j \<in> (\<lambda>j. k - j) ` {1..<k}" by (rule image_eqI)
  qed auto
  finally show ?thesis by (simp add: clear_steps_def)
qed

lemma open_ray_clear:
  assumes "unit_dir d" and "onBoard f r"
    and "onBoard (f + (1 + int n) * fst d) (r + (1 + int n) * snd d)"
  shows "open_ray b (f + fst d) (r + snd d) d n \<longleftrightarrow> clear_steps b f r d (1 + int n)"
proof
  assume o: "open_ray b (f + fst d) (r + snd d) d n"
  show "clear_steps b f r d (1 + int n)"
    unfolding clear_steps_def
  proof
    fix j assume j: "j \<in> {1..<1 + int n}"
    then have "nat (j - 1) < n" by auto
    with o have "IsEmpty (sqAt b (sq (f + fst d + int (nat (j - 1)) * fst d) (r + snd d + int (nat (j - 1)) * snd d)))"
      unfolding open_ray_def by blast
    with j show "IsEmpty (sqAt b (sq (f + j * fst d) (r + j * snd d)))" by (simp add: algebra_simps)
  qed
next
  assume c: "clear_steps b f r d (1 + int n)"
  show "open_ray b (f + fst d) (r + snd d) d n"
    unfolding open_ray_def
  proof (intro allI impI conjI)
    fix j assume j: "j < n"
    show "onBoard (f + fst d + int j * fst d) (r + snd d + int j * snd d)"
      using onBoard_convex [OF assms(1,2), of "Suc n" "Suc j"] assms(3) j by (simp add: algebra_simps)
    show "IsEmpty (sqAt b (sq (f + fst d + int j * fst d) (r + snd d + int j * snd d)))"
      using c [unfolded clear_steps_def, rule_format, of "1 + int j"] j by (simp add: algebra_simps)
  qed
qed

lemma ray_walk_iff:
  assumes "unit_dir d" and "onBoard f r"
  shows "(\<exists>n < ray_fuel. open_ray b (f + fst d) (r + snd d) d n \<and>
            onBoard (f + fst d + int n * fst d) (r + snd d + int n * snd d) \<and>
            Q (f + fst d + int n * fst d) (r + snd d + int n * snd d)) \<longleftrightarrow>
     (\<exists>k > 0. onBoard (f + k * fst d) (r + k * snd d) \<and> clear_steps b f r d k \<and>
            Q (f + k * fst d) (r + k * snd d))" (is "?L \<longleftrightarrow> ?R")
proof
  assume ?L
  then obtain n where n: "open_ray b (f + fst d) (r + snd d) d n"
    "onBoard (f + (1 + int n) * fst d) (r + (1 + int n) * snd d)"
    "Q (f + (1 + int n) * fst d) (r + (1 + int n) * snd d)" by (auto simp: algebra_simps)
  then show ?R
    using open_ray_clear [OF assms n(2)] by (intro exI [of _ "1 + int n"]) auto
next
  assume ?R
  then obtain k where k: "k > 0" "onBoard (f + k * fst d) (r + k * snd d)" "clear_steps b f r d k"
    "Q (f + k * fst d) (r + k * snd d)" by blast
  define n where "n = nat (k - 1)"
  have n: "k = 1 + int n" using k(1) by (simp add: n_def)
  have "Suc n < 8" using on_board_steps [OF assms, of "Suc n"] k(2) n by simp
  moreover have "open_ray b (f + fst d) (r + snd d) d n"
    using open_ray_clear [OF assms, of n b] k(2,3) n by simp
  ultimately show ?L
    using k(2,4) n by (intro exI [of _ n]) (auto simp: ray_fuel_def algebra_simps)
qed

lemma ray_hit_iff:
  assumes "unit_dir d" and "onBoard f r"
  shows "rayAttack ray_fuel b (f + fst d) (r + snd d) d c t \<longleftrightarrow>
     (\<exists>k > 0. onBoard (f + k * fst d) (r + k * snd d) \<and> clear_steps b f r d k \<and>
        hits (sqAt b (sq (f + k * fst d) (r + k * snd d))) c t)"
  unfolding rayAttack_iff by (rule ray_walk_iff [OF assms])

lemma bishop_dir_iff:
  "diagonal x y \<longleftrightarrow> (\<exists>d \<in> set bishopDirs. \<exists>k > 0. x = k * fst d \<and> y = k * snd d)"
proof
  assume "diagonal x y"
  then have "(sgn x, sgn y) \<in> set bishopDirs" "\<bar>x\<bar> > 0" "x = \<bar>x\<bar> * sgn x" "y = \<bar>x\<bar> * sgn y"
    by (auto simp: diagonal_def bishopDirs_def sgn_if)
  then show "\<exists>d \<in> set bishopDirs. \<exists>k > 0. x = k * fst d \<and> y = k * snd d"
    by (metis fst_conv snd_conv)
qed (auto simp: diagonal_def bishopDirs_def)

lemma rook_dir_iff:
  "straight x y \<longleftrightarrow> (\<exists>d \<in> set rookDirs. \<exists>k > 0. x = k * fst d \<and> y = k * snd d)"
proof
  assume "straight x y"
  then have "(sgn x, sgn y) \<in> set rookDirs" "max \<bar>x\<bar> \<bar>y\<bar> > 0"
    "x = max \<bar>x\<bar> \<bar>y\<bar> * sgn x" "y = max \<bar>x\<bar> \<bar>y\<bar> * sgn y"
    by (auto simp: straight_def rookDirs_def sgn_if)
  then show "\<exists>d \<in> set rookDirs. \<exists>k > 0. x = k * fst d \<and> y = k * snd d"
    by (metis fst_conv snd_conv)
qed (auto simp: straight_def rookDirs_def)

section \<open>The attack test decides the specification\<close>

text \<open>
  A table of unit directions and the relation \<open>P\<close> between squares it spans: diagonals for
  bishops, files and ranks for rooks.  Instantiated below for both tables.
\<close>

locale slider_dirs =
  fixes dirs :: "(int \<times> int) list" and P :: "int \<Rightarrow> int \<Rightarrow> bool"
  assumes spans: "P x y \<longleftrightarrow> (\<exists>d \<in> set dirs. \<exists>k > 0. x = k * fst d \<and> y = k * snd d)"
    and unit: "d \<in> set dirs \<Longrightarrow> unit_dir d"
begin

text \<open>Something found along some direction is something on a line of sight.\<close>

lemma walk_all_iff:
  "(\<exists>d \<in> set dirs. \<exists>k > 0. onBoard (f + k * fst d) (r + k * snd d) \<and> R d k \<and>
        Q (f + k * fst d) (r + k * snd d)) \<longleftrightarrow>
     (\<exists>f' r'. onBoard f' r' \<and> S f' r' \<and> Q f' r' \<and> P (f' - f) (r' - r))" (is "?M \<longleftrightarrow> ?R")
  if RS: "\<And>d k. d \<in> set dirs \<Longrightarrow> 0 < k \<Longrightarrow> R d k \<longleftrightarrow> S (f + k * fst d) (r + k * snd d)"
proof
  assume ?M
  then obtain d k where "d \<in> set dirs" "k > 0" and h: "onBoard (f + k * fst d) (r + k * snd d)"
    "S (f + k * fst d) (r + k * snd d)" "Q (f + k * fst d) (r + k * snd d)" using RS by blast
  then have "P (f + k * fst d - f) (r + k * snd d - r)" unfolding spans by auto
  with h show ?R by blast
next
  assume ?R
  then obtain f' r' where h: "onBoard f' r'" "S f' r'" "Q f' r'" and "P (f' - f) (r' - r)" by blast
  then obtain d k where "d \<in> set dirs" "k > 0" "f' = f + k * fst d" "r' = r + k * snd d"
    unfolding spans by (metis diff_add_cancel add.commute)
  with h show ?M using RS by blast
qed

lemma slidingAttack_iff:
  assumes "onBoard f r"
  shows "slidingAttack b f r dirs c t \<longleftrightarrow>
     (\<exists>f' r'. onBoard f' r' \<and> clear_between b f' r' f r \<and> hits (sqAt b (sq f' r')) c t \<and> P (f' - f) (r' - r))"
proof -
  have "slidingAttack b f r dirs c t \<longleftrightarrow>
     (\<exists>d \<in> set dirs. \<exists>k > 0. onBoard (f + k * fst d) (r + k * snd d) \<and> clear_steps b f r d k \<and>
        hits (sqAt b (sq (f + k * fst d) (r + k * snd d))) c t)"
    using assms unit by (simp add: slidingAttack_def list_ex_iff ray_hit_iff)
  also have "\<dots> \<longleftrightarrow> (\<exists>f' r'. onBoard f' r' \<and> clear_between b f' r' f r \<and> hits (sqAt b (sq f' r')) c t \<and> P (f' - f) (r' - r))"
    by (rule walk_all_iff) (simp add: clear_between_from unit)
  finally show ?thesis .
qed

end

interpretation bishop: slider_dirs bishopDirs diagonal
  by unfold_locales (simp_all add: bishop_dir_iff unit_dir_dirs)

interpretation rook: slider_dirs rookDirs straight
  by unfold_locales (simp_all add: rook_dir_iff unit_dir_dirs)

lemma stepAttack_iff:
  "stepAttack b f r deltas p \<longleftrightarrow>
     (\<exists>f' r'. onBoard f' r' \<and> sqAt b (sq f' r') = p \<and> (f' - f, r' - r) \<in> set deltas)"
proof -
  have "stepAttack b f r deltas p \<longleftrightarrow>
      (\<exists>x y. (x, y) \<in> set deltas \<and> onBoard (f + x) (r + y) \<and> sqAt b (sq (f + x) (r + y)) = p)"
    by (simp add: stepAttack_def list_ex_iff Let_def Bex_def split_paired_Ex)
  also have "\<dots> \<longleftrightarrow> (\<exists>f' r'. onBoard f' r' \<and> sqAt b (sq f' r') = p \<and> (f' - f, r' - r) \<in> set deltas)"
    (is "?A \<longleftrightarrow> ?B")
  proof
    assume ?A
    then obtain x y where "(x, y) \<in> set deltas" "onBoard (f + x) (r + y)" "sqAt b (sq (f + x) (r + y)) = p"
      by blast
    then show ?B by (intro exI [of _ "f + x"] exI [of _ "r + y"]) simp
  next
    assume ?B
    then obtain f' r' where "onBoard f' r'" "sqAt b (sq f' r') = p" "(f' - f, r' - r) \<in> set deltas"
      by blast
    then show ?A by (intro exI [of _ "f' - f"] exI [of _ "r' - r"]) simp
  qed
  finally show ?thesis .
qed

lemma abs_eq_numeral: "\<bar>x\<bar> = (1 :: int) \<longleftrightarrow> x = 1 \<or> x = -1" "\<bar>x\<bar> = (2 :: int) \<longleftrightarrow> x = 2 \<or> x = -2"
  by linarith+

lemma max_abs_eq_1: "max \<bar>x\<bar> \<bar>y\<bar> = (1 :: int) \<longleftrightarrow>
    (x = 1 \<or> x = -1) \<and> (y = 1 \<or> y = 0 \<or> y = -1) \<or> x = 0 \<and> (y = 1 \<or> y = -1)"
  by linarith

lemma knight_delta_iff: "(x, y) \<in> set knightDeltas \<longleftrightarrow> {\<bar>x\<bar>, \<bar>y\<bar>} = {1, 2 :: int}"
  unfolding doubleton_eq_iff abs_eq_numeral knightDeltas_def by simp blast

lemma king_delta_iff: "(x, y) \<in> set kingDeltas \<longleftrightarrow> max \<bar>x\<bar> \<bar>y\<bar> = (1 :: int)"
  unfolding max_abs_eq_1 kingDeltas_def by simp blast

lemma pawnAttack_iff:
  assumes "onBoard f r"
  shows "pawnAttack b f r c \<longleftrightarrow>
     (\<exists>f' r'. onBoard f' r' \<and> sqAt b (sq f' r') = MakePiece c Pawn \<and>
        \<bar>f - f'\<bar> = 1 \<and> r = (if c = White then r' + 1 else r' - 1))"
proof -
  have "\<bar>f - f'\<bar> = 1 \<longleftrightarrow> f' = f - 1 \<or> f' = f + 1" for f' by auto
  moreover have "r = (if c = White then r' + 1 else r' - 1) \<longleftrightarrow> r' = (if c = White then r - 1 else r + 1)" for r'
    by auto
  ultimately show ?thesis
    using assms
    by (simp add: pawnAttack_def Let_def onBoard_def conj_disj_distribL ex_disj_distrib) auto
qed

lemma abs_minus_swap: "\<bar>(a :: int) - b\<bar> = \<bar>b - a\<bar>"
  by simp

text \<open>An attack by the piece on a square, one case per piece type.\<close>

lemma attacked_by_split:
  assumes "wf_board b" and "onBoard f r"
  shows "attacked_by b (sq f r) c \<longleftrightarrow>
     (\<exists>t. real_type t \<and> (\<exists>f' r'. onBoard f' r' \<and> sqAt b (sq f' r') = MakePiece c t \<and> reaches b c t f' r' f r))"
  (is "_ \<longleftrightarrow> ?R")
proof
  assume "attacked_by b (sq f r) c"
  then obtain s where s: "square_index s" "\<not> IsEmpty (sqAt b s)" "Piece_Color (sqAt b s) = c"
      "reaches b c (Piece_Type (sqAt b s)) (fileOf s) (rankOf s) f r"
    using assms by (auto simp: attacked_by_def piece_attacks_def)
  moreover have v: "valid_piece (sqAt b s)" using assms(1) by simp
  ultimately have "sqAt b s = MakePiece c (Piece_Type (sqAt b s))" "real_type (Piece_Type (sqAt b s))"
    using valid_piece_eq_iff valid_piece_real by blast+
  with s show ?R by (metis onBoard_fileOf_rankOf sq_fileOf_rankOf square_index_nonneg)
next
  assume ?R
  then obtain t f' r' where h: "real_type t" "onBoard f' r'" "sqAt b (sq f' r') = MakePiece c t"
      "reaches b c t f' r' f r" by blast
  then show "attacked_by b (sq f r) c"
    using assms(2) unfolding attacked_by_def piece_attacks_def by (intro exI [of _ "sq f' r'"]) simp
qed

lemma real_type_ex:
  "(\<exists>t. real_type t \<and> Q t) \<longleftrightarrow> Q Pawn \<or> Q Knight \<or> Q King \<or> Q Bishop \<or> Q Rook \<or> Q Queen"
  by (metis PieceType.exhaust real_type_simps)

lemma hits_iff:
  "wf_board b \<Longrightarrow> real_type t \<Longrightarrow>
     hits (sqAt b s) c t \<longleftrightarrow> sqAt b s = MakePiece c t \<or> sqAt b s = MakePiece c Queen"
  using valid_piece_eq_iff [of "sqAt b s"] by (auto simp: hits_def)

lemma diagonal_swap: "diagonal (a - b) (c - d) = diagonal (b - a) (d - c)"
  by (auto simp: diagonal_def)

lemma straight_swap: "straight (a - b) (c - d) = straight (b - a) (d - c)"
  by (auto simp: straight_def)

lemma IsAttacked_spec:
  assumes "wf_board b" and "square_index s"
  shows "IsAttacked b s c \<longleftrightarrow> attacked_by b s c"
proof -
  obtain f r where fr: "onBoard f r" "s = sq f r" using assms(2) by (rule square_cases)
  let ?at = "\<lambda>t f' r'. onBoard f' r' \<and> sqAt b (sq f' r') = MakePiece c t \<and> reaches b c t f' r' f r"
  have p: "pawnAttack b f r c \<longleftrightarrow> (\<exists>f' r'. ?at Pawn f' r')"
    using fr(1) by (simp add: pawnAttack_iff)
  have n: "stepAttack b f r knightDeltas (MakePiece c Knight) \<longleftrightarrow> (\<exists>f' r'. ?at Knight f' r')"
    by (simp add: stepAttack_iff knight_delta_iff abs_minus_swap [of f] abs_minus_swap [of r])
  have k: "stepAttack b f r kingDeltas (MakePiece c King) \<longleftrightarrow> (\<exists>f' r'. ?at King f' r')"
    by (simp add: stepAttack_iff king_delta_iff abs_minus_swap [of f] abs_minus_swap [of r])
  have bi: "slidingAttack b f r bishopDirs c Bishop \<longleftrightarrow>
      (\<exists>f' r'. ?at Bishop f' r' \<or> ?at Queen f' r' \<and> diagonal (f - f') (r - r'))"
    using bishop.slidingAttack_iff [OF fr(1), of b c Bishop] assms(1)
    by (auto simp: hits_iff diagonal_swap [of _ f _ r])
  have ro: "slidingAttack b f r rookDirs c Rook \<longleftrightarrow>
      (\<exists>f' r'. ?at Rook f' r' \<or> ?at Queen f' r' \<and> straight (f - f') (r - r'))"
    using rook.slidingAttack_iff [OF fr(1), of b c Rook] assms(1)
    by (auto simp: hits_iff straight_swap [of _ f _ r])
  have q: "(\<exists>f' r'. ?at Queen f' r') \<longleftrightarrow>
      (\<exists>f' r'. ?at Queen f' r' \<and> diagonal (f - f') (r - r')) \<or> (\<exists>f' r'. ?at Queen f' r' \<and> straight (f - f') (r - r'))"
    by auto
  have "IsAttacked b s c \<longleftrightarrow>
      pawnAttack b f r c \<or> stepAttack b f r knightDeltas (MakePiece c Knight) \<or>
      stepAttack b f r kingDeltas (MakePiece c King) \<or>
      slidingAttack b f r bishopDirs c Bishop \<or> slidingAttack b f r rookDirs c Rook"
    using fr by (simp add: IsAttacked_def Let_def)
  also have "\<dots> \<longleftrightarrow> (\<exists>t. real_type t \<and> (\<exists>f' r'. ?at t f' r'))"
    unfolding p n k bi ro real_type_ex q by blast
  also have "\<dots> \<longleftrightarrow> attacked_by b s c"
    using attacked_by_split [OF assms(1) fr(1)] fr(2) by simp
  finally show ?thesis .
qed

end
