(* ===== verification/Chess_Move.thy ===== *)
theory Chess_Move
  imports Chess_Board
begin

text \<open>
  Moves and their UCI notation (\<open>pkg/chess/move.go\<close>).  The wrapped errors of the source
  become constructors of \<open>ChessError\<close>: the first four wrap \<open>ErrInvalidMove\<close>, the last one
  \<open>ErrIllegalMove\<close> (raised by \<open>ApplyMove\<close> in \<open>Chess_Movegen\<close>).

  The lemmas give the round trip in both directions: every well-formed move parses back from
  its rendering, and a string that parses is the rendering of the move it parses to.
\<close>

record Move =
  From :: int
  To :: int
  Promotion :: PieceType

datatype ChessError =
    InvalidMove string
  | BadFromSquare string
  | BadToSquare string
  | BadPromotion string
  | IllegalMove Move

fun promoToLetter :: "PieceType \<Rightarrow> char option" where
  "promoToLetter Knight = Some (CHR ''n'')"
| "promoToLetter Bishop = Some (CHR ''b'')"
| "promoToLetter Rook = Some (CHR ''r'')"
| "promoToLetter Queen = Some (CHR ''q'')"
| "promoToLetter _ = None"

definition letterToPromo :: "char \<Rightarrow> PieceType option" where
  "letterToPromo c =
     (if c = CHR ''n'' then Some Knight else if c = CHR ''b'' then Some Bishop
      else if c = CHR ''r'' then Some Rook else if c = CHR ''q'' then Some Queen else None)"

text \<open>Comparisons of bytes are comparisons of their codes.\<close>

definition code :: "char \<Rightarrow> int" where
  "code c = of_char c"

definition parseSquare :: "char \<Rightarrow> char \<Rightarrow> int option" where
  "parseSquare fileByte rankByte =
     (if code fileByte < code (CHR ''a'') \<or> code fileByte > code (CHR ''h'') \<or>
         code rankByte < code (CHR ''1'') \<or> code rankByte > code (CHR ''8'') then None
      else Some (sq (code fileByte - code (CHR ''a'')) (code rankByte - code (CHR ''1''))))"

text \<open>For a square index both runes are ASCII, so each is one byte.\<close>

definition squareName :: "int \<Rightarrow> string" where
  "squareName s = [char_of (nat (code (CHR ''a'') + fileOf s)), char_of (nat (code (CHR ''1'') + rankOf s))]"

definition ParseUCIMove :: "string \<Rightarrow> ChessError + Move" where
  "ParseUCIMove s =
     (if length s \<noteq> 4 \<and> length s \<noteq> 5 then Inl (InvalidMove s)
      else case parseSquare (s ! 0) (s ! 1) of
        None \<Rightarrow> Inl (BadFromSquare s)
      | Some from \<Rightarrow>
          (case parseSquare (s ! 2) (s ! 3) of
             None \<Rightarrow> Inl (BadToSquare s)
           | Some to \<Rightarrow>
               (if length s = 5 then
                  (case letterToPromo (s ! 4) of
                     None \<Rightarrow> Inl (BadPromotion s)
                   | Some pt \<Rightarrow> Inr \<lparr>From = from, To = to, Promotion = pt\<rparr>)
                else Inr \<lparr>From = from, To = to, Promotion = NoPieceType\<rparr>)))"

text \<open>A promotion type without a letter indexes the map at a missing key: the zero byte.\<close>

definition Move_String :: "Move \<Rightarrow> string" where
  "Move_String m =
     squareName (From m) @ squareName (To m) @
     (if Promotion m \<noteq> NoPieceType
      then [case promoToLetter (Promotion m) of Some c \<Rightarrow> c | None \<Rightarrow> CHR 0x00] else [])"

definition wf_move :: "Move \<Rightarrow> bool" where
  "wf_move m \<longleftrightarrow> square_index (From m) \<and> square_index (To m) \<and>
     Promotion m \<in> {NoPieceType, Knight, Bishop, Rook, Queen}"

section \<open>Round trips\<close>

lemma code_char_of: "0 \<le> n \<Longrightarrow> n < 256 \<Longrightarrow> code (char_of (nat n)) = n"
proof -
  assume "0 \<le> n" and "n < 256"
  then have "code (char_of (nat n)) = int (nat n mod 256)"
    by (metis code_def of_char_of of_nat_of_char)
  with \<open>0 \<le> n\<close> \<open>n < 256\<close> show ?thesis by simp
qed

lemma nat_code: "nat (code c) = of_char c"
  unfolding code_def by (metis nat_int of_nat_of_char)

lemma char_of_code: "char_of (nat (code c)) = c"
  unfolding nat_code by simp

lemma code_letters [simp]:
  "code (CHR ''a'') = 97" "code (CHR ''h'') = 104" "code (CHR ''1'') = 49" "code (CHR ''8'') = 56"
  by (simp_all add: code_def)

lemma parseSquare_squareName:
  assumes "square_index s"
  shows "parseSquare (squareName s ! 0) (squareName s ! 1) = Some s"
proof -
  have "onBoard (fileOf s) (rankOf s)" using assms by simp
  then have c: "code (squareName s ! 0) = 97 + fileOf s" "code (squareName s ! 1) = 49 + rankOf s"
    and b: "0 \<le> fileOf s" "fileOf s < 8" "0 \<le> rankOf s" "rankOf s < 8"
    by (auto simp: squareName_def code_char_of onBoard_def)
  show ?thesis
    unfolding parseSquare_def c using b assms by (simp add: square_index_nonneg)
qed

lemma parseSquare_Some:
  assumes "parseSquare c d = Some s"
  shows "square_index s \<and> squareName s = [c, d]"
proof -
  have s: "s = sq (code c - 97) (code d - 49)" and b: "onBoard (code c - 97) (code d - 49)"
    using assms by (auto simp: parseSquare_def onBoard_def split: if_splits)
  then show ?thesis by (simp add: squareName_def char_of_code)
qed

lemma length_squareName [simp]: "length (squareName s) = 2"
  by (simp add: squareName_def)

lemma promo_letter_roundtrip:
  "promoToLetter t = Some c \<longleftrightarrow> letterToPromo c = Some t"
  by (cases t) (auto simp: letterToPromo_def split: if_splits)

lemma Move_String_nth:
  "Move_String m ! 0 = squareName (From m) ! 0" "Move_String m ! 1 = squareName (From m) ! 1"
  "Move_String m ! 2 = squareName (To m) ! 0" "Move_String m ! 3 = squareName (To m) ! 1"
  by (simp_all add: Move_String_def squareName_def)

lemma ParseUCIMove_String: "wf_move m \<Longrightarrow> ParseUCIMove (Move_String m) = Inr m"
proof -
  assume wf: "wf_move m"
  have p: "parseSquare (Move_String m ! 0) (Move_String m ! 1) = Some (From m)"
    "parseSquare (Move_String m ! 2) (Move_String m ! 3) = Some (To m)"
    unfolding Move_String_nth using wf unfolding wf_move_def by (blast intro: parseSquare_squareName)+
  show ?thesis
  proof (cases "Promotion m = NoPieceType")
    case True
    then have "length (Move_String m) = 4" by (simp add: Move_String_def)
    with p True show ?thesis by (simp add: ParseUCIMove_def)
  next
    case False
    with wf obtain c where c: "promoToLetter (Promotion m) = Some c" by (auto simp: wf_move_def)
    with False have "length (Move_String m) = 5" "Move_String m ! 4 = c"
      by (simp_all add: Move_String_def squareName_def)
    with p c show ?thesis by (simp add: ParseUCIMove_def promo_letter_roundtrip)
  qed
qed

lemma length_4_5: "length s = 4 \<Longrightarrow> s = [s ! 0, s ! 1, s ! 2, s ! 3]"
  "length s = 5 \<Longrightarrow> s = [s ! 0, s ! 1, s ! 2, s ! 3, s ! 4]"
  by (auto simp: eval_nat_numeral length_Suc_conv)

lemma letterToPromo_Some: "letterToPromo c = Some t \<Longrightarrow> t \<in> {Knight, Bishop, Rook, Queen}"
  by (auto simp: letterToPromo_def split: if_splits)

lemma ParseUCIMove_Inr:
  assumes "ParseUCIMove s = Inr m"
  shows "wf_move m \<and> Move_String m = s"
proof (cases "length s = 5")
  case True
  with assms have p: "parseSquare (s ! 0) (s ! 1) = Some (From m)" "parseSquare (s ! 2) (s ! 3) = Some (To m)"
    "letterToPromo (s ! 4) = Some (Promotion m)"
    by (auto simp: ParseUCIMove_def split: option.splits)
  moreover have "promoToLetter (Promotion m) = Some (s ! 4)" using p(3) by (simp add: promo_letter_roundtrip)
  ultimately show ?thesis
    using letterToPromo_Some [OF p(3)] length_4_5(2) [OF True]
    by (auto simp: wf_move_def Move_String_def dest!: parseSquare_Some)
next
  case False
  with assms have p: "parseSquare (s ! 0) (s ! 1) = Some (From m)" "parseSquare (s ! 2) (s ! 3) = Some (To m)"
    "Promotion m = NoPieceType" "length s = 4"
    by (auto simp: ParseUCIMove_def split: option.splits if_splits)
  then show ?thesis
    using length_4_5(1) [OF p(4)] by (auto simp: wf_move_def Move_String_def dest!: parseSquare_Some)
qed

end
