(* ===== verification/Chess_Movegen.thy ===== *)
theory Chess_Movegen
  imports Chess_Attack Chess_Move
begin

text \<open>
  Move generation and application (\<open>pkg/chess/movegen.go\<close>).  The generators append to the
  list they are given, as the source does; a loop over a table is a \<open>fold\<close> over it, and the
  ray walk of \<open>genSliding\<close> has the fuel of \<open>Chess_Board\<close>.

  \<open>applyMoveUnchecked\<close> assumes a pseudo-legal move.  For another move it can index outside
  the board; \<open>applyPanics\<close> says when.  \<open>Chess_Rules\<close> shows that no generated move panics.
\<close>

section \<open>Applying a move\<close>

definition clearForSquare :: "int \<Rightarrow> Board \<Rightarrow> Board" where
  "clearForSquare s b =
     (if s = sq 0 0 then b\<lparr>Castling := Castling b AND NOT CastleWhiteQueen\<rparr>
      else if s = sq 7 0 then b\<lparr>Castling := Castling b AND NOT CastleWhiteKing\<rparr>
      else if s = sq 0 7 then b\<lparr>Castling := Castling b AND NOT CastleBlackQueen\<rparr>
      else if s = sq 7 7 then b\<lparr>Castling := Castling b AND NOT CastleBlackKing\<rparr>
      else b)"

definition updateCastlingRights :: "Board \<Rightarrow> Move \<Rightarrow> Piece \<Rightarrow> Piece \<Rightarrow> Board" where
  "updateCastlingRights b m moving captured =
     (let b1 = (if Piece_Type moving = King \<and> Piece_Color moving = White
                then b\<lparr>Castling := Castling b AND NOT (CastleWhiteKing OR CastleWhiteQueen)\<rparr>
                else if Piece_Type moving = King \<and> Piece_Color moving = Black
                then b\<lparr>Castling := Castling b AND NOT (CastleBlackKing OR CastleBlackQueen)\<rparr>
                else b)
      in clearForSquare (To m) (clearForSquare (From m) b1))"

definition movePiece :: "Board \<Rightarrow> Move \<Rightarrow> Board" where
  "movePiece b m = setSq (From m) Empty (setSq (To m) (sqAt b (From m)) b)"

definition isEnPassantCapture :: "Board \<Rightarrow> Move \<Rightarrow> bool" where
  "isEnPassantCapture b m \<longleftrightarrow>
     Piece_Type (sqAt b (From m)) = Pawn \<and> To m = EnPassant b \<and> IsEmpty (sqAt b (To m))"

definition enPassantVictim :: "Board \<Rightarrow> Move \<Rightarrow> int" where
  "enPassantVictim b m = (if Turn b = White then To m - 8 else To m + 8)"

definition isCastle :: "Board \<Rightarrow> Move \<Rightarrow> bool" where
  "isCastle b m \<longleftrightarrow>
     Piece_Type (sqAt b (From m)) = King \<and> \<bar>fileOf (To m) - fileOf (From m)\<bar> = 2"

definition castleRook :: "Move \<Rightarrow> Board \<Rightarrow> Board" where
  "castleRook m nb =
     (let rank = rankOf (From m) in
      if fileOf (To m) = 6
      then setSq (sq 7 rank) Empty (setSq (sq 5 rank) (sqAt nb (sq 7 rank)) nb)
      else setSq (sq 0 rank) Empty (setSq (sq 3 rank) (sqAt nb (sq 0 rank)) nb))"

definition applyMoveUnchecked :: "Board \<Rightarrow> Move \<Rightarrow> Board" where
  "applyMoveUnchecked b m =
     (let us = Turn b;
          moving = sqAt b (From m);
          captured = sqAt b (To m);
          isPawn = (Piece_Type moving = Pawn);
          nb = movePiece b m;
          nb = (if isEnPassantCapture b m then setSq (enPassantVictim b m) Empty nb else nb);
          nb = (if Promotion m \<noteq> NoPieceType then setSq (To m) (MakePiece us (Promotion m)) nb else nb);
          nb = (if isCastle b m then castleRook m nb else nb);
          nb = updateCastlingRights nb m moving captured;
          nb = nb\<lparr>EnPassant := (if isPawn \<and> \<bar>rankOf (To m) - rankOf (From m)\<bar> = 2
                               then (From m + To m) sdiv 2 else NoSquare)\<rparr>;
          nb = nb\<lparr>HalfMove := (if isPawn \<or> \<not> IsEmpty captured then 0 else wrap64 (HalfMove b + 1))\<rparr>;
          nb = (if us = Black then nb\<lparr>FullMove := wrap64 (FullMove b + 1)\<rparr> else nb)
      in nb\<lparr>Turn := Opposite us\<rparr>)"

text \<open>When one of the index expressions of \<open>applyMoveUnchecked\<close> is out of range.\<close>

definition applyPanics :: "Board \<Rightarrow> Move \<Rightarrow> bool" where
  "applyPanics b m \<longleftrightarrow>
     \<not> square_index (From m) \<or> \<not> square_index (To m) \<or>
     isEnPassantCapture b m \<and> \<not> square_index (enPassantVictim b m)"

section \<open>Generating moves\<close>

abbreviation quiet :: "int \<Rightarrow> int \<Rightarrow> Move" where
  "quiet s t \<equiv> \<lparr>From = s, To = t, Promotion = NoPieceType\<rparr>"

definition genStep :: "Board \<Rightarrow> Move list \<Rightarrow> int \<Rightarrow> Color \<Rightarrow> (int \<times> int) list \<Rightarrow> Move list" where
  "genStep b moves s us deltas =
     (let f = fileOf s; r = rankOf s in
      fold (\<lambda>d moves.
        let nf = f + fst d; nr = r + snd d in
        if \<not> onBoard nf nr then moves
        else let t = sq nf nr; dst = sqAt b t in
             if IsEmpty dst \<or> Piece_Color dst \<noteq> us then moves @ [quiet s t] else moves)
        deltas moves)"

fun rayMoves :: "nat \<Rightarrow> Board \<Rightarrow> Move list \<Rightarrow> int \<Rightarrow> Color \<Rightarrow> int \<Rightarrow> int \<Rightarrow> int \<times> int \<Rightarrow> Move list" where
  "rayMoves 0 b moves s us nf nr d = moves"
| "rayMoves (Suc n) b moves s us nf nr d =
     (if onBoard nf nr then
        (let t = sq nf nr; dst = sqAt b t in
         if IsEmpty dst then rayMoves n b (moves @ [quiet s t]) s us (nf + fst d) (nr + snd d) d
         else if Piece_Color dst \<noteq> us then moves @ [quiet s t] else moves)
      else moves)"

definition genSliding :: "Board \<Rightarrow> Move list \<Rightarrow> int \<Rightarrow> Color \<Rightarrow> (int \<times> int) list \<Rightarrow> Move list" where
  "genSliding b moves s us dirs =
     (let f = fileOf s; r = rankOf s in
      fold (\<lambda>d moves. rayMoves ray_fuel b moves s us (f + fst d) (r + snd d) d) dirs moves)"

definition addPawnMove :: "Move list \<Rightarrow> int \<Rightarrow> int \<Rightarrow> bool \<Rightarrow> Move list" where
  "addPawnMove moves from to promo =
     (if \<not> promo then moves @ [quiet from to]
      else fold (\<lambda>pt moves. moves @ [\<lparr>From = from, To = to, Promotion = pt\<rparr>])
             [Queen, Rook, Bishop, Knight] moves)"

definition pawnDir :: "Color \<Rightarrow> int" where "pawnDir us = (if us = White then 1 else -1)"
definition startRank :: "Color \<Rightarrow> int" where "startRank us = (if us = White then 1 else 6)"
definition promoRank :: "Color \<Rightarrow> int" where "promoRank us = (if us = White then 7 else 0)"

definition genPawnPush :: "Board \<Rightarrow> Move list \<Rightarrow> int \<Rightarrow> Color \<Rightarrow> Move list" where
  "genPawnPush b moves s us =
     (let f = fileOf s; r = rankOf s; oneRank = r + pawnDir us in
      if 0 \<le> oneRank \<and> oneRank < 8 then
        (let one = sq f oneRank in
         if IsEmpty (sqAt b one) then
           (let moves = addPawnMove moves s one (oneRank = promoRank us) in
            if r = startRank us then
              (let two = sq f (r + 2 * pawnDir us) in
               if IsEmpty (sqAt b two) then moves @ [quiet s two] else moves)
            else moves)
         else moves)
      else moves)"

definition genPawnCapture :: "Board \<Rightarrow> Move list \<Rightarrow> int \<Rightarrow> Color \<Rightarrow> int \<Rightarrow> Move list" where
  "genPawnCapture b moves s us df =
     (let nf = fileOf s + df; nr = rankOf s + pawnDir us in
      if \<not> onBoard nf nr then moves
      else let t = sq nf nr; dst = sqAt b t in
           if \<not> IsEmpty dst \<and> Piece_Color dst \<noteq> us then addPawnMove moves s t (nr = promoRank us)
           else if t = EnPassant b \<and> IsEmpty dst then moves @ [quiet s t]
           else moves)"

definition genPawn :: "Board \<Rightarrow> Move list \<Rightarrow> int \<Rightarrow> Color \<Rightarrow> Move list" where
  "genPawn b moves s us =
     fold (\<lambda>df moves. genPawnCapture b moves s us df) [-1, 1] (genPawnPush b moves s us)"

text \<open>
  The source writes the two colours of \<open>genCastling\<close> out; they differ in the rank and the
  castling bits.
\<close>

definition genCastlingOn :: "Board \<Rightarrow> Move list \<Rightarrow> Color \<Rightarrow> int \<Rightarrow> byte \<Rightarrow> byte \<Rightarrow> Move list" where
  "genCastlingOn b moves us rank kingBit queenBit =
     (let enemy = Opposite us in
      if sqAt b (sq 4 rank) \<noteq> MakePiece us King \<or> IsAttacked b (sq 4 rank) enemy then moves
      else
        let moves =
          (if Castling b AND kingBit \<noteq> 0 \<and>
              IsEmpty (sqAt b (sq 5 rank)) \<and> IsEmpty (sqAt b (sq 6 rank)) \<and>
              \<not> IsAttacked b (sq 5 rank) enemy \<and> \<not> IsAttacked b (sq 6 rank) enemy \<and>
              sqAt b (sq 7 rank) = MakePiece us Rook
           then moves @ [quiet (sq 4 rank) (sq 6 rank)] else moves)
        in
          (if Castling b AND queenBit \<noteq> 0 \<and>
              IsEmpty (sqAt b (sq 1 rank)) \<and> IsEmpty (sqAt b (sq 2 rank)) \<and> IsEmpty (sqAt b (sq 3 rank)) \<and>
              \<not> IsAttacked b (sq 2 rank) enemy \<and> \<not> IsAttacked b (sq 3 rank) enemy \<and>
              sqAt b (sq 0 rank) = MakePiece us Rook
           then moves @ [quiet (sq 4 rank) (sq 2 rank)] else moves))"

definition genCastling :: "Board \<Rightarrow> Move list \<Rightarrow> Color \<Rightarrow> Move list" where
  "genCastling b moves us =
     (if us = White then genCastlingOn b moves White 0 CastleWhiteKing CastleWhiteQueen
      else genCastlingOn b moves Black 7 CastleBlackKing CastleBlackQueen)"

definition genPiece :: "Board \<Rightarrow> Move list \<Rightarrow> int \<Rightarrow> Move list" where
  "genPiece b moves s =
     (let us = Turn b; p = sqAt b s in
      if IsEmpty p \<or> Piece_Color p \<noteq> us then moves
      else case Piece_Type p of
          Pawn \<Rightarrow> genPawn b moves s us
        | Knight \<Rightarrow> genStep b moves s us knightDeltas
        | King \<Rightarrow> genCastling b (genStep b moves s us kingDeltas) us
        | Bishop \<Rightarrow> genSliding b moves s us bishopDirs
        | Rook \<Rightarrow> genSliding b moves s us rookDirs
        | Queen \<Rightarrow> genSliding b (genSliding b moves s us bishopDirs) s us rookDirs
        | _ \<Rightarrow> moves)"

definition pseudoLegalMoves :: "Board \<Rightarrow> Move list" where
  "pseudoLegalMoves b = fold (\<lambda>s moves. genPiece b moves s) [0..63] []"

section \<open>Legal moves\<close>

definition kingSafeAfter :: "Board \<Rightarrow> Move \<Rightarrow> bool" where
  "kingSafeAfter b m =
     (let nb = applyMoveUnchecked b m in
      \<not> IsAttacked nb (kingSquare nb (Turn b)) (Opposite (Turn b)))"

definition LegalMoves :: "Board \<Rightarrow> Move list" where
  "LegalMoves b = filter (kingSafeAfter b) (pseudoLegalMoves b)"

definition IsLegal :: "Board \<Rightarrow> Move \<Rightarrow> bool" where
  "IsLegal b m = list_ex (\<lambda>lm. lm = m) (LegalMoves b)"

definition ApplyMove :: "Board \<Rightarrow> Move \<Rightarrow> ChessError + Board" where
  "ApplyMove b m = (if \<not> IsLegal b m then Inl (IllegalMove m) else Inr (applyMoveUnchecked b m))"

definition ApplyUCI :: "Board \<Rightarrow> string \<Rightarrow> ChessError + Board" where
  "ApplyUCI b uci = (case ParseUCIMove uci of Inl e \<Rightarrow> Inl e | Inr m \<Rightarrow> ApplyMove b m)"

end
