(* ===== verification/Chess_Rules.thy ===== *)
theory Chess_Rules
  imports Chess_Movegen
begin

text \<open>
  The rules of chess as a specification of the move generator: \<open>pseudo_legal\<close> says which
  moves follow the movement rules of the pieces, with no reference to the loops of
  \<open>pkg/chess/movegen.go\<close>.  \<open>pseudoLegalMoves_spec\<close> shows that the generator lists exactly
  those moves, and \<open>pseudo_legal_no_panic\<close> that applying one never indexes outside the board.
\<close>

section \<open>The rules\<close>

definition can_land :: "Board \<Rightarrow> Color \<Rightarrow> int \<Rightarrow> bool" where
  "can_land b us t \<longleftrightarrow> IsEmpty (sqAt b t) \<or> Piece_Color (sqAt b t) \<noteq> us"

definition promotes_ok :: "Color \<Rightarrow> Move \<Rightarrow> bool" where
  "promotes_ok us m \<longleftrightarrow>
     (if rankOf (To m) = promoRank us then Promotion m \<in> {Queen, Rook, Bishop, Knight}
      else Promotion m = NoPieceType)"

abbreviation move_reaches :: "Board \<Rightarrow> Color \<Rightarrow> PieceType \<Rightarrow> Move \<Rightarrow> bool" where
  "move_reaches b us t m \<equiv>
     reaches b us t (fileOf (From m)) (rankOf (From m)) (fileOf (To m)) (rankOf (To m))"

definition pawn_push :: "Board \<Rightarrow> Color \<Rightarrow> Move \<Rightarrow> bool" where
  "pawn_push b us m \<longleftrightarrow>
     fileOf (To m) = fileOf (From m) \<and> rankOf (To m) = rankOf (From m) + pawnDir us \<and>
     IsEmpty (sqAt b (To m)) \<and> promotes_ok us m"

definition pawn_double :: "Board \<Rightarrow> Color \<Rightarrow> Move \<Rightarrow> bool" where
  "pawn_double b us m \<longleftrightarrow>
     rankOf (From m) = startRank us \<and>
     fileOf (To m) = fileOf (From m) \<and> rankOf (To m) = rankOf (From m) + 2 * pawnDir us \<and>
     IsEmpty (sqAt b (sq (fileOf (From m)) (rankOf (From m) + pawnDir us))) \<and>
     IsEmpty (sqAt b (To m)) \<and> Promotion m = NoPieceType"

definition pawn_capture :: "Board \<Rightarrow> Color \<Rightarrow> Move \<Rightarrow> bool" where
  "pawn_capture b us m \<longleftrightarrow>
     move_reaches b us Pawn m \<and> \<not> IsEmpty (sqAt b (To m)) \<and> Piece_Color (sqAt b (To m)) \<noteq> us \<and>
     promotes_ok us m"

definition en_passant :: "Board \<Rightarrow> Color \<Rightarrow> Move \<Rightarrow> bool" where
  "en_passant b us m \<longleftrightarrow>
     move_reaches b us Pawn m \<and> To m = EnPassant b \<and> IsEmpty (sqAt b (To m)) \<and> Promotion m = NoPieceType"

definition piece_move :: "Board \<Rightarrow> Color \<Rightarrow> PieceType \<Rightarrow> Move \<Rightarrow> bool" where
  "piece_move b us t m \<longleftrightarrow>
     move_reaches b us t m \<and> can_land b us (To m) \<and> Promotion m = NoPieceType"

definition homeRank :: "Color \<Rightarrow> int" where
  "homeRank us = (if us = White then 0 else 7)"

definition kingRight :: "Color \<Rightarrow> byte" where
  "kingRight us = (if us = White then CastleWhiteKing else CastleBlackKing)"

definition queenRight :: "Color \<Rightarrow> byte" where
  "queenRight us = (if us = White then CastleWhiteQueen else CastleBlackQueen)"

definition castle_kingside :: "Board \<Rightarrow> Color \<Rightarrow> Move \<Rightarrow> bool" where
  "castle_kingside b us m \<longleftrightarrow>
     (let h = homeRank us in
      m = quiet (sq 4 h) (sq 6 h) \<and> Castling b AND kingRight us \<noteq> 0 \<and>
      sqAt b (sq 4 h) = MakePiece us King \<and> sqAt b (sq 7 h) = MakePiece us Rook \<and>
      (\<forall>f \<in> {5, 6}. IsEmpty (sqAt b (sq f h))) \<and>
      (\<forall>f \<in> {4, 5, 6}. \<not> attacked_by b (sq f h) (Opposite us)))"

definition castle_queenside :: "Board \<Rightarrow> Color \<Rightarrow> Move \<Rightarrow> bool" where
  "castle_queenside b us m \<longleftrightarrow>
     (let h = homeRank us in
      m = quiet (sq 4 h) (sq 2 h) \<and> Castling b AND queenRight us \<noteq> 0 \<and>
      sqAt b (sq 4 h) = MakePiece us King \<and> sqAt b (sq 0 h) = MakePiece us Rook \<and>
      (\<forall>f \<in> {1, 2, 3}. IsEmpty (sqAt b (sq f h))) \<and>
      (\<forall>f \<in> {2, 3, 4}. \<not> attacked_by b (sq f h) (Opposite us)))"

fun moves_as :: "Board \<Rightarrow> Color \<Rightarrow> PieceType \<Rightarrow> Move \<Rightarrow> bool" where
  "moves_as b us Pawn m =
     (pawn_push b us m \<or> pawn_double b us m \<or> pawn_capture b us m \<or> en_passant b us m)"
| "moves_as b us King m =
     (piece_move b us King m \<or> castle_kingside b us m \<or> castle_queenside b us m)"
| "moves_as b us t m = piece_move b us t m"

definition pseudo_legal :: "Board \<Rightarrow> Move \<Rightarrow> bool" where
  "pseudo_legal b m \<longleftrightarrow>
     square_index (From m) \<and> square_index (To m) \<and>
     (\<exists>t. real_type t \<and> sqAt b (From m) = MakePiece (Turn b) t \<and> moves_as b (Turn b) t m)"

section \<open>The generators\<close>

lemma genStep_iff:
  "m \<in> set (genStep b moves s us deltas) \<longleftrightarrow> m \<in> set moves \<or>
     (\<exists>d \<in> set deltas. onBoard (fileOf s + fst d) (rankOf s + snd d) \<and>
        can_land b us (sq (fileOf s + fst d) (rankOf s + snd d)) \<and>
        m = quiet s (sq (fileOf s + fst d) (rankOf s + snd d)))"
  unfolding genStep_def Let_def by (rule set_fold_append) (auto simp: can_land_def)

lemma rayMoves_iff:
  "m \<in> set (rayMoves n b moves s us nf nr d) \<longleftrightarrow> m \<in> set moves \<or>
     (\<exists>k < n. open_ray b nf nr d k \<and> onBoard (nf + int k * fst d) (nr + int k * snd d) \<and>
        can_land b us (sq (nf + int k * fst d) (nr + int k * snd d)) \<and>
        m = quiet s (sq (nf + int k * fst d) (nr + int k * snd d)))"
proof (induction n arbitrary: nf nr moves)
  case 0
  show ?case by simp
next
  case (Suc n)
  have "m \<in> set (rayMoves (Suc n) b moves s us nf nr d) \<longleftrightarrow> m \<in> set moves \<or>
     onBoard nf nr \<and> (can_land b us (sq nf nr) \<and> m = quiet s (sq nf nr) \<or>
       IsEmpty (sqAt b (sq nf nr)) \<and> m \<in> set (rayMoves n b [] s us (nf + fst d) (nr + snd d) d))"
    by (auto simp: Let_def can_land_def Suc.IH)
  then show ?case
    by (auto simp: Ex_less_Suc2 Suc.IH open_ray_Suc algebra_simps)
qed

context slider_dirs
begin

lemma genSliding_iff:
  assumes "onBoard (fileOf s) (rankOf s)"
  shows "m \<in> set (genSliding b moves s us dirs) \<longleftrightarrow> m \<in> set moves \<or>
     (\<exists>f' r'. onBoard f' r' \<and> clear_between b (fileOf s) (rankOf s) f' r' \<and>
        (can_land b us (sq f' r') \<and> m = quiet s (sq f' r')) \<and> P (f' - fileOf s) (r' - rankOf s))"
proof -
  let ?f = "fileOf s" and ?r = "rankOf s"
  have "m \<in> set (genSliding b moves s us dirs) \<longleftrightarrow> m \<in> set moves \<or>
     (\<exists>d \<in> set dirs. \<exists>k > 0. onBoard (?f + k * fst d) (?r + k * snd d) \<and> clear_steps b ?f ?r d k \<and>
        (can_land b us (sq (?f + k * fst d) (?r + k * snd d)) \<and> m = quiet s (sq (?f + k * fst d) (?r + k * snd d))))"
    unfolding genSliding_def Let_def
    by (rule set_fold_append)
       (unfold rayMoves_iff, subst ray_walk_iff [OF unit assms, where Q = "\<lambda>f' r'. can_land b us (sq f' r') \<and> m = quiet s (sq f' r')", symmetric], simp_all)
  also have "\<dots> \<longleftrightarrow> m \<in> set moves \<or>
     (\<exists>f' r'. onBoard f' r' \<and> clear_between b ?f ?r f' r' \<and>
        (can_land b us (sq f' r') \<and> m = quiet s (sq f' r')) \<and> P (f' - ?f) (r' - ?r))"
    by (subst walk_all_iff [where S = "\<lambda>f' r'. clear_between b ?f ?r f' r'"])
       (simp_all add: clear_between_to unit)
  finally show ?thesis .
qed

end

lemma addPawnMove_iff:
  "m \<in> set (addPawnMove moves s t promo) \<longleftrightarrow> m \<in> set moves \<or>
     From m = s \<and> To m = t \<and>
     (if promo then Promotion m \<in> {Queen, Rook, Bishop, Knight} else Promotion m = NoPieceType)"
  by (cases m) (auto simp: addPawnMove_def)

lemma quiet_to_iff:
  "(\<exists>f' r'. onBoard f' r' \<and> Q f' r' \<and> m = quiet s (sq f' r')) \<longleftrightarrow>
     From m = s \<and> square_index (To m) \<and> Promotion m = NoPieceType \<and> Q (fileOf (To m)) (rankOf (To m))"
proof
  assume "From m = s \<and> square_index (To m) \<and> Promotion m = NoPieceType \<and> Q (fileOf (To m)) (rankOf (To m))"
  then show "\<exists>f' r'. onBoard f' r' \<and> Q f' r' \<and> m = quiet s (sq f' r')"
    by (intro exI [of _ "fileOf (To m)"] exI [of _ "rankOf (To m)"]) (simp add: square_index_nonneg)
qed auto

lemma quiet_iff: "m = quiet s t \<longleftrightarrow> From m = s \<and> To m = t \<and> Promotion m = NoPieceType"
  by (cases m) auto

lemma genStep_moves:
  "m \<in> set (genStep b moves s us deltas) \<longleftrightarrow> m \<in> set moves \<or>
     From m = s \<and> square_index (To m) \<and> Promotion m = NoPieceType \<and> can_land b us (To m) \<and>
     (fileOf (To m) - fileOf s, rankOf (To m) - rankOf s) \<in> set deltas"
proof -
  have "m \<in> set (genStep b moves s us deltas) \<longleftrightarrow> m \<in> set moves \<or>
      (\<exists>f' r'. onBoard f' r' \<and> ((f' - fileOf s, r' - rankOf s) \<in> set deltas \<and> can_land b us (sq f' r')) \<and>
         m = quiet s (sq f' r'))"
  proof -
    have "(\<exists>d \<in> set deltas. Q (fileOf s + fst d) (rankOf s + snd d)) \<longleftrightarrow>
        (\<exists>f' r'. (f' - fileOf s, r' - rankOf s) \<in> set deltas \<and> Q f' r')" for Q
    proof
      assume "\<exists>d \<in> set deltas. Q (fileOf s + fst d) (rankOf s + snd d)"
      then obtain d where "d \<in> set deltas" "Q (fileOf s + fst d) (rankOf s + snd d)" ..
      then show "\<exists>f' r'. (f' - fileOf s, r' - rankOf s) \<in> set deltas \<and> Q f' r'"
        by (intro exI [of _ "fileOf s + fst d"] exI [of _ "rankOf s + snd d"]) simp
    next
      assume "\<exists>f' r'. (f' - fileOf s, r' - rankOf s) \<in> set deltas \<and> Q f' r'"
      then obtain f' r' where "(f' - fileOf s, r' - rankOf s) \<in> set deltas" "Q f' r'" by blast
      then show "\<exists>d \<in> set deltas. Q (fileOf s + fst d) (rankOf s + snd d)"
        by (intro bexI [of _ "(f' - fileOf s, r' - rankOf s)"]) simp_all
    qed
    from this [of "\<lambda>f' r'. onBoard f' r' \<and> can_land b us (sq f' r') \<and> m = quiet s (sq f' r')"]
    show ?thesis unfolding genStep_iff by blast
  qed
  then show ?thesis unfolding quiet_to_iff by (auto simp: square_index_nonneg)
qed

context slider_dirs
begin

lemma genSliding_moves:
  assumes "square_index s"
  shows "m \<in> set (genSliding b moves s us dirs) \<longleftrightarrow> m \<in> set moves \<or>
     From m = s \<and> square_index (To m) \<and> Promotion m = NoPieceType \<and> can_land b us (To m) \<and>
     clear_between b (fileOf s) (rankOf s) (fileOf (To m)) (rankOf (To m)) \<and>
     P (fileOf (To m) - fileOf s) (rankOf (To m) - rankOf s)"
proof -
  have "m \<in> set (genSliding b moves s us dirs) \<longleftrightarrow> m \<in> set moves \<or>
     (\<exists>f' r'. onBoard f' r' \<and> (clear_between b (fileOf s) (rankOf s) f' r' \<and> can_land b us (sq f' r') \<and>
        P (f' - fileOf s) (r' - rankOf s)) \<and> m = quiet s (sq f' r'))"
    using assms by (auto simp: genSliding_iff)
  then show ?thesis unfolding quiet_to_iff by (auto simp: square_index_nonneg)
qed

end

text \<open>Pawn moves are within one or two ranks of the origin; these are their coordinates.\<close>

lemma To_sq_iff:
  "onBoard f r \<Longrightarrow> t = sq f r \<longleftrightarrow> square_index t \<and> fileOf t = f \<and> rankOf t = r"
  using sq_fileOf_rankOf [of t] square_index_nonneg [of t] by auto

lemma onBoard_rank: "square_index s \<Longrightarrow> 0 \<le> r \<Longrightarrow> r < 8 \<Longrightarrow> onBoard (fileOf s) r"
  using onBoard_fileOf_rankOf [of s] by (simp add: onBoard_def)

lemma square_index_rank: "square_index t \<Longrightarrow> 0 \<le> rankOf t \<and> rankOf t < 8"
  using onBoard_fileOf_rankOf [of t] by (simp add: onBoard_def)

lemma two_rank: "square_index s \<Longrightarrow> rankOf s = startRank us \<Longrightarrow> onBoard (fileOf s) (rankOf s + 2 * pawnDir us)"
  by (rule onBoard_rank) (auto simp: startRank_def pawnDir_def)

lemma genPawnPush_moves:
  assumes "square_index s"
  shows "m \<in> set (genPawnPush b moves s us) \<longleftrightarrow> m \<in> set moves \<or>
     From m = s \<and> square_index (To m) \<and> (pawn_push b us m \<or> pawn_double b us m)"
proof (cases "0 \<le> rankOf s + pawnDir us \<and> rankOf s + pawnDir us < 8")
  case False
  then have "\<not> pawn_push b us m" "\<not> pawn_double b us m" if "From m = s" "square_index (To m)"
    using that square_index_rank [of "To m"] by (auto simp: pawn_push_def pawn_double_def startRank_def pawnDir_def split: if_splits)
  with False show ?thesis by (auto simp: genPawnPush_def Let_def)
next
  case True
  then have one: "onBoard (fileOf s) (rankOf s + pawnDir us)" using assms onBoard_rank by blast
  let ?one = "sq (fileOf s) (rankOf s + pawnDir us)" and ?two = "sq (fileOf s) (rankOf s + 2 * pawnDir us)"
  have "m \<in> set (genPawnPush b moves s us) \<longleftrightarrow> m \<in> set moves \<or>
      From m = s \<and> IsEmpty (sqAt b ?one) \<and>
      (To m = ?one \<and> (if rankOf s + pawnDir us = promoRank us then Promotion m \<in> {Queen, Rook, Bishop, Knight}
          else Promotion m = NoPieceType) \<or>
       rankOf s = startRank us \<and> IsEmpty (sqAt b ?two) \<and> To m = ?two \<and> Promotion m = NoPieceType)"
    using True by (cases m) (auto simp: genPawnPush_def Let_def addPawnMove_iff)
  moreover have "square_index (To m) \<and> pawn_push b us m \<longleftrightarrow>
      To m = ?one \<and> IsEmpty (sqAt b ?one) \<and>
      (if rankOf s + pawnDir us = promoRank us then Promotion m \<in> {Queen, Rook, Bishop, Knight}
       else Promotion m = NoPieceType)" if "From m = s"
    unfolding pawn_push_def promotes_ok_def that using To_sq_iff [OF one, of "To m"] by metis
  moreover have "square_index (To m) \<and> pawn_double b us m \<longleftrightarrow>
      rankOf s = startRank us \<and> To m = ?two \<and> IsEmpty (sqAt b ?one) \<and> IsEmpty (sqAt b ?two) \<and>
      Promotion m = NoPieceType" if "From m = s"
    unfolding pawn_double_def that using To_sq_iff [OF two_rank [OF assms], of us "To m"] by metis
  ultimately show ?thesis by metis
qed

lemma genPawnCapture_moves:
  assumes "square_index s"
  shows "m \<in> set (genPawnCapture b moves s us df) \<longleftrightarrow> m \<in> set moves \<or>
     From m = s \<and> square_index (To m) \<and> fileOf (To m) = fileOf s + df \<and> rankOf (To m) = rankOf s + pawnDir us \<and>
     (\<not> IsEmpty (sqAt b (To m)) \<and> Piece_Color (sqAt b (To m)) \<noteq> us \<and> promotes_ok us m \<or>
      To m = EnPassant b \<and> IsEmpty (sqAt b (To m)) \<and> Promotion m = NoPieceType)"
proof (cases "onBoard (fileOf s + df) (rankOf s + pawnDir us)")
  case False
  then have "\<not> (fileOf (To m) = fileOf s + df \<and> rankOf (To m) = rankOf s + pawnDir us)" if "square_index (To m)"
    using onBoard_fileOf_rankOf [OF that] by auto
  with False show ?thesis by (auto simp: genPawnCapture_def Let_def)
next
  case True
  let ?t = "sq (fileOf s + df) (rankOf s + pawnDir us)"
  have "m \<in> set (genPawnCapture b moves s us df) \<longleftrightarrow> m \<in> set moves \<or> From m = s \<and> To m = ?t \<and>
      (\<not> IsEmpty (sqAt b ?t) \<and> Piece_Color (sqAt b ?t) \<noteq> us \<and> promotes_ok us m \<or>
       ?t = EnPassant b \<and> IsEmpty (sqAt b ?t) \<and> Promotion m = NoPieceType)"
    using True
    by (cases "From m = s \<and> To m = ?t") (auto simp: genPawnCapture_def Let_def addPawnMove_iff promotes_ok_def quiet_iff)
  then show ?thesis using To_sq_iff [OF True, of "To m"] by metis
qed

lemma reaches_Pawn:
  "reaches b us Pawn f r f' r' \<longleftrightarrow> (f' = f - 1 \<or> f' = f + 1) \<and> r' = r + pawnDir us"
  by (auto simp: pawnDir_def)

lemma genPawn_moves:
  assumes "square_index s"
  shows "m \<in> set (genPawn b moves s us) \<longleftrightarrow> m \<in> set moves \<or>
     From m = s \<and> square_index (To m) \<and> moves_as b us Pawn m"
  using assms
  by (auto simp: genPawn_def genPawnCapture_moves genPawnPush_moves pawn_capture_def en_passant_def
                 reaches_Pawn simp del: reaches.simps)

lemma genCastling_moves:
  assumes "wf_board b"
  shows "m \<in> set (genCastling b moves us) \<longleftrightarrow> m \<in> set moves \<or>
     castle_kingside b us m \<or> castle_queenside b us m"
proof -
  have idx: "square_index (sq f 0)" "square_index (sq f 7)" if "f \<in> {0..7}" for f
    using that by (auto simp: square_index_def sq_def)
  then have "attacked_by b (sq f (homeRank us)) c = IsAttacked b (sq f (homeRank us)) c" if "f \<in> {0..7}" for f c
    using that assms by (simp add: homeRank_def IsAttacked_spec)
  then show ?thesis
    by (cases us)
       (auto simp: genCastling_def genCastlingOn_def castle_kingside_def castle_queenside_def
          homeRank_def kingRight_def queenRight_def Let_def)
qed

section \<open>The generator lists exactly the pseudo-legal moves\<close>

lemma genPiece_moves:
  assumes "wf_board b" and "square_index s"
  shows "m \<in> set (genPiece b moves s) \<longleftrightarrow> m \<in> set moves \<or>
     (\<exists>t. real_type t \<and> sqAt b s = MakePiece (Turn b) t \<and>
        (From m = s \<and> square_index (To m) \<and> moves_as b (Turn b) t m \<or>
         t = King \<and> (castle_kingside b (Turn b) m \<or> castle_queenside b (Turn b) m)))"
proof (cases "IsEmpty (sqAt b s) \<or> Piece_Color (sqAt b s) \<noteq> Turn b")
  case True
  then have "sqAt b s \<noteq> MakePiece (Turn b) t" if "real_type t" for t
    using that by auto
  with True show ?thesis by (auto simp: genPiece_def Let_def)
next
  case False
  then obtain t where t: "real_type t" "sqAt b s = MakePiece (Turn b) t"
    using valid_piece_pack [OF valid_sqAt [OF assms(1), of s]] by metis
  have ex: "(\<exists>t'. real_type t' \<and> sqAt b s = MakePiece (Turn b) t' \<and> Q t') \<longleftrightarrow> Q t" for Q
    using t by auto
  show ?thesis
    unfolding ex using t assms
    by (cases t)
       (auto simp: genPiece_def Let_def genPawn_moves genStep_moves bishop.genSliding_moves rook.genSliding_moves
          genCastling_moves piece_move_def knight_delta_iff king_delta_iff simp del: moves_as.simps(1))
qed

lemma castle_endpoints:
  assumes "castle_kingside b us m \<or> castle_queenside b us m"
  shows "square_index (From m)" and "square_index (To m)" and "sqAt b (From m) = MakePiece us King"
  using assms
  by (auto simp: castle_kingside_def castle_queenside_def Let_def homeRank_def square_index_def sq_def)

lemma pseudoLegalMoves_spec:
  assumes "wf_board b"
  shows "m \<in> set (pseudoLegalMoves b) \<longleftrightarrow> pseudo_legal b m"
proof -
  let ?X = "\<lambda>s. \<exists>t. real_type t \<and> sqAt b s = MakePiece (Turn b) t \<and>
        (From m = s \<and> square_index (To m) \<and> moves_as b (Turn b) t m \<or>
         t = King \<and> (castle_kingside b (Turn b) m \<or> castle_queenside b (Turn b) m))"
  have "m \<in> set (pseudoLegalMoves b) \<longleftrightarrow> m \<in> set [] \<or> (\<exists>s \<in> set [0..63]. ?X s)"
    unfolding pseudoLegalMoves_def
    by (rule set_fold_append) (use assms in \<open>simp add: genPiece_moves square_index_def\<close>)
  also have "\<dots> \<longleftrightarrow> (\<exists>s. square_index s \<and> ?X s)"
    unfolding square_index_upto by simp
  also have "\<dots> \<longleftrightarrow> pseudo_legal b m"
  proof
    assume "\<exists>s. square_index s \<and> ?X s"
    then consider t where "real_type t" "square_index (From m)" "sqAt b (From m) = MakePiece (Turn b) t"
        "square_index (To m)" "moves_as b (Turn b) t m"
      | "castle_kingside b (Turn b) m \<or> castle_queenside b (Turn b) m" by blast
    then show "pseudo_legal b m"
    proof cases
      case 1
      then show ?thesis by (auto simp: pseudo_legal_def)
    next
      case 2
      then show ?thesis using castle_endpoints [OF 2] by (auto simp: pseudo_legal_def intro!: exI [of _ King])
    qed
  next
    assume "pseudo_legal b m"
    then show "\<exists>s. square_index s \<and> ?X s" unfolding pseudo_legal_def by blast
  qed
  finally show ?thesis .
qed

section \<open>Applying a pseudo-legal move stays on the board\<close>

lemma pseudo_legal_wf_move: "pseudo_legal b m \<Longrightarrow> wf_move m"
proof -
  assume "pseudo_legal b m"
  then obtain t where "real_type t" "moves_as b (Turn b) t m" "square_index (From m)" "square_index (To m)"
    by (auto simp: pseudo_legal_def)
  then show ?thesis
    by (cases t)
       (auto simp: wf_move_def piece_move_def pawn_push_def pawn_double_def pawn_capture_def en_passant_def
          promotes_ok_def castle_kingside_def castle_queenside_def Let_def split: if_splits)
qed

lemma pawn_rank_change:
  assumes "moves_as b us Pawn m"
  shows "rankOf (To m) = rankOf (From m) + pawnDir us \<or>
     rankOf (From m) = startRank us \<and> rankOf (To m) = rankOf (From m) + 2 * pawnDir us"
  using assms
  by (auto simp: pawn_push_def pawn_double_def pawn_capture_def en_passant_def reaches_Pawn simp del: reaches.simps)

lemma behind_index:
  assumes "square_index s" and "square_index t" and "rankOf t = rankOf s + pawnDir us \<or>
     rankOf s = startRank us \<and> rankOf t = rankOf s + 2 * pawnDir us"
  shows "square_index (t - 8 * pawnDir us)"
proof -
  have "0 \<le> rankOf t - pawnDir us" "rankOf t - pawnDir us < 8"
    using assms square_index_rank [of s] by (auto simp: pawnDir_def startRank_def split: if_splits)
  then show ?thesis
    using assms(2) by (auto simp: square_index_def rankOf_div pawnDir_def split: if_splits)
qed

lemma pseudo_legal_no_panic:
  assumes "pseudo_legal b m"
  shows "\<not> applyPanics b m"
proof -
  from assms obtain t where t: "square_index (From m)" "square_index (To m)" "sqAt b (From m) = MakePiece (Turn b) t"
    "moves_as b (Turn b) t m" by (auto simp: pseudo_legal_def)
  have "square_index (enPassantVictim b m)" if "isEnPassantCapture b m"
  proof -
    from that t(3) have "t = Pawn" by (simp add: isEnPassantCapture_def)
    then have "square_index (To m - 8 * pawnDir (Turn b))"
      using t pawn_rank_change behind_index by blast
    then show ?thesis by (simp add: enPassantVictim_def pawnDir_def split: if_splits)
  qed
  with t show ?thesis by (auto simp: applyPanics_def)
qed

end
