(* ===== verification/Chess_Position.thy ===== *)
theory Chess_Position
  imports Chess_Rules
begin

text \<open>
  Positions a game can reach.  \<open>valid_position\<close> collects what the move generator relies on
  without checking it: one king per side, the side that just moved not in check, no pawn on
  a back rank, castling rights only with king and rook at home, an en-passant target only
  behind a pawn that has just advanced two squares.  Every legal move keeps it
  (\<open>valid_position_step\<close>), so it holds in every position reachable from a valid one.
\<close>

section \<open>Valid positions\<close>

definition king_on :: "Board \<Rightarrow> Color \<Rightarrow> int \<Rightarrow> bool" where
  "king_on b c s \<longleftrightarrow> square_index s \<and> sqAt b s = MakePiece c King"

definition one_king :: "Board \<Rightarrow> Color \<Rightarrow> bool" where
  "one_king b c \<longleftrightarrow> length (filter (\<lambda>s. sqAt b s = MakePiece c King) [0..63]) = 1"

definition pawns_ok :: "Board \<Rightarrow> bool" where
  "pawns_ok b \<longleftrightarrow> list_all (\<lambda>s. Piece_Type (sqAt b s) = Pawn \<longrightarrow> rankOf s \<noteq> 0 \<and> rankOf s \<noteq> 7) [0..63]"

definition castling_ok :: "Board \<Rightarrow> Color \<Rightarrow> bool" where
  "castling_ok b c \<longleftrightarrow>
     (Castling b AND kingRight c \<noteq> 0 \<longrightarrow>
        sqAt b (sq 4 (homeRank c)) = MakePiece c King \<and> sqAt b (sq 7 (homeRank c)) = MakePiece c Rook) \<and>
     (Castling b AND queenRight c \<noteq> 0 \<longrightarrow>
        sqAt b (sq 4 (homeRank c)) = MakePiece c King \<and> sqAt b (sq 0 (homeRank c)) = MakePiece c Rook)"

definition ep_ok :: "Board \<Rightarrow> bool" where
  "ep_ok b \<longleftrightarrow> EnPassant b = NoSquare \<or>
     square_index (EnPassant b) \<and>
     rankOf (EnPassant b) = startRank (Opposite (Turn b)) - pawnDir (Turn b) \<and>
     IsEmpty (sqAt b (EnPassant b)) \<and>
     sqAt b (EnPassant b - 8 * pawnDir (Turn b)) = MakePiece (Opposite (Turn b)) Pawn"

definition valid_position :: "Board \<Rightarrow> bool" where
  "valid_position b \<longleftrightarrow>
     wf_board b \<and> one_king b White \<and> one_king b Black \<and>
     \<not> IsAttacked b (kingSquare b (Opposite (Turn b))) (Turn b) \<and>
     pawns_ok b \<and> castling_ok b White \<and> castling_ok b Black \<and> ep_ok b"

lemma one_king_iff: "one_king b c \<longleftrightarrow> (\<exists>!s. king_on b c s)"
proof -
  let ?ks = "filter (\<lambda>s. sqAt b s = MakePiece c King) [0..63]"
  have set: "set ?ks = {s. king_on b c s}" by (auto simp: king_on_def square_index_def)
  have "length ?ks = card {s. king_on b c s}"
    unfolding set [symmetric] by (rule distinct_card [symmetric]) simp
  then show ?thesis unfolding one_king_def by (auto simp: card_1_singleton_iff Ex1_def)
qed

lemma pawns_ok_iff:
  "pawns_ok b \<longleftrightarrow> (\<forall>s. square_index s \<longrightarrow> Piece_Type (sqAt b s) = Pawn \<longrightarrow> rankOf s \<noteq> 0 \<and> rankOf s \<noteq> 7)"
  by (auto simp: pawns_ok_def list_all_iff square_index_def)

lemma kingSquare_eq: "one_king b c \<Longrightarrow> king_on b c s \<Longrightarrow> kingSquare b c = s"
  using kingSquare_Some [of b c] kingSquare_None [of b c] by (auto simp: one_king_iff king_on_def)

section \<open>The board after a move\<close>

lemma sqAt_updateCastlingRights [simp]: "sqAt (updateCastlingRights b m p q) s = sqAt b s"
  by (simp add: updateCastlingRights_def clearForSquare_def Let_def)

lemma wf_board_updateCastlingRights [simp]: "wf_board (updateCastlingRights b m p q) = wf_board b"
  by (simp add: updateCastlingRights_def clearForSquare_def Let_def)

text \<open>The squares part of \<open>applyMoveUnchecked\<close>.\<close>

definition moved :: "Board \<Rightarrow> Move \<Rightarrow> Board" where
  "moved b m =
     (let nb = movePiece b m;
          nb = (if isEnPassantCapture b m then setSq (enPassantVictim b m) Empty nb else nb);
          nb = (if Promotion m \<noteq> NoPieceType then setSq (To m) (MakePiece (Turn b) (Promotion m)) nb else nb)
      in if isCastle b m then castleRook m nb else nb)"

lemma apply_fields:
  "sqAt (applyMoveUnchecked b m) s = sqAt (moved b m) s"
  "wf_board (applyMoveUnchecked b m) = wf_board (moved b m)"
  "Turn (applyMoveUnchecked b m) = Opposite (Turn b)"
  "Castling (applyMoveUnchecked b m) =
     Castling (updateCastlingRights (moved b m) m (sqAt b (From m)) (sqAt b (To m)))"
  "EnPassant (applyMoveUnchecked b m) =
     (if Piece_Type (sqAt b (From m)) = Pawn \<and> \<bar>rankOf (To m) - rankOf (From m)\<bar> = 2
      then (From m + To m) sdiv 2 else NoSquare)"
  "HalfMove (applyMoveUnchecked b m) =
     (if Piece_Type (sqAt b (From m)) = Pawn \<or> \<not> IsEmpty (sqAt b (To m)) then 0 else wrap64 (HalfMove b + 1))"
  by (simp_all add: applyMoveUnchecked_def moved_def Let_def)

lemma wf_board_movePiece [wf_intros]: "wf_board b \<Longrightarrow> wf_board (movePiece b m)"
  by (simp add: movePiece_def wf_intros)

lemma wf_board_castleRook [wf_intros]: "wf_board b \<Longrightarrow> wf_board (castleRook m b)"
  by (simp add: castleRook_def Let_def wf_intros)

lemma promotion_real: "wf_move m \<Longrightarrow> Promotion m \<noteq> NoPieceType \<Longrightarrow> real_type (Promotion m)"
  by (auto simp: wf_move_def)

lemma wf_board_moved [wf_intros]: "wf_board b \<Longrightarrow> wf_move m \<Longrightarrow> wf_board (moved b m)"
  by (simp add: moved_def Let_def promotion_real wf_intros)

text \<open>The piece that stands on the destination after a move that is not a castling move.\<close>

definition placed :: "Board \<Rightarrow> Move \<Rightarrow> Piece" where
  "placed b m = (if Promotion m \<noteq> NoPieceType then MakePiece (Turn b) (Promotion m) else sqAt b (From m))"

lemma sqAt_moved_plain:
  assumes "wf_board b" and "wf_move m" and "From m \<noteq> To m" and "\<not> isCastle b m"
  shows "sqAt (moved b m) s =
     (if s = To m then placed b m
      else if s = From m \<or> isEnPassantCapture b m \<and> s = enPassantVictim b m then Empty
      else sqAt b s)"
proof -
  have idx: "square_index (From m)" "square_index (To m)" using assms(2) by (auto simp: wf_move_def)
  have v: "enPassantVictim b m \<noteq> To m" by (simp add: enPassantVictim_def)
  have e: "sqAt b s = Empty" if "s = enPassantVictim b m" "\<not> square_index (enPassantVictim b m)"
    using that by simp
  show ?thesis
    using assms idx v e
    by (auto simp: moved_def placed_def Let_def movePiece_def board_simps wf_intros promotion_real)
qed

lemma castle_squares:
  assumes "h = 0 \<or> h = (7 :: int)" and "f \<in> {0..7}"
  shows "square_index (sq f h)" "fileOf (sq f h) = f" "rankOf (sq f h) = h"
proof -
  have "onBoard f h" using assms by (auto simp: onBoard_def)
  then show "square_index (sq f h)" "fileOf (sq f h) = f" "rankOf (sq f h) = h" by simp_all
qed

lemma homeRank_cases: "homeRank us = 0 \<or> homeRank us = 7"
  by (simp add: homeRank_def)

lemmas home_square = castle_squares [OF homeRank_cases]

lemma sq_file_inject: "sq f h = sq f' h \<longleftrightarrow> f = f'"
  by (simp add: sq_def)

lemma sqAt_two_moves:
  assumes "wf_board b" and "valid_piece p" and "square_index a" "square_index t" "square_index k" "square_index c"
    and "distinct [a, t, k, c]"
  shows "sqAt (let nb = setSq a Empty (setSq t p b) in setSq c Empty (setSq k (sqAt nb c) nb)) s =
     (if s = t then p else if s = k then sqAt b c else if s = a \<or> s = c then Empty else sqAt b s)"
  using assms by (auto simp: Let_def board_simps wf_intros)

lemma sqAt_moved_castle:
  assumes "wf_board b" and "sqAt b (sq 4 h) = MakePiece us King" and "h = homeRank us"
    and m: "m = quiet (sq 4 h) (sq g h)" and g: "g = 6 \<and> k = 5 \<and> c = 7 \<or> g = 2 \<and> k = 3 \<and> c = 0"
  shows "sqAt (moved b m) s =
     (if s = sq g h then MakePiece us King else if s = sq k h then sqAt b (sq c h)
      else if s = sq 4 h \<or> s = sq c h then Empty else sqAt b s)"
proof -
  have idx: "square_index (sq f h)" "fileOf (sq f h) = f" "rankOf (sq f h) = h" if "f \<in> {0..7}" for f
    using home_square [OF that, of us] assms(3) by simp_all
  have "isCastle b m" using assms(2) g m idx [of 4] idx [of g] by (auto simp: isCastle_def)
  moreover have "\<not> isEnPassantCapture b m" using assms(2) m by (simp add: isEnPassantCapture_def)
  ultimately have "moved b m =
      (let nb = setSq (sq 4 h) Empty (setSq (sq g h) (MakePiece us King) b)
       in setSq (sq c h) Empty (setSq (sq k h) (sqAt nb (sq c h)) nb))"
    using assms(2) g m idx [of 4] idx [of g] by (auto simp: moved_def Let_def movePiece_def castleRook_def)
  moreover have "distinct [sq 4 h, sq g h, sq k h, sq c h]" using g by (auto simp: sq_file_inject)
  moreover have "square_index (sq 4 h)" "square_index (sq g h)" "square_index (sq k h)" "square_index (sq c h)"
    using g by (auto intro: idx(1))
  ultimately show ?thesis
    using sqAt_two_moves [OF assms(1), of "MakePiece us King" "sq 4 h" "sq g h" "sq k h" "sq c h" s] by simp
qed

section \<open>What a pseudo-legal move can do in a valid position\<close>

lemma reaches_moves: "reaches b us t f r f' r' \<Longrightarrow> (f, r) \<noteq> (f', r')"
  by (cases t) (auto simp: diagonal_def straight_def)

lemma pawnDir_nonzero [simp]: "pawnDir us \<noteq> 0"
  by (simp add: pawnDir_def)

lemmas pawn_move_defs = pawn_push_def pawn_double_def pawn_capture_def en_passant_def

text \<open>A move is a castling move, or an ordinary one in which the king does not jump two files.\<close>

lemma pseudo_legal_cases:
  assumes "pseudo_legal b m"
  obtains (castle) "castle_kingside b (Turn b) m \<or> castle_queenside b (Turn b) m"
    | (plain) t where "real_type t" "sqAt b (From m) = MakePiece (Turn b) t" "moves_as b (Turn b) t m"
        "From m \<noteq> To m" "\<not> isCastle b m"
proof (cases "castle_kingside b (Turn b) m \<or> castle_queenside b (Turn b) m")
  case True
  then show ?thesis by (rule castle)
next
  case False
  from assms obtain t where t: "real_type t" "sqAt b (From m) = MakePiece (Turn b) t" "moves_as b (Turn b) t m"
    by (auto simp: pseudo_legal_def)
  have "From m \<noteq> To m"
  proof
    assume eq: "From m = To m"
    then have "\<not> move_reaches b (Turn b) t m" using reaches_moves by metis
    then show False
      using t False eq by (cases t) (simp_all add: pawn_move_defs piece_move_def del: reaches.simps)
  qed
  moreover have "\<not> isCastle b m"
    using t False by (cases t) (auto simp: isCastle_def piece_move_def)
  ultimately show ?thesis using t plain by blast
qed

lemma landing:
  assumes "pseudo_legal b m"
  shows "IsEmpty (sqAt b (To m)) \<or> Piece_Color (sqAt b (To m)) \<noteq> Turn b \<and> attacked_by b (To m) (Turn b)"
  using assms
proof (cases rule: pseudo_legal_cases)
  case castle
  then show ?thesis by (auto simp: castle_kingside_def castle_queenside_def Let_def)
next
  case (plain t)
  have "attacked_by b (To m) (Turn b)" if "move_reaches b (Turn b) t m"
    using that plain assms by (auto simp: attacked_by_def piece_attacks_def pseudo_legal_def intro!: exI [of _ "From m"])
  moreover have "\<not> castle_kingside b (Turn b) m \<and> \<not> castle_queenside b (Turn b) m"
    using plain(5) home_square [of _ "Turn b"] plain(2)
    by (auto simp: isCastle_def castle_kingside_def castle_queenside_def Let_def)
  ultimately show ?thesis
    using plain(3)
    by (cases t) (auto simp: piece_move_def can_land_def pawn_push_def pawn_double_def pawn_capture_def en_passant_def
                       simp del: reaches.simps)
qed

lemma valid_position_kings: "valid_position b \<Longrightarrow> one_king b c"
  by (cases c) (simp_all add: valid_position_def)

lemma valid_position_castling: "valid_position b \<Longrightarrow> castling_ok b c"
  by (cases c) (simp_all add: valid_position_def)

lemma no_king_captured:
  assumes "valid_position b" and "pseudo_legal b m"
  shows "sqAt b (To m) \<noteq> MakePiece c King"
proof
  assume k: "sqAt b (To m) = MakePiece c King"
  then have c: "c = Opposite (Turn b)" and a: "attacked_by b (To m) (Turn b)"
    using landing [OF assms(2)] by (auto simp: neq_Opposite)
  have "king_on b c (To m)" using k assms(2) by (simp add: king_on_def pseudo_legal_def)
  then have "kingSquare b c = To m" using valid_position_kings [OF assms(1)] kingSquare_eq by blast
  then show False
    using assms a c IsAttacked_spec [of b "To m" "Turn b"] by (simp add: valid_position_def pseudo_legal_def)
qed

lemma startRank_values: "startRank White = 1" "startRank Black = 6" "pawnDir White = 1" "pawnDir Black = -1"
    "promoRank White = 7" "promoRank Black = 0" "homeRank White = 0" "homeRank Black = 7"
  by (simp_all add: startRank_def pawnDir_def promoRank_def homeRank_def)

lemma ep_victim_pawn:
  assumes "valid_position b" and "pseudo_legal b m" and "isEnPassantCapture b m"
  shows "sqAt b (enPassantVictim b m) = MakePiece (Opposite (Turn b)) Pawn"
proof -
  have "EnPassant b \<noteq> NoSquare"
    using assms(2,3) by (auto simp: isEnPassantCapture_def pseudo_legal_def square_index_def NoSquare_def)
  then show ?thesis
    using assms(1,3) by (cases "Turn b") (auto simp: valid_position_def ep_ok_def isEnPassantCapture_def enPassantVictim_def startRank_values)
qed

lemma placed_king:
  assumes "pseudo_legal b m" and "real_type t" and "sqAt b (From m) = MakePiece (Turn b) t" and "moves_as b (Turn b) t m"
  shows "placed b m = MakePiece c King \<longleftrightarrow> c = Turn b \<and> t = King"
  using assms(2-4)
  by (cases t) (auto simp: placed_def piece_move_def pawn_push_def pawn_double_def pawn_capture_def en_passant_def
        promotes_ok_def castle_kingside_def castle_queenside_def Let_def split: if_splits)

section \<open>Legal moves keep the position valid\<close>

lemma king_on_plain:
  assumes v: "valid_position b" and p: "pseudo_legal b m" and "real_type t"
    and t: "sqAt b (From m) = MakePiece (Turn b) t" "moves_as b (Turn b) t m" "From m \<noteq> To m" "\<not> isCastle b m"
  shows "king_on (moved b m) c s \<longleftrightarrow> (if c = Turn b \<and> t = King then s = To m else king_on b c s)"
proof -
  have wf: "wf_board b" "wf_move m" using v p by (auto simp: valid_position_def pseudo_legal_wf_move)
  have idx: "square_index (From m)" "square_index (To m)" using p by (auto simp: pseudo_legal_def)
  have sq: "sqAt (moved b m) s =
     (if s = To m then placed b m
      else if s = From m \<or> isEnPassantCapture b m \<and> s = enPassantVictim b m then Empty else sqAt b s)"
    using wf t(3,4) by (rule sqAt_moved_plain)
  have pl: "placed b m = MakePiece c King \<longleftrightarrow> c = Turn b \<and> t = King"
    using p assms(3) t(1,2) by (rule placed_king)
  have vic: "sqAt b s \<noteq> MakePiece c King" if "isEnPassantCapture b m" "s = enPassantVictim b m"
    using ep_victim_pawn [OF v p that(1)] that(2) by simp
  have to: "sqAt b (To m) \<noteq> MakePiece c King" using v p by (rule no_king_captured)
  show ?thesis
  proof (cases "c = Turn b \<and> t = King")
    case True
    then have "king_on b c (From m)" using t(1) idx by (simp add: king_on_def)
    then have "king_on b c s \<longleftrightarrow> s = From m"
      using valid_position_kings [OF v, of c] by (auto simp: one_king_iff)
    then show ?thesis using True sq pl vic idx by (auto simp: king_on_def)
  next
    case False
    then show ?thesis using sq pl vic to t(1) by (auto simp: king_on_def)
  qed
qed

lemma castle_forms:
  assumes "castle_kingside b us m \<or> castle_queenside b us m"
  obtains g k c where "g = 6 \<and> k = 5 \<and> c = 7 \<or> g = 2 \<and> k = 3 \<and> c = (0 :: int)"
    and "m = quiet (sq 4 (homeRank us)) (sq g (homeRank us))"
    and "sqAt b (sq 4 (homeRank us)) = MakePiece us King" and "sqAt b (sq c (homeRank us)) = MakePiece us Rook"
    and "sqAt b (sq g (homeRank us)) = Empty" and "sqAt b (sq k (homeRank us)) = Empty"
proof -
  show ?thesis
    using assms that [of 6 5 7] that [of 2 3 0]
    by (auto simp: castle_kingside_def castle_queenside_def Let_def IsEmpty_def)
qed

text \<open>A castling move only touches four squares of the home rank, none of them with a pawn.\<close>

lemma sqAt_castled:
  assumes wf: "wf_board b" and "castle_kingside b us m \<or> castle_queenside b us m"
  obtains g k c where "g \<in> {2, 6}" "k \<in> {3, 5}" "c \<in> {0, 7 :: int}"
    and "\<And>s. sqAt (moved b m) s =
     (if s = sq g (homeRank us) then MakePiece us King else if s = sq k (homeRank us) then MakePiece us Rook
      else if s = sq 4 (homeRank us) \<or> s = sq c (homeRank us) then Empty else sqAt b s)"
    and "From m = sq 4 (homeRank us)" and "To m = sq g (homeRank us)"
    and "sqAt b (sq 4 (homeRank us)) = MakePiece us King" and "sqAt b (sq c (homeRank us)) = MakePiece us Rook"
    and "sqAt b (sq g (homeRank us)) = Empty" and "sqAt b (sq k (homeRank us)) = Empty"
proof -
  from assms(2) obtain g k c where f: "g = 6 \<and> k = 5 \<and> c = 7 \<or> g = 2 \<and> k = 3 \<and> c = (0 :: int)"
    "m = quiet (sq 4 (homeRank us)) (sq g (homeRank us))"
    "sqAt b (sq 4 (homeRank us)) = MakePiece us King" "sqAt b (sq c (homeRank us)) = MakePiece us Rook"
    "sqAt b (sq g (homeRank us)) = Empty" "sqAt b (sq k (homeRank us)) = Empty"
    by (rule castle_forms)
  have "sqAt (moved b m) s =
     (if s = sq g (homeRank us) then MakePiece us King else if s = sq k (homeRank us) then MakePiece us Rook
      else if s = sq 4 (homeRank us) \<or> s = sq c (homeRank us) then Empty else sqAt b s)" for s
    using sqAt_moved_castle [OF wf f(3) refl f(2) f(1), of s] f(4) by simp
  moreover have "From m = sq 4 (homeRank us)" "To m = sq g (homeRank us)" using f(2) by simp_all
  moreover have "g \<in> {2, 6}" "k \<in> {3, 5}" "c \<in> {0, 7}" using f(1) by auto
  ultimately show ?thesis using that [of g k c] f(3-6) by blast
qed

lemma one_king_step:
  assumes v: "valid_position b" and p: "pseudo_legal b m"
  shows "one_king (moved b m) c"
  using p
proof (cases rule: pseudo_legal_cases)
  case (plain t)
  have "king_on (moved b m) c = (if c = Turn b \<and> t = King then (\<lambda>s. s = To m) else king_on b c)"
    using king_on_plain [OF v p plain, of c] by auto
  then show ?thesis
    using valid_position_kings [OF v, of c] unfolding one_king_iff by simp
next
  case castle
  have wf: "wf_board b" using v by (simp add: valid_position_def)
  let ?h = "homeRank (Turn b)"
  from wf castle obtain g k cc where g: "g \<in> {2, 6}" and sq: "\<And>s. sqAt (moved b m) s =
     (if s = sq g ?h then MakePiece (Turn b) King else if s = sq k ?h then MakePiece (Turn b) Rook
      else if s = sq 4 ?h \<or> s = sq cc ?h then Empty else sqAt b s)"
    and old: "sqAt b (sq 4 ?h) = MakePiece (Turn b) King" "sqAt b (sq cc ?h) = MakePiece (Turn b) Rook"
      "sqAt b (sq g ?h) = Empty" "sqAt b (sq k ?h) = Empty"
    by (rule sqAt_castled) blast
  have idx: "square_index (sq g ?h)" "square_index (sq 4 ?h)" using g by (auto intro: home_square)
  then have k4: "king_on b (Turn b) (sq 4 ?h)" using old(1) by (simp add: king_on_def)
  have only: "king_on b (Turn b) s \<longleftrightarrow> s = sq 4 ?h" for s
    using valid_position_kings [OF v, of "Turn b"] k4 by (auto simp: one_king_iff)
  have "king_on (moved b m) c = (if c = Turn b then (\<lambda>s. s = sq g ?h) else king_on b c)"
  proof
    fix s
    show "king_on (moved b m) c s = (if c = Turn b then (\<lambda>s. s = sq g ?h) else king_on b c) s"
      using idx(1) old only [of s] by (auto simp: king_on_def sq)
  qed
  then show ?thesis
    using valid_position_kings [OF v, of c] unfolding one_king_iff by simp
qed

lemma pawns_ok_step:
  assumes v: "valid_position b" and p: "pseudo_legal b m"
  shows "pawns_ok (moved b m)"
  unfolding pawns_ok_iff
proof (intro allI impI)
  fix s assume s: "square_index s" "Piece_Type (sqAt (moved b m) s) = Pawn"
  have old: "rankOf s \<noteq> 0 \<and> rankOf s \<noteq> 7" if "Piece_Type (sqAt b s) = Pawn"
    using that s(1) v by (simp add: valid_position_def pawns_ok_iff)
  have wf: "wf_board b" "wf_move m" using v p by (auto simp: valid_position_def pseudo_legal_wf_move)
  show "rankOf s \<noteq> 0 \<and> rankOf s \<noteq> 7"
    using p
  proof (cases rule: pseudo_legal_cases)
    case castle
    with wf(1) obtain g k cc where sq: "sqAt (moved b m) s =
       (if s = sq g (homeRank (Turn b)) then MakePiece (Turn b) King
        else if s = sq k (homeRank (Turn b)) then MakePiece (Turn b) Rook
        else if s = sq 4 (homeRank (Turn b)) \<or> s = sq cc (homeRank (Turn b)) then Empty else sqAt b s)"
      by (rule sqAt_castled) blast
    have "Piece_Type (sqAt b s) = Pawn"
      using s(2) unfolding sq by (simp split: if_splits)
    then show ?thesis by (rule old)
  next
    case (plain t)
    have sq: "sqAt (moved b m) s =
     (if s = To m then placed b m
      else if s = From m \<or> isEnPassantCapture b m \<and> s = enPassantVictim b m then Empty else sqAt b s)"
      using wf plain(4,5) by (rule sqAt_moved_plain)
    show ?thesis
    proof (cases "s = To m")
      case False
      with s(2) sq old show ?thesis by (auto split: if_splits)
    next
      case True
      with s(2) sq have pl: "Piece_Type (placed b m) = Pawn" by simp
      then have t: "t = Pawn" and np: "Promotion m = NoPieceType"
        using wf(2) plain(2) by (auto simp: placed_def wf_move_def split: if_splits)
      have from_ok: "rankOf (From m) \<noteq> 0 \<and> rankOf (From m) \<noteq> 7"
        using v p plain(2) t by (simp add: valid_position_def pawns_ok_iff pseudo_legal_def)
      have from_rank: "0 \<le> rankOf (From m)" "rankOf (From m) < 8"
        using p square_index_rank [of "From m"] by (auto simp: pseudo_legal_def)
      have nprom: "rankOf (To m) \<noteq> promoRank (Turn b)"
      proof (cases "en_passant b (Turn b) m \<or> pawn_double b (Turn b) m")
        case True
        then show ?thesis
        proof
          assume "en_passant b (Turn b) m"
          then have "rankOf (To m) = startRank (Opposite (Turn b)) - pawnDir (Turn b)"
            using v p by (auto simp: valid_position_def ep_ok_def en_passant_def NoSquare_def pseudo_legal_def square_index_def)
          then show ?thesis by (cases "Turn b") (simp_all add: startRank_values)
        next
          assume "pawn_double b (Turn b) m"
          then show ?thesis by (cases "Turn b") (simp_all add: pawn_double_def startRank_values)
        qed
      next
        case False
        with plain(3) t np show ?thesis by (auto simp: pawn_push_def pawn_capture_def promotes_ok_def split: if_splits)
      qed
      have "rankOf (To m) = rankOf (From m) + pawnDir (Turn b) \<or>
         rankOf (From m) = startRank (Turn b) \<and> rankOf (To m) = rankOf (From m) + 2 * pawnDir (Turn b)"
        using plain(3) t by (intro pawn_rank_change) simp
      then show ?thesis
        using True nprom from_ok from_rank by (cases "Turn b") (auto simp: startRank_values)
    qed
  qed
qed

section \<open>Castling rights and the en-passant target\<close>

lemma word_and_not:
  fixes x y z :: byte
  assumes "(x AND NOT y) AND z \<noteq> 0"
  shows "x AND z \<noteq> 0" and "z AND NOT y \<noteq> 0"
proof -
  have "(x AND NOT y) AND z = (x AND z) AND NOT y" "(x AND NOT y) AND z = x AND (z AND NOT y)"
    by (simp_all add: ac_simps)
  with assms show "x AND z \<noteq> 0" and "z AND NOT y \<noteq> 0" by auto
qed

lemmas castle_bits = CastleWhiteKing_def CastleWhiteQueen_def CastleBlackKing_def CastleBlackQueen_def

text \<open>A right that survives a clearing step was there before, and its corner was not touched.\<close>

lemma clearForSquare_keeps:
  assumes "Castling (clearForSquare s b) AND z \<noteq> 0"
  shows "Castling b AND z \<noteq> 0"
    and "z = kingRight c \<Longrightarrow> s \<noteq> sq 7 (homeRank c)" and "z = queenRight c \<Longrightarrow> s \<noteq> sq 0 (homeRank c)"
proof -
  show "Castling b AND z \<noteq> 0"
    using assms by (auto simp: clearForSquare_def split: if_splits dest: word_and_not)
  show "s \<noteq> sq 7 (homeRank c)" if "z = kingRight c"
    using assms that
    by (cases c) (auto simp: clearForSquare_def homeRank_def kingRight_def sq_def split: if_splits dest!: word_and_not(2))
  show "s \<noteq> sq 0 (homeRank c)" if "z = queenRight c"
    using assms that
    by (cases c) (auto simp: clearForSquare_def homeRank_def queenRight_def sq_def split: if_splits dest!: word_and_not(2))
qed

lemma updateCastlingRights_keeps:
  assumes "Castling (updateCastlingRights b m moving captured) AND z \<noteq> 0"
  shows "Castling b AND z \<noteq> 0"
    and "z = kingRight c \<Longrightarrow> From m \<noteq> sq 7 (homeRank c) \<and> To m \<noteq> sq 7 (homeRank c) \<and>
           (Piece_Type moving = King \<longrightarrow> Piece_Color moving \<noteq> c)"
    and "z = queenRight c \<Longrightarrow> From m \<noteq> sq 0 (homeRank c) \<and> To m \<noteq> sq 0 (homeRank c) \<and>
           (Piece_Type moving = King \<longrightarrow> Piece_Color moving \<noteq> c)"
proof -
  let ?b1 = "if Piece_Type moving = King \<and> Piece_Color moving = White
                then b\<lparr>Castling := Castling b AND NOT (CastleWhiteKing OR CastleWhiteQueen)\<rparr>
                else if Piece_Type moving = King \<and> Piece_Color moving = Black
                then b\<lparr>Castling := Castling b AND NOT (CastleBlackKing OR CastleBlackQueen)\<rparr>
                else b"
  have c2: "Castling (clearForSquare (To m) (clearForSquare (From m) ?b1)) AND z \<noteq> 0"
    using assms by (simp add: updateCastlingRights_def)
  have c1: "Castling (clearForSquare (From m) ?b1) AND z \<noteq> 0" using clearForSquare_keeps(1) [OF c2] .
  have c0: "Castling ?b1 AND z \<noteq> 0" using clearForSquare_keeps(1) [OF c1] .
  show "Castling b AND z \<noteq> 0"
    using c0 word_and_not(1) [of "Castling b" "CastleWhiteKing OR CastleWhiteQueen" z]
      word_and_not(1) [of "Castling b" "CastleBlackKing OR CastleBlackQueen" z]
    by (simp split: if_splits)
  have king: "Piece_Type moving = King \<longrightarrow> Piece_Color moving \<noteq> c" if "z = kingRight c \<or> z = queenRight c"
    using c0 that word_and_not(2) [of "Castling b" "CastleWhiteKing OR CastleWhiteQueen" z]
      word_and_not(2) [of "Castling b" "CastleBlackKing OR CastleBlackQueen" z]
    by (cases c) (auto simp: kingRight_def queenRight_def castle_bits split: if_splits)
  show "From m \<noteq> sq 7 (homeRank c) \<and> To m \<noteq> sq 7 (homeRank c) \<and> (Piece_Type moving = King \<longrightarrow> Piece_Color moving \<noteq> c)"
    if "z = kingRight c"
    using clearForSquare_keeps(2) [OF c1 that] clearForSquare_keeps(2) [OF c2 that] king that by blast
  show "From m \<noteq> sq 0 (homeRank c) \<and> To m \<noteq> sq 0 (homeRank c) \<and> (Piece_Type moving = King \<longrightarrow> Piece_Color moving \<noteq> c)"
    if "z = queenRight c"
    using clearForSquare_keeps(3) [OF c1 that] clearForSquare_keeps(3) [OF c2 that] king that by blast
qed

text \<open>The squares a castling right depends on are not changed while the right survives.\<close>

lemma moved_other:
  assumes v: "valid_position b" and p: "pseudo_legal b m"
    and s: "s \<noteq> From m" "s \<noteq> To m" and t: "sqAt b s = MakePiece c t" "t \<noteq> Pawn"
    and nc: "isCastle b m \<longrightarrow> c \<noteq> Turn b" and rt: "real_type t"
  shows "sqAt (moved b m) s = MakePiece c t"
proof -
  have wf: "wf_board b" "wf_move m" using v p by (auto simp: valid_position_def pseudo_legal_wf_move)
  show ?thesis
    using p
  proof (cases rule: pseudo_legal_cases)
    case (plain u)
    have "\<not> (isEnPassantCapture b m \<and> s = enPassantVictim b m)"
      using ep_victim_pawn [OF v p] t by auto
    with s t show ?thesis using sqAt_moved_plain [OF wf plain(4,5), of s] by auto
  next
    case castle
    let ?h = "homeRank (Turn b)"
    from wf(1) castle obtain g k cc where sq: "sqAt (moved b m) s =
       (if s = sq g ?h then MakePiece (Turn b) King else if s = sq k ?h then MakePiece (Turn b) Rook
        else if s = sq 4 ?h \<or> s = sq cc ?h then Empty else sqAt b s)"
      and g: "g \<in> {2, 6}" and ends: "From m = sq 4 ?h" "To m = sq g ?h" and k4: "sqAt b (sq 4 ?h) = MakePiece (Turn b) King"
      and old: "sqAt b (sq cc ?h) = MakePiece (Turn b) Rook" "sqAt b (sq g ?h) = Empty" "sqAt b (sq k ?h) = Empty"
      by (rule sqAt_castled) blast
    have f4: "fileOf (sq 4 ?h) = 4" by (rule home_square) simp
    have fg: "fileOf (sq g ?h) = g" using g by (intro home_square) auto
    have "isCastle b m" unfolding isCastle_def ends f4 fg using k4 g by auto
    then have "c \<noteq> Turn b" using nc by simp
    then show ?thesis using sq s t old ends rt by (auto split: if_splits)
  qed
qed

lemma castling_ok_step:
  assumes v: "valid_position b" and p: "pseudo_legal b m"
  shows "castling_ok (applyMoveUnchecked b m) c"
proof -
  let ?nb = "applyMoveUnchecked b m" and ?h = "homeRank c"
  have same: "Castling (moved b m) = Castling b"
    by (simp add: moved_def movePiece_def castleRook_def Let_def)
  have own: "Piece_Type (sqAt b (From m)) \<noteq> King \<or> Piece_Color (sqAt b (From m)) \<noteq> c \<Longrightarrow>
      isCastle b m \<longrightarrow> c \<noteq> Turn b"
    using p by (auto simp: isCastle_def pseudo_legal_def)
  have keep: "sqAt ?nb (sq 4 ?h) = MakePiece c King \<and> sqAt ?nb (sq f ?h) = MakePiece c Rook"
    if k: "Piece_Type (sqAt b (From m)) = King \<longrightarrow> Piece_Color (sqAt b (From m)) \<noteq> c"
      and f: "From m \<noteq> sq f ?h" "To m \<noteq> sq f ?h"
      and o: "sqAt b (sq 4 ?h) = MakePiece c King" "sqAt b (sq f ?h) = MakePiece c Rook" for f
  proof -
    have "From m \<noteq> sq 4 ?h" using k o(1) by auto
    moreover have "To m \<noteq> sq 4 ?h" using no_king_captured [OF v p, of c] o(1) by metis
    ultimately show ?thesis
      using k o f own by (auto simp: apply_fields(1) intro!: moved_other [OF v p])
  qed
  have kc: "Castling b AND kingRight c \<noteq> 0 \<Longrightarrow> sqAt b (sq 4 ?h) = MakePiece c King \<and> sqAt b (sq 7 ?h) = MakePiece c Rook"
    and qc: "Castling b AND queenRight c \<noteq> 0 \<Longrightarrow> sqAt b (sq 4 ?h) = MakePiece c King \<and> sqAt b (sq 0 ?h) = MakePiece c Rook"
    using valid_position_castling [OF v, of c] by (simp_all add: castling_ok_def)
  show ?thesis
    unfolding castling_ok_def apply_fields(4)
    using updateCastlingRights_keeps [of "moved b m" m "sqAt b (From m)" "sqAt b (To m)" "kingRight c"]
      updateCastlingRights_keeps [of "moved b m" m "sqAt b (From m)" "sqAt b (To m)" "queenRight c"]
      keep kc qc unfolding same by metis
qed

lemma pawnDir_nz: "pawnDir c \<noteq> 0"
  by (simp add: pawnDir_def)

text \<open>Only a double push changes the rank by two; its target is the square it skipped.\<close>

lemma double_push:
  assumes p: "pseudo_legal b m" and "Piece_Type (sqAt b (From m)) = Pawn" and "\<bar>rankOf (To m) - rankOf (From m)\<bar> = 2"
  shows "pawn_double b (Turn b) m" and "sqAt b (From m) = MakePiece (Turn b) Pawn"
    and "(From m + To m) sdiv 2 = sq (fileOf (From m)) (rankOf (From m) + pawnDir (Turn b))"
    and "To m = (From m + To m) sdiv 2 + 8 * pawnDir (Turn b)"
    and "onBoard (fileOf (From m)) (rankOf (From m) + pawnDir (Turn b))"
proof -
  from p assms(2) have t: "sqAt b (From m) = MakePiece (Turn b) Pawn" "moves_as b (Turn b) Pawn m"
    and idx: "square_index (From m)" "square_index (To m)" by (auto simp: pseudo_legal_def)
  have "\<bar>pawnDir (Turn b)\<bar> = 1" by (simp add: pawnDir_def)
  with t(2) assms(3) show d: "pawn_double b (Turn b) m"
    by (auto simp: pawn_push_def pawn_capture_def en_passant_def reaches_Pawn simp del: reaches.simps)
  show "sqAt b (From m) = MakePiece (Turn b) Pawn" by (rule t(1))
  have F: "From m = sq (fileOf (From m)) (rankOf (From m))" and T: "To m = sq (fileOf (From m)) (rankOf (From m) + 2 * pawnDir (Turn b))"
    using idx d sq_fileOf_rankOf [of "From m"] sq_fileOf_rankOf [of "To m"] by (simp_all add: square_index_nonneg pawn_double_def)
  have sum: "From m + To m = 2 * sq (fileOf (From m)) (rankOf (From m) + pawnDir (Turn b))"
    using F T by (auto simp: sq_def algebra_simps)
  show mid: "(From m + To m) sdiv 2 = sq (fileOf (From m)) (rankOf (From m) + pawnDir (Turn b))"
    using sum sdiv_nonneg [of "From m + To m" 2] square_index_nonneg [OF idx(1)] square_index_nonneg [OF idx(2)] by simp
  show "To m = (From m + To m) sdiv 2 + 8 * pawnDir (Turn b)"
    unfolding mid by (subst T) (simp add: sq_def)
  show "onBoard (fileOf (From m)) (rankOf (From m) + pawnDir (Turn b))"
    using idx(1) d by (intro onBoard_rank) (auto simp: pawn_double_def startRank_def pawnDir_def)
qed

lemma ep_ok_step:
  assumes v: "valid_position b" and p: "pseudo_legal b m"
  shows "ep_ok (applyMoveUnchecked b m)"
proof (cases "Piece_Type (sqAt b (From m)) = Pawn \<and> \<bar>rankOf (To m) - rankOf (From m)\<bar> = 2")
  case False
  then have "EnPassant (applyMoveUnchecked b m) = NoSquare" by (simp only: apply_fields(5) if_False)
  then show ?thesis by (simp add: ep_ok_def)
next
  case True
  let ?e = "(From m + To m) sdiv 2"
  note d = double_push [OF p conjunct1 [OF True] conjunct2 [OF True]]
  have wf: "wf_board b" "wf_move m" using v p by (auto simp: valid_position_def pseudo_legal_wf_move)
  have ne: "From m \<noteq> To m" using True by auto
  have nc: "\<not> isCastle b m" using True by (simp add: isCastle_def)
  have pl: "placed b m = MakePiece (Turn b) Pawn" using d(1,2) by (simp add: placed_def pawn_double_def)
  have er: "rankOf ?e = rankOf (From m) + pawnDir (Turn b)" "square_index ?e" using d(3,5) by simp_all
  have "?e \<noteq> To m" using d(4) pawnDir_nz [of "Turn b"] by linarith
  moreover have "IsEmpty (sqAt b ?e)" using d(1) unfolding d(3) pawn_double_def by blast
  ultimately have empty: "IsEmpty (sqAt (moved b m) ?e)" using sqAt_moved_plain [OF wf ne nc, of ?e] by simp
  have to: "sqAt (moved b m) (To m) = MakePiece (Turn b) Pawn" using sqAt_moved_plain [OF wf ne nc, of "To m"] pl by simp
  have "rankOf (From m) = startRank (Turn b)" using d(1) by (simp add: pawn_double_def)
  moreover have "pawnDir (Opposite (Turn b)) = - pawnDir (Turn b)" by (cases "Turn b") (simp_all add: startRank_values)
  ultimately show ?thesis
    using True er empty to d(4) by (simp add: ep_ok_def apply_fields algebra_simps)
qed

theorem valid_position_step:
  assumes v: "valid_position b" and l: "m \<in> set (LegalMoves b)"
  shows "valid_position (applyMoveUnchecked b m)"
proof -
  have wf: "wf_board b" using v by (simp add: valid_position_def)
  have p: "pseudo_legal b m" using l pseudoLegalMoves_spec [OF wf] by (auto simp: LegalMoves_def)
  have "wf_board (applyMoveUnchecked b m)"
    using wf pseudo_legal_wf_move [OF p] by (simp add: apply_fields(2) wf_intros)
  moreover have "one_king (applyMoveUnchecked b m) c" for c
    using one_king_step [OF v p, of c] by (simp add: one_king_def apply_fields(1))
  moreover have "pawns_ok (applyMoveUnchecked b m)"
    using pawns_ok_step [OF v p] by (simp add: pawns_ok_def apply_fields(1))
  moreover have "\<not> IsAttacked (applyMoveUnchecked b m) (kingSquare (applyMoveUnchecked b m) (Turn b)) (Opposite (Turn b))"
    using l by (simp add: LegalMoves_def kingSafeAfter_def Let_def)
  ultimately show ?thesis
    using castling_ok_step [OF v p] ep_ok_step [OF v p] by (simp add: valid_position_def apply_fields(3))
qed

end
