(* ===== verification/Chess_Fen.thy ===== *)
theory Chess_Fen
  imports Chess_Position
begin

text \<open>
  Reading and writing positions (\<open>pkg/chess/fen.go\<close>).  \<open>ParseFEN\<close> goes through the six
  fields in the order of the source and returns the first error it meets; \<open>FENError\<close> has one
  constructor for each message, all of which wrap \<open>ErrInvalidFEN\<close>.

  \<open>fen_ok\<close> says which boards a FEN string can describe.  \<open>ParseFEN_ok\<close> shows that parsing
  yields only such boards, \<open>ParseFEN_FEN\<close> that each of them parses back from its rendering.
\<close>

section \<open>The parser\<close>

datatype FENError =
    FieldCount nat
  | RankCount nat
  | BadPiece char
  | RankOverflow int
  | RankFiles int int
  | BadSide string
  | BadCastling string
  | BadEnPassant string
  | BadHalfMove string
  | BadFullMove string

definition StartFEN :: string where
  "StartFEN = ''rnbqkbnr/pppppppp/8/8/8/8/PPPPPPPP/RNBQKBNR w KQkq - 0 1''"

definition fenTable :: "(char \<times> Piece) list" where
  "fenTable =
     [(CHR ''P'', MakePiece White Pawn), (CHR ''N'', MakePiece White Knight), (CHR ''B'', MakePiece White Bishop),
      (CHR ''R'', MakePiece White Rook), (CHR ''Q'', MakePiece White Queen), (CHR ''K'', MakePiece White King),
      (CHR ''p'', MakePiece Black Pawn), (CHR ''n'', MakePiece Black Knight), (CHR ''b'', MakePiece Black Bishop),
      (CHR ''r'', MakePiece Black Rook), (CHR ''q'', MakePiece Black Queen), (CHR ''k'', MakePiece Black King)]"

definition fenPieceToPiece :: "char \<Rightarrow> Piece option" where
  "fenPieceToPiece c = map_of fenTable c"

text \<open>A byte that is no piece indexes the map at a missing key: the zero byte.\<close>

definition pieceToFEN :: "Piece \<Rightarrow> char" where
  "pieceToFEN p = (case map_of (map prod.swap fenTable) p of Some c \<Rightarrow> c | None \<Rightarrow> CHR 0x00)"

text \<open>The inner loop over one rank: the rest of the string, the file reached, the board so far.\<close>

fun parseRank :: "int \<Rightarrow> string \<Rightarrow> int \<Rightarrow> Board \<Rightarrow> FENError + (int \<times> Board)" where
  "parseRank rank [] file b = Inr (file, b)"
| "parseRank rank (ch # chs) file b =
     (if code ch \<ge> code (CHR ''1'') \<and> code ch \<le> code (CHR ''8'')
      then parseRank rank chs (file + (code ch - code (CHR ''0''))) b
      else case fenPieceToPiece ch of
             None \<Rightarrow> Inl (BadPiece ch)
           | Some p \<Rightarrow>
               if file > 7 then Inl (RankOverflow (rank + 1))
               else parseRank rank chs (file + 1) (setSq (sq file rank) p b))"

text \<open>The outer loop over the ranks; \<open>i\<close> counts from 0, and rank 8 comes first.\<close>

fun parseRanks :: "int \<Rightarrow> string list \<Rightarrow> Board \<Rightarrow> FENError + Board" where
  "parseRanks i [] b = Inr b"
| "parseRanks i (rankStr # ranks) b =
     andThen (parseRank (7 - i) rankStr 0 b)
       (\<lambda>(file, b). if file \<noteq> 8 then Inl (RankFiles (7 - i + 1) file) else parseRanks (i + 1) ranks b)"

definition parsePlacement :: "string \<Rightarrow> Board \<Rightarrow> FENError + Board" where
  "parsePlacement field b =
     (let ranks = Split field (CHR ''/'')
      in if length ranks \<noteq> 8 then Inl (RankCount (length ranks)) else parseRanks 0 ranks b)"

definition parseSide :: "string \<Rightarrow> Board \<Rightarrow> FENError + Board" where
  "parseSide field b =
     (if field = ''w'' then Inr (b\<lparr>Turn := White\<rparr>)
      else if field = ''b'' then Inr (b\<lparr>Turn := Black\<rparr>)
      else Inl (BadSide field))"

definition castlingBit :: "char \<Rightarrow> byte option" where
  "castlingBit c =
     (if c = CHR ''K'' then Some CastleWhiteKing else if c = CHR ''Q'' then Some CastleWhiteQueen
      else if c = CHR ''k'' then Some CastleBlackKing else if c = CHR ''q'' then Some CastleBlackQueen
      else None)"

fun parseCastlingChars :: "string \<Rightarrow> string \<Rightarrow> Board \<Rightarrow> FENError + Board" where
  "parseCastlingChars field [] b = Inr b"
| "parseCastlingChars field (c # cs) b =
     (case castlingBit c of
        None \<Rightarrow> Inl (BadCastling field)
      | Some k \<Rightarrow> parseCastlingChars field cs (b\<lparr>Castling := Castling b OR k\<rparr>))"

definition parseCastling :: "string \<Rightarrow> Board \<Rightarrow> FENError + Board" where
  "parseCastling field b = (if field \<noteq> ''-'' then parseCastlingChars field field b else Inr b)"

definition parseEnPassant :: "string \<Rightarrow> Board \<Rightarrow> FENError + Board" where
  "parseEnPassant field b =
     (if field \<noteq> ''-'' then
        (if length field \<noteq> 2 then Inl (BadEnPassant field)
         else case parseSquare (field ! 0) (field ! 1) of
                None \<Rightarrow> Inl (BadEnPassant field)
              | Some s \<Rightarrow> Inr (b\<lparr>EnPassant := s\<rparr>))
      else Inr b)"

definition parseHalfMove :: "string \<Rightarrow> Board \<Rightarrow> FENError + Board" where
  "parseHalfMove field b =
     (case Atoi field of
        None \<Rightarrow> Inl (BadHalfMove field)
      | Some hm \<Rightarrow> if hm < 0 then Inl (BadHalfMove field) else Inr (b\<lparr>HalfMove := hm\<rparr>))"

definition parseFullMove :: "string \<Rightarrow> Board \<Rightarrow> FENError + Board" where
  "parseFullMove field b =
     (case Atoi field of
        None \<Rightarrow> Inl (BadFullMove field)
      | Some fm \<Rightarrow> if fm < 1 then Inl (BadFullMove field) else Inr (b\<lparr>FullMove := fm\<rparr>))"

text \<open>Go's zero value of the struct, with the en-passant square set.\<close>

definition zeroBoard :: Board where
  "zeroBoard = \<lparr>squares = replicate 64 Empty, Turn = White, Castling = 0, EnPassant = NoSquare,
                HalfMove = 0, FullMove = 0\<rparr>"

definition ParseFEN :: "string \<Rightarrow> FENError + Board" where
  "ParseFEN fen =
     (let fields = Fields fen
      in if length fields \<noteq> 6 then Inl (FieldCount (length fields))
         else andThen (parsePlacement (fields ! 0) zeroBoard)
           (\<lambda>b. andThen (parseSide (fields ! 1) b)
           (\<lambda>b. andThen (parseCastling (fields ! 2) b)
           (\<lambda>b. andThen (parseEnPassant (fields ! 3) b)
           (\<lambda>b. andThen (parseHalfMove (fields ! 4) b)
           (\<lambda>b. parseFullMove (fields ! 5) b))))))"

text \<open>\<open>None\<close> is the panic of \<open>NewBoard\<close>.\<close>

definition NewBoard :: "Board option" where
  "NewBoard = (case ParseFEN StartFEN of Inl e \<Rightarrow> None | Inr b \<Rightarrow> Some b)"

section \<open>The writer\<close>

definition emptyRun :: "nat \<Rightarrow> string" where
  "emptyRun run = (if run > 0 then [digit_char run] else [])"

text \<open>The loop over the files of one rank, given the pieces on it.\<close>

fun writeRank :: "nat \<Rightarrow> Piece list \<Rightarrow> string" where
  "writeRank run [] = emptyRun run"
| "writeRank run (p # ps) =
     (if IsEmpty p then writeRank (run + 1) ps
      else emptyRun run @ pieceToFEN p # writeRank 0 ps)"

definition rankPieces :: "Board \<Rightarrow> int \<Rightarrow> Piece list" where
  "rankPieces b rank = map (\<lambda>file. sqAt b (sq file rank)) [0..7]"

definition writePlacement :: "Board \<Rightarrow> string" where
  "writePlacement b =
     concat (map (\<lambda>rank. writeRank 0 (rankPieces b rank) @ (if rank > 0 then ''/'' else []))
       [7, 6, 5, 4, 3, 2, 1, 0])"

definition writeCastling :: "byte \<Rightarrow> string" where
  "writeCastling c =
     (if c = 0 then ''-''
      else (if c AND CastleWhiteKing \<noteq> 0 then ''K'' else []) @
           (if c AND CastleWhiteQueen \<noteq> 0 then ''Q'' else []) @
           (if c AND CastleBlackKing \<noteq> 0 then ''k'' else []) @
           (if c AND CastleBlackQueen \<noteq> 0 then ''q'' else []))"

definition FEN :: "Board \<Rightarrow> string" where
  "FEN b =
     writePlacement b @
     (if Turn b = White then '' w '' else '' b '') @
     writeCastling (Castling b) @
     '' '' @ (if EnPassant b = NoSquare then ''-'' else squareName (EnPassant b)) @
     '' '' @ Itoa (HalfMove b) @ '' '' @ Itoa (FullMove b)"

section \<open>Boards a FEN string describes\<close>

definition fen_ok :: "Board \<Rightarrow> bool" where
  "fen_ok b \<longleftrightarrow> wf_board b \<and> Castling b < 16 \<and>
     (EnPassant b = NoSquare \<or> square_index (EnPassant b)) \<and>
     0 \<le> HalfMove b \<and> int64_range (HalfMove b) \<and> 1 \<le> FullMove b \<and> int64_range (FullMove b)"

section \<open>Tables\<close>

lemma fenPieceToPiece_pieceToFEN:
  assumes "real_type t"
  shows "fenPieceToPiece (pieceToFEN (MakePiece c t)) = Some (MakePiece c t)"
  using assms by (cases c; cases t) (simp_all add: fenPieceToPiece_def pieceToFEN_def fenTable_def)

lemma pieceToFEN_plain:
  assumes "real_type t"
  shows "plain (pieceToFEN (MakePiece c t))" "pieceToFEN (MakePiece c t) \<noteq> CHR ''/''"
    "\<not> (49 \<le> code (pieceToFEN (MakePiece c t)) \<and> code (pieceToFEN (MakePiece c t)) \<le> 56)"
  using assms by (cases c; cases t; simp add: pieceToFEN_def fenTable_def plain_def ascii_space_def code_def)+

lemma fenPieceToPiece_valid: "fenPieceToPiece ch = Some p \<Longrightarrow> valid_piece p"
  by (auto simp: fenPieceToPiece_def fenTable_def split: if_splits)

section \<open>What parsing yields\<close>

lemma wf_zeroBoard [simp]: "wf_board zeroBoard"
  by (simp add: wf_board_def zeroBoard_def list_all_iff)

abbreviation same_state :: "Board \<Rightarrow> Board \<Rightarrow> bool" where
  "same_state b b' \<equiv> Turn b' = Turn b \<and> Castling b' = Castling b \<and> EnPassant b' = EnPassant b \<and>
     HalfMove b' = HalfMove b \<and> FullMove b' = FullMove b"

lemma parseRank_wf:
  "parseRank rank s fl b = Inr (f, b') \<Longrightarrow> wf_board b \<Longrightarrow> wf_board b' \<and> same_state b b'"
proof (induction rank s fl b rule: parseRank.induct)
  case (2 rank ch chs fl b)
  show ?case
  proof (cases "code ch \<ge> code (CHR ''1'') \<and> code ch \<le> code (CHR ''8'')")
    case True
    with 2 show ?thesis by simp
  next
    case False
    with "2.prems" obtain p where p: "fenPieceToPiece ch = Some p" "\<not> fl > 7"
      and r: "parseRank rank chs (fl + 1) (setSq (sq fl rank) p b) = Inr (f, b')"
      by (auto split: option.splits if_splits)
    have "wf_board (setSq (sq fl rank) p b)" using p fenPieceToPiece_valid "2.prems" by (simp add: wf_intros)
    then show ?thesis using "2.IH"(2) [OF False p r] by simp
  qed
qed simp

lemma parseRanks_wf:
  "parseRanks i ranks b = Inr b' \<Longrightarrow> wf_board b \<Longrightarrow> wf_board b' \<and> same_state b b'"
proof (induction ranks arbitrary: i b)
  case (Cons rankStr ranks)
  then obtain b1 where r: "parseRank (7 - i) rankStr 0 b = Inr (8, b1)" "parseRanks (i + 1) ranks b1 = Inr b'"
    by (auto simp: andThen_Inr split: if_splits)
  note w = parseRank_wf [OF r(1) Cons.prems(2)]
  show ?case using Cons.IH [OF r(2)] w by simp
qed simp

lemma low_nibble: "(x :: byte) < 16 \<longleftrightarrow> drop_bit 4 x = 0"
proof -
  have "drop_bit 4 x = 0 \<longleftrightarrow> drop_bit 4 (unat x) = 0" by (simp only: unsigned_eq_0_iff flip: unat_drop_bit_eq)
  then show ?thesis by (simp add: drop_bit_eq_div [where ?'a = nat] word_less_nat_alt div_eq_0_iff)
qed

lemma castlingBit_low: "castlingBit c = Some k \<Longrightarrow> x < 16 \<Longrightarrow> x OR k < (16 :: byte)"
  by (auto simp: low_nibble drop_bit_or castlingBit_def castle_bits split: if_splits)

lemma parseCastlingChars_ok:
  "parseCastlingChars field s b = Inr b' \<Longrightarrow> Castling b < 16 \<Longrightarrow>
     Castling b' < 16 \<and> (wf_board b' \<longleftrightarrow> wf_board b) \<and> EnPassant b' = EnPassant b"
  by (induction field s b rule: parseCastlingChars.induct)
    (auto split: option.splits dest: castlingBit_low)

lemma Atoi_range: "Atoi s = Some i \<Longrightarrow> int64_range i"
  by (auto simp: Atoi_def Let_def split: if_splits)

lemma ParseFEN_ok:
  assumes "ParseFEN s = Inr b"
  shows "fen_ok b"
proof -
  let ?f = "Fields s"
  from assms obtain b1 b2 b3 b4 b5 where
    p: "parsePlacement (?f ! 0) zeroBoard = Inr b1" "parseSide (?f ! 1) b1 = Inr b2" "parseCastling (?f ! 2) b2 = Inr b3"
       "parseEnPassant (?f ! 3) b3 = Inr b4" "parseHalfMove (?f ! 4) b4 = Inr b5" "parseFullMove (?f ! 5) b5 = Inr b"
    by (auto simp: ParseFEN_def Let_def andThen_Inr split: if_splits)
  have b1: "wf_board b1" "Castling b1 = 0" "EnPassant b1 = NoSquare"
    using p(1) parseRanks_wf [of 0 _ zeroBoard b1]
    by (simp_all add: parsePlacement_def Let_def zeroBoard_def [symmetric] split: if_splits) (simp_all add: zeroBoard_def)
  then have "wf_board b2" "Castling b2 < 16" "EnPassant b2 = NoSquare"
    using p(2) b1 by (auto simp: parseSide_def split: if_splits)
  then have "wf_board b3 \<and> Castling b3 < 16 \<and> EnPassant b3 = NoSquare"
    using p(3) by (auto simp: parseCastling_def split: if_splits dest!: parseCastlingChars_ok)
  then have "wf_board b4 \<and> Castling b4 < 16 \<and> (EnPassant b4 = NoSquare \<or> square_index (EnPassant b4))"
    using p(4) by (auto simp: parseEnPassant_def split: if_splits option.splits dest: parseSquare_Some)
  then have "wf_board b5 \<and> Castling b5 < 16 \<and> (EnPassant b5 = NoSquare \<or> square_index (EnPassant b5)) \<and>
      0 \<le> HalfMove b5 \<and> int64_range (HalfMove b5)"
    using p(5) by (auto simp: parseHalfMove_def split: if_splits option.splits dest: Atoi_range)
  then show ?thesis
    using p(6) by (auto simp: parseFullMove_def fen_ok_def split: if_splits option.splits dest: Atoi_range)
qed

section \<open>Parsing what was written\<close>

text \<open>The squares a rank of pieces writes, from file \<open>f\<close> on.\<close>

fun place :: "int \<Rightarrow> int \<Rightarrow> Piece list \<Rightarrow> Board \<Rightarrow> Board" where
  "place rank f [] b = b"
| "place rank f (p # ps) b = place rank (f + 1) ps (if IsEmpty p then b else setSq (sq f rank) p b)"

lemma code_digit_char: "n < 10 \<Longrightarrow> code (digit_char n) = 48 + int n"
  by (simp add: code_def of_char_digit_int)

lemma code_zero: "code (CHR ''0'') = 48"
  by (simp add: code_def)

lemma parse_emptyRun:
  "n \<le> 8 \<Longrightarrow> parseRank rank (emptyRun n @ s) f b = parseRank rank s (f + int n) b"
  by (auto simp: emptyRun_def code_digit_char code_zero)

lemma parse_writeRank:
  assumes "list_all valid_piece ps" and "f + int n + int (length ps) \<le> 8" and "0 \<le> f"
  shows "parseRank rank (writeRank n ps) f b =
     Inr (f + int n + int (length ps), place rank (f + int n) ps b)"
  using assms
proof (induction ps arbitrary: n f b)
  case Nil
  then show ?case using parse_emptyRun [of n rank "[]" f b] by simp
next
  case (Cons p ps)
  from Cons.prems(1) have "valid_piece p" by simp
  then show ?case
  proof (cases rule: valid_piece_cases)
    case empty
    with Cons.prems Cons.IH [of f "n + 1" b] show ?thesis by (simp add: algebra_simps)
  next
    case (piece c t)
    note letter = pieceToFEN_plain(3) [OF piece(1), of c] fenPieceToPiece_pieceToFEN [OF piece(1), of c]
    have "n \<le> 8" using Cons.prems by simp
    then show ?thesis
      using Cons.prems Cons.IH [of "f + int n + 1" 0 "setSq (sq (f + int n) rank) p b"] piece letter
      by (auto simp: parse_emptyRun algebra_simps)
  qed
qed

lemma rankPieces_length [simp]: "length (rankPieces b r) = 8"
  by (simp add: rankPieces_def)

lemma rankPieces_valid: "wf_board b \<Longrightarrow> list_all valid_piece (rankPieces b r)"
  by (simp add: rankPieces_def list_all_iff)

lemma parse_rankPieces:
  "wf_board b \<Longrightarrow> parseRank r (writeRank 0 (rankPieces b r)) 0 b' = Inr (8, place r 0 (rankPieces b r) b')"
  using parse_writeRank [OF rankPieces_valid, of b 0 0 r r b'] by simp

lemma place_state [simp]: "same_state b (place r f ps b)"
  by (induction ps arbitrary: f b) auto

lemma wf_board_place: "wf_board b \<Longrightarrow> list_all valid_piece ps \<Longrightarrow> wf_board (place r f ps b)"
  by (induction ps arbitrary: f b) (auto simp: wf_intros)

lemma sqAt_place:
  assumes "wf_board b" and "wf_board b'" and "0 \<le> f" and "0 \<le> r" and "r < 8"
  shows "sqAt (place r f (map (\<lambda>k. sqAt b (sq k r)) [f..7]) b') s =
     (if square_index s \<and> rankOf s = r \<and> f \<le> fileOf s \<and> \<not> IsEmpty (sqAt b s) then sqAt b s else sqAt b' s)"
  using assms
proof (induction "nat (8 - f)" arbitrary: f b')
  case 0
  then have "fileOf s < f" if "square_index s" using onBoard_fileOf_rankOf [OF that] by (simp add: onBoard_def)
  with 0 show ?case by auto
next
  case (Suc n)
  let ?b = "if IsEmpty (sqAt b (sq f r)) then b' else setSq (sq f r) (sqAt b (sq f r)) b'"
  have f: "f \<le> 7" using Suc.hyps(2) by simp
  have on: "onBoard f r" using f Suc.prems by (simp add: onBoard_def)
  have w: "wf_board ?b" using Suc.prems by (simp add: wf_intros)
  have at: "sqAt ?b s = (if s = sq f r \<and> \<not> IsEmpty (sqAt b s) then sqAt b s else sqAt b' s)"
    using Suc.prems on by (auto simp: board_simps)
  have here: "s = sq f r \<longleftrightarrow> square_index s \<and> rankOf s = r \<and> fileOf s = f"
    using on sq_fileOf_rankOf [of s] square_index_nonneg [of s] by auto
  have "[f..7] = f # [f + 1..7]" using f by (simp add: upto_rec1)
  then show ?case
    using Suc.hyps(1) [of "f + 1" ?b] Suc.hyps(2) Suc.prems w by (auto simp: at here)
qed

lemma sqAt_place_rank:
  "wf_board b \<Longrightarrow> wf_board b' \<Longrightarrow> 0 \<le> r \<Longrightarrow> r < 8 \<Longrightarrow>
     sqAt (place r 0 (rankPieces b r) b') s =
     (if square_index s \<and> rankOf s = r \<and> \<not> IsEmpty (sqAt b s) then sqAt b s else sqAt b' s)"
  using sqAt_place [of b b' 0 r s] onBoard_fileOf_rankOf [of s] by (auto simp: rankPieces_def onBoard_def)

text \<open>Parsing the ranks of a board from the top, for the last \<open>n\<close> ranks.\<close>

definition rankTexts :: "Board \<Rightarrow> int list \<Rightarrow> string list" where
  "rankTexts b rs = map (\<lambda>r. writeRank 0 (rankPieces b r)) rs"

lemma parse_ranks:
  assumes "wf_board b" and "wf_board b'" and "n \<le> 8"
  shows "\<exists>nb. parseRanks (8 - int n) (rankTexts b (rev [0..int n - 1])) b' = Inr nb \<and> wf_board nb \<and> same_state b' nb \<and>
     (\<forall>s. sqAt nb s = (if square_index s \<and> rankOf s < int n \<and> \<not> IsEmpty (sqAt b s) then sqAt b s else sqAt b' s))"
  using assms(2,3)
proof (induction n arbitrary: b')
  case 0
  have "\<not> rankOf s < 0" if "square_index s" for s using onBoard_fileOf_rankOf [OF that] by (simp add: onBoard_def)
  then show ?case using 0 by (auto simp: rankTexts_def)
next
  case (Suc n)
  let ?b = "place (int n) 0 (rankPieces b (int n)) b'"
  have w: "wf_board ?b" using Suc.prems assms(1) by (simp add: wf_board_place rankPieces_valid)
  have e: "rankTexts b (rev [0..int (Suc n) - 1]) = writeRank 0 (rankPieces b (int n)) # rankTexts b (rev [0..int n - 1])"
    using upto_rec2 [of 0 "int n"] by (simp add: rankTexts_def)
  obtain nb where nb: "parseRanks (8 - int n) (rankTexts b (rev [0..int n - 1])) ?b = Inr nb" "wf_board nb" "same_state ?b nb"
    "\<And>s. sqAt nb s = (if square_index s \<and> rankOf s < int n \<and> \<not> IsEmpty (sqAt b s) then sqAt b s else sqAt ?b s)"
    using Suc.IH [OF w] Suc.prems by auto
  have "parseRanks (8 - int (Suc n)) (rankTexts b (rev [0..int (Suc n) - 1])) b' = Inr nb"
    unfolding e using nb(1) assms(1) by (simp add: parse_rankPieces)
  moreover have "sqAt nb s = (if square_index s \<and> rankOf s < int (Suc n) \<and> \<not> IsEmpty (sqAt b s) then sqAt b s else sqAt b' s)" for s
    using nb(4) [of s] sqAt_place_rank [OF assms(1) Suc.prems(1), of "int n" s] Suc.prems by auto
  ultimately show ?case using nb(2,3) by auto
qed

lemma rev_ranks: "rev [0..7] = [7, 6, 5, 4, 3, 2, 1, 0 :: int]"
  by (simp add: upto_rec1)

lemma writePlacement_Join: "writePlacement b = Join (rankTexts b (rev [0..7])) ''/''"
  by (simp add: writePlacement_def rankTexts_def rev_ranks)

lemma writeRank_chars:
  assumes "list_all valid_piece ps" and "n + length ps \<le> 8"
  shows "list_all (\<lambda>c. plain c \<and> c \<noteq> CHR ''/'') (writeRank n ps)"
proof -
  have run: "list_all (\<lambda>c. plain c \<and> c \<noteq> CHR ''/'') (emptyRun k)" if "k \<le> 8" for k
  proof -
    have "is_digit (digit_char k)" using that by simp
    moreover have "\<not> is_digit (CHR ''/'')" by (simp add: is_digit_def)
    ultimately show ?thesis using is_digit_plain by (auto simp: emptyRun_def)
  qed
  show ?thesis
    using assms
  proof (induction n ps rule: writeRank.induct)
    case (2 n p ps)
    then show ?case
      using run [of n] by (auto elim!: valid_piece_cases simp: pieceToFEN_plain)
  qed (simp add: run)
qed

lemma writeRank_nonempty: "ps \<noteq> [] \<or> n > 0 \<Longrightarrow> writeRank n ps \<noteq> []"
  by (induction n ps rule: writeRank.induct) (auto simp: emptyRun_def)

lemma rankTexts_chars:
  assumes "wf_board b"
  shows "list_all (\<lambda>w. list_all (\<lambda>c. plain c \<and> c \<noteq> CHR ''/'') w) (rankTexts b rs)"
  using writeRank_chars [OF rankPieces_valid [OF assms], of 0] by (simp add: rankTexts_def list_all_iff)

lemma Join_plain: "plain c \<Longrightarrow> list_all (list_all plain) ws \<Longrightarrow> list_all plain (Join ws [c])"
  by (induction ws rule: induct_list012) auto

lemma Join_nonempty: "w \<noteq> [] \<Longrightarrow> Join (w # ws) sep \<noteq> []"
  by (cases ws) auto

lemma writePlacement_word:
  assumes "wf_board b"
  shows "word (writePlacement b)"
proof -
  have "list_all (list_all plain) (rankTexts b (rev [0..7]))"
    using rankTexts_chars [OF assms, of "rev [0..7]"] by (auto simp: list_all_iff)
  then have "list_all plain (writePlacement b)"
    unfolding writePlacement_Join by (intro Join_plain) (simp add: plain_def ascii_space_def)
  moreover have "writePlacement b \<noteq> []"
    using writeRank_nonempty [of "rankPieces b 7" 0] rankPieces_length [of b 7]
    unfolding writePlacement_Join rev_ranks by (simp add: rankTexts_def)
  ultimately show ?thesis by (simp add: word_def)
qed

lemma parsePlacement_write:
  assumes "wf_board b"
  obtains nb where "parsePlacement (writePlacement b) zeroBoard = Inr nb" and "squares nb = squares b"
    and "same_state zeroBoard nb"
proof -
  let ?t = "rankTexts b (rev [0..7])"
  have "list_all (\<lambda>w. CHR ''/'' \<notin> set w) ?t"
    using rankTexts_chars [OF assms, of "rev [0..7]"] by (auto simp: list_all_iff)
  moreover have len: "length ?t = 8" by (simp add: rankTexts_def)
  ultimately have split: "Split (writePlacement b) (CHR ''/'') = ?t"
    unfolding writePlacement_Join by (intro Split_Join) auto
  obtain nb where nb: "parseRanks 0 ?t zeroBoard = Inr nb" "wf_board nb" "same_state zeroBoard nb"
    "\<And>s. sqAt nb s = (if square_index s \<and> rankOf s < 8 \<and> \<not> IsEmpty (sqAt b s) then sqAt b s else sqAt zeroBoard s)"
    using parse_ranks [OF assms wf_zeroBoard, of 8] by auto
  have zero: "sqAt zeroBoard s = Empty" for s by (auto simp: sqAt_def zeroBoard_def square_index_def)
  have at: "sqAt nb s = sqAt b s" if "square_index s" for s
    using nb(4) [of s] onBoard_fileOf_rankOf [OF that] zero [of s] by (auto simp: onBoard_def IsEmpty_def)
  have "squares nb ! i = squares b ! i" if "i < 64" for i
    using that at [of "int i"] by (simp add: sqAt_def square_index_def)
  then have "squares nb = squares b" using nb(2) assms by (intro nth_equalityI) (auto simp: wf_board_def)
  then show ?thesis using that nb split len by (simp add: parsePlacement_def Let_def)
qed

text \<open>The castling field: sixteen values of the four bits.\<close>

lemma nibble_cases:
  assumes "(x :: byte) < 16"
  shows "x \<in> {0, 1, 2, 3, 4, 5, 6, 7, 8, 9, 10, 11, 12, 13, 14, 15}"
proof -
  have "unat x < 16" using assms by (simp add: word_less_nat_alt)
  then have "unat x \<in> {0, 1, 2, 3, 4, 5, 6, 7, 8, 9, 10, 11, 12, 13, 14, 15}" by (simp, arith)
  moreover have "of_nat k \<in> {0, 1, 2, 3, 4, 5, 6, 7, 8, 9, 10, 11, 12, 13, 14, 15 :: byte}"
    if "k \<in> {0, 1, 2, 3, 4, 5, 6, 7, 8, 9, 10, 11, 12, 13, 14, 15}" for k
    using that by (elim insertE) simp_all
  ultimately have "of_nat (unat x) \<in> {0, 1, 2, 3, 4, 5, 6, 7, 8, 9, 10, 11, 12, 13, 14, 15 :: byte}" by blast
  then show ?thesis by simp
qed

lemma parseCastling_write:
  assumes "x < 16" and "Castling b = 0"
  shows "parseCastling (writeCastling x) b = Inr (b\<lparr>Castling := x\<rparr>)"
  using nibble_cases [OF assms(1)] assms(2)
  by (elim insertE) (simp_all add: parseCastling_def writeCastling_def castlingBit_def castle_bits)

lemma writeCastling_word:
  assumes "x < 16"
  shows "word (writeCastling x)"
  using nibble_cases [OF assms]
  by (elim insertE) (simp_all add: writeCastling_def castle_bits word_def plain_def ascii_space_def)

lemma squareName_word: "square_index s \<Longrightarrow> word (squareName s)"
proof -
  assume "square_index s"
  then have "onBoard (fileOf s) (rankOf s)" by simp
  then have c: "code (squareName s ! 0) = 97 + fileOf s" "code (squareName s ! 1) = 49 + rankOf s"
    and b: "0 \<le> fileOf s" "fileOf s < 8" "0 \<le> rankOf s" "rankOf s < 8"
    by (auto simp: squareName_def code_char_of onBoard_def)
  have "plain k" if "49 \<le> code k" "code k < 128" for k
  proof -
    have "of_char k < (128 :: nat)" using that unfolding nat_code [symmetric] by simp
    moreover have "\<not> ascii_space k" using that(1) by (auto simp: ascii_space_def code_def)
    ultimately show ?thesis by (simp add: plain_def)
  qed
  then show ?thesis using c b by (auto simp: word_def squareName_def)
qed

lemma squareName_length [simp]: "length (squareName s) = 2"
  by (simp add: squareName_def)

lemma squareName_not_dash: "squareName s \<noteq> ''-''"
  using squareName_length [of s] by (metis length_Cons list.size(3) numeral_2_eq_2 Zero_not_Suc nat.inject)

definition fenFields :: "Board \<Rightarrow> string list" where
  "fenFields b =
     [writePlacement b, if Turn b = White then ''w'' else ''b'', writeCastling (Castling b),
      if EnPassant b = NoSquare then ''-'' else squareName (EnPassant b), Itoa (HalfMove b), Itoa (FullMove b)]"

lemma FEN_Join: "FEN b = Join (fenFields b) '' ''"
  by (simp add: FEN_def fenFields_def)

lemma fenFields_words: "fen_ok b \<Longrightarrow> list_all word (fenFields b)"
  by (auto simp: fenFields_def fen_ok_def writePlacement_word writeCastling_word squareName_word Itoa_word)
    (auto simp: word_def plain_def ascii_space_def)

lemma Fields_FEN: "fen_ok b \<Longrightarrow> Fields (FEN b) = fenFields b"
  by (simp add: FEN_Join Fields_Join fenFields_words)

lemma ParseFEN_FEN:
  assumes "fen_ok b"
  shows "ParseFEN (FEN b) = Inr b"
proof -
  have wf: "wf_board b" using assms by (simp add: fen_ok_def)
  obtain nb where nb: "parsePlacement (writePlacement b) zeroBoard = Inr nb" "squares nb = squares b" "same_state zeroBoard nb"
    using parsePlacement_write [OF wf] by blast
  let ?b1 = "nb\<lparr>Turn := Turn b\<rparr>" and ?b2 = "nb\<lparr>Turn := Turn b, Castling := Castling b\<rparr>"
  let ?b3 = "nb\<lparr>Turn := Turn b, Castling := Castling b, EnPassant := EnPassant b\<rparr>"
  have side: "parseSide (if Turn b = White then ''w'' else ''b'') nb = Inr ?b1"
    by (cases "Turn b") (simp_all add: parseSide_def)
  have castling: "parseCastling (writeCastling (Castling b)) ?b1 = Inr ?b2"
    using assms nb(3) parseCastling_write [of "Castling b" ?b1] by (simp add: fen_ok_def zeroBoard_def)
  have ep: "parseEnPassant (if EnPassant b = NoSquare then ''-'' else squareName (EnPassant b)) ?b2 = Inr ?b3"
    using assms nb(3) by (auto simp: parseEnPassant_def fen_ok_def parseSquare_squareName [simplified] squareName_not_dash zeroBoard_def)
  have half: "parseHalfMove (Itoa (HalfMove b)) b' = Inr (b'\<lparr>HalfMove := HalfMove b\<rparr>)" for b'
    using assms by (simp add: parseHalfMove_def Atoi_Itoa fen_ok_def)
  have full: "parseFullMove (Itoa (FullMove b)) b' = Inr (b'\<lparr>FullMove := FullMove b\<rparr>)" for b'
    using assms by (simp add: parseFullMove_def Atoi_Itoa fen_ok_def)
  have "ParseFEN (FEN b) = Inr (?b3\<lparr>HalfMove := HalfMove b, FullMove := FullMove b\<rparr>)"
    using assms nb(1) side castling ep half full
    by (simp only: ParseFEN_def Fields_FEN Let_def fenFields_def) simp
  then show ?thesis using nb(2) by simp
qed

section \<open>The starting position\<close>

definition startBoard :: Board where
  "startBoard = \<lparr>squares =
       map (MakePiece White) [Rook, Knight, Bishop, Queen, King, Bishop, Knight, Rook] @
       replicate 8 (MakePiece White Pawn) @ replicate 32 Empty @ replicate 8 (MakePiece Black Pawn) @
       map (MakePiece Black) [Rook, Knight, Bishop, Queen, King, Bishop, Knight, Rook],
     Turn = White, Castling = 15, EnPassant = NoSquare, HalfMove = 0, FullMove = 1\<rparr>"

lemma FEN_startBoard: "FEN startBoard = StartFEN"
  by code_simp

lemma valid_startBoard: "valid_position startBoard"
  by code_simp

lemma fen_ok_startBoard: "fen_ok startBoard"
  using valid_startBoard by (simp add: fen_ok_def valid_position_def startBoard_def int64_range_def)

lemma NewBoard_startBoard: "NewBoard = Some startBoard"
  using ParseFEN_FEN [OF fen_ok_startBoard] by (simp add: NewBoard_def FEN_startBoard)

end
