(* ===== verification/Chess_Outcome.thy ===== *)
theory Chess_Outcome
  imports Chess_Fen
begin

text \<open>
  How a game ends (\<open>pkg/chess/outcome.go\<close>): checkmate, stalemate, insufficient material, the
  fifty-move rule and threefold repetition.

  \<open>legal_move\<close> is the declarative counterpart of \<open>LegalMoves\<close>: a pseudo-legal move after
  which no king of the mover is attacked, with the attack relation of \<open>Chess_Attack\<close>.  The
  lemmas characterise \<open>Outcome\<close> by it, the material scan by the set of pieces on the board,
  and the repetition test by the positions themselves: two FEN strings have the same
  repetition key exactly when placement, side to move, castling rights and en-passant square
  agree.
\<close>

datatype Result = InProgress | WhiteWins | BlackWins | Draw

datatype EndReason = Ongoing | Checkmate | Stalemate | InsufficientMaterial | FiftyMove | ThreefoldRepetition

section \<open>Material\<close>

definition squareColor :: "int \<Rightarrow> int" where
  "squareColor s = (fileOf s + rankOf s) smod 2"

text \<open>
  The loop over the squares.  The accumulators are the counts of minor pieces and the squares
  of the bishops; \<open>None\<close> is the early \<open>return false\<close>.
\<close>

fun materialScan :: "Board \<Rightarrow> int list \<Rightarrow> int \<Rightarrow> int \<Rightarrow> int list \<Rightarrow> (int \<times> int \<times> int list) option" where
  "materialScan b [] whiteMinor blackMinor bishopSquares = Some (whiteMinor, blackMinor, bishopSquares)"
| "materialScan b (s # ss) whiteMinor blackMinor bishopSquares =
     (let p = sqAt b s in
      if IsEmpty p then materialScan b ss whiteMinor blackMinor bishopSquares
      else case Piece_Type p of
          King \<Rightarrow> materialScan b ss whiteMinor blackMinor bishopSquares
        | Bishop \<Rightarrow>
            (if Piece_Color p = White then materialScan b ss (whiteMinor + 1) blackMinor (bishopSquares @ [s])
             else materialScan b ss whiteMinor (blackMinor + 1) (bishopSquares @ [s]))
        | Knight \<Rightarrow>
            (if Piece_Color p = White then materialScan b ss (whiteMinor + 1) blackMinor bishopSquares
             else materialScan b ss whiteMinor (blackMinor + 1) bishopSquares)
        | _ \<Rightarrow> None)"

definition Board_InsufficientMaterial :: "Board \<Rightarrow> bool" where
  "Board_InsufficientMaterial b =
     (case materialScan b [0..63] 0 0 [] of
        None \<Rightarrow> False
      | Some (whiteMinor, blackMinor, bishopSquares) \<Rightarrow>
          (let total = whiteMinor + blackMinor in
           if total = 0 then True
           else if total = 1 then True
           else if total = 2 \<and> length bishopSquares = 2
           then squareColor (bishopSquares ! 0) = squareColor (bishopSquares ! 1)
           else False))"

section \<open>Outcome of a position\<close>

definition Outcome :: "Board \<Rightarrow> Result \<times> EndReason" where
  "Outcome b =
     (if length (LegalMoves b) = 0 then
        (if InCheck b then
           (if Turn b = White then (BlackWins, Checkmate) else (WhiteWins, Checkmate))
         else (Draw, Stalemate))
      else if Board_InsufficientMaterial b then (Draw, InsufficientMaterial)
      else if HalfMove b \<ge> 100 then (Draw, FiftyMove)
      else (InProgress, Ongoing))"

text \<open>The rest of the string, and the number of blanks seen so far.\<close>

fun repKey :: "nat \<Rightarrow> string \<Rightarrow> string" where
  "repKey n [] = []"
| "repKey n (c # cs) =
     (if c = CHR '' '' then (if n + 1 = 4 then [] else c # repKey (n + 1) cs)
      else c # repKey n cs)"

definition repetitionKey :: "string \<Rightarrow> string" where
  "repetitionKey fen = repKey 0 fen"

fun threefoldFrom :: "(string \<Rightarrow> int) \<Rightarrow> string list \<Rightarrow> bool" where
  "threefoldFrom counts [] = False"
| "threefoldFrom counts (f # fs) =
     (let counts = counts(repetitionKey f := counts (repetitionKey f) + 1)
      in if counts (repetitionKey f) \<ge> 3 then True else threefoldFrom counts fs)"

definition threefold :: "string list \<Rightarrow> bool" where
  "threefold fenHistory = threefoldFrom (\<lambda>_. 0) fenHistory"

definition OutcomeWithHistory :: "Board \<Rightarrow> string list \<Rightarrow> Result \<times> EndReason" where
  "OutcomeWithHistory b fenHistory =
     (if fst (Outcome b) \<noteq> InProgress then Outcome b
      else if threefold fenHistory then (Draw, ThreefoldRepetition)
      else (InProgress, Ongoing))"

section \<open>Legal moves, declaratively\<close>

definition legal_move :: "Board \<Rightarrow> Move \<Rightarrow> bool" where
  "legal_move b m \<longleftrightarrow> pseudo_legal b m \<and>
     (\<forall>s. king_on (applyMoveUnchecked b m) (Turn b) s \<longrightarrow>
        \<not> attacked_by (applyMoveUnchecked b m) s (Opposite (Turn b)))"

definition in_check :: "Board \<Rightarrow> bool" where
  "in_check b \<longleftrightarrow> (\<exists>s. king_on b (Turn b) s \<and> attacked_by b s (Opposite (Turn b)))"

lemma one_king_attacked:
  assumes "wf_board b" and "one_king b c"
  shows "IsAttacked b (kingSquare b c) d \<longleftrightarrow> (\<exists>s. king_on b c s \<and> attacked_by b s d)"
proof -
  obtain s where s: "king_on b c s" using assms(2) by (auto simp: one_king_iff)
  then have k: "kingSquare b c = s" using assms(2) by (rule kingSquare_eq [rotated])
  have u: "king_on b c s' \<longleftrightarrow> s' = s" for s' using s assms(2) by (auto simp: one_king_iff)
  have "square_index s" using s by (simp add: king_on_def)
  then show ?thesis unfolding k u using IsAttacked_spec [OF assms(1)] by simp
qed

lemma LegalMoves_spec:
  assumes v: "valid_position b"
  shows "m \<in> set (LegalMoves b) \<longleftrightarrow> legal_move b m"
proof -
  have wf: "wf_board b" using v by (simp add: valid_position_def)
  have "kingSafeAfter b m \<longleftrightarrow> (\<forall>s. king_on (applyMoveUnchecked b m) (Turn b) s \<longrightarrow>
      \<not> attacked_by (applyMoveUnchecked b m) s (Opposite (Turn b)))" if p: "pseudo_legal b m"
  proof -
    have "wf_board (applyMoveUnchecked b m)"
      using wf pseudo_legal_wf_move [OF p] by (simp add: apply_fields(2) wf_intros)
    moreover have "one_king (applyMoveUnchecked b m) (Turn b)"
      using one_king_step [OF v p] by (simp add: one_king_def apply_fields(1))
    ultimately show ?thesis by (auto simp: kingSafeAfter_def Let_def one_king_attacked)
  qed
  then show ?thesis by (auto simp: LegalMoves_def legal_move_def pseudoLegalMoves_spec [OF wf])
qed

lemma valid_one_king: "valid_position b \<Longrightarrow> one_king b c"
  by (cases c) (simp_all add: valid_position_def)

lemma one_king_found: "one_king b c \<Longrightarrow> kingSquare b c \<noteq> NoSquare"
  by (auto simp: kingSquare_None one_king_iff king_on_def)

lemma InCheck_spec: "valid_position b \<Longrightarrow> InCheck b \<longleftrightarrow> in_check b"
  using one_king_attacked [of b "Turn b" "Opposite (Turn b)"] one_king_found [of b "Turn b"] valid_one_king [of b "Turn b"]
  by (simp add: InCheck_def in_check_def valid_position_def Let_def)

lemma no_legal_moves: "valid_position b \<Longrightarrow> length (LegalMoves b) = 0 \<longleftrightarrow> (\<nexists>m. legal_move b m)"
  using LegalMoves_spec [of b] by (metis length_0_conv list.set_sel(1) list.set(1) empty_iff)

section \<open>Material, declaratively\<close>

text \<open>The squares that hold a piece other than a king.\<close>

definition others :: "Board \<Rightarrow> int set" where
  "others b = {s. square_index s \<and> \<not> IsEmpty (sqAt b s) \<and> Piece_Type (sqAt b s) \<noteq> King}"

definition minor :: "Board \<Rightarrow> int \<Rightarrow> bool" where
  "minor b s \<longleftrightarrow> Piece_Type (sqAt b s) = Knight \<or> Piece_Type (sqAt b s) = Bishop"

definition insufficient :: "Board \<Rightarrow> bool" where
  "insufficient b \<longleftrightarrow> (\<forall>s \<in> others b. minor b s) \<and>
     (card (others b) \<le> 1 \<or>
      card (others b) = 2 \<and> (\<forall>s \<in> others b. Piece_Type (sqAt b s) = Bishop) \<and>
      (\<forall>s \<in> others b. \<forall>t \<in> others b. squareColor s = squareColor t))"

abbreviation other :: "Board \<Rightarrow> int \<Rightarrow> bool" where
  "other b s \<equiv> \<not> IsEmpty (sqAt b s) \<and> Piece_Type (sqAt b s) \<noteq> King"

lemma materialScan_None:
  "materialScan b ss w k bs = None \<longleftrightarrow> (\<exists>s \<in> set ss. other b s \<and> \<not> minor b s)"
  by (induction b ss w k bs rule: materialScan.induct)
    (auto simp: minor_def Let_def split: PieceType.splits)

lemma materialScan_Some:
  "materialScan b ss w k bs = Some (w', k', bs') \<Longrightarrow>
     bs' = bs @ filter (\<lambda>s. \<not> IsEmpty (sqAt b s) \<and> Piece_Type (sqAt b s) = Bishop) ss \<and>
     w' + k' = w + k + int (length (filter (other b) ss))"
  by (induction b ss w k bs rule: materialScan.induct)
    (auto simp: Let_def split: PieceType.splits if_splits)

lemma others_list: "others b = set (filter (other b) [0..63])"
  by (auto simp: others_def square_index_def)

lemma card_others: "card (others b) = length (filter (other b) [0..63])"
  unfolding others_list by (rule distinct_card) simp

text \<open>When exactly two pieces remain, both are bishops iff the scan has found two bishops.\<close>

lemma two_filtered:
  assumes "length (filter P xs) = 2" and "\<And>x. Q x \<Longrightarrow> P x"
  shows "length (filter Q xs) = 2 \<longleftrightarrow> (\<forall>x \<in> set (filter P xs). Q x)" and
    "length (filter Q xs) = 2 \<Longrightarrow> set (filter Q xs) = set (filter P xs)"
proof -
  have q: "filter Q xs = filter Q (filter P xs)" using assms(2) by (auto intro: filter_cong)
  have "length (filter Q (filter P xs)) = length (filter P xs) \<longleftrightarrow> (\<forall>x \<in> set (filter P xs). Q x)"
    by (metis filter_True length_filter_less nat_less_le)
  then show "length (filter Q xs) = 2 \<longleftrightarrow> (\<forall>x \<in> set (filter P xs). Q x)"
    unfolding q assms(1) .
  then show "length (filter Q xs) = 2 \<Longrightarrow> set (filter Q xs) = set (filter P xs)"
    using assms(2) by auto
qed

lemma length_two: "length xs = 2 \<Longrightarrow> xs = [xs ! 0, xs ! 1]"
  by (cases xs; cases "tl xs") auto

lemma InsufficientMaterial_spec: "Board_InsufficientMaterial b \<longleftrightarrow> insufficient b"
proof (cases "materialScan b [0..63] 0 0 []")
  case None
  then have "\<not> (\<forall>s \<in> others b. minor b s)" unfolding materialScan_None others_list by auto
  with None show ?thesis by (simp add: Board_InsufficientMaterial_def insufficient_def)
next
  case (Some r)
  obtain w k bs where r: "materialScan b [0..63] 0 0 [] = Some (w, k, bs)" using Some by (cases r) auto
  let ?B = "\<lambda>s. \<not> IsEmpty (sqAt b s) \<and> Piece_Type (sqAt b s) = Bishop"
  have minor: "\<forall>s \<in> others b. minor b s"
    using r materialScan_None [of b "[0..63]" 0 0 "[]"] unfolding others_list by auto
  have total: "w + k = int (card (others b))" and bs: "bs = filter ?B [0..63]"
    using materialScan_Some [OF r] by (simp_all add: card_others)
  have two: "length bs = 2 \<and> squareColor (bs ! 0) = squareColor (bs ! 1) \<longleftrightarrow>
      (\<forall>s \<in> others b. Piece_Type (sqAt b s) = Bishop) \<and> (\<forall>s \<in> others b. \<forall>t \<in> others b. squareColor s = squareColor t)"
    if "card (others b) = 2"
  proof -
    note f = two_filtered [of "other b" "[0..63]" ?B, folded bs others_list, OF that [unfolded card_others]]
    have f1: "length bs = 2 \<longleftrightarrow> (\<forall>s \<in> others b. ?B s)" by (rule f(1)) simp
    have f2: "set bs = others b" if "length bs = 2" by (rule f(2) [OF _ that]) simp
    have "others b = {bs ! 0, bs ! 1}" if "length bs = 2"
      using f2 [OF that] arg_cong [OF length_two [OF that], of set] by simp
    moreover have "(\<forall>s \<in> others b. ?B s) \<longleftrightarrow> (\<forall>s \<in> others b. Piece_Type (sqAt b s) = Bishop)"
      by (intro ball_cong) (simp_all add: others_def)
    moreover have "(\<forall>s \<in> {p, q}. \<forall>t \<in> {p, q}. squareColor s = squareColor t) \<longleftrightarrow> squareColor p = squareColor q" for p q
      by auto
    ultimately show ?thesis using f1 by metis
  qed
  have "Board_InsufficientMaterial b \<longleftrightarrow> card (others b) \<le> 1 \<or>
      card (others b) = 2 \<and> length bs = 2 \<and> squareColor (bs ! 0) = squareColor (bs ! 1)"
    using r total by (auto simp: Board_InsufficientMaterial_def Let_def)
  then show ?thesis using minor two by (auto simp: insufficient_def)
qed

section \<open>Repetition\<close>

lemma threefoldFrom_iff:
  assumes "\<And>k. counts k < 3"
  shows "threefoldFrom counts fs \<longleftrightarrow>
     (\<exists>k. counts k + int (length (filter (\<lambda>f. repetitionKey f = k) fs)) \<ge> 3)"
  using assms
proof (induction fs arbitrary: counts)
  case (Cons f fs)
  let ?c = "counts(repetitionKey f := counts (repetitionKey f) + 1)"
  let ?n = "\<lambda>k fs. int (length (filter (\<lambda>f. repetitionKey f = k) fs))"
  have step: "?c k + ?n k fs = counts k + ?n k (f # fs)" for k by auto
  show ?case
  proof (cases "?c (repetitionKey f) \<ge> 3")
    case True
    then have "counts (repetitionKey f) + ?n (repetitionKey f) (f # fs) \<ge> 3" using step [of "repetitionKey f"] by linarith
    moreover have "threefoldFrom counts (f # fs)" using True by (simp add: Let_def)
    ultimately show ?thesis by blast
  next
    case False
    then have lt: "?c k < 3" for k using Cons.prems [of k] by auto
    have "threefoldFrom counts (f # fs) = threefoldFrom ?c fs" using False by (simp add: Let_def)
    then show ?thesis unfolding Cons.IH [OF lt] step .
  qed
qed (simp add: linorder_not_le [symmetric])

lemma threefold_iff:
  "threefold h \<longleftrightarrow> (\<exists>k. length (filter (\<lambda>f. repetitionKey f = k) h) \<ge> 3)"
  using threefoldFrom_iff [of "\<lambda>_. 0" h] by (simp add: threefold_def)

lemma repKey_skip: "list_all plain w \<Longrightarrow> repKey n (w @ s) = w @ repKey n s"
  by (induction w) (auto simp: plain_def ascii_space_def)

lemma repetitionKey_Join:
  assumes "list_all word [w1, w2, w3, w4]"
  shows "repetitionKey (Join [w1, w2, w3, w4, w5, w6] '' '') = Join [w1, w2, w3, w4] '' ''"
  using assms by (simp add: repetitionKey_def repKey_skip word_def)

lemma repetitionKey_FEN: "fen_ok b \<Longrightarrow> repetitionKey (FEN b) = Join (take 4 (fenFields b)) '' ''"
  using fenFields_words [of b] unfolding FEN_Join fenFields_def by (subst repetitionKey_Join) simp_all

text \<open>The fields of a FEN string determine the parts of the position they describe.\<close>

lemma writePlacement_inject:
  assumes "wf_board b" and "wf_board b'" and "writePlacement b = writePlacement b'"
  shows "squares b = squares b'"
  using parsePlacement_write [OF assms(1)] parsePlacement_write [OF assms(2)] assms(3) by (metis sum.inject(2))

lemma writeCastling_inject:
  assumes "x < 16" and "y < 16" and "writeCastling x = writeCastling y"
  shows "x = y"
proof -
  have z: "Castling zeroBoard = 0" by (simp add: zeroBoard_def)
  have "zeroBoard\<lparr>Castling := x\<rparr> = zeroBoard\<lparr>Castling := y\<rparr>"
    using parseCastling_write [OF assms(1) z] parseCastling_write [OF assms(2) z] assms(3) by simp
  then show ?thesis by (metis Board.select_convs(3) Board.surjective Board.update_convs(3))
qed

lemma squareName_inject: "square_index s \<Longrightarrow> square_index t \<Longrightarrow> squareName s = squareName t \<longleftrightarrow> s = t"
  using parseSquare_squareName by (metis option.inject)

definition same_position :: "Board \<Rightarrow> Board \<Rightarrow> bool" where
  "same_position b b' \<longleftrightarrow> squares b = squares b' \<and> Turn b = Turn b' \<and> Castling b = Castling b' \<and> EnPassant b = EnPassant b'"

lemma writePlacement_cong: "squares b = squares b' \<Longrightarrow> writePlacement b = writePlacement b'"
  unfolding writePlacement_def rankPieces_def sqAt_def by metis

lemma repetitionKey_same:
  assumes "fen_ok b" and "fen_ok b'"
  shows "repetitionKey (FEN b) = repetitionKey (FEN b') \<longleftrightarrow> same_position b b'"
proof -
  have w: "list_all word (take 4 (fenFields b))" "list_all word (take 4 (fenFields b'))"
    using fenFields_words [OF assms(1)] fenFields_words [OF assms(2)] by (simp_all add: fenFields_def)
  have "repetitionKey (FEN b) = repetitionKey (FEN b') \<longleftrightarrow> take 4 (fenFields b) = take 4 (fenFields b')"
    using Fields_Join [OF w(1)] Fields_Join [OF w(2)] by (simp add: repetitionKey_FEN assms) metis
  moreover have "writePlacement b = writePlacement b' \<longleftrightarrow> squares b = squares b'"
    using assms writePlacement_inject [of b b'] writePlacement_cong [of b b'] unfolding fen_ok_def by blast
  moreover have "writeCastling (Castling b) = writeCastling (Castling b') \<longleftrightarrow> Castling b = Castling b'"
    using assms writeCastling_inject [of "Castling b" "Castling b'"] unfolding fen_ok_def by metis
  moreover have "(if EnPassant b = NoSquare then ''-'' else squareName (EnPassant b)) =
      (if EnPassant b' = NoSquare then ''-'' else squareName (EnPassant b')) \<longleftrightarrow> EnPassant b = EnPassant b'"
    using assms squareName_inject [of "EnPassant b" "EnPassant b'"] squareName_not_dash [of "EnPassant b"]
      squareName_not_dash [of "EnPassant b'"] by (simp only: fen_ok_def) metis
  moreover have "(if Turn b = White then ''w'' else ''b'') = (if Turn b' = White then ''w'' else ''b'') \<longleftrightarrow> Turn b = Turn b'"
    by (cases "Turn b"; cases "Turn b'") simp_all
  ultimately show ?thesis by (simp only: fenFields_def same_position_def) simp
qed

end
