(* ===== verification/Chess_San.thy ===== *)
theory Chess_San
  imports Chess_Outcome
begin

text \<open>
  Standard algebraic notation and the PGN writer (\<open>pkg/chess/san.go\<close>).

  \<open>SAN\<close> indexes the board at the ends of a move nobody has validated, and
  \<open>checkSuffix\<close> applies it unchecked; \<open>sanPanics\<close> says when that is an index panic, and
  \<open>PGN\<close> returns \<open>PgnPanic\<close> there.  The \<open>%q\<close> verb of \<open>fmt\<close> is the parameter \<open>quote\<close>; the
  order in which Go ranges over the map of tags is the order of the list \<open>tags\<close>.

  The main lemma, \<open>SAN_inject\<close>, is what the notation is for: two different legal moves of a
  position never have the same rendering.
\<close>

section \<open>The notation\<close>

fun pieceLetterUpper :: "PieceType \<Rightarrow> char" where
  "pieceLetterUpper Knight = CHR ''N''"
| "pieceLetterUpper Bishop = CHR ''B''"
| "pieceLetterUpper Rook = CHR ''R''"
| "pieceLetterUpper Queen = CHR ''Q''"
| "pieceLetterUpper King = CHR ''K''"
| "pieceLetterUpper _ = CHR ''P''"

definition checkSuffix :: "Board \<Rightarrow> Move \<Rightarrow> string" where
  "checkSuffix b m =
     (let after = applyMoveUnchecked b m in
      if \<not> InCheck after then ''''
      else if length (LegalMoves after) = 0 then ''#''
      else ''+'')"

definition rivals :: "Board \<Rightarrow> Move \<Rightarrow> Piece \<Rightarrow> int list" where
  "rivals b m piece =
     map From (filter (\<lambda>lm. \<not> (To lm \<noteq> To m \<or> From lm = From m) \<and> sqAt b (From lm) = piece) (LegalMoves b))"

definition fileName :: "int \<Rightarrow> string" where
  "fileName s = [char_of (nat (code (CHR ''a'') + fileOf s))]"

definition rankName :: "int \<Rightarrow> string" where
  "rankName s = [char_of (nat (code (CHR ''1'') + rankOf s))]"

definition disambiguation :: "Board \<Rightarrow> Move \<Rightarrow> Piece \<Rightarrow> string" where
  "disambiguation b m piece =
     (let rs = rivals b m piece in
      if rs = [] then ''''
      else let sameFile = list_ex (\<lambda>r. fileOf r = fileOf (From m)) rs;
               sameRank = list_ex (\<lambda>r. rankOf r = rankOf (From m)) rs
           in if \<not> sameFile then fileName (From m)
              else if \<not> sameRank then rankName (From m)
              else squareName (From m))"

definition isCapture :: "Board \<Rightarrow> Move \<Rightarrow> bool" where
  "isCapture b m \<longleftrightarrow> \<not> IsEmpty (sqAt b (To m)) \<or> (Piece_Type (sqAt b (From m)) = Pawn \<and> To m = EnPassant b)"

definition SAN :: "Board \<Rightarrow> Move \<Rightarrow> string" where
  "SAN b m =
     (let piece = sqAt b (From m) in
      if IsEmpty piece then Move_String m
      else if Piece_Type piece = King \<and> \<bar>fileOf (To m) - fileOf (From m)\<bar> = 2
      then (if fileOf (To m) = 2 then ''O-O-O'' else ''O-O'') @ checkSuffix b m
      else
        (if Piece_Type piece = Pawn then
           (if isCapture b m then fileName (From m) @ ''x'' else '''') @ squareName (To m) @
           (if Promotion m \<noteq> NoPieceType then ''='' @ [pieceLetterUpper (Promotion m)] else '''')
         else
           [pieceLetterUpper (Piece_Type piece)] @ disambiguation b m piece @
           (if isCapture b m then ''x'' else '''') @ squareName (To m))
        @ checkSuffix b m)"

text \<open>The moves on which \<open>SAN\<close> indexes outside the board.\<close>

definition sanPanics :: "Board \<Rightarrow> Move \<Rightarrow> bool" where
  "sanPanics b m \<longleftrightarrow> \<not> square_index (From m) \<or>
     (\<not> IsEmpty (sqAt b (From m)) \<and> (\<not> square_index (To m) \<or> applyPanics b m))"

section \<open>Portable game notation\<close>

text \<open>The loop of \<open>wrapMovetext\<close>: \<open>i\<close> is the index of the word, \<open>lineLen\<close> the width used.\<close>

fun wrapWords :: "nat \<Rightarrow> nat \<Rightarrow> nat \<Rightarrow> string list \<Rightarrow> string" where
  "wrapWords width i lineLen [] = ''''"
| "wrapWords width i lineLen (w # ws) =
     (if lineLen > 0 \<and> lineLen + 1 + length w > width
      then [CHR 0x0A] @ w @ wrapWords width (i + 1) (length w) ws
      else if i > 0 then '' '' @ w @ wrapWords width (i + 1) (lineLen + 1 + length w) ws
      else w @ wrapWords width (i + 1) (lineLen + length w) ws)"

definition wrapMovetext :: "string \<Rightarrow> nat \<Rightarrow> string" where
  "wrapMovetext s width = wrapWords width 0 0 (Fields s)"

datatype PgnError =
    PgnBadStart FENError
  | PgnBadMove string ChessError
  | PgnIllegal string ChessError
  | PgnPanic

text \<open>The loop over the moves: the board, and the text written so far.\<close>

fun movetext :: "Board \<Rightarrow> string \<Rightarrow> string list \<Rightarrow> PgnError + string" where
  "movetext board text [] = Inr text"
| "movetext board text (uci # ucis) =
     (case ParseUCIMove uci of
        Inl e \<Rightarrow> Inl (PgnBadMove uci e)
      | Inr m \<Rightarrow>
          if sanPanics board m then Inl PgnPanic
          else
            let text1 = text @
              (if Turn board = White then Itoa (FullMove board) @ ''. ''
               else if text = '''' then Itoa (FullMove board) @ ''... ''
               else '''');
              text2 = text1 @ SAN board m @ '' ''
            in (case ApplyMove board m of
                  Inl e \<Rightarrow> Inl (PgnIllegal uci e)
                | Inr next \<Rightarrow> movetext next text2 ucis))"

definition rosterTags :: "string list" where
  "rosterTags = [''Event'', ''Site'', ''Date'', ''Round'', ''White'', ''Black'', ''Result'']"

definition tagLine :: "(string \<Rightarrow> string) \<Rightarrow> string \<Rightarrow> string \<Rightarrow> string" where
  "tagLine quote k v = ''['' @ k @ '' '' @ quote v @ '']'' @ [CHR 0x0A]"

text \<open>A missing key of a map of strings reads as the empty string.\<close>

definition tagValue :: "(string \<times> string) list \<Rightarrow> string \<Rightarrow> string" where
  "tagValue tags k = (case map_of tags k of Some v \<Rightarrow> v | None \<Rightarrow> '''')"

definition tagSection :: "(string \<Rightarrow> string) \<Rightarrow> (string \<times> string) list \<Rightarrow> string" where
  "tagSection quote tags =
     concat (map (\<lambda>k. tagLine quote k (if tagValue tags k = '''' then ''?'' else tagValue tags k)) rosterTags) @
     concat (map (\<lambda>(k, v). if k \<in> set rosterTags then '''' else tagLine quote k v) tags) @ [CHR 0x0A]"

definition PGN :: "(string \<Rightarrow> string) \<Rightarrow> string \<Rightarrow> string list \<Rightarrow> (string \<times> string) list \<Rightarrow> PgnError + string" where
  "PGN quote startFEN ucis tags =
     (case ParseFEN startFEN of
        Inl e \<Rightarrow> Inl (PgnBadStart e)
      | Inr board \<Rightarrow>
          andThen (movetext board '''' ucis)
            (\<lambda>text.
               let result = (if tagValue tags ''Result'' = '''' then ''*'' else tagValue tags ''Result'')
               in Inr (tagSection quote tags @ wrapMovetext (TrimSpace text @ '' '' @ result) 80 @ [CHR 0x0A])))"

section \<open>Characters of the notation\<close>

definition fc :: "int \<Rightarrow> char" where
  "fc s = char_of (nat (code (CHR ''a'') + fileOf s))"

definition rc :: "int \<Rightarrow> char" where
  "rc s = char_of (nat (code (CHR ''1'') + rankOf s))"

lemma names_chars: "fileName s = [fc s]" "rankName s = [rc s]" "squareName s = [fc s, rc s]"
  by (simp_all add: fileName_def rankName_def squareName_def fc_def rc_def)

lemma code_fc: "square_index s \<Longrightarrow> code (fc s) = 97 + fileOf s"
  and code_rc: "square_index s \<Longrightarrow> code (rc s) = 49 + rankOf s"
  using onBoard_fileOf_rankOf [of s] by (simp_all add: fc_def rc_def code_char_of onBoard_def)

lemma code_inject: "code c = code d \<longleftrightarrow> c = d"
  by (metis char_of_code)

lemma square_bounds: "square_index s \<Longrightarrow> 0 \<le> fileOf s \<and> fileOf s \<le> 7 \<and> 0 \<le> rankOf s \<and> rankOf s \<le> 7"
  using onBoard_fileOf_rankOf [of s] by (simp add: onBoard_def)

lemma fc_eq: "square_index s \<Longrightarrow> square_index t \<Longrightarrow> fc s = fc t \<longleftrightarrow> fileOf s = fileOf t"
  and rc_eq: "square_index s \<Longrightarrow> square_index t \<Longrightarrow> rc s = rc t \<longleftrightarrow> rankOf s = rankOf t"
  by (auto simp: code_inject [symmetric] code_fc code_rc)

lemma coords_eq: "square_index s \<Longrightarrow> square_index t \<Longrightarrow> fileOf s = fileOf t \<Longrightarrow> rankOf s = rankOf t \<Longrightarrow> s = t"
  by (metis sq_fileOf_rankOf square_index_nonneg)

lemma fc_range: "square_index s \<Longrightarrow> 97 \<le> code (fc s) \<and> code (fc s) \<le> 104"
  and rc_range: "square_index s \<Longrightarrow> 49 \<le> code (rc s) \<and> code (rc s) \<le> 56"
  using square_bounds [of s] by (simp_all add: code_fc code_rc)

lemma letter_range: "64 < code (pieceLetterUpper t) \<and> code (pieceLetterUpper t) < 90"
  by (cases t) (simp_all add: code_def)

lemma sym_codes: "code (CHR ''x'') = 120" "code (CHR ''='') = 61" "code (CHR ''O'') = 79" "code (CHR ''-'') = 45"
  "code (CHR ''#'') = 35" "code (CHR ''+'') = 43"
  by (simp_all add: code_def)

lemma letter_inject:
  "pieceLetterUpper t = pieceLetterUpper u \<Longrightarrow> t \<notin> {NoPieceType, Pawn, PieceType7} \<Longrightarrow>
     u \<notin> {NoPieceType, Pawn, PieceType7} \<Longrightarrow> t = u"
  by (cases t; cases u) simp_all

lemma letter_not_O: "pieceLetterUpper t \<noteq> CHR ''O''"
  by (cases t) simp_all

lemma chars_differ:
  assumes "square_index s" and "square_index t"
  shows "fc s \<noteq> rc t" "rc t \<noteq> fc s" "fc s \<noteq> CHR ''x''" "rc s \<noteq> CHR ''x''" "CHR ''x'' \<noteq> fc s" "CHR ''x'' \<noteq> rc s"
    "fc s \<noteq> CHR ''O''" "CHR ''O'' \<noteq> fc s" "fc s \<noteq> pieceLetterUpper u" "pieceLetterUpper u \<noteq> fc s"
    "rc s \<noteq> CHR ''#''" "rc s \<noteq> CHR ''+''" "rc s \<noteq> CHR ''=''" "CHR ''='' \<noteq> rc s"
  using fc_range [OF assms(1)] rc_range [OF assms(1)] rc_range [OF assms(2)] letter_range [of u]
  by (auto simp: code_inject [symmetric] sym_codes)

section \<open>The notation tells legal moves apart\<close>

definition sanBody :: "Board \<Rightarrow> Move \<Rightarrow> string" where
  "sanBody b m =
     (let piece = sqAt b (From m) in
      if Piece_Type piece = King \<and> \<bar>fileOf (To m) - fileOf (From m)\<bar> = 2
      then (if fileOf (To m) = 2 then ''O-O-O'' else ''O-O'')
      else if Piece_Type piece = Pawn then
        (if isCapture b m then [fc (From m), CHR ''x''] else []) @ [fc (To m), rc (To m)] @
        (if Promotion m \<noteq> NoPieceType then [CHR ''='', pieceLetterUpper (Promotion m)] else [])
      else [pieceLetterUpper (Piece_Type piece)] @ disambiguation b m piece @
        (if isCapture b m then [CHR ''x''] else []) @ [fc (To m), rc (To m)])"

lemma SAN_body: "\<not> IsEmpty (sqAt b (From m)) \<Longrightarrow> SAN b m = sanBody b m @ checkSuffix b m"
  by (simp add: SAN_def sanBody_def names_chars Let_def)

lemma checkSuffix_cases: "checkSuffix b m \<in> {[], ''#'', ''+''}"
  by (simp add: checkSuffix_def Let_def)

lemma strip_suffix:
  assumes "xs @ u = ys @ v" and "u \<in> {[], ''#'', ''+''}" and "v \<in> {[], ''#'', ''+''}"
    and "xs \<noteq> []" "last xs \<notin> {CHR ''#'', CHR ''+''}" and "ys \<noteq> []" "last ys \<notin> {CHR ''#'', CHR ''+''}"
  shows "xs = ys"
  using assms by (auto dest: arg_cong [where f = last])

lemma letter_plain: "pieceLetterUpper t \<notin> {CHR ''#'', CHR ''+''}"
  by (cases t) simp_all

lemma sanBody_last:
  assumes "square_index (To m)"
  shows "sanBody b m \<noteq> []" and "last (sanBody b m) \<notin> {CHR ''#'', CHR ''+''}"
  using chars_differ [OF assms assms] letter_plain
  by (auto simp: sanBody_def Let_def)

text \<open>The four shapes of the disambiguating text.\<close>

lemma disambiguation_cases:
  "disambiguation b m p \<in> {[], [fc (From m)], [rc (From m)], [fc (From m), rc (From m)]}"
  by (simp add: disambiguation_def Let_def names_chars)

text \<open>With the piece, the destination and the text equal, so are the origins.\<close>

lemma rival:
  "m \<in> set (LegalMoves b) \<Longrightarrow> m' \<in> set (LegalMoves b) \<Longrightarrow> To m' = To m \<Longrightarrow> From m' \<noteq> From m \<Longrightarrow>
     sqAt b (From m') = p \<Longrightarrow> From m' \<in> set (rivals b m p)"
  by (auto simp: rivals_def)

lemma disambiguation_separates:
  assumes "m \<in> set (LegalMoves b)" "m' \<in> set (LegalMoves b)" "To m = To m'"
    and "sqAt b (From m) = p" "sqAt b (From m') = p" and i: "square_index (From m)" "square_index (From m')"
    and eq: "disambiguation b m p = disambiguation b m' p"
  shows "From m = From m'"
proof (rule ccontr)
  assume ne: "From m \<noteq> From m'"
  have r: "From m' \<in> set (rivals b m p)" "From m \<in> set (rivals b m' p)" using assms ne by (auto intro!: rival)
  have "disambiguation b m p = (if \<not> list_ex (\<lambda>r. fileOf r = fileOf (From m)) (rivals b m p) then [fc (From m)]
      else if \<not> list_ex (\<lambda>r. rankOf r = rankOf (From m)) (rivals b m p) then [rc (From m)] else [fc (From m), rc (From m)])"
    "disambiguation b m' p = (if \<not> list_ex (\<lambda>r. fileOf r = fileOf (From m')) (rivals b m' p) then [fc (From m')]
      else if \<not> list_ex (\<lambda>r. rankOf r = rankOf (From m')) (rivals b m' p) then [rc (From m')] else [fc (From m'), rc (From m')])"
    using r by (auto simp: disambiguation_def Let_def names_chars)
  with eq r ne show False
    using i by (auto simp: list_ex_iff fc_eq rc_eq chars_differ split: if_splits dest: coords_eq)
qed

text \<open>A pawn move is a capture exactly when it changes file.\<close>

lemma pawn_isCapture:
  assumes v: "valid_position b" and p: "pseudo_legal b m" and t: "Piece_Type (sqAt b (From m)) = Pawn"
  shows "isCapture b m \<longleftrightarrow> fileOf (To m) \<noteq> fileOf (From m)"
proof -
  let ?d = "pawnDir (Turn b)"
  have at: "sqAt b (From m) = MakePiece (Turn b) Pawn" and mv: "moves_as b (Turn b) Pawn m"
    and idx: "square_index (From m)" "square_index (To m)" using p t by (auto simp: pseudo_legal_def)
  have behind: "sqAt b (To m - 8 * ?d) = MakePiece (Opposite (Turn b)) Pawn" if "To m = EnPassant b"
    using v that idx(2) by (auto simp: valid_position_def ep_ok_def NoSquare_def square_index_def)
  have ends: "From m = sq (fileOf (From m)) (rankOf (From m))" "To m = sq (fileOf (To m)) (rankOf (To m))"
    using idx by (simp_all add: square_index_nonneg)
  have "To m \<noteq> EnPassant b" if "pawn_push b (Turn b) m"
  proof
    have "To m - 8 * ?d = From m"
      using that ends by (auto simp: pawn_push_def sq_def algebra_simps)
    moreover assume "To m = EnPassant b"
    ultimately show False using behind at by simp
  qed
  moreover have "To m \<noteq> EnPassant b" if d: "pawn_double b (Turn b) m"
  proof
    have "To m - 8 * ?d = sq (fileOf (From m)) (rankOf (From m) + ?d)"
      using that ends by (auto simp: pawn_double_def sq_def algebra_simps)
    moreover assume "To m = EnPassant b"
    ultimately show False using behind d by (simp add: pawn_double_def)
  qed
  ultimately show ?thesis
    using mv t
    by (auto simp: isCapture_def pawn_push_def pawn_double_def pawn_capture_def en_passant_def reaches_Pawn
      simp del: reaches.simps)
qed

text \<open>The destination and the origin file of a pawn move determine the origin.\<close>

lemma pawn_origin:
  assumes "pseudo_legal b m" "pseudo_legal b m'" and "Piece_Type (sqAt b (From m)) = Pawn" "Piece_Type (sqAt b (From m')) = Pawn"
    and "To m = To m'" and "fileOf (From m) = fileOf (From m')"
  shows "From m = From m'"
proof -
  have at: "sqAt b (From m) = MakePiece (Turn b) Pawn" "sqAt b (From m') = MakePiece (Turn b) Pawn"
    and mv: "moves_as b (Turn b) Pawn m" "moves_as b (Turn b) Pawn m'"
    and idx: "square_index (From m)" "square_index (From m')" using assms(1-4) by (auto simp: pseudo_legal_def)
  have mid: False if "pawn_double b (Turn b) k" "pawn_push b (Turn b) k'" "To k = To k'"
      "fileOf (From k) = fileOf (From k')" "square_index (From k')" "sqAt b (From k') = MakePiece (Turn b) Pawn" for k k'
  proof -
    have "rankOf (From k') = rankOf (From k) + pawnDir (Turn b)"
      using that(1-3) by (auto simp: pawn_double_def pawn_push_def)
    then have "sq (fileOf (From k)) (rankOf (From k) + pawnDir (Turn b)) = From k'"
      using that(4,5) by (metis sq_fileOf_rankOf square_index_nonneg)
    then show False using that(1,6) by (auto simp: pawn_double_def)
  qed
  have shape: "pawn_double b (Turn b) k \<or>
      rankOf (To k) = rankOf (From k) + pawnDir (Turn b) \<and> (fileOf (To k) = fileOf (From k) \<longrightarrow> pawn_push b (Turn b) k)"
    if "moves_as b (Turn b) Pawn k" for k
    using that by (auto simp: pawn_push_def pawn_capture_def en_passant_def reaches_Pawn simp del: reaches.simps)
  have double: "rankOf (To k) = rankOf (From k) + 2 * pawnDir (Turn b) \<and> fileOf (To k) = fileOf (From k)"
    if "pawn_double b (Turn b) k" for k using that by (simp add: pawn_double_def)
  have clash: False if "pawn_double b (Turn b) k" "\<not> pawn_double b (Turn b) k'" "moves_as b (Turn b) Pawn k'" "To k = To k'"
      "fileOf (From k) = fileOf (From k')" "square_index (From k')" "sqAt b (From k') = MakePiece (Turn b) Pawn" for k k'
    using shape [OF that(3)] double [OF that(1)] mid [OF that(1) _ that(4-7)] that(2,4,5) by metis
  have "pawn_double b (Turn b) m \<longleftrightarrow> pawn_double b (Turn b) m'"
    using clash [of m m'] clash [of m' m] mv at idx assms(5,6) by metis
  moreover have "rankOf (To m) = rankOf (To m')" using assms(5) by simp
  ultimately have "rankOf (From m) = rankOf (From m')"
    using shape [OF mv(1)] shape [OF mv(2)] double [of m] double [of m'] by linarith
  then show ?thesis using coords_eq idx assms(6) by blast
qed

lemma king_two_files:
  assumes "pseudo_legal b m" and "Piece_Type (sqAt b (From m)) = King" and "\<bar>fileOf (To m) - fileOf (From m)\<bar> = 2"
  shows "castle_kingside b (Turn b) m \<or> castle_queenside b (Turn b) m"
  using assms by (auto simp: pseudo_legal_def piece_move_def)

lemma castle_moves:
  assumes "castle_kingside b us m \<or> castle_queenside b us m"
  shows "m = (if fileOf (To m) = 2 then quiet (sq 4 (homeRank us)) (sq 2 (homeRank us))
              else quiet (sq 4 (homeRank us)) (sq 6 (homeRank us)))"
proof -
  have "fileOf (sq 6 (homeRank us)) = 6" "fileOf (sq 2 (homeRank us)) = 2" by (auto intro!: home_square)
  then show ?thesis using assms by (auto simp: castle_kingside_def castle_queenside_def Let_def)
qed

text \<open>Shapes of the body: castling, a pawn move, any other piece.\<close>

abbreviation castles :: "Board \<Rightarrow> Move \<Rightarrow> bool" where
  "castles b m \<equiv> Piece_Type (sqAt b (From m)) = King \<and> \<bar>fileOf (To m) - fileOf (From m)\<bar> = 2"

abbreviation is_pawn :: "Board \<Rightarrow> Move \<Rightarrow> bool" where
  "is_pawn b m \<equiv> Piece_Type (sqAt b (From m)) = Pawn"

lemma sanBody_hd:
  assumes "pseudo_legal b m"
  shows "hd (sanBody b m) = CHR ''O'' \<longleftrightarrow> castles b m" and "97 \<le> code (hd (sanBody b m)) \<longleftrightarrow> is_pawn b m"
proof -
  have i: "square_index (From m)" "square_index (To m)" using assms by (auto simp: pseudo_legal_def)
  have hd: "hd (sanBody b m) = (if castles b m then CHR ''O''
      else if is_pawn b m then (if isCapture b m then fc (From m) else fc (To m))
      else pieceLetterUpper (Piece_Type (sqAt b (From m))))" by (simp add: sanBody_def Let_def)
  show "hd (sanBody b m) = CHR ''O'' \<longleftrightarrow> castles b m"
    unfolding hd using chars_differ(7) i letter_not_O by simp
  show "97 \<le> code (hd (sanBody b m)) \<longleftrightarrow> is_pawn b m"
    unfolding hd using fc_range [OF i(1)] fc_range [OF i(2)] letter_range [of "Piece_Type (sqAt b (From m))"]
    by (auto simp: sym_codes)
qed

text \<open>The end of a piece's rendering, after the letter: text, capture mark, destination.\<close>

lemma piece_tail:
  assumes "d @ (if c then [CHR ''x''] else []) @ [p, q] = d' @ (if c' then [CHR ''x''] else []) @ [p', q']"
    and "CHR ''x'' \<notin> set d" and "CHR ''x'' \<notin> set d'"
  shows "d = d' \<and> p = p' \<and> q = q'"
proof -
  have r: "[q, p] @ rev (if c then [CHR ''x''] else []) @ rev d = [q', p'] @ rev (if c' then [CHR ''x''] else []) @ rev d'"
    using arg_cong [OF assms(1), of rev] by simp
  then have "rev (if c then [CHR ''x''] else []) @ rev d = rev (if c' then [CHR ''x''] else []) @ rev d'" by simp
  moreover have "rev d \<noteq> CHR ''x'' # z" "CHR ''x'' # z \<noteq> rev d'" for z
    using assms(2,3) by (metis list.set_intros(1) set_rev)+
  ultimately have "rev d = rev d'" by (cases c; cases c') (simp_all only: if_True if_False rev.simps append.simps list.inject)
  then have "d = d'" by simp
  with r show ?thesis by simp
qed

lemma disambiguation_no_x:
  "square_index (From m) \<Longrightarrow> CHR ''x'' \<notin> set (disambiguation b m p)"
  using disambiguation_cases [of b m p] chars_differ(5,6) [of "From m" "From m"] by auto

text \<open>The cases of the injectivity proof.\<close>

lemma sanBody_piece:
  assumes l: "m \<in> set (LegalMoves b)" "m' \<in> set (LegalMoves b)" and p: "pseudo_legal b m" "pseudo_legal b m'"
    and k: "\<not> castles b m" "\<not> castles b m'" "\<not> is_pawn b m" "\<not> is_pawn b m'"
    and eq: "sanBody b m = sanBody b m'"
  shows "m = m'"
proof -
  obtain t t' where t: "real_type t" "sqAt b (From m) = MakePiece (Turn b) t" "moves_as b (Turn b) t m"
      "real_type t'" "sqAt b (From m') = MakePiece (Turn b) t'" "moves_as b (Turn b) t' m'"
    and i: "square_index (From m)" "square_index (To m)" "square_index (From m')" "square_index (To m')"
    using p by (auto simp: pseudo_legal_def)
  let ?d = "disambiguation b m (sqAt b (From m))" and ?d' = "disambiguation b m' (sqAt b (From m'))"
  have eq': "pieceLetterUpper t # ?d @ (if isCapture b m then [CHR ''x''] else []) @ [fc (To m), rc (To m)] =
      pieceLetterUpper t' # ?d' @ (if isCapture b m' then [CHR ''x''] else []) @ [fc (To m'), rc (To m')]"
    using eq k t(2,5) by (simp only: sanBody_def Let_def if_False Piece_Type_MakePiece append.simps)
  then have "?d = ?d' \<and> fc (To m) = fc (To m') \<and> rc (To m) = rc (To m')"
    using piece_tail [of ?d "isCapture b m" "fc (To m)" "rc (To m)" ?d' "isCapture b m'" "fc (To m')" "rc (To m')"] i
    by (simp only: list.inject disambiguation_no_x) simp
  then have d: "?d = ?d'" and to: "To m = To m'" using i coords_eq by (auto simp: fc_eq rc_eq)
  have "t = t'" using eq' t k by (intro letter_inject) auto
  then have fr: "From m = From m'" using disambiguation_separates [OF l to _ _ i(1,3)] t d by simp
  have quiet: "Promotion k = NoPieceType" if "moves_as b (Turn b) u k" "u \<noteq> Pawn" for u k
    using that by (cases u) (simp_all add: piece_move_def castle_kingside_def castle_queenside_def Let_def, auto)
  have "t \<noteq> Pawn" "t' \<noteq> Pawn" using k t(2,5) by auto
  then have "Promotion m = NoPieceType" "Promotion m' = NoPieceType" using quiet t(3,6) by blast+
  with to fr show ?thesis by simp
qed

lemma sanBody_pawn:
  assumes v: "valid_position b" and p: "pseudo_legal b m" "pseudo_legal b m'"
    and k: "is_pawn b m" "is_pawn b m'" and eq: "sanBody b m = sanBody b m'"
  shows "m = m'"
proof -
  have i: "square_index (From m)" "square_index (To m)" "square_index (From m')" "square_index (To m')"
    using p by (auto simp: pseudo_legal_def)
  have c: "isCapture b m \<longleftrightarrow> fileOf (To m) \<noteq> fileOf (From m)" "isCapture b m' \<longleftrightarrow> fileOf (To m') \<noteq> fileOf (From m')"
    using pawn_isCapture [OF v] p k by auto
  have w: "wf_move m" "wf_move m'" using p pseudo_legal_wf_move by auto
  have eq': "(if isCapture b m then [fc (From m), CHR ''x''] else []) @ [fc (To m), rc (To m)] @
        (if Promotion m \<noteq> NoPieceType then [CHR ''='', pieceLetterUpper (Promotion m)] else []) =
      (if isCapture b m' then [fc (From m'), CHR ''x''] else []) @ [fc (To m'), rc (To m')] @
        (if Promotion m' \<noteq> NoPieceType then [CHR ''='', pieceLetterUpper (Promotion m')] else [])"
    using eq k by (simp add: sanBody_def Let_def)
  have cc: "isCapture b m \<longleftrightarrow> isCapture b m'"
    using arg_cong [OF eq', of "\<lambda>xs. xs ! 1"] chars_differ(4) [OF i(2) i(2)] chars_differ(4) [OF i(4) i(4)]
    by (simp split: if_splits)
  then have to: "To m = To m'" and pr: "Promotion m = Promotion m'"
    using eq' i w coords_eq letter_inject [of "Promotion m" "Promotion m'"]
    by (auto simp: fc_eq rc_eq wf_move_def split: if_splits)
  have "fileOf (From m) = fileOf (From m')" using eq' cc c to i by (auto simp: fc_eq split: if_splits)
  then have "From m = From m'" using pawn_origin [OF p k to] by simp
  with to pr show ?thesis by simp
qed

lemma SAN_inject:
  assumes v: "valid_position b" and l: "m \<in> set (LegalMoves b)" "m' \<in> set (LegalMoves b)" and eq: "SAN b m = SAN b m'"
  shows "m = m'"
proof -
  have wf: "wf_board b" using v by (simp add: valid_position_def)
  have p: "pseudo_legal b m" "pseudo_legal b m'" using l pseudoLegalMoves_spec [OF wf] by (auto simp: LegalMoves_def)
  then have i: "square_index (To m)" "square_index (To m')" and ne: "\<not> IsEmpty (sqAt b (From m))" "\<not> IsEmpty (sqAt b (From m'))"
    by (auto simp: pseudo_legal_def)
  have body: "sanBody b m = sanBody b m'"
    using eq strip_suffix [OF _ checkSuffix_cases checkSuffix_cases sanBody_last [OF i(1)] sanBody_last [OF i(2)]]
    by (simp add: SAN_body ne)
  have kind: "castles b m \<longleftrightarrow> castles b m'" "is_pawn b m \<longleftrightarrow> is_pawn b m'"
    using sanBody_hd [OF p(1)] sanBody_hd [OF p(2)] unfolding body by simp_all
  show ?thesis
  proof (cases "castles b m")
    case True
    then have "castle_kingside b (Turn b) m \<or> castle_queenside b (Turn b) m"
      "castle_kingside b (Turn b) m' \<or> castle_queenside b (Turn b) m'" using king_two_files p kind by auto
    moreover have "fileOf (To m) = 2 \<longleftrightarrow> fileOf (To m') = 2"
      using body True kind by (auto simp: sanBody_def Let_def split: if_splits)
    ultimately show ?thesis using castle_moves by metis
  next
    case False
    then show ?thesis using kind sanBody_pawn [OF v p _ _ body] sanBody_piece [OF l p _ _ _ _ body] by blast
  qed
qed

section \<open>Wrapping\<close>

definition ascii :: "string \<Rightarrow> bool" where
  "ascii s \<longleftrightarrow> list_all (\<lambda>c. of_char c < (128 :: nat)) s"

lemma space_len_ascii: "of_char c < (128 :: nat) \<Longrightarrow> space_len (c # cs) = (if ascii_space c then 1 else 0)"
proof -
  assume c: "of_char c < (128 :: nat)"
  show ?thesis
  proof (cases "ascii_space c")
    case True
    then show ?thesis by (cases cs; cases "tl cs") auto
  next
    case False
    with c have "plain c" by (simp add: plain_def)
    with False show ?thesis by simp
  qed
qed

lemma fields_aux_words:
  "ascii s \<Longrightarrow> list_all plain cur \<Longrightarrow> list_all word (fields_aux cur s)"
  by (induction cur s rule: fields_aux.induct)
    (auto simp: fields_aux.simps(2) ascii_def space_len_ascii flush_def word_def plain_def)

lemma Fields_words: "ascii s \<Longrightarrow> list_all word (Fields s)"
  by (simp add: Fields_def fields_aux_words)

lemma fields_aux_newline [simp]: "fields_aux cur (CHR 0x0A # cs) = flush cur @ fields_aux [] cs"
  using space_len_ascii [of "CHR 0x0A" cs] by (simp add: fields_aux.simps(2) ascii_space_def)

lemma fields_aux_wrapWords:
  "list_all word ws \<Longrightarrow> list_all plain cur \<Longrightarrow> i > 0 \<Longrightarrow>
     fields_aux cur (wrapWords width i n ws) = flush cur @ ws"
proof (induction width i n ws arbitrary: cur rule: wrapWords.induct)
  case (2 width i n w ws)
  have w: "list_all plain w" "flush w = [w]" using "2.prems"(1) by (auto simp: word_def flush_def)
  show ?case using 2 w by (auto simp: fields_aux_plain)
qed simp

lemma Fields_wrapWords:
  assumes "list_all word ws"
  shows "Fields (wrapWords width 0 0 ws) = ws"
proof (cases ws)
  case (Cons w vs)
  then have w: "list_all plain w" "flush w = [w]" using assms by (auto simp: word_def flush_def)
  then show ?thesis
    using fields_aux_wrapWords [of vs w 1 width "length w"] assms Cons by (simp add: Fields_def fields_aux_plain)
qed (simp add: Fields_def flush_def)

text \<open>
  Widths: a word of at most the width goes where it fits, so no line exceeds the width.  The
  first line of the rest of the text continues a line that already holds \<open>n\<close> characters.
\<close>

lemma Split_first:
  "sep \<notin> set w \<Longrightarrow> Split (w @ s) sep = (w @ hd (Split s sep)) # tl (Split s sep)"
  by (induction w) (auto split: list.splits)

lemma Split_hd_tl: "Split s sep = hd (Split s sep) # tl (Split s sep)"
  by simp

definition widths_ok :: "nat \<Rightarrow> nat \<Rightarrow> string \<Rightarrow> bool" where
  "widths_ok width n s \<longleftrightarrow>
     n + length (hd (Split s (CHR 0x0A))) \<le> width \<and> (\<forall>l \<in> set (tl (Split s (CHR 0x0A))). length l \<le> width)"

lemma widths_ok_append:
  "CHR 0x0A \<notin> set w \<Longrightarrow> widths_ok width (n + length w) s \<Longrightarrow> widths_ok width n (w @ s)"
  by (simp add: widths_ok_def Split_first)

lemma widths_ok_newline: "n \<le> width \<Longrightarrow> widths_ok width 0 s \<Longrightarrow> widths_ok width n (CHR 0x0A # s)"
  by (cases "Split s (CHR 0x0A)") (simp_all add: widths_ok_def)

lemma wrapWords_widths:
  assumes "list_all (\<lambda>w. length w \<le> width \<and> CHR 0x0A \<notin> set w \<and> w \<noteq> []) ws" and "n \<le> width" and "i = 0 \<longleftrightarrow> n = 0"
  shows "widths_ok width n (wrapWords width i n ws)"
  using assms
proof (induction width i n ws rule: wrapWords.induct)
  case (1 width i n)
  then show ?case by (simp add: widths_ok_def)
next
  case (2 width i n w ws)
  have w: "CHR 0x0A \<notin> set w" "length w \<le> width" "w \<noteq> []" using "2.prems"(1) by auto
  consider (line) "n > 0 \<and> n + 1 + length w > width" | (blank) "\<not> (n > 0 \<and> n + 1 + length w > width)" "i > 0"
    | (first) "\<not> (n > 0 \<and> n + 1 + length w > width)" "i = 0" by blast
  then show ?case
  proof cases
    case line
    have "widths_ok width (length w) (wrapWords width (i + 1) (length w) ws)"
      using "2.IH"(1) [OF line] "2.prems" w by simp
    with line show ?thesis using widths_ok_append [OF w(1), of width 0] widths_ok_newline "2.prems"(2) by simp
  next
    case blank
    have "widths_ok width (n + 1 + length w) (wrapWords width (i + 1) (n + 1 + length w) ws)"
      using "2.IH"(2) [OF blank] blank "2.prems" w by simp
    with blank show ?thesis using widths_ok_append [of "CHR '' '' # w" width n] w(1) by auto
  next
    case first
    have "widths_ok width (n + length w) (wrapWords width (i + 1) (n + length w) ws)"
      using "2.IH"(3) [OF first(1)] first "2.prems" w by simp
    with first show ?thesis using widths_ok_append [OF w(1)] by auto
  qed
qed

lemma wrapMovetext_widths:
  assumes "ascii s" and "list_all (\<lambda>w. length w \<le> width) (Fields s)"
  shows "list_all (\<lambda>l. length l \<le> width) (Split (wrapMovetext s width) (CHR 0x0A))"
proof -
  have "list_all (\<lambda>w. length w \<le> width \<and> CHR 0x0A \<notin> set w \<and> w \<noteq> []) (Fields s)"
    using Fields_words [OF assms(1)] assms(2) by (auto simp: list_all_iff word_def plain_def ascii_space_def)
  then have "widths_ok width 0 (wrapMovetext s width)"
    unfolding wrapMovetext_def by (rule wrapWords_widths) simp_all
  then show ?thesis
    by (cases "Split (wrapMovetext s width) (CHR 0x0A)") (simp_all add: widths_ok_def list_all_iff)
qed

section \<open>Writing a game\<close>

text \<open>Replaying a list of moves; \<open>None\<close> when one of them is rejected.\<close>

fun replay :: "Board \<Rightarrow> string list \<Rightarrow> Board option" where
  "replay b [] = Some b"
| "replay b (u # us) = (case ApplyUCI b u of Inl e \<Rightarrow> None | Inr nb \<Rightarrow> replay nb us)"

lemma ep_victim_index:
  assumes "valid_position b" and "EnPassant b = t" and "square_index t"
  shows "square_index (t - 8 * pawnDir (Turn b))"
proof -
  have "t \<noteq> NoSquare" using assms(3) by (auto simp: square_index_def NoSquare_def)
  then have "rankOf t = startRank (Opposite (Turn b)) - pawnDir (Turn b)"
    using assms by (auto simp: valid_position_def ep_ok_def)
  then show ?thesis
    using assms(3) by (cases "Turn b") (auto simp: startRank_def pawnDir_def square_index_def rankOf_div)
qed

lemma valid_no_panic:
  assumes "valid_position b" and "wf_move m"
  shows "\<not> applyPanics b m" and "\<not> sanPanics b m"
proof -
  have "square_index (enPassantVictim b m)" if "isEnPassantCapture b m"
    using ep_victim_index [OF assms(1), of "To m"] that assms(2)
    by (cases "Turn b") (auto simp: isEnPassantCapture_def enPassantVictim_def pawnDir_def wf_move_def)
  then show "\<not> applyPanics b m" using assms(2) by (auto simp: applyPanics_def wf_move_def)
  then show "\<not> sanPanics b m" using assms(2) by (auto simp: sanPanics_def wf_move_def)
qed

lemma ApplyMove_valid:
  assumes "valid_position b" and "ApplyMove b m = Inr nb"
  shows "m \<in> set (LegalMoves b)" and "nb = applyMoveUnchecked b m" and "valid_position nb"
  using assms valid_position_step
  by (auto simp: ApplyMove_def IsLegal_def list_ex_iff split: if_splits)

lemma movetext_replay:
  "valid_position b \<Longrightarrow> (\<exists>t. movetext b acc us = Inr t) \<longleftrightarrow> replay b us \<noteq> None"
  and movetext_no_panic: "valid_position b \<Longrightarrow> movetext b acc us \<noteq> Inl PgnPanic"
proof (induction us arbitrary: b acc)
  case (Cons u us)
  {
    case 1
    then show ?case
      using Cons.IH(1) valid_no_panic(2) [OF 1] ApplyMove_valid [OF 1] ParseUCIMove_Inr [of u]
      by (auto simp: ApplyUCI_def Let_def split: sum.splits)
  next
    case 2
    then show ?case
      using Cons.IH(2) valid_no_panic(2) [OF 2] ApplyMove_valid [OF 2] ParseUCIMove_Inr [of u]
      by (auto simp: Let_def split: sum.splits)
  }
qed simp_all

end
