(* ===== verification/Chess_Game.thy ===== *)
theory Chess_Game
  imports Chess_San
begin

text \<open>
  Games played through the interface the services use: start from \<open>NewBoard\<close>, then
  \<open>ApplyUCI\<close> one string after another.  \<open>reachable n b\<close> says that \<open>b\<close> is reached after \<open>n\<close>
  accepted moves.  Every such position is valid and survives being stored as a FEN string
  (for fewer than \<open>2^62\<close> moves, so that the clocks do not wrap around).

  The second half states the properties of the chess library that a client relies on.
\<close>

section \<open>Reachable positions\<close>

inductive reachable :: "nat \<Rightarrow> Board \<Rightarrow> bool" where
  start: "NewBoard = Some b \<Longrightarrow> reachable 0 b"
| step: "reachable n b \<Longrightarrow> ApplyUCI b uci = Inr nb \<Longrightarrow> reachable (Suc n) nb"

inductive_cases reachable_SucE: "reachable (Suc n) b"

inductive_simps reachable_0: "reachable 0 b"

lemma ApplyUCI_valid:
  assumes "valid_position b" and "ApplyUCI b uci = Inr nb"
  obtains m where "ParseUCIMove uci = Inr m" and "m \<in> set (LegalMoves b)" and "nb = applyMoveUnchecked b m"
    and "valid_position nb"
proof -
  obtain m where m: "ParseUCIMove uci = Inr m" "ApplyMove b m = Inr nb"
    using assms(2) by (cases "ParseUCIMove uci") (simp_all add: ApplyUCI_def)
  show ?thesis by (rule that [OF m(1) ApplyMove_valid [OF assms(1) m(2)]])
qed

lemma reachable_valid: "reachable n b \<Longrightarrow> valid_position b"
proof (induction rule: reachable.induct)
  case (start b)
  then show ?case using valid_startBoard by (simp add: NewBoard_startBoard)
next
  case (step n b uci nb)
  show ?case using ApplyUCI_valid [OF step.IH step.hyps(2)] by blast
qed

section \<open>Positions survive storage\<close>

lemma drop_bit_and_low: "(x :: byte) < 16 \<Longrightarrow> x AND y < 16"
  by (simp add: low_nibble drop_bit_and)

lemma updateCastlingRights_low: "Castling b < 16 \<Longrightarrow> Castling (updateCastlingRights b m p q) < 16"
  by (simp add: updateCastlingRights_def clearForSquare_def Let_def drop_bit_and_low)

lemma FullMove_parts:
  "FullMove (movePiece b m) = FullMove b" "FullMove (castleRook m b) = FullMove b"
  "FullMove (clearForSquare s b) = FullMove b" "FullMove (updateCastlingRights b m p q) = FullMove b"
  by (simp_all add: movePiece_def castleRook_def updateCastlingRights_def clearForSquare_def Let_def)

lemma apply_FullMove: "FullMove (applyMoveUnchecked b m) = (if Turn b = Black then wrap64 (FullMove b + 1) else FullMove b)"
  by (simp add: applyMoveUnchecked_def Let_def FullMove_parts)

lemma fen_ok_step:
  assumes v: "valid_position b" and f: "fen_ok b" and l: "m \<in> set (LegalMoves b)"
    and c: "HalfMove b < 2 ^ 63 - 1" "FullMove b < 2 ^ 63 - 1"
  shows "fen_ok (applyMoveUnchecked b m)"
    and "HalfMove (applyMoveUnchecked b m) \<le> HalfMove b + 1" and "FullMove (applyMoveUnchecked b m) \<le> FullMove b + 1"
proof -
  have v': "valid_position (applyMoveUnchecked b m)" using valid_position_step [OF v l] .
  have same: "Castling (moved b m) = Castling b"
    by (simp add: moved_def movePiece_def castleRook_def Let_def)
  have b: "0 \<le> HalfMove b" "1 \<le> FullMove b" "Castling b < 16" using f by (auto simp: fen_ok_def)
  have w: "wrap64 (HalfMove b + 1) = HalfMove b + 1" "wrap64 (FullMove b + 1) = FullMove b + 1"
    using b c by (auto simp: wrap64_id int64_range_def)
  have h: "0 \<le> HalfMove (applyMoveUnchecked b m)" "HalfMove (applyMoveUnchecked b m) \<le> HalfMove b + 1"
    using b by (simp_all add: apply_fields(6) w)
  have m: "1 \<le> FullMove (applyMoveUnchecked b m)" "FullMove (applyMoveUnchecked b m) \<le> FullMove b + 1"
    using b by (simp_all add: apply_FullMove w)
  show "HalfMove (applyMoveUnchecked b m) \<le> HalfMove b + 1" "FullMove (applyMoveUnchecked b m) \<le> FullMove b + 1"
    using h m by simp_all
  have "Castling (applyMoveUnchecked b m) < 16"
    unfolding apply_fields(4) using b(3) same by (intro updateCastlingRights_low) simp
  moreover have "EnPassant (applyMoveUnchecked b m) = NoSquare \<or> square_index (EnPassant (applyMoveUnchecked b m))"
    "wf_board (applyMoveUnchecked b m)" using v' by (auto simp: valid_position_def ep_ok_def)
  ultimately show "fen_ok (applyMoveUnchecked b m)" using h m c by (auto simp: fen_ok_def int64_range_def)
qed

lemma reachable_fen_ok:
  "reachable n b \<Longrightarrow> n < 2 ^ 62 \<Longrightarrow> fen_ok b \<and> HalfMove b \<le> int n \<and> FullMove b \<le> int n + 1"
proof (induction rule: reachable.induct)
  case (start b)
  then have "b = startBoard" by (simp add: NewBoard_startBoard)
  moreover have "HalfMove startBoard = 0" "FullMove startBoard = 1" by (simp_all add: startBoard_def)
  ultimately show ?case using fen_ok_startBoard by simp
next
  case (step n b uci nb)
  then have IH: "fen_ok b" "HalfMove b \<le> int n" "FullMove b \<le> int n + 1" by auto
  have "int n < 2 ^ 62" using step.prems by (metis Suc_lessD of_nat_less_iff of_nat_numeral of_nat_power)
  then have c: "HalfMove b < 2 ^ 63 - 1" "FullMove b < 2 ^ 63 - 1" using IH(2,3) by simp_all
  have v: "valid_position b" using step.hyps(1) by (rule reachable_valid)
  obtain m where "m \<in> set (LegalMoves b)" "nb = applyMoveUnchecked b m"
    using ApplyUCI_valid [OF v step.hyps(2)] by blast
  then show ?case using fen_ok_step [OF v IH(1) _ c] IH(2,3) by fastforce
qed

text \<open>The position after 1. e4, an example of a reachable position.\<close>

definition afterE4 :: Board where
  "afterE4 = applyMoveUnchecked startBoard (quiet 12 28)"

lemma legal_e2e4: "IsLegal startBoard (quiet 12 28)"
  by code_simp

lemma ApplyUCI_e2e4: "ApplyUCI startBoard ''e2e4'' = Inr afterE4"
proof -
  have "ParseUCIMove ''e2e4'' = Inr (quiet 12 28)" by code_simp
  then show ?thesis using legal_e2e4 by (simp add: ApplyUCI_def ApplyMove_def afterE4_def)
qed

lemma Outcome_startBoard: "Outcome startBoard = (InProgress, Ongoing)"
  by code_simp

lemma reachable_afterE4: "reachable 1 afterE4"
  using reachable.step [OF reachable.start [OF NewBoard_startBoard] ApplyUCI_e2e4] by simp

section \<open>Properties of the chess library\<close>

text \<open>
  C2. The move generator is correct and complete: in a valid position \<open>LegalMoves\<close> returns exactly
  the moves the rules of chess allow (\<open>legal_move\<close>, stated without the generator's tables and
  loops: how each piece moves, promotion, en passant, castling, and no king left attacked).
\<close>

theorem LegalMoves_correct:
  assumes "valid_position b"
  shows "set (LegalMoves b) = {m. legal_move b m}"
  using LegalMoves_spec [OF assms] by blast

theorem LegalMoves_correct_witness: "set (LegalMoves startBoard) = {m. legal_move startBoard m}"
  using LegalMoves_correct [of startBoard] valid_startBoard by simp

text \<open>
  C3. In every position a game can reach, each side has exactly one king, the side that has just
  moved is not in check and the rest of \<open>valid_position\<close> holds; every generated legal move is
  applied without an index panic, captures no king and leads to a valid position again.
\<close>

theorem reachable_positions_valid:
  assumes "reachable n b"
  shows "valid_position b \<and>
     (\<forall>m \<in> set (LegalMoves b). \<not> applyPanics b m \<and> Piece_Type (sqAt b (To m)) \<noteq> King \<and>
        valid_position (applyMoveUnchecked b m))"
proof -
  have v: "valid_position b" using assms by (rule reachable_valid)
  have wf: "wf_board b" using v by (simp add: valid_position_def)
  have "\<not> applyPanics b m \<and> Piece_Type (sqAt b (To m)) \<noteq> King" if "m \<in> set (LegalMoves b)" for m
  proof -
    have p: "pseudo_legal b m" using that LegalMoves_spec [OF v] by (simp add: legal_move_def)
    have "sqAt b (To m) \<noteq> MakePiece (Piece_Color (sqAt b (To m))) King" by (rule no_king_captured [OF v p])
    then show ?thesis
      using pseudo_legal_no_panic [OF p] valid_piece_eq_iff [of "sqAt b (To m)" King] valid_piece_type [of "sqAt b (To m)" King] wf
      by auto
  qed
  then show ?thesis using v valid_position_step by blast
qed

theorem reachable_positions_valid_witness: "reachable 1 afterE4 \<and> valid_position afterE4"
  using reachable_positions_valid [OF reachable_afterE4] reachable_afterE4 by blast

text \<open>
  C4. The services keep a game as a FEN string between requests.  A position reached by fewer
  than \<open>2^62\<close> moves is read back from its FEN string unchanged, clocks included.
\<close>

theorem reachable_positions_survive_storage:
  assumes "reachable n b" and "n < 2 ^ 62"
  shows "ParseFEN (FEN b) = Inr b"
  using reachable_fen_ok [OF assms] ParseFEN_FEN by blast

theorem reachable_positions_survive_storage_witness: "ParseFEN (FEN afterE4) = Inr afterE4"
  using reachable_positions_survive_storage [OF reachable_afterE4] by simp

text \<open>
  C8. \<open>ApplyUCI\<close> accepts a string exactly when it is the UCI rendering of a legal move, and then
  returns the position after that move; every other string is rejected.
\<close>

theorem ApplyUCI_accepts:
  assumes "valid_position b"
  shows "ApplyUCI b u = Inr nb \<longleftrightarrow> (\<exists>m. legal_move b m \<and> Move_String m = u \<and> nb = applyMoveUnchecked b m)"
proof
  assume "ApplyUCI b u = Inr nb"
  then obtain m where "ParseUCIMove u = Inr m" "m \<in> set (LegalMoves b)" "nb = applyMoveUnchecked b m"
    using ApplyUCI_valid [OF assms] by blast
  then show "\<exists>m. legal_move b m \<and> Move_String m = u \<and> nb = applyMoveUnchecked b m"
    using ParseUCIMove_Inr LegalMoves_spec [OF assms] by blast
next
  assume "\<exists>m. legal_move b m \<and> Move_String m = u \<and> nb = applyMoveUnchecked b m"
  then obtain m where m: "legal_move b m" "Move_String m = u" "nb = applyMoveUnchecked b m" by blast
  have "wf_move m" using m(1) pseudo_legal_wf_move unfolding legal_move_def by blast
  then have "ParseUCIMove u = Inr m" using m(2) ParseUCIMove_String by blast
  moreover have "IsLegal b m" using m(1) LegalMoves_spec [OF assms] by (auto simp: IsLegal_def list_ex_iff)
  ultimately show "ApplyUCI b u = Inr nb" using m(3) by (simp add: ApplyUCI_def ApplyMove_def)
qed

theorem ApplyUCI_accepts_witness:
  "\<exists>m. legal_move startBoard m \<and> Move_String m = ''e2e4'' \<and> afterE4 = applyMoveUnchecked startBoard m"
  using ApplyUCI_accepts [of startBoard "''e2e4''" afterE4] valid_startBoard ApplyUCI_e2e4 by simp

text \<open>
  The attack test finds exactly the attacks of the rules: some enemy piece reaches the square
  by its pattern of movement, along a line with no piece in between for the sliding pieces.
\<close>

theorem IsAttacked_correct:
  assumes "wf_board b"
  shows "{s. square_index s \<and> IsAttacked b s c} = {s. square_index s \<and> attacked_by b s c}"
  using IsAttacked_spec [OF assms] by auto

theorem IsAttacked_correct_witness:
  "{s. square_index s \<and> IsAttacked startBoard s White} = {s. square_index s \<and> attacked_by startBoard s White}"
  using IsAttacked_correct [of startBoard White] valid_startBoard by (simp add: valid_position_def)

text \<open>
  The FEN reader and writer are inverse to each other: a board is the result of parsing some
  string exactly when it is well formed in the sense of \<open>fen_ok\<close>, and then its own rendering
  parses back to it.
\<close>

theorem ParseFEN_image: "(\<exists>s. ParseFEN s = Inr b) \<longleftrightarrow> fen_ok b \<and> ParseFEN (FEN b) = Inr b"
  using ParseFEN_ok ParseFEN_FEN by blast

text \<open>
  Parsing and printing UCI moves are inverse to each other: a string parses to a move exactly
  when the move is well formed and prints as that string.
\<close>

theorem ParseUCIMove_image: "ParseUCIMove s = Inr m \<longleftrightarrow> wf_move m \<and> Move_String m = s"
  using ParseUCIMove_Inr ParseUCIMove_String by blast

text \<open>
  C17. \<open>Outcome\<close> ends a game exactly when the rules do: mate when the side to move is in check and
  has no legal move, the winner being its opponent; stalemate without check; otherwise a draw by
  insufficient material or after a hundred half moves without capture or pawn move; and the
  game goes on in every other case.
\<close>

theorem Outcome_correct:
  assumes "valid_position b"
  shows "(Outcome b = (BlackWins, Checkmate) \<longleftrightarrow> Turn b = White \<and> in_check b \<and> (\<nexists>m. legal_move b m)) \<and>
     (Outcome b = (WhiteWins, Checkmate) \<longleftrightarrow> Turn b = Black \<and> in_check b \<and> (\<nexists>m. legal_move b m)) \<and>
     (Outcome b = (Draw, Stalemate) \<longleftrightarrow> \<not> in_check b \<and> (\<nexists>m. legal_move b m)) \<and>
     (Outcome b = (Draw, InsufficientMaterial) \<longleftrightarrow> (\<exists>m. legal_move b m) \<and> insufficient b) \<and>
     (Outcome b = (Draw, FiftyMove) \<longleftrightarrow> (\<exists>m. legal_move b m) \<and> \<not> insufficient b \<and> 100 \<le> HalfMove b) \<and>
     (fst (Outcome b) = InProgress \<longleftrightarrow> (\<exists>m. legal_move b m) \<and> \<not> insufficient b \<and> HalfMove b < 100)"
  using no_legal_moves [OF assms] InCheck_spec [OF assms] InsufficientMaterial_spec [of b]
  by (cases "Turn b") (simp_all add: Outcome_def)

theorem Outcome_correct_witness: "\<exists>m. legal_move startBoard m"
  using Outcome_correct [OF valid_startBoard] Outcome_startBoard by simp

text \<open>
  The repetition rule: on the FEN strings of a sequence of positions, \<open>threefold\<close> holds
  exactly when one position (placement, side to move, castling rights, en-passant square; not the
  clocks) occurs at least three times.
\<close>

theorem threefold_correct:
  assumes "list_all fen_ok bs"
  shows "threefold (map FEN bs) \<longleftrightarrow> (\<exists>b \<in> set bs. length (filter (same_position b) bs) \<ge> 3)"
proof -
  have eq: "length (filter (\<lambda>f. repetitionKey f = repetitionKey (FEN b)) (map FEN bs)) = length (filter (same_position b) bs)"
    if b: "b \<in> set bs" for b
  proof -
    have "filter (\<lambda>x. repetitionKey (FEN x) = repetitionKey (FEN b)) bs = filter (same_position b) bs"
    proof (rule filter_cong)
      fix x assume "x \<in> set bs"
      then show "(repetitionKey (FEN x) = repetitionKey (FEN b)) = same_position b x"
        using b assms repetitionKey_same [of b x] by (auto simp: list_all_iff)
    qed simp
    then show ?thesis by (simp add: filter_map comp_def)
  qed
  have "\<exists>b \<in> set bs. k = repetitionKey (FEN b)" if n: "length (filter (\<lambda>f. repetitionKey f = k) (map FEN bs)) \<ge> 3" for k
  proof -
    have "filter (\<lambda>f. repetitionKey f = k) (map FEN bs) \<noteq> []" using n by (metis list.size(3) not_numeral_le_zero)
    then show ?thesis by (auto simp: filter_empty_conv)
  qed
  then show ?thesis unfolding threefold_iff using eq by metis
qed

theorem threefold_correct_witness: "threefold (map FEN [startBoard, afterE4, startBoard, startBoard])"
proof -
  have "fen_ok afterE4" using reachable_fen_ok [OF reachable_afterE4] by simp
  then show ?thesis
    using threefold_correct [of "[startBoard, afterE4, startBoard, startBoard]"] fen_ok_startBoard
    by (simp add: same_position_def)
qed

text \<open>
  C18. Standard algebraic notation is unambiguous: two legal moves of a valid position have the
  same rendering only if they are the same move.
\<close>

theorem SAN_unambiguous:
  assumes "valid_position b" and "m \<in> set (LegalMoves b)" and "m' \<in> set (LegalMoves b)"
  shows "SAN b m = SAN b m' \<longleftrightarrow> m = m'"
  using SAN_inject [OF assms] by auto

theorem SAN_unambiguous_witness: "SAN startBoard (quiet 12 28) \<noteq> SAN startBoard (quiet 6 21)"
proof -
  have "IsLegal startBoard (quiet 6 21)" by code_simp
  then show ?thesis
    using SAN_unambiguous [OF valid_startBoard, of "quiet 12 28" "quiet 6 21"] legal_e2e4
    unfolding IsLegal_def list_ex_iff by auto
qed

text \<open>
  C19. \<open>PGN\<close> writes every legal game: from a valid starting position it never panics, and it
  returns a document exactly when all the moves are accepted one after the other.
\<close>

theorem PGN_writes_legal_games:
  assumes "ParseFEN start = Inr b" and "valid_position b"
  shows "PGN quote start ucis tags \<noteq> Inl PgnPanic \<and>
     ((\<exists>doc. PGN quote start ucis tags = Inr doc) \<longleftrightarrow> replay b ucis \<noteq> None)"
proof -
  have "(\<exists>doc. PGN quote start ucis tags = Inr doc) \<longleftrightarrow> (\<exists>t. movetext b '''' ucis = Inr t)"
    using assms(1) by (auto simp: PGN_def andThen_Inr Let_def)
  moreover have "PGN quote start ucis tags \<noteq> Inl PgnPanic"
    using assms(1) movetext_no_panic [OF assms(2), of "''''" ucis]
    by (cases "movetext b '''' ucis") (auto simp: PGN_def Let_def)
  ultimately show ?thesis using movetext_replay [OF assms(2)] by simp
qed

theorem PGN_writes_legal_games_witness: "\<exists>doc. PGN (\<lambda>s. s) StartFEN [''e2e4''] [] = Inr doc"
proof -
  have "ParseFEN StartFEN = Inr startBoard" using ParseFEN_FEN [OF fen_ok_startBoard] by (simp add: FEN_startBoard)
  then show ?thesis
    using PGN_writes_legal_games [of StartFEN startBoard "\<lambda>s. s" "[''e2e4'']" "[]"] valid_startBoard ApplyUCI_e2e4 by simp
qed

text \<open>
  Wrapping the move text loses and splits no token, and keeps every line within the width
  when no single token is wider.
\<close>

theorem wrapMovetext_correct:
  assumes "ascii s" and "list_all (\<lambda>w. length w \<le> width) (Fields s)"
  shows "Fields (wrapMovetext s width) = Fields s \<and>
     list_all (\<lambda>l. length l \<le> width) (Split (wrapMovetext s width) (CHR 0x0A))"
  using wrapMovetext_widths [OF assms] Fields_wrapWords [OF Fields_words [OF assms(1)]] by (simp add: wrapMovetext_def)

theorem wrapMovetext_correct_witness: "Fields (wrapMovetext ''1. e4 e5 *'' 5) = Fields ''1. e4 e5 *''"
proof -
  have "ascii ''1. e4 e5 *''" by (simp add: ascii_def)
  moreover have "list_all (\<lambda>w. length w \<le> 5) (Fields ''1. e4 e5 *'')" by code_simp
  ultimately show ?thesis using wrapMovetext_correct by blast
qed

end
