(* ===== verification/Redis_Signals.thy ===== *)
theory Redis_Signals
  imports Complex_Main Go_Strings
begin

text \<open>
  The per-position and per-player indexes kept in Redis: the novelty filter
  (\<open>pkg/redisx/novelty.go\<close>) and the fair-play series (\<open>pkg/redisx/integrity.go\<close>).

  Redis is a service outside the repository.  An operation of the source is a function of the
  replies Redis gives (parameters) and returns its result with the list of commands it sends,
  so that the order and the arguments of the commands can be stated.  \<open>None\<close> as a reply is a
  failed command.  \<open>float64\<close> is idealised as a real number.
\<close>

section \<open>Replies and commands\<close>

datatype RedisVal = RBool bool | RInt int | RFloat real | ROther

fun truthy :: "RedisVal \<Rightarrow> bool" where
  "truthy (RBool t) = t"
| "truthy (RInt t) = (t \<noteq> 0)"
| "truthy (RFloat t) = (t \<noteq> 0)"
| "truthy ROther = False"

datatype RedisCmd =
    BfReserve string int
  | BfMExists string "string list"
  | BfMAdd string "string list"
  | BfAdd string string
  | TsCreate string string string
  | TsAdd string int real
  | TsRange string int int

section \<open>Novelty\<close>

definition positionsFilter :: string where "positionsFilter = ''bloom:positions''"
definition pgnFilter :: string where "pgnFilter = ''bloom:pgn''"
definition bloomCapacity :: int where "bloomCapacity = 1000000"

definition positionKey :: "string \<Rightarrow> string" where
  "positionKey fen =
     (let fields = Fields fen in if length fields \<ge> 4 then Join (take 4 fields) '' '' else fen)"

definition ensureFilter :: "bool \<Rightarrow> string \<Rightarrow> int \<Rightarrow> RedisCmd list" where
  "ensureFilter enabled key capacity = (if \<not> enabled then [] else [BfReserve key capacity])"

text \<open>The loop over the reply: the first position that is definitely absent.\<close>

fun firstAbsent :: "string list \<Rightarrow> RedisVal list \<Rightarrow> nat \<Rightarrow> (string \<times> nat) option" where
  "firstAbsent (f # fs) (v # vs) i = (if \<not> truthy v then Some (f, i) else firstAbsent fs vs (i + 1))"
| "firstAbsent _ _ i = None"

definition FirstNovelty :: "bool \<Rightarrow> (string list \<Rightarrow> RedisVal list option) \<Rightarrow> string list \<Rightarrow>
    (string \<times> nat) option \<times> RedisCmd list" where
  "FirstNovelty enabled mexists fenHistory =
     (if \<not> enabled \<or> fenHistory = [] then (None, [])
      else
        let keys = map positionKey fenHistory;
            cmds = ensureFilter enabled positionsFilter bloomCapacity @ [BfMExists positionsFilter keys]
        in case mexists keys of
             None \<Rightarrow> (None, cmds)
           | Some res \<Rightarrow>
               if length res \<noteq> length fenHistory then (None, cmds)
               else (firstAbsent fenHistory res 0, cmds))"

text \<open>The second component tells whether an error is returned.\<close>

definition Novelty_Record :: "bool \<Rightarrow> bool \<Rightarrow> string list \<Rightarrow> RedisCmd list \<times> bool" where
  "Novelty_Record enabled maddFails fenHistory =
     (if \<not> enabled \<or> fenHistory = [] then ([], False)
      else (ensureFilter enabled positionsFilter bloomCapacity @ [BfMAdd positionsFilter (map positionKey fenHistory)],
            maddFails))"

text \<open>\<open>hash\<close> is the hexadecimal SHA-1 of a string, \<open>bfadd\<close> the reply to the command.\<close>

definition SeenPGN :: "bool \<Rightarrow> (string \<Rightarrow> string) \<Rightarrow> (string \<Rightarrow> RedisVal option) \<Rightarrow> string list \<Rightarrow> unit + bool" where
  "SeenPGN enabled hash bfadd moves =
     (if \<not> enabled \<or> moves = [] then Inr False
      else case bfadd (hash (Join moves '' '')) of
             None \<Rightarrow> Inl ()
           | Some added \<Rightarrow> Inr (\<not> truthy added))"

section \<open>Fair play\<close>

definition matchSeries :: "string \<Rightarrow> string" where "matchSeries userID = ''ts:match:'' @ userID"
definition aclSeries :: "string \<Rightarrow> string" where "aclSeries userID = ''ts:acl:'' @ userID"

record GameSignals =
  sig_PlayerID :: string
  sig_EngineMatchRate :: real
  sig_AvgCentipawnLoss :: real
  sig_MoveCount :: int
  sig_At :: "int option"

definition ensureSeries :: "bool \<Rightarrow> string \<Rightarrow> string \<Rightarrow> string \<Rightarrow> RedisCmd list" where
  "ensureSeries enabled key userID metric = (if \<not> enabled then [] else [TsCreate key metric userID])"

text \<open>Times are Unix milliseconds; \<open>None\<close> is Go's zero time, for which the current time stands in.\<close>

definition Integrity_Record :: "bool \<Rightarrow> int \<Rightarrow> GameSignals \<Rightarrow> RedisCmd list" where
  "Integrity_Record enabled now s =
     (if \<not> enabled \<or> sig_PlayerID s = '''' then []
      else if sig_MoveCount s < 10 then []
      else let ts = (case sig_At s of None \<Rightarrow> now | Some t \<Rightarrow> t) in
           ensureSeries enabled (matchSeries (sig_PlayerID s)) (sig_PlayerID s) ''engine_match_rate'' @
           ensureSeries enabled (aclSeries (sig_PlayerID s)) (sig_PlayerID s) ''avg_centipawn_loss'' @
           [TsAdd (matchSeries (sig_PlayerID s)) ts (sig_EngineMatchRate s),
            TsAdd (aclSeries (sig_PlayerID s)) ts (sig_AvgCentipawnLoss s)])"

record Profile =
  prof_PlayerID :: string
  prof_Games :: int
  prof_AvgMatchRate :: real
  prof_AvgCentipawnLoss :: real
  prof_Suspicion :: real
  prof_Flagged :: bool

definition emptyProfile :: "string \<Rightarrow> Profile" where
  "emptyProfile userID = \<lparr>prof_PlayerID = userID, prof_Games = 0, prof_AvgMatchRate = 0,
     prof_AvgCentipawnLoss = 0, prof_Suspicion = 0, prof_Flagged = False\<rparr>"

definition mean :: "real list \<Rightarrow> real" where
  "mean xs = (if xs = [] then 0 else sum_list xs / real (length xs))"

definition clamp01 :: "real \<Rightarrow> real" where
  "clamp01 f = (if f < 0 then 0 else if f > 1 then 1 else f)"

definition suspiciousMatchRate :: real where "suspiciousMatchRate = 85 / 100"
definition suspiciousACL :: real where "suspiciousACL = 10"
definition minGamesForFlag :: int where "minGamesForFlag = 5"
definition flagThreshold :: real where "flagThreshold = 75 / 100"

text \<open>
  \<open>matches\<close> and \<open>acls\<close> are what reading the two series over the window gives, \<open>None\<close> an error.
  The explanatory strings of \<open>Reasons\<close> are left out.
\<close>

definition Evaluate :: "bool \<Rightarrow> string \<Rightarrow> real list option \<Rightarrow> real list option \<Rightarrow> Profile" where
  "Evaluate enabled userID matches acls =
     (if \<not> enabled then emptyProfile userID
      else case matches of
          None \<Rightarrow> emptyProfile userID
        | Some ms \<Rightarrow>
            let as = (case acls of None \<Rightarrow> [] | Some l \<Rightarrow> l) in
            if ms = [] then (emptyProfile userID)\<lparr>prof_Games := 0\<rparr>
            else
              let avgMatch = mean ms;
                  avgLoss = mean as;
                  matchSignal = clamp01 ((avgMatch - suspiciousMatchRate) / (1 - suspiciousMatchRate));
                  aclSignal = clamp01 ((suspiciousACL - avgLoss) / suspiciousACL);
                  suspicion = (matchSignal + aclSignal) / 2
              in \<lparr>prof_PlayerID = userID, prof_Games = int (length ms), prof_AvgMatchRate = avgMatch,
                  prof_AvgCentipawnLoss = avgLoss, prof_Suspicion = suspicion,
                  prof_Flagged = (int (length ms) \<ge> minGamesForFlag \<and> suspicion \<ge> flagThreshold)\<rparr>)"

section \<open>Lemmas\<close>

lemma firstAbsent_Some:
  "firstAbsent fs vs i = Some (f, k) \<Longrightarrow>
     i \<le> k \<and> k - i < length fs \<and> k - i < length vs \<and> f = fs ! (k - i) \<and> \<not> truthy (vs ! (k - i)) \<and>
     (\<forall>j < k - i. truthy (vs ! j))"
proof (induction fs vs i rule: firstAbsent.induct)
  case (1 f' fs v vs i)
  show ?case
  proof (cases "truthy v")
    case True
    then have r: "firstAbsent fs vs (i + 1) = Some (f, k)" using "1.prems" by simp
    note IH = "1.IH" [OF _ r]
    then have "i + 1 \<le> k" using True by simp
    then have k: "k - i = Suc (k - (i + 1))" by arith
    show ?thesis using IH True unfolding k by (auto simp: less_Suc_eq_0_disj)
  next
    case False
    then show ?thesis using "1.prems" by auto
  qed
qed simp_all

lemma firstAbsent_None:
  "length fs = length vs \<Longrightarrow> firstAbsent fs vs i = None \<longleftrightarrow> list_all truthy vs"
  by (induction fs vs i rule: firstAbsent.induct) auto

lemma clamp01_bounds: "0 \<le> clamp01 f" "clamp01 f \<le> 1"
  by (simp_all add: clamp01_def)

lemma clamp01_half: "1 / 2 \<le> clamp01 f \<Longrightarrow> 1 / 2 \<le> f"
  by (auto simp: clamp01_def split: if_splits)

section \<open>Properties\<close>

text \<open>
  A reported novelty is genuine: when the filter misses no key that was recorded (a Bloom
  filter has no false negatives), the position \<open>FirstNovelty\<close> returns was never recorded, it is
  the one at the returned index of the game, and every earlier position is reported as known.
\<close>

theorem FirstNovelty_sound:
  assumes "mexists (map positionKey fens) = Some res"
    and no_false_negatives: "\<And>i. i < length fens \<Longrightarrow> positionKey (fens ! i) \<in> recorded \<Longrightarrow> truthy (res ! i)"
    and "fst (FirstNovelty enabled mexists fens) = Some (fen, k)"
  shows "k < length fens \<and> fen = fens ! k \<and> positionKey fen \<notin> recorded \<and> (\<forall>j < k. truthy (res ! j))"
proof -
  have "firstAbsent fens res 0 = Some (fen, k)"
    using assms(1,3) by (auto simp: FirstNovelty_def Let_def split: if_splits)
  from firstAbsent_Some [OF this] show ?thesis using no_false_negatives by auto
qed

theorem FirstNovelty_sound_witness:
  "positionKey ''b w - - 0 1'' \<notin> {positionKey ''a w - - 0 1''}"
proof -
  have k: "positionKey ''a w - - 0 1'' = ''a w - -''" "positionKey ''b w - - 0 1'' = ''b w - -''" by code_simp+
  show ?thesis
    using FirstNovelty_sound [of "\<lambda>_. Some [RInt 1, RBool False]" "[''a w - - 0 1'', ''b w - - 0 1'']" "[RInt 1, RBool False]"
        "{positionKey ''a w - - 0 1''}" True "''b w - - 0 1''" 1]
    by (auto simp: FirstNovelty_def less_Suc_eq nth_Cons' k)
qed

text \<open>
  A player is flagged only on a sustained pattern: at least five games, an average engine
  match rate of at least 92.5 percent and an average loss of at most five centipawns.
\<close>

theorem Evaluate_flags_only_both_signals:
  assumes "prof_Flagged (Evaluate enabled userID matches acls)"
  shows "5 \<le> prof_Games (Evaluate enabled userID matches acls) \<and>
     925 / 1000 \<le> prof_AvgMatchRate (Evaluate enabled userID matches acls) \<and>
     prof_AvgCentipawnLoss (Evaluate enabled userID matches acls) \<le> 5"
proof -
  obtain ms where ms: "matches = Some ms" "ms \<noteq> []" "enabled"
    using assms by (cases matches) (auto simp: Evaluate_def emptyProfile_def Let_def split: if_splits)
  let ?as = "case acls of None \<Rightarrow> [] | Some l \<Rightarrow> l"
  let ?m = "clamp01 ((mean ms - suspiciousMatchRate) / (1 - suspiciousMatchRate))"
  let ?a = "clamp01 ((suspiciousACL - mean ?as) / suspiciousACL)"
  have flag: "minGamesForFlag \<le> int (length ms)" "flagThreshold \<le> (?m + ?a) / 2"
    using assms ms by (simp_all add: Evaluate_def Let_def)
  then have "1 / 2 \<le> ?m" "1 / 2 \<le> ?a"
    using clamp01_bounds(2) [of "(mean ms - suspiciousMatchRate) / (1 - suspiciousMatchRate)"]
      clamp01_bounds(2) [of "(suspiciousACL - mean ?as) / suspiciousACL"] by (simp_all add: flagThreshold_def)
  then have "1 / 2 \<le> (mean ms - suspiciousMatchRate) / (1 - suspiciousMatchRate)" "1 / 2 \<le> (suspiciousACL - mean ?as) / suspiciousACL"
    using clamp01_half by blast+
  then have "925 / 1000 \<le> mean ms" "mean ?as \<le> 5"
    by (simp_all add: suspiciousMatchRate_def suspiciousACL_def field_simps)
  then show ?thesis using ms flag(1) by (simp add: Evaluate_def Let_def minGamesForFlag_def)
qed

theorem Evaluate_flags_only_both_signals_witness:
  "925 / 1000 \<le> prof_AvgMatchRate (Evaluate True ''p'' (Some [1, 1, 1, 1, 1]) (Some [2, 2, 2, 2, 2]))"
  using Evaluate_flags_only_both_signals [of True "''p''" "Some [1, 1, 1, 1, 1]" "Some [2, 2, 2, 2, 2]"]
  by (simp add: Evaluate_def mean_def clamp01_def suspiciousMatchRate_def suspiciousACL_def minGamesForFlag_def
      flagThreshold_def Let_def)

text \<open>
  The flag can rest on one signal alone: when the series of centipawn losses cannot be read, the
  missing losses count as an average of zero, which is the strongest possible signal, and five
  games of full agreement with the engine are flagged without any loss on record.
\<close>

theorem Evaluate_missing_losses_flag: "prof_Flagged (Evaluate True userID (Some [1, 1, 1, 1, 1]) None)"
  by (simp add: Evaluate_def mean_def clamp01_def suspiciousMatchRate_def suspiciousACL_def minGamesForFlag_def
      flagThreshold_def Let_def)

end
