(* ===== verification/Store.thy ===== *)
theory Store
  imports Rating Chess_Game Redis_Signals
begin

text \<open>
  The relational store (\<open>pkg/store\<close>).  A table is the list of its rows in insertion order.  A
  statement of the source is modelled by what it does to the rows: \<open>INSERT\<close> appends a row unless
  a uniqueness or reference constraint of the schema (\<open>migrations/*.sql\<close>) refuses it, \<open>UPDATE \<dots>
  WHERE\<close> maps the rows that satisfy the condition, \<open>SELECT\<close> filters.  Several statements in one
  transaction take effect together or not at all.

  Postgres itself is not modelled beyond that.  \<open>up\<close> says whether the database answers the call:
  when it does not, the operation returns \<open>DbErr\<close> and changes nothing.  The current time \<open>now\<close>
  and freshly generated identifiers are arguments.  Identifiers are compared as text.
\<close>

section \<open>Tables\<close>

record GameRow =
  g_id :: string
  g_white :: string
  g_black :: "string option"
  g_status :: string
  g_end_reason :: "string option"
  g_fen :: string
  g_engine_depth :: int
  g_vs_engine :: bool
  g_rated :: bool
  g_initial_ms :: int
  g_increment_ms :: int
  g_started_at :: int
  g_ended_at :: "int option"
  g_white_elo_before :: "int option"
  g_black_elo_before :: "int option"
  g_white_elo_delta :: "int option"
  g_black_elo_delta :: "int option"

record MoveRow =
  mv_game :: string
  mv_ply :: int
  mv_uci :: string
  mv_fen_after :: string

record OutboxRow =
  ob_id :: int
  ob_game :: string
  ob_ply :: int
  ob_uci :: string
  ob_fen_after :: string
  ob_status :: string
  ob_end_reason :: string
  ob_ended :: bool
  ob_published :: bool

record UserRow =
  u_id :: string
  u_username :: string
  u_email :: "string option"
  u_password_hash :: "string option"
  u_elo :: int
  u_is_guest :: bool
  u_created_at :: int

record TokenRow =
  t_hash :: string
  t_user :: string
  t_expires_at :: int
  t_consumed :: bool

record OpeningRow =
  op_key :: string
  op_uci :: string
  op_san :: string
  op_white_wins :: int
  op_black_wins :: int
  op_draws :: int

record DB =
  games :: "GameRow list"
  moves :: "MoveRow list"
  outbox :: "OutboxRow list"
  users :: "UserRow list"
  tokens :: "TokenRow list"
  opening_moves :: "OpeningRow list"
  opening_ingested :: "string list"

datatype StoreError =
    ErrNotFound | ErrNotInProgress | ErrSeatUnavailable | ErrUserExists | ErrTokenInvalid
  | ErrNoEmail | ErrNotUpgradable | DbErr

text \<open>What an operation returns: an error, or a value; and the tables afterwards.\<close>

type_synonym 'a stored = "(StoreError + 'a) \<times> DB"

definition update_where :: "('r \<Rightarrow> bool) \<Rightarrow> ('r \<Rightarrow> 'r) \<Rightarrow> 'r list \<Rightarrow> 'r list" where
  "update_where P f rows = map (\<lambda>r. if P r then f r else r) rows"

definition has_user :: "DB \<Rightarrow> string \<Rightarrow> bool" where
  "has_user db uid \<longleftrightarrow> list_ex (\<lambda>u. u_id u = uid) (users db)"

definition find_game :: "DB \<Rightarrow> string \<Rightarrow> GameRow option" where
  "find_game db gid = find (\<lambda>g. g_id g = gid) (games db)"

section \<open>Games\<close>

record Game =
  ID :: string
  WhiteID :: string
  BlackID :: string
  VsEngine :: bool
  Status :: string
  EndReasonText :: string
  Game_FEN :: string
  EngineDepth :: int
  Rated :: bool
  InitialMs :: int
  IncrementMs :: int
  AwaitingOpponent :: bool
  StartedAt :: int
  EndedAt :: "int option"

record StoredMove =
  Ply :: int
  UCI :: string
  FENAfter :: string

record CreateGameParams =
  cp_WhiteID :: string
  cp_BlackID :: string
  cp_VsEngine :: bool
  cp_EngineDepth :: int
  cp_StartFEN :: string
  cp_Rated :: bool
  cp_InitialMs :: int
  cp_IncrementMs :: int

definition Store_CreateGame :: "bool \<Rightarrow> string \<Rightarrow> int \<Rightarrow> CreateGameParams \<Rightarrow> DB \<Rightarrow> Game stored" where
  "Store_CreateGame up newId now p db =
     (let vsEngine = cp_VsEngine p;
          blackID = (if \<not> vsEngine \<and> cp_BlackID p \<noteq> '''' then Some (cp_BlackID p) else None);
          rated = (\<not> vsEngine \<and> cp_Rated p)
      in if \<not> up \<or> find_game db newId \<noteq> None \<or> \<not> has_user db (cp_WhiteID p) \<or>
            (case blackID of None \<Rightarrow> False | Some b \<Rightarrow> \<not> has_user db b)
         then (Inl DbErr, db)
         else
           (Inr \<lparr>ID = newId, WhiteID = cp_WhiteID p, BlackID = cp_BlackID p, VsEngine = vsEngine,
                 Status = ''IN_PROGRESS'', EndReasonText = '''', Game_FEN = cp_StartFEN p,
                 EngineDepth = cp_EngineDepth p, Rated = rated, InitialMs = cp_InitialMs p,
                 IncrementMs = cp_IncrementMs p, AwaitingOpponent = (\<not> vsEngine \<and> cp_BlackID p = ''''),
                 StartedAt = now, EndedAt = None\<rparr>,
            db\<lparr>games := games db @
              [\<lparr>g_id = newId, g_white = cp_WhiteID p, g_black = blackID, g_status = ''IN_PROGRESS'',
                g_end_reason = None, g_fen = cp_StartFEN p, g_engine_depth = cp_EngineDepth p,
                g_vs_engine = vsEngine, g_rated = rated, g_initial_ms = cp_InitialMs p,
                g_increment_ms = cp_IncrementMs p, g_started_at = now, g_ended_at = None,
                g_white_elo_before = None, g_black_elo_before = None, g_white_elo_delta = None,
                g_black_elo_delta = None\<rparr>]\<rparr>))"

text \<open>\<open>ORDER BY ply\<close>: plies of one game are distinct, so the order is determined.\<close>

definition gameMoves :: "DB \<Rightarrow> string \<Rightarrow> StoredMove list" where
  "gameMoves db gid =
     map (\<lambda>m. \<lparr>Ply = mv_ply m, UCI = mv_uci m, FENAfter = mv_fen_after m\<rparr>)
       (sort_key mv_ply (filter (\<lambda>m. mv_game m = gid) (moves db)))"

definition rowToGame :: "GameRow \<Rightarrow> Game" where
  "rowToGame g =
     \<lparr>ID = g_id g, WhiteID = g_white g, BlackID = (case g_black g of Some b \<Rightarrow> b | None \<Rightarrow> ''''),
      VsEngine = g_vs_engine g, Status = g_status g,
      EndReasonText = (case g_end_reason g of Some r \<Rightarrow> r | None \<Rightarrow> ''''), Game_FEN = g_fen g,
      EngineDepth = g_engine_depth g, Rated = g_rated g, InitialMs = g_initial_ms g, IncrementMs = g_increment_ms g,
      AwaitingOpponent = (\<not> g_vs_engine g \<and> g_black g = None \<and> g_status g = ''IN_PROGRESS''),
      StartedAt = g_started_at g, EndedAt = g_ended_at g\<rparr>"

text \<open>
  \<open>GetGame\<close> runs two queries on the pool, not in a transaction: the row of the game, then its moves.
  \<open>selectGame\<close> is the first, \<open>gameMoves\<close> the second.  \<open>Store_GetGame\<close> is the reading that no write
  disturbs; in \<open>Game_Record\<close> the two are separate steps, with those of other requests in between.
\<close>

definition selectGame :: "bool \<Rightarrow> string \<Rightarrow> DB \<Rightarrow> StoreError + Game" where
  "selectGame up gid db =
     (if \<not> up then Inl DbErr
      else case find_game db gid of None \<Rightarrow> Inl ErrNotFound | Some g \<Rightarrow> Inr (rowToGame g))"

definition Store_GetGame :: "bool \<Rightarrow> string \<Rightarrow> DB \<Rightarrow> StoreError + (Game \<times> StoredMove list)" where
  "Store_GetGame up gid db =
     (case selectGame up gid db of Inl e \<Rightarrow> Inl e | Inr g \<Rightarrow> Inr (g, gameMoves db gid))"

lemma Store_GetGame_eq:
  "Store_GetGame up gid db =
     (if \<not> up then Inl DbErr
      else case find_game db gid of
             None \<Rightarrow> Inl ErrNotFound
           | Some g \<Rightarrow> Inr (rowToGame g, gameMoves db gid))"
  by (simp add: Store_GetGame_def selectGame_def split: option.split)

definition joinable :: "string \<Rightarrow> string \<Rightarrow> GameRow \<Rightarrow> bool" where
  "joinable gid playerID g \<longleftrightarrow>
     g_id g = gid \<and> g_black g = None \<and> \<not> g_vs_engine g \<and> g_status g = ''IN_PROGRESS'' \<and> g_white g \<noteq> playerID"

definition Store_JoinGame :: "bool \<Rightarrow> bool \<Rightarrow> string \<Rightarrow> string \<Rightarrow> DB \<Rightarrow> Game stored" where
  "Store_JoinGame up up' gid playerID db =
     (if \<not> up then (Inl DbErr, db)
      else if \<not> list_ex (joinable gid playerID) (games db) then (Inl ErrSeatUnavailable, db)
      else if \<not> has_user db playerID then (Inl DbErr, db)
      else
        let db = db\<lparr>games := update_where (joinable gid playerID) (\<lambda>g. g\<lparr>g_black := Some playerID\<rparr>) (games db)\<rparr>
        in (map_sum (\<lambda>e. e) fst (Store_GetGame up' gid db), db))"

text \<open>
  The outbox numbers its rows as they are inserted.  Only the order of the numbers matters: the gaps
  that rolled-back transactions leave in the sequence are not represented.
\<close>

definition nextOutboxId :: "DB \<Rightarrow> int" where
  "nextOutboxId db = int (length (outbox db)) + 1"

definition AppendMove :: "bool \<Rightarrow> string \<Rightarrow> StoredMove \<Rightarrow> string \<Rightarrow> string \<Rightarrow> bool \<Rightarrow> int \<Rightarrow> DB \<Rightarrow> unit stored" where
  "AppendMove up gid m status endReason ended now db =
     (if \<not> up \<or> find_game db gid = None \<or>
         list_ex (\<lambda>r. mv_game r = gid \<and> mv_ply r = Ply m) (moves db) \<or>
         list_ex (\<lambda>r. ob_game r = gid \<and> ob_ply r = Ply m) (outbox db)
      then (Inl DbErr, db)
      else
        (Inr (),
         db\<lparr>moves := moves db @ [\<lparr>mv_game = gid, mv_ply = Ply m, mv_uci = UCI m, mv_fen_after = FENAfter m\<rparr>],
            outbox := outbox db @
              [\<lparr>ob_id = nextOutboxId db, ob_game = gid, ob_ply = Ply m, ob_uci = UCI m, ob_fen_after = FENAfter m,
                ob_status = status, ob_end_reason = endReason, ob_ended = ended, ob_published = False\<rparr>],
            games := update_where (\<lambda>g. g_id g = gid)
              (\<lambda>g. if ended then g\<lparr>g_fen := FENAfter m, g_status := status, g_end_reason := Some endReason,
                                   g_ended_at := Some now\<rparr>
                   else g\<lparr>g_fen := FENAfter m, g_status := status\<rparr>) (games db)\<rparr>))"

definition EndGame :: "bool \<Rightarrow> string \<Rightarrow> string \<Rightarrow> string \<Rightarrow> int \<Rightarrow> DB \<Rightarrow> unit stored" where
  "EndGame up gid status endReason now db =
     (let P = (\<lambda>g. g_id g = gid \<and> g_status g = ''IN_PROGRESS'') in
      if \<not> up then (Inl DbErr, db)
      else if \<not> list_ex P (games db) then (Inl ErrNotInProgress, db)
      else (Inr (), db\<lparr>games := update_where P
              (\<lambda>g. g\<lparr>g_status := status, g_end_reason := Some endReason, g_ended_at := Some now\<rparr>) (games db)\<rparr>))"

definition Store_MoveCount :: "bool \<Rightarrow> string \<Rightarrow> DB \<Rightarrow> StoreError + int" where
  "Store_MoveCount up gid db =
     (if \<not> up then Inl DbErr else Inr (int (length (filter (\<lambda>m. mv_game m = gid) (moves db)))))"

section \<open>Outbox\<close>

text \<open>Rows are appended with increasing identifiers, so \<open>ORDER BY id\<close> is insertion order.\<close>

definition FetchUnpublished :: "bool \<Rightarrow> int \<Rightarrow> DB \<Rightarrow> StoreError + OutboxRow list" where
  "FetchUnpublished up limit db =
     (let limit = (if limit \<le> 0 \<or> limit > 1000 then 200 else limit)
      in if \<not> up then Inl DbErr
         else Inr (take (nat limit) (sort_key ob_id (filter (\<lambda>r. \<not> ob_published r) (outbox db)))))"

definition MarkPublished :: "bool \<Rightarrow> int list \<Rightarrow> DB \<Rightarrow> unit stored" where
  "MarkPublished up ids db =
     (if ids = [] then (Inr (), db)
      else if \<not> up then (Inl DbErr, db)
      else (Inr (), db\<lparr>outbox := update_where (\<lambda>r. ob_id r \<in> set ids) (\<lambda>r. r\<lparr>ob_published := True\<rparr>) (outbox db)\<rparr>))"

end
