(* ===== verification/Store_Accounts.thy ===== *)
theory Store_Accounts
  imports Store
begin

text \<open>
  Accounts, sign-in tokens, ratings, history and opening statistics of the store
  (\<open>pkg/store/auth.go\<close>, \<open>history.go\<close>, \<open>openings.go\<close>).  SQL's \<open>lower\<close>, the SHA-256 of a token and
  the random token itself are parameters.
\<close>

section \<open>Accounts\<close>

record User =
  usr_ID :: string
  usr_Username :: string
  usr_Email :: string
  usr_PasswordHash :: string
  usr_Elo :: int
  usr_IsGuest :: bool
  usr_GamesPlayed :: int
  usr_CreatedAt :: int

definition finishedGames :: "DB \<Rightarrow> string \<Rightarrow> int" where
  "finishedGames db uid =
     int (length (filter (\<lambda>g. (g_white g = uid \<or> g_black g = Some uid) \<and> g_status g \<noteq> ''IN_PROGRESS'') (games db)))"

definition scanUser :: "DB \<Rightarrow> UserRow \<Rightarrow> User" where
  "scanUser db u =
     \<lparr>usr_ID = u_id u, usr_Username = u_username u,
      usr_Email = (case u_email u of Some e \<Rightarrow> e | None \<Rightarrow> ''''),
      usr_PasswordHash = (case u_password_hash u of Some h \<Rightarrow> h | None \<Rightarrow> ''''),
      usr_Elo = u_elo u, usr_IsGuest = u_is_guest u, usr_GamesPlayed = finishedGames db (u_id u),
      usr_CreatedAt = u_created_at u\<rparr>"

definition Store_GetUser :: "bool \<Rightarrow> string \<Rightarrow> DB \<Rightarrow> StoreError + User" where
  "Store_GetUser up uid db =
     (if \<not> up then Inl DbErr
      else case find (\<lambda>u. u_id u = uid) (users db) of None \<Rightarrow> Inl ErrNotFound | Some u \<Rightarrow> Inr (scanUser db u))"

definition FindUserByIdentifier :: "(string \<Rightarrow> string) \<Rightarrow> bool \<Rightarrow> string \<Rightarrow> DB \<Rightarrow> StoreError + User" where
  "FindUserByIdentifier lower up ident db =
     (if \<not> up then Inl DbErr
      else case find (\<lambda>u. lower (u_username u) = lower ident \<or> map_option lower (u_email u) = Some (lower ident)) (users db) of
             None \<Rightarrow> Inl ErrNotFound
           | Some u \<Rightarrow> Inr (scanUser db u))"

text \<open>The unique indexes of the table: identifier, username and lower-cased username, lower-cased email.\<close>

definition name_taken :: "(string \<Rightarrow> string) \<Rightarrow> DB \<Rightarrow> string \<Rightarrow> string \<Rightarrow> string option \<Rightarrow> bool" where
  "name_taken lower db uid username email \<longleftrightarrow>
     list_ex (\<lambda>u. u_id u \<noteq> uid \<and>
        (u_username u = username \<or> lower (u_username u) = lower username \<or>
         email \<noteq> None \<and> map_option lower (u_email u) = map_option lower email)) (users db)"

definition CreateGuestUser :: "(string \<Rightarrow> string) \<Rightarrow> bool \<Rightarrow> string \<Rightarrow> int \<Rightarrow> DB \<Rightarrow> string stored" where
  "CreateGuestUser lower up newId now db =
     (let username = ''guest-'' @ newId in
      if \<not> up \<or> has_user db newId \<or> name_taken lower db newId username None then (Inl DbErr, db)
      else (Inr newId,
            db\<lparr>users := users db @ [\<lparr>u_id = newId, u_username = username, u_email = None, u_password_hash = None,
                                     u_elo = DefaultRating, u_is_guest = True, u_created_at = now\<rparr>]\<rparr>))"

definition nullIfEmpty :: "string \<Rightarrow> string option" where
  "nullIfEmpty s = (if TrimSpace s = '''' then None else Some s)"

record RegisterParams =
  rp_Username :: string
  rp_PasswordHash :: string
  rp_Email :: string
  rp_UpgradeUserID :: string

definition upgradeGuest :: "(string \<Rightarrow> string) \<Rightarrow> bool \<Rightarrow> bool \<Rightarrow> RegisterParams \<Rightarrow> string option \<Rightarrow> DB \<Rightarrow> User stored" where
  "upgradeGuest lower up up' p email db =
     (let P = (\<lambda>u. u_id u = rp_UpgradeUserID p \<and> u_is_guest u) in
      if \<not> up then (Inl DbErr, db)
      else if \<not> list_ex P (users db) then (Inl ErrNotUpgradable, db)
      else if name_taken lower db (rp_UpgradeUserID p) (rp_Username p) email then (Inl ErrUserExists, db)
      else
        let db = db\<lparr>users := update_where P
              (\<lambda>u. u\<lparr>u_username := rp_Username p, u_email := email, u_password_hash := Some (rp_PasswordHash p),
                     u_is_guest := False\<rparr>) (users db)\<rparr>
        in (Store_GetUser up' (rp_UpgradeUserID p) db, db))"

definition Store_Register :: "(string \<Rightarrow> string) \<Rightarrow> bool \<Rightarrow> bool \<Rightarrow> string \<Rightarrow> int \<Rightarrow> RegisterParams \<Rightarrow> DB \<Rightarrow> User stored" where
  "Store_Register lower up up' newId now p db =
     (let email = nullIfEmpty (rp_Email p) in
      if rp_UpgradeUserID p \<noteq> '''' then upgradeGuest lower up up' p email db
      else if \<not> up then (Inl DbErr, db)
      else if has_user db newId \<or> name_taken lower db newId (rp_Username p) email then (Inl ErrUserExists, db)
      else
        let db = db\<lparr>users := users db @ [\<lparr>u_id = newId, u_username = rp_Username p, u_email = email,
                     u_password_hash = Some (rp_PasswordHash p), u_elo = DefaultRating, u_is_guest = False,
                     u_created_at = now\<rparr>]\<rparr>
        in (Store_GetUser up' newId db, db))"

section \<open>Sign-in tokens\<close>

definition loginTokenTTL :: int where
  "loginTokenTTL = 15 * 60 * 1000"

definition NewLoginToken :: "(string \<Rightarrow> string) \<Rightarrow> (string \<Rightarrow> string) \<Rightarrow> bool \<Rightarrow> bool \<Rightarrow> string \<Rightarrow> int \<Rightarrow> string \<Rightarrow> DB \<Rightarrow>
    (string \<times> string \<times> int) stored" where
  "NewLoginToken lower hashToken up up' token now email db =
     (case FindUserByIdentifier lower up email db of
        Inl e \<Rightarrow> (Inl e, db)
      | Inr u \<Rightarrow>
          if usr_Email u = '''' then (Inl ErrNoEmail, db)
          else if \<not> up' \<or> list_ex (\<lambda>t. t_hash t = hashToken token) (tokens db) then (Inl DbErr, db)
          else (Inr (token, usr_ID u, now + loginTokenTTL),
                db\<lparr>tokens := tokens db @ [\<lparr>t_hash = hashToken token, t_user = usr_ID u,
                     t_expires_at = now + loginTokenTTL, t_consumed = False\<rparr>]\<rparr>))"

definition redeemable :: "string \<Rightarrow> int \<Rightarrow> TokenRow \<Rightarrow> bool" where
  "redeemable h now t \<longleftrightarrow> t_hash t = h \<and> \<not> t_consumed t \<and> t_expires_at t > now"

definition Store_RedeemLoginToken :: "(string \<Rightarrow> string) \<Rightarrow> bool \<Rightarrow> bool \<Rightarrow> int \<Rightarrow> string \<Rightarrow> DB \<Rightarrow> User stored" where
  "Store_RedeemLoginToken hashToken up up' now token db =
     (if \<not> up then (Inl DbErr, db)
      else case find (redeemable (hashToken token) now) (tokens db) of
             None \<Rightarrow> (Inl ErrTokenInvalid, db)
           | Some t \<Rightarrow>
               let db = db\<lparr>tokens := update_where (redeemable (hashToken token) now) (\<lambda>t. t\<lparr>t_consumed := True\<rparr>) (tokens db)\<rparr>
               in (Store_GetUser up' (t_user t) db, db))"

section \<open>Ratings\<close>

definition playerRating :: "DB \<Rightarrow> string \<Rightarrow> (int \<times> int) option" where
  "playerRating db uid =
     (case find (\<lambda>u. u_id u = uid) (users db) of None \<Rightarrow> None | Some u \<Rightarrow> Some (u_elo u, finishedGames db uid))"

definition scorable :: "string \<Rightarrow> GameRow \<Rightarrow> bool" where
  "scorable gid g \<longleftrightarrow> g_id g = gid \<and> g_rated g \<and> g_status g \<noteq> ''IN_PROGRESS'' \<and> g_white_elo_delta g = None \<and> g_black g \<noteq> None"

definition addElo :: "string \<Rightarrow> int \<Rightarrow> DB \<Rightarrow> DB" where
  "addElo uid d db = db\<lparr>users := update_where (\<lambda>u. u_id u = uid) (\<lambda>u. u\<lparr>u_elo := u_elo u + d\<rparr>) (users db)\<rparr>"

text \<open>A failure of the first query, the locking one, counts as nothing to do.\<close>

definition ApplyRatings :: "bool \<Rightarrow> bool \<Rightarrow> string \<Rightarrow> RatingOutcome \<Rightarrow> DB \<Rightarrow> bool stored" where
  "ApplyRatings up up' gid outcome db =
     (case (if up then find (scorable gid) (games db) else None) of
        None \<Rightarrow> (Inr False, db)
      | Some g \<Rightarrow>
          (case (playerRating db (g_white g), playerRating db (the (g_black g))) of
             (Some (whiteElo, whiteGames), Some (blackElo, blackGames)) \<Rightarrow>
               if \<not> up' then (Inl DbErr, db)
               else
                 let (whiteDelta, blackDelta) = Update whiteElo blackElo outcome whiteGames blackGames;
                     db = addElo (g_white g) whiteDelta db;
                     db = addElo (the (g_black g)) blackDelta db
                 in (Inr True, db\<lparr>games := update_where (\<lambda>r. g_id r = gid)
                       (\<lambda>r. r\<lparr>g_white_elo_before := Some whiteElo, g_black_elo_before := Some blackElo,
                              g_white_elo_delta := Some whiteDelta, g_black_elo_delta := Some blackDelta\<rparr>) (games db)\<rparr>)
           | _ \<Rightarrow> (Inl DbErr, db)))"

section \<open>History and rankings\<close>

record StoreSummary =
  sum_ID :: string
  sum_WhiteID :: string
  sum_WhiteName :: string
  sum_BlackID :: string
  sum_BlackName :: string
  sum_VsEngine :: bool
  sum_Rated :: bool
  sum_Status :: string
  sum_EndReason :: string
  sum_MoveCount :: int
  sum_EloDelta :: "int option"
  sum_StartedAt :: int
  sum_EndedAt :: "int option"

definition username_of :: "DB \<Rightarrow> string \<Rightarrow> string option" where
  "username_of db uid = map_option u_username (find (\<lambda>u. u_id u = uid) (users db))"

definition summaryRow :: "DB \<Rightarrow> string \<Rightarrow> GameRow \<Rightarrow> StoreSummary" where
  "summaryRow db userID g =
     \<lparr>sum_ID = g_id g, sum_WhiteID = g_white g,
      sum_WhiteName = (case username_of db (g_white g) of Some n \<Rightarrow> n | None \<Rightarrow> ''''),
      sum_BlackID = (case g_black g of Some b \<Rightarrow> b | None \<Rightarrow> ''''),
      sum_BlackName = (case Option.bind (g_black g) (username_of db) of
                         Some n \<Rightarrow> n
                       | None \<Rightarrow> if g_vs_engine g then ''Stockfish'' else ''''),
      sum_VsEngine = g_vs_engine g, sum_Rated = g_rated g, sum_Status = g_status g,
      sum_EndReason = (case g_end_reason g of Some r \<Rightarrow> r | None \<Rightarrow> ''''),
      sum_MoveCount = int (length (filter (\<lambda>m. mv_game m = g_id g) (moves db))),
      sum_EloDelta = (if g_white g = userID then g_white_elo_delta g else g_black_elo_delta g),
      sum_StartedAt = g_started_at g, sum_EndedAt = g_ended_at g\<rparr>"

definition ListGamesForUser :: "bool \<Rightarrow> string \<Rightarrow> int \<Rightarrow> int \<Rightarrow> DB \<Rightarrow> StoreError + StoreSummary list" where
  "ListGamesForUser up userID limit offset db =
     (let limit = (if limit \<le> 0 \<or> limit > 100 then 20 else limit);
          offset = (if offset < 0 then 0 else offset)
      in if \<not> up then Inl DbErr
         else Inr (map (summaryRow db userID)
           (take (nat limit) (drop (nat offset)
             (sort_key (\<lambda>g. - g_started_at g)
               (filter (\<lambda>g. (g_white g = userID \<or> g_black g = Some userID) \<and> has_user db (g_white g)) (games db)))))))"

definition CountGamesForUser :: "bool \<Rightarrow> string \<Rightarrow> DB \<Rightarrow> StoreError + int" where
  "CountGamesForUser up userID db =
     (if \<not> up then Inl DbErr
      else Inr (int (length (filter (\<lambda>g. g_white g = userID \<or> g_black g = Some userID) (games db)))))"

record RankEntry =
  re_Rank :: int
  re_UserID :: string
  re_Username :: string
  re_Elo :: int
  re_GamesPlayed :: int

text \<open>\<open>byName\<close> is the database's ordering of usernames, the tie-break after the rating.\<close>

definition Store_Leaderboard :: "(string \<Rightarrow> 'k :: linorder) \<Rightarrow> bool \<Rightarrow> int \<Rightarrow> DB \<Rightarrow> StoreError + RankEntry list" where
  "Store_Leaderboard byName up limit db =
     (let limit = (if limit \<le> 0 \<or> limit > 100 then 20 else limit);
          rows = take (nat limit)
            (sort_key (\<lambda>u. - u_elo u) (sort_key (\<lambda>u. byName (u_username u)) (filter (\<lambda>u. \<not> u_is_guest u) (users db))))
      in if \<not> up then Inl DbErr
         else Inr (map (\<lambda>(i, u). \<lparr>re_Rank = int i + 1, re_UserID = u_id u, re_Username = u_username u, re_Elo = u_elo u,
                re_GamesPlayed = finishedGames db (u_id u)\<rparr>) (enumerate 0 rows)))"

section \<open>Opening statistics\<close>

definition PositionKey :: "string \<Rightarrow> string" where
  "PositionKey fen =
     (let fields = Fields fen in if length fields \<ge> 4 then Join (take 4 fields) '' '' else fen)"

definition resultDeltas :: "string \<Rightarrow> int \<times> int \<times> int" where
  "resultDeltas result =
     (if result = ''WHITE_WON'' then (1, 0, 0) else if result = ''BLACK_WON'' then (0, 1, 0) else (0, 0, 1))"

definition sanFor :: "string \<Rightarrow> string \<Rightarrow> string" where
  "sanFor fen uci =
     (case ParseFEN fen of
        Inl e \<Rightarrow> uci
      | Inr board \<Rightarrow> (case ParseUCIMove uci of Inl e \<Rightarrow> uci | Inr m \<Rightarrow> SAN board m))"

definition upsertOpening :: "string \<Rightarrow> string \<Rightarrow> string \<Rightarrow> int \<times> int \<times> int \<Rightarrow> OpeningRow list \<Rightarrow> OpeningRow list" where
  "upsertOpening key uci san d rows =
     (case d of (w, b, x) \<Rightarrow>
        if list_ex (\<lambda>r. op_key r = key \<and> op_uci r = uci) rows
        then update_where (\<lambda>r. op_key r = key \<and> op_uci r = uci)
               (\<lambda>r. r\<lparr>op_white_wins := op_white_wins r + w, op_black_wins := op_black_wins r + b,
                      op_draws := op_draws r + x\<rparr>) rows
        else rows @ [\<lparr>op_key = key, op_uci = uci, op_san = san, op_white_wins = w, op_black_wins = b, op_draws = x\<rparr>])"

definition openingPlies :: nat where
  "openingPlies = 24"

text \<open>The game row must exist for the claim to be inserted (a foreign key).\<close>

definition IngestGameOpening :: "bool \<Rightarrow> string \<Rightarrow> string \<Rightarrow> string list \<Rightarrow> string list \<Rightarrow> DB \<Rightarrow> unit stored" where
  "IngestGameOpening up gid result fenHistory ucis db =
     (if ucis = [] \<or> length fenHistory \<noteq> length ucis + 1 then (Inr (), db)
      else if \<not> up then (Inl DbErr, db)
      else if gid \<in> set (opening_ingested db) then (Inr (), db)
      else if find_game db gid = None then (Inl DbErr, db)
      else
        let limit = min (length ucis) openingPlies;
            rows = fold (\<lambda>(fen, uci). upsertOpening (PositionKey fen) uci (sanFor fen uci) (resultDeltas result))
                     (take limit (zip fenHistory ucis)) (opening_moves db)
        in (Inr (), db\<lparr>opening_ingested := opening_ingested db @ [gid], opening_moves := rows\<rparr>))"

record OpeningMove =
  om_UCI :: string
  om_SAN :: string
  om_WhiteWins :: int
  om_BlackWins :: int
  om_Draws :: int
  om_Total :: int

definition opTotal :: "OpeningRow \<Rightarrow> int" where
  "opTotal r = op_white_wins r + op_black_wins r + op_draws r"

definition Store_OpeningExplorer :: "(string \<Rightarrow> 'k :: linorder) \<Rightarrow> bool \<Rightarrow> string \<Rightarrow> int \<Rightarrow> DB \<Rightarrow> StoreError + OpeningMove list" where
  "Store_OpeningExplorer byUci up fen limit db =
     (let limit = (if limit \<le> 0 \<or> limit > 50 then 15 else limit);
          rows = take (nat limit) (sort_key (\<lambda>r. - opTotal r)
            (sort_key (\<lambda>r. byUci (op_uci r)) (filter (\<lambda>r. op_key r = PositionKey fen) (opening_moves db))))
      in if \<not> up then Inl DbErr
         else Inr (map (\<lambda>r. \<lparr>om_UCI = op_uci r, om_SAN = op_san r, om_WhiteWins = op_white_wins r,
                om_BlackWins = op_black_wins r, om_Draws = op_draws r, om_Total = opTotal r\<rparr>) rows))"

end
