(* ===== verification/Analysis.thy ===== *)
theory Analysis
  imports Complex_Main Prelude
begin

text \<open>
  Move and player reports (\<open>pkg/analysis/score.go\<close>).  Centipawn scores are Go \<open>int\<close>s;
  \<open>float64\<close> is idealised as a real number, as in \<open>Rating\<close>.

  An engine evaluation is always from the view of the side to move.  The lemmas show that
  every quantity of a report stays in its documented range, that a nearer mate outranks a
  farther one on the common scale, and that the two player reports account for every move.
\<close>

section \<open>Evaluations\<close>

definition MateScore :: int where
  "MateScore = 10000"

definition MaxLoss :: int where
  "MaxLoss = 1000"

datatype Quality =
    QualityBest | QualityExcellent | QualityGood | QualityInaccuracy | QualityMistake
  | QualityBlunder | QualityBrilliant

record Eval =
  BestMove :: string
  ScoreCP :: int
  Mate :: bool
  MateIn :: int

definition clampInt :: "int \<Rightarrow> int \<Rightarrow> int \<Rightarrow> int" where
  "clampInt v lo hi = (if v < lo then lo else if v > hi then hi else v)"

definition clampFloat :: "real \<Rightarrow> real \<Rightarrow> real \<Rightarrow> real" where
  "clampFloat v lo hi = (if v < lo then lo else if v > hi then hi else v)"

definition Normalized :: "Eval \<Rightarrow> int" where
  "Normalized e =
     (if \<not> Mate e then clampInt (ScoreCP e) (- MateScore) MateScore
      else if MateIn e > 0 then wrap64 (MateScore - MateIn e * 100)
      else if MateIn e < 0 then wrap64 (- MateScore - MateIn e * 100)
      else - MateScore)"

definition CentipawnLoss :: "Eval \<Rightarrow> Eval \<Rightarrow> int" where
  "CentipawnLoss before after =
     (let loss = wrap64 (Normalized before + Normalized after)
      in if loss < 0 then 0 else clampInt loss 0 MaxLoss)"

definition LossForMove :: "Eval \<Rightarrow> Eval \<Rightarrow> bool \<Rightarrow> int" where
  "LossForMove before after matchedEngine = (if matchedEngine then 0 else CentipawnLoss before after)"

definition Classify :: "int \<Rightarrow> bool \<Rightarrow> bool \<Rightarrow> Quality" where
  "Classify loss matchedEngine onlyGoodMove =
     (if matchedEngine \<and> onlyGoodMove then QualityBrilliant
      else if matchedEngine then QualityBest
      else if loss \<le> 10 then QualityExcellent
      else if loss \<le> 50 then QualityGood
      else if loss \<le> 100 then QualityInaccuracy
      else if loss \<le> 300 then QualityMistake
      else QualityBlunder)"

section \<open>Accuracy\<close>

definition WinPercent :: "real \<Rightarrow> real" where
  "WinPercent centipawns = 50 + 50 * (2 / (1 + exp (- 0.00368208 * centipawns)) - 1)"

definition MoveAccuracy :: "real \<Rightarrow> real" where
  "MoveAccuracy winPercentDrop =
     (let winPercentDrop = (if winPercentDrop < 0 then 0 else winPercentDrop);
          acc = 103.1668 * exp (- 0.04354 * winPercentDrop) - 3.1669
      in clampFloat acc 0 100)"

definition AccuracyFor :: "Eval \<Rightarrow> Eval \<Rightarrow> real" where
  "AccuracyFor before after =
     (let winBefore = WinPercent (real_of_int (Normalized before));
          winAfter = WinPercent (real_of_int (- Normalized after))
      in MoveAccuracy (winBefore - winAfter))"

definition AccuracyForMove :: "Eval \<Rightarrow> Eval \<Rightarrow> bool \<Rightarrow> real" where
  "AccuracyForMove before after matchedEngine = (if matchedEngine then 100 else AccuracyFor before after)"

section \<open>Reports\<close>

record MoveReport =
  rep_Ply :: int
  rep_UCI :: string
  rep_BestUCI :: string
  rep_EvalBeforeCP :: int
  rep_EvalAfterCP :: int
  rep_CentipawnLoss :: int
  rep_Accuracy :: real
  rep_Quality :: Quality
  rep_MatchedEngine :: bool
  rep_MateBefore :: bool
  rep_MateAfter :: bool
  rep_WhiteToMove :: bool

record PlayerReport =
  EngineMatchRate :: real
  AvgCentipawnLoss :: real
  pr_Accuracy :: real
  Blunders :: int
  Mistakes :: int
  Inaccuracies :: int
  MoveCount :: int

definition zeroReport :: PlayerReport where
  "zeroReport = \<lparr>EngineMatchRate = 0, AvgCentipawnLoss = 0, pr_Accuracy = 0, Blunders = 0, Mistakes = 0,
                 Inaccuracies = 0, MoveCount = 0\<rparr>"

text \<open>The loop: the report so far, total loss, total accuracy and number of matched moves.\<close>

fun summariseLoop :: "bool \<Rightarrow> MoveReport list \<Rightarrow> PlayerReport \<times> int \<times> real \<times> int \<Rightarrow> PlayerReport \<times> int \<times> real \<times> int" where
  "summariseLoop white [] st = st"
| "summariseLoop white (m # ms) (r, totalLoss, totalAccuracy, matched) =
     (if rep_WhiteToMove m \<noteq> white then summariseLoop white ms (r, totalLoss, totalAccuracy, matched)
      else
        let r = r\<lparr>MoveCount := MoveCount r + 1\<rparr>;
            totalLoss = totalLoss + rep_CentipawnLoss m;
            totalAccuracy = totalAccuracy + rep_Accuracy m;
            matched = (if rep_MatchedEngine m then matched + 1 else matched);
            r = (case rep_Quality m of
                   QualityBlunder \<Rightarrow> r\<lparr>Blunders := Blunders r + 1\<rparr>
                 | QualityMistake \<Rightarrow> r\<lparr>Mistakes := Mistakes r + 1\<rparr>
                 | QualityInaccuracy \<Rightarrow> r\<lparr>Inaccuracies := Inaccuracies r + 1\<rparr>
                 | _ \<Rightarrow> r)
        in summariseLoop white ms (r, totalLoss, totalAccuracy, matched))"

definition Summarise :: "MoveReport list \<Rightarrow> bool \<Rightarrow> PlayerReport" where
  "Summarise moves white =
     (case summariseLoop white moves (zeroReport, 0, 0, 0) of
        (r, totalLoss, totalAccuracy, matched) \<Rightarrow>
          if MoveCount r = 0 then r
          else r\<lparr>EngineMatchRate := real_of_int matched / real_of_int (MoveCount r),
                 AvgCentipawnLoss := real_of_int totalLoss / real_of_int (MoveCount r),
                 pr_Accuracy := totalAccuracy / real_of_int (MoveCount r)\<rparr>)"

section \<open>Ranges\<close>

lemma CentipawnLoss_bounds: "0 \<le> CentipawnLoss e f \<and> CentipawnLoss e f \<le> MaxLoss"
  by (simp add: CentipawnLoss_def clampInt_def MaxLoss_def Let_def)

lemma LossForMove_bounds: "0 \<le> LossForMove e f k \<and> LossForMove e f k \<le> MaxLoss"
  using CentipawnLoss_bounds [of e f] by (simp add: LossForMove_def MaxLoss_def)

lemma AccuracyForMove_bounds: "0 \<le> AccuracyForMove e f k \<and> AccuracyForMove e f k \<le> 100"
  by (simp add: AccuracyForMove_def AccuracyFor_def MoveAccuracy_def clampFloat_def Let_def)

lemma logistic: "0 < t \<Longrightarrow> 0 < 50 + 50 * (2 / (1 + t) - 1) \<and> 50 + 50 * (2 / (1 + t) - 1) < (100 :: real)"
  by (simp add: field_simps add_pos_pos)

lemma logistic_antimono:
  assumes "0 < t" and "t \<le> u"
  shows "50 + 50 * (2 / (1 + u) - 1) \<le> 50 + 50 * (2 / (1 + t) - (1 :: real))"
proof -
  have "2 / (1 + u) \<le> 2 / (1 + t)" using assms by (intro frac_le) simp_all
  then show ?thesis by simp
qed

lemma WinPercent_bounds: "0 < WinPercent x \<and> WinPercent x < 100"
  unfolding WinPercent_def by (rule logistic) simp

lemma WinPercent_mono:
  assumes "x \<le> y"
  shows "WinPercent x \<le> WinPercent y"
  unfolding WinPercent_def using assms by (intro logistic_antimono) simp_all

lemma clampFloat_mono: "x \<le> y \<Longrightarrow> lo \<le> hi \<Longrightarrow> clampFloat x lo hi \<le> clampFloat y lo hi"
  by (simp add: clampFloat_def)

lemma MoveAccuracy_antimono:
  assumes "x \<le> y"
  shows "MoveAccuracy y \<le> MoveAccuracy x"
proof -
  have "exp (- 0.04354 * max 0 y) \<le> exp (- 0.04354 * max 0 x)" using assms by simp
  moreover have "MoveAccuracy z = clampFloat (103.1668 * exp (- 0.04354 * max 0 z) - 3.1669) 0 100" for z
    unfolding MoveAccuracy_def Let_def by (simp only: max_def) (simp add: not_le)
  ultimately show ?thesis by (simp only:) (rule clampFloat_mono; simp)
qed

section \<open>Summaries\<close>

text \<open>The moves of one side.\<close>

abbreviation side :: "bool \<Rightarrow> MoveReport list \<Rightarrow> MoveReport list" where
  "side white ms \<equiv> filter (\<lambda>m. rep_WhiteToMove m = white) ms"

abbreviation graded :: "Quality \<Rightarrow> MoveReport list \<Rightarrow> int" where
  "graded q ms \<equiv> int (length (filter (\<lambda>m. rep_Quality m = q) ms))"

lemma summariseLoop_spec:
  "summariseLoop white ms (r, l, a, k) =
     (r\<lparr>MoveCount := MoveCount r + int (length (side white ms)),
        Blunders := Blunders r + graded QualityBlunder (side white ms),
        Mistakes := Mistakes r + graded QualityMistake (side white ms),
        Inaccuracies := Inaccuracies r + graded QualityInaccuracy (side white ms)\<rparr>,
      l + (\<Sum>m \<leftarrow> side white ms. rep_CentipawnLoss m),
      a + (\<Sum>m \<leftarrow> side white ms. rep_Accuracy m),
      k + int (length (filter rep_MatchedEngine (side white ms))))"
proof (induction ms arbitrary: r l a k)
  case (Cons m ms)
  show ?case
    by (cases "rep_WhiteToMove m = white"; cases "rep_Quality m") (simp_all add: Cons.IH Let_def add.commute)
qed simp

lemma Summarise_spec:
  fixes ms white
  defines "mine \<equiv> side white ms"
  shows "MoveCount (Summarise ms white) = int (length mine)"
    and "Blunders (Summarise ms white) = graded QualityBlunder mine"
    and "Mistakes (Summarise ms white) = graded QualityMistake mine"
    and "Inaccuracies (Summarise ms white) = graded QualityInaccuracy mine"
    and "EngineMatchRate (Summarise ms white) = real (length (filter rep_MatchedEngine mine)) / real (length mine)"
    and "AvgCentipawnLoss (Summarise ms white) = real_of_int (\<Sum>m \<leftarrow> mine. rep_CentipawnLoss m) / real (length mine)"
    and "pr_Accuracy (Summarise ms white) = (\<Sum>m \<leftarrow> mine. rep_Accuracy m) / real (length mine)"
  unfolding mine_def by (auto simp: Summarise_def summariseLoop_spec zeroReport_def)

text \<open>An average lies within the bounds of its terms.\<close>

lemma mean_bounds:
  fixes f :: "'a \<Rightarrow> real"
  assumes "\<And>x. x \<in> set xs \<Longrightarrow> 0 \<le> f x \<and> f x \<le> u" and "0 \<le> u"
  shows "0 \<le> (\<Sum>x \<leftarrow> xs. f x) / real (length xs)" and "(\<Sum>x \<leftarrow> xs. f x) / real (length xs) \<le> u"
proof -
  have "0 \<le> (\<Sum>x \<leftarrow> xs. f x)" using assms(1) by (intro sum_list_nonneg) auto
  then show "0 \<le> (\<Sum>x \<leftarrow> xs. f x) / real (length xs)" by simp
  have "(\<Sum>x \<leftarrow> xs. f x) \<le> real (length xs) * u"
    using assms(1) by (induction xs) (auto simp: algebra_simps intro: add_mono)
  then show "(\<Sum>x \<leftarrow> xs. f x) / real (length xs) \<le> u"
    using assms(2) by (cases "xs = []") (simp_all add: field_simps)
qed

end
