(* ===== verification/Analysis_Worker.thy ===== *)
theory Analysis_Worker
  imports Analysis Redis_Signals Chess_Outcome
begin

text \<open>
  The analysis worker (\<open>services/analysis-worker/internal/worker/worker.go\<close>): from the positions
  and moves of a finished game to its report.  The engine is a parameter, a function from a
  position and a depth to an error or an evaluation; the replies of Redis are parameters as in
  \<open>Redis_Signals\<close>, and the commands the worker sends are returned in order.
\<close>

section \<open>Requests and reports\<close>

record AnalysisRequested =
  req_GameId :: string
  req_WhiteId :: string
  req_BlackId :: string
  req_VsEngine :: bool
  req_FenHistory :: "string list"
  req_Uci :: "string list"
  req_Depth :: int

record MoveAnalysis =
  ma_Ply :: int
  ma_Uci :: string
  ma_BestUci :: string
  ma_EvalBeforeCp :: int
  ma_EvalAfterCp :: int
  ma_CentipawnLoss :: int
  ma_Quality :: Quality
  ma_MatchedEngine :: bool
  ma_MateBefore :: bool
  ma_MateAfter :: bool

record PlayerSummary =
  ps_PlayerId :: string
  ps_EngineMatchRate :: real
  ps_AvgCentipawnLoss :: real
  ps_Accuracy :: real
  ps_Blunders :: int
  ps_Mistakes :: int
  ps_Inaccuracies :: int
  ps_MoveCount :: int

record AnalysisCompleted =
  ac_GameId :: string
  ac_Depth :: int
  ac_Moves :: "MoveAnalysis list"
  ac_White :: PlayerSummary
  ac_Black :: PlayerSummary
  ac_NoveltyFen :: string
  ac_NoveltyPly :: int

datatype WorkerError =
    NoMoves nat nat
  | PositionsMismatch nat nat
  | EngineFailed nat string
  | CorruptFen nat FENError

record Worker =
  wk_depth :: int
  wk_novelty :: bool
  wk_integrity :: bool

definition New_Worker :: "bool \<Rightarrow> bool \<Rightarrow> int \<Rightarrow> Worker" where
  "New_Worker novelty integrity depth =
     \<lparr>wk_depth = (if depth \<le> 0 then 14 else depth), wk_novelty = novelty, wk_integrity = integrity\<rparr>"

section \<open>Evaluating the positions\<close>

type_synonym engine = "string \<Rightarrow> int \<Rightarrow> string + Eval"

fun evaluateAll :: "engine \<Rightarrow> int \<Rightarrow> nat \<Rightarrow> string list \<Rightarrow> WorkerError + Eval list" where
  "evaluateAll engine depth i [] = Inr []"
| "evaluateAll engine depth i (fen # fens) =
     (case engine fen depth of
        Inl e \<Rightarrow> Inl (EngineFailed i e)
      | Inr e \<Rightarrow> andThen (evaluateAll engine depth (i + 1) fens) (\<lambda>es. Inr (e # es)))"

definition moveReport :: "nat \<Rightarrow> string \<Rightarrow> Eval \<Rightarrow> Eval \<Rightarrow> bool \<Rightarrow> MoveReport" where
  "moveReport i uci before after whiteToMove =
     (let matched = (BestMove before = uci);
          loss = LossForMove before after matched
      in \<lparr>rep_Ply = int i + 1, rep_UCI = uci, rep_BestUCI = BestMove before,
          rep_EvalBeforeCP = Normalized before, rep_EvalAfterCP = Normalized after,
          rep_CentipawnLoss = loss, rep_Accuracy = AccuracyForMove before after matched,
          rep_Quality = Classify loss matched False, rep_MatchedEngine = matched,
          rep_MateBefore = Mate before, rep_MateAfter = Mate after, rep_WhiteToMove = whiteToMove\<rparr>)"

text \<open>The loop over the moves; position \<open>i\<close> is the one move \<open>i\<close> is played from.\<close>

fun moveReports :: "nat \<Rightarrow> string list \<Rightarrow> string list \<Rightarrow> Eval list \<Rightarrow> WorkerError + MoveReport list" where
  "moveReports i (uci # ucis) (fen # fens) (before # after # evals) =
     (case ParseFEN fen of
        Inl e \<Rightarrow> Inl (CorruptFen (i + 1) e)
      | Inr board \<Rightarrow>
          andThen (moveReports (i + 1) ucis fens (after # evals))
            (\<lambda>rs. Inr (moveReport i uci before after (Turn board = White) # rs)))"
| "moveReports i _ _ _ = Inr []"

section \<open>Wire format\<close>

definition toProtoMove :: "MoveReport \<Rightarrow> MoveAnalysis" where
  "toProtoMove r =
     \<lparr>ma_Ply = uwrap32 (rep_Ply r), ma_Uci = rep_UCI r, ma_BestUci = rep_BestUCI r,
      ma_EvalBeforeCp = wrap32 (rep_EvalBeforeCP r), ma_EvalAfterCp = wrap32 (rep_EvalAfterCP r),
      ma_CentipawnLoss = wrap32 (rep_CentipawnLoss r), ma_Quality = rep_Quality r,
      ma_MatchedEngine = rep_MatchedEngine r, ma_MateBefore = rep_MateBefore r, ma_MateAfter = rep_MateAfter r\<rparr>"

definition toProtoMoves :: "MoveReport list \<Rightarrow> MoveAnalysis list" where
  "toProtoMoves reports = map toProtoMove reports"

definition toProtoReport :: "string \<Rightarrow> PlayerReport \<Rightarrow> PlayerSummary" where
  "toProtoReport playerID r =
     \<lparr>ps_PlayerId = playerID, ps_EngineMatchRate = EngineMatchRate r, ps_AvgCentipawnLoss = AvgCentipawnLoss r,
      ps_Accuracy = pr_Accuracy r, ps_Blunders = uwrap32 (Blunders r), ps_Mistakes = uwrap32 (Mistakes r),
      ps_Inaccuracies = uwrap32 (Inaccuracies r), ps_MoveCount = uwrap32 (MoveCount r)\<rparr>"

section \<open>Novelty and fair play\<close>

definition attachNovelty :: "Worker \<Rightarrow> (string list \<Rightarrow> RedisVal list option) \<Rightarrow> bool \<Rightarrow> AnalysisCompleted \<Rightarrow>
    string list \<Rightarrow> AnalysisCompleted \<times> RedisCmd list" where
  "attachNovelty w mexists maddFails out fens =
     (if \<not> wk_novelty w then (out, [])
      else
        let (nov, cmds) = FirstNovelty (wk_novelty w) mexists fens;
            out = (case nov of
                     Some (fen, idx) \<Rightarrow> out\<lparr>ac_NoveltyFen := fen, ac_NoveltyPly := uwrap32 (int idx)\<rparr>
                   | None \<Rightarrow> out)
        in (out, cmds @ fst (Novelty_Record (wk_novelty w) maddFails fens)))"

definition sideSignals :: "int \<Rightarrow> string \<Rightarrow> PlayerReport \<Rightarrow> GameSignals" where
  "sideSignals now pid r =
     \<lparr>sig_PlayerID = pid, sig_EngineMatchRate = EngineMatchRate r, sig_AvgCentipawnLoss = AvgCentipawnLoss r,
      sig_MoveCount = MoveCount r, sig_At = Some now\<rparr>"

definition recordFairPlay :: "Worker \<Rightarrow> int \<Rightarrow> AnalysisRequested \<Rightarrow> PlayerReport \<Rightarrow> PlayerReport \<Rightarrow> RedisCmd list" where
  "recordFairPlay w now req white black =
     (if \<not> wk_integrity w \<or> req_VsEngine req then []
      else concat (map (\<lambda>(pid, r). if pid = '''' then [] else Integrity_Record (wk_integrity w) now (sideSignals now pid r))
        [(req_WhiteId req, white), (req_BlackId req, black)]))"

definition Analyze :: "Worker \<Rightarrow> engine \<Rightarrow> (string list \<Rightarrow> RedisVal list option) \<Rightarrow> bool \<Rightarrow> int \<Rightarrow> AnalysisRequested \<Rightarrow>
    WorkerError + (AnalysisCompleted \<times> RedisCmd list)" where
  "Analyze w engine mexists maddFails now req =
     (let fens = req_FenHistory req; moves = req_Uci req in
      if length fens < 2 \<or> length moves = 0 then Inl (NoMoves (length fens) (length moves))
      else if length fens \<noteq> length moves + 1 then Inl (PositionsMismatch (length fens) (length moves))
      else
        let depth = (if req_Depth req \<le> 0 then wk_depth w else req_Depth req) in
        andThen (evaluateAll engine depth 0 fens)
          (\<lambda>evals. andThen (moveReports 0 moves fens evals)
          (\<lambda>reports.
             let white = Summarise reports True;
                 black = Summarise reports False;
                 out = \<lparr>ac_GameId = req_GameId req, ac_Depth = uwrap32 depth, ac_Moves = toProtoMoves reports,
                        ac_White = toProtoReport (req_WhiteId req) white,
                        ac_Black = toProtoReport (req_BlackId req) black,
                        ac_NoveltyFen = '''', ac_NoveltyPly = 0\<rparr>;
                 (out, cmds) = attachNovelty w mexists maddFails out fens
             in Inr (out, cmds @ recordFairPlay w now req white black))))"

section \<open>Lemmas\<close>

lemma evaluateAll_length: "evaluateAll engine depth i fens = Inr es \<Longrightarrow> length es = length fens"
  by (induction fens arbitrary: i es) (auto simp: andThen_Inr split: sum.splits)

lemma evaluateAll_nth:
  "evaluateAll engine depth i fens = Inr es \<Longrightarrow> k < length fens \<Longrightarrow> engine (fens ! k) depth = Inr (es ! k)"
  by (induction fens arbitrary: i es k) (auto simp: andThen_Inr nth_Cons' split: sum.splits)

lemma moveReports_spec:
  assumes "moveReports i us fens es = Inr rs" and "length fens = length us + 1" and "length es = length us + 1"
  shows "length rs = length us"
    and "k < length us \<Longrightarrow> \<exists>board. ParseFEN (fens ! k) = Inr board \<and>
           rs ! k = moveReport (i + k) (us ! k) (es ! k) (es ! Suc k) (Turn board = White)"
  using assms
proof (induction i us fens es arbitrary: rs k rule: moveReports.induct)
  case (1 i u us f fs e e' es)
  {
    case 1
    then show ?case using "1.IH" by (auto simp: andThen_Inr split: sum.splits)
  next
    case 2
    then show ?case using "1.IH" by (cases k) (auto simp: andThen_Inr split: sum.splits)
  }
qed auto

text \<open>Every move of a report satisfies the bounds of \<open>Analysis\<close>.\<close>

definition report_ok :: "MoveReport \<Rightarrow> bool" where
  "report_ok r \<longleftrightarrow> 0 \<le> rep_CentipawnLoss r \<and> rep_CentipawnLoss r \<le> MaxLoss \<and> 0 \<le> rep_Accuracy r \<and> rep_Accuracy r \<le> 100"

lemma moveReport_ok: "report_ok (moveReport i u e e' wt)"
  using LossForMove_bounds AccuracyForMove_bounds by (simp add: report_ok_def moveReport_def Let_def)

lemma side_split: "length (side True ms) + length (side False ms) = length ms"
  by (induction ms) auto

lemma graded_le: "graded QualityBlunder ms + graded QualityMistake ms + graded QualityInaccuracy ms \<le> int (length ms)"
  by (induction ms) auto

lemma filter_length_trans: "length (filter P (filter Q xs)) \<le> length xs"
  by (metis length_filter_le order_trans)

lemma ratio_bounds: "k \<le> n \<Longrightarrow> 0 \<le> real k / real n \<and> real k / real n \<le> 1"
  by (cases "n = 0") (simp_all add: divide_le_eq_1)

lemma real_sum_list: "real_of_int (\<Sum>x \<leftarrow> xs. f x) = (\<Sum>x \<leftarrow> xs. real_of_int (f x))"
  by (induction xs) simp_all

lemma player_ranges:
  assumes p: "p = toProtoReport pid (Summarise rs c)" and ok: "\<And>r. r \<in> set rs \<Longrightarrow> report_ok r" and n: "int (length rs) < 2 ^ 32"
  shows "0 \<le> ps_EngineMatchRate p \<and> ps_EngineMatchRate p \<le> 1 \<and>
     0 \<le> ps_AvgCentipawnLoss p \<and> ps_AvgCentipawnLoss p \<le> 1000 \<and> 0 \<le> ps_Accuracy p \<and> ps_Accuracy p \<le> 100 \<and>
     ps_Blunders p + ps_Mistakes p + ps_Inaccuracies p \<le> ps_MoveCount p"
proof -
  let ?ms = "side c rs"
  have ok': "report_ok r" if "r \<in> set ?ms" for r using that ok by simp
  have cnt: "uwrap32 (int k) = int k" if "k \<le> length rs" for k using that n by (intro uwrap32_id) auto
  have rate: "0 \<le> EngineMatchRate (Summarise rs c) \<and> EngineMatchRate (Summarise rs c) \<le> 1"
    unfolding Summarise_spec(5) by (rule ratio_bounds) (rule length_filter_le)
  have loss: "0 \<le> AvgCentipawnLoss (Summarise rs c) \<and> AvgCentipawnLoss (Summarise rs c) \<le> 1000"
    unfolding Summarise_spec(6) using mean_bounds [of ?ms "\<lambda>m. real_of_int (rep_CentipawnLoss m)" 1000] ok'
    by (simp add: report_ok_def MaxLoss_def real_sum_list)
  have acc: "0 \<le> pr_Accuracy (Summarise rs c) \<and> pr_Accuracy (Summarise rs c) \<le> 100"
    unfolding Summarise_spec(7) using mean_bounds [of ?ms rep_Accuracy 100] ok' by (simp add: report_ok_def)
  have "ps_Blunders p + ps_Mistakes p + ps_Inaccuracies p \<le> ps_MoveCount p"
    unfolding p toProtoReport_def using graded_le [of ?ms] by (simp add: Summarise_spec(1-4) cnt filter_length_trans)
  then show ?thesis using rate loss acc by (simp add: p toProtoReport_def)
qed

section \<open>Properties\<close>

text \<open>
  C31. Every analysis report accounts for the whole game and stays in its documented ranges: one
  verdict per move, in order, each with a loss between 0 and 1000; the two player reports
  together count every move; match rates lie in [0, 1], average losses in [0, 1000], accuracies in
  [0, 100], and blunders, mistakes and inaccuracies together are at most the moves played (for
  games of fewer than \<open>2^32\<close> moves, so that the wire format does not wrap).
\<close>

theorem Analyze_report_ranges:
  assumes "Analyze w engine mexists maddFails now req = Inr (out, cmds)" and "length (req_Uci req) < 2 ^ 32"
  shows "map ma_Uci (ac_Moves out) = req_Uci req \<and>
     list_all (\<lambda>m. 0 \<le> ma_CentipawnLoss m \<and> ma_CentipawnLoss m \<le> 1000) (ac_Moves out) \<and>
     ps_MoveCount (ac_White out) + ps_MoveCount (ac_Black out) = int (length (req_Uci req)) \<and>
     list_all (\<lambda>p. 0 \<le> ps_EngineMatchRate p \<and> ps_EngineMatchRate p \<le> 1 \<and>
         0 \<le> ps_AvgCentipawnLoss p \<and> ps_AvgCentipawnLoss p \<le> 1000 \<and> 0 \<le> ps_Accuracy p \<and> ps_Accuracy p \<le> 100 \<and>
         ps_Blunders p + ps_Mistakes p + ps_Inaccuracies p \<le> ps_MoveCount p) [ac_White out, ac_Black out]"
proof -
  from assms(1) obtain es rs where len: "length (req_FenHistory req) = length (req_Uci req) + 1"
    and ev: "evaluateAll engine (if req_Depth req \<le> 0 then wk_depth w else req_Depth req) 0 (req_FenHistory req) = Inr es"
    and mr: "moveReports 0 (req_Uci req) (req_FenHistory req) es = Inr rs"
    and out: "ac_Moves out = toProtoMoves rs" "ac_White out = toProtoReport (req_WhiteId req) (Summarise rs True)"
      "ac_Black out = toProtoReport (req_BlackId req) (Summarise rs False)"
    by (auto simp: Analyze_def Let_def andThen_Inr attachNovelty_def split: if_splits prod.splits option.splits)
  have les: "length es = length (req_Uci req) + 1" using evaluateAll_length [OF ev] len by simp
  note sp = moveReports_spec [OF mr len les]
  have uci: "map ma_Uci (ac_Moves out) = req_Uci req"
    unfolding out
  proof (rule nth_equalityI)
    show "length (map ma_Uci (toProtoMoves rs)) = length (req_Uci req)" using sp(1) by (simp add: toProtoMoves_def)
    fix k assume "k < length (map ma_Uci (toProtoMoves rs))"
    then have "k < length (req_Uci req)" using sp(1) by (simp add: toProtoMoves_def)
    then show "map ma_Uci (toProtoMoves rs) ! k = req_Uci req ! k"
      using sp(1) sp(2) [of k] by (auto simp: toProtoMoves_def toProtoMove_def moveReport_def Let_def)
  qed
  have ok: "report_ok r" if "r \<in> set rs" for r
    using that sp(1) sp(2) moveReport_ok by (metis in_set_conv_nth)
  have loss: "list_all (\<lambda>m. 0 \<le> ma_CentipawnLoss m \<and> ma_CentipawnLoss m \<le> 1000) (ac_Moves out)"
  proof -
    have "wrap32 (rep_CentipawnLoss r) = rep_CentipawnLoss r \<and> 0 \<le> rep_CentipawnLoss r \<and> rep_CentipawnLoss r \<le> 1000"
      if "r \<in> set rs" for r using ok [OF that] wrap32_id [of "rep_CentipawnLoss r"] by (simp add: report_ok_def MaxLoss_def)
    then show ?thesis unfolding out by (simp add: toProtoMoves_def toProtoMove_def list_all_iff)
  qed
  have n: "int (length rs) < 2 ^ 32" using sp(1) assms(2) by simp
  have le: "length (side c rs) \<le> length rs" for c by simp
  have cnt: "uwrap32 (int k) = int k" if "k \<le> length rs" for k using that n by (intro uwrap32_id) auto
  have player: "0 \<le> ps_EngineMatchRate p \<and> ps_EngineMatchRate p \<le> 1 \<and>
         0 \<le> ps_AvgCentipawnLoss p \<and> ps_AvgCentipawnLoss p \<le> 1000 \<and> 0 \<le> ps_Accuracy p \<and> ps_Accuracy p \<le> 100 \<and>
         ps_Blunders p + ps_Mistakes p + ps_Inaccuracies p \<le> ps_MoveCount p"
    if "p = toProtoReport pid (Summarise rs c)" for p pid c
    by (rule player_ranges [OF that ok n])
  have "ps_MoveCount (ac_White out) + ps_MoveCount (ac_Black out) = int (length (req_Uci req))"
    unfolding out toProtoReport_def using side_split [of rs] sp(1) le cnt by (simp add: Summarise_spec(1) flip: of_nat_add)
  then show ?thesis using uci loss player out by simp
qed

text \<open>A one-move game on which the hypotheses hold.\<close>

definition exampleRequest :: AnalysisRequested where
  "exampleRequest = \<lparr>req_GameId = ''g'', req_WhiteId = ''w'', req_BlackId = ''b'', req_VsEngine = False,
     req_FenHistory = [FEN startBoard, FEN startBoard], req_Uci = [''e2e4''], req_Depth = 12\<rparr>"

definition exampleEngine :: engine where
  "exampleEngine fen depth = Inr \<lparr>BestMove = ''d2d4'', ScoreCP = 30, Mate = False, MateIn = 0\<rparr>"

lemma example_runs: "\<exists>out cmds. Analyze (New_Worker True True 0) exampleEngine (\<lambda>_. None) False 0 exampleRequest = Inr (out, cmds)"
  by (simp add: Analyze_def exampleRequest_def exampleEngine_def attachNovelty_def Let_def
      ParseFEN_FEN [OF fen_ok_startBoard] split: prod.splits)

theorem Analyze_report_ranges_witness:
  "\<exists>out cmds. Analyze (New_Worker True True 0) exampleEngine (\<lambda>_. None) False 0 exampleRequest = Inr (out, cmds) \<and>
     map ma_Uci (ac_Moves out) = [''e2e4'']"
proof -
  obtain out cmds where r: "Analyze (New_Worker True True 0) exampleEngine (\<lambda>_. None) False 0 exampleRequest = Inr (out, cmds)"
    using example_runs by blast
  have "length (req_Uci exampleRequest) < 2 ^ 32" by (simp add: exampleRequest_def)
  from Analyze_report_ranges [OF r this] r show ?thesis by (auto simp: exampleRequest_def)
qed

end
