(* ===== verification/Game_Server.thy ===== *)
theory Game_Server
  imports Store_Accounts Analysis_Worker
begin

text \<open>
  The game service (\<open>services/game-service/internal/server\<close>: \<open>server.go\<close>, \<open>mapping.go\<close>,
  \<open>history.go\<close>).  A handler takes the tables and returns its response or a gRPC code, the tables
  afterwards and the list of the effects it has on other systems, in order: calls to the
  session manager, analysis requests to Kafka, PGN files to the object store, metrics.

  \<open>Env\<close> collects what comes from outside: which of the successive store calls of a handler the
  database answers (\<open>env_up\<close>, numbered in the order of the calls), whether the session manager
  accepts a new session, the engine, the clock, fresh identifiers, SQL's \<open>lower\<close>, the \<open>%q\<close> verb
  and the date format of the PGN writer.  Messages of errors are left out.
\<close>

section \<open>Codes and mappings\<close>

datatype Code = InvalidArgument | NotFound | FailedPrecondition | PermissionDenied | Internal | AlreadyExists | Unauthenticated

fun resultToDB :: "Result \<Rightarrow> string" where
  "resultToDB WhiteWins = ''WHITE_WON''"
| "resultToDB BlackWins = ''BLACK_WON''"
| "resultToDB Draw = ''DRAW''"
| "resultToDB InProgress = ''IN_PROGRESS''"

fun reasonToDB :: "EndReason \<Rightarrow> string" where
  "reasonToDB Checkmate = ''CHECKMATE''"
| "reasonToDB Stalemate = ''STALEMATE''"
| "reasonToDB InsufficientMaterial = ''INSUFFICIENT_MATERIAL''"
| "reasonToDB FiftyMove = ''FIFTY_MOVE''"
| "reasonToDB ThreefoldRepetition = ''THREEFOLD''"
| "reasonToDB Ongoing = ''''"

fun reasonToSession :: "EndReason \<Rightarrow> string" where
  "reasonToSession Checkmate = ''checkmate''"
| "reasonToSession Stalemate = ''stalemate''"
| "reasonToSession InsufficientMaterial = ''insufficient_material''"
| "reasonToSession FiftyMove = ''fifty_move''"
| "reasonToSession ThreefoldRepetition = ''threefold''"
| "reasonToSession Ongoing = ''ended''"

datatype ProtoStatus = STATUS_WHITE_WON | STATUS_BLACK_WON | STATUS_DRAW | STATUS_IN_PROGRESS | STATUS_UNSPECIFIED

definition statusFromDB :: "string \<Rightarrow> ProtoStatus" where
  "statusFromDB s =
     (if s = ''WHITE_WON'' then STATUS_WHITE_WON else if s = ''BLACK_WON'' then STATUS_BLACK_WON
      else if s = ''DRAW'' then STATUS_DRAW else if s = ''IN_PROGRESS'' then STATUS_IN_PROGRESS
      else STATUS_UNSPECIFIED)"

datatype ProtoEndReason =
    END_REASON_CHECKMATE | END_REASON_STALEMATE | END_REASON_INSUFFICIENT_MATERIAL | END_REASON_FIFTY_MOVE
  | END_REASON_THREEFOLD | END_REASON_RESIGNATION | END_REASON_UNSPECIFIED

definition endReasonFromDB :: "string \<Rightarrow> ProtoEndReason" where
  "endReasonFromDB s =
     (if s = ''CHECKMATE'' then END_REASON_CHECKMATE else if s = ''STALEMATE'' then END_REASON_STALEMATE
      else if s = ''INSUFFICIENT_MATERIAL'' then END_REASON_INSUFFICIENT_MATERIAL
      else if s = ''FIFTY_MOVE'' then END_REASON_FIFTY_MOVE else if s = ''THREEFOLD'' then END_REASON_THREEFOLD
      else if s = ''RESIGNATION'' then END_REASON_RESIGNATION else END_REASON_UNSPECIFIED)"

definition pgnResult :: "string \<Rightarrow> string" where
  "pgnResult status =
     (if status = ''WHITE_WON'' then ''1-0'' else if status = ''BLACK_WON'' then ''0-1''
      else if status = ''DRAW'' then ''1/2-1/2'' else ''*'')"

section \<open>Server, environment, effects\<close>

record Srv =
  srv_session :: bool
  srv_events :: bool
  srv_objects :: bool
  srv_analysisDepth :: int

definition New_Server :: "bool \<Rightarrow> bool \<Rightarrow> bool \<Rightarrow> int \<Rightarrow> Srv" where
  "New_Server sess events objects analysisDepth =
     \<lparr>srv_session = sess, srv_events = events, srv_objects = objects,
      srv_analysisDepth = (if analysisDepth \<le> 0 then 14 else analysisDepth)\<rparr>"

record Env =
  env_up :: "nat \<Rightarrow> bool"
  env_sessionOk :: bool
  env_engine :: "string \<Rightarrow> int \<Rightarrow> string + string"
  env_now :: int
  env_newUser :: string
  env_newGame :: string
  env_lower :: "string \<Rightarrow> string"
  env_quote :: "string \<Rightarrow> string"
  env_date :: "int \<Rightarrow> string"

datatype Winner = WinnerNone | WinnerWhite | WinnerBlack

datatype Effect =
    SessionCreate string string string int int
  | SessionMoveMade string string
  | SessionEnd string Winner string
  | SessionResign string string
  | PublishAnalysis AnalysisRequested
  | PutPGN string string
  | MetricGameCreated
  | MetricMove
  | MetricGameEnded Result

record ProtoGame =
  pg_Id :: string
  pg_Fen :: string
  pg_Status :: ProtoStatus
  pg_EndReason :: ProtoEndReason
  pg_VsEngine :: bool
  pg_AwaitingOpponent :: bool
  pg_Rated :: bool
  pg_WhiteId :: string
  pg_BlackId :: string
  pg_StartedAt :: int
  pg_EndedAt :: "int option"
  pg_Moves :: "StoredMove list"

definition toProtoGame :: "Game \<Rightarrow> StoredMove list \<Rightarrow> ProtoGame" where
  "toProtoGame g ms =
     \<lparr>pg_Id = ID g, pg_Fen = Game_FEN g, pg_Status = statusFromDB (Status g), pg_EndReason = endReasonFromDB (EndReasonText g),
      pg_VsEngine = VsEngine g, pg_AwaitingOpponent = AwaitingOpponent g, pg_Rated = Rated g, pg_WhiteId = WhiteID g,
      pg_BlackId = BlackID g, pg_StartedAt = StartedAt g, pg_EndedAt = EndedAt g,
      pg_Moves = map (\<lambda>m. m\<lparr>Ply := uwrap32 (Ply m)\<rparr>) ms\<rparr>"

type_synonym 'a handled = "(Code + 'a) \<times> DB \<times> Effect list"

section \<open>Creating and joining games\<close>

record CreateGameRequest =
  cr_WhiteId :: string
  cr_BlackId :: string
  cr_VsEngine :: bool
  cr_EngineDepth :: int
  cr_Rated :: bool
  cr_InitialMs :: int
  cr_IncrementMs :: int

definition createFor :: "Srv \<Rightarrow> Env \<Rightarrow> CreateGameRequest \<Rightarrow> string \<Rightarrow> DB \<Rightarrow> ProtoGame handled" where
  "createFor srv env req whiteID db =
     (case Store_CreateGame (env_up env 1) (env_newGame env) (env_now env)
             \<lparr>cp_WhiteID = whiteID, cp_BlackID = cr_BlackId req, cp_VsEngine = cr_VsEngine req,
              cp_EngineDepth = cr_EngineDepth req, cp_StartFEN = StartFEN, cp_Rated = cr_Rated req,
              cp_InitialMs = cr_InitialMs req, cp_IncrementMs = cr_IncrementMs req\<rparr> db of
        (Inl e, db) \<Rightarrow> (Inl Internal, db, [])
      | (Inr g, db) \<Rightarrow>
          if \<not> VsEngine g \<and> \<not> AwaitingOpponent g \<and> srv_session srv then
            let call = SessionCreate (ID g) (WhiteID g) (BlackID g) (cr_InitialMs req) (cr_IncrementMs req)
            in if \<not> env_sessionOk env then (Inl Internal, db, [call])
               else (Inr (toProtoGame g []), db, [call, MetricGameCreated])
          else (Inr (toProtoGame g []), db, [MetricGameCreated]))"

definition CreateGame :: "Srv \<Rightarrow> Env \<Rightarrow> CreateGameRequest \<Rightarrow> DB \<Rightarrow> ProtoGame handled" where
  "CreateGame srv env req db =
     (if cr_WhiteId req = '''' then
        (case CreateGuestUser (env_lower env) (env_up env 0) (env_newUser env) (env_now env) db of
           (Inl e, db) \<Rightarrow> (Inl Internal, db, [])
         | (Inr whiteID, db) \<Rightarrow> createFor srv env req whiteID db)
      else createFor srv env req (cr_WhiteId req) db)"

definition JoinGame :: "Srv \<Rightarrow> Env \<Rightarrow> string \<Rightarrow> string \<Rightarrow> DB \<Rightarrow> ProtoGame handled" where
  "JoinGame srv env gameId playerId db =
     (if gameId = '''' \<or> playerId = '''' then (Inl InvalidArgument, db, [])
      else case Store_JoinGame (env_up env 0) (env_up env 1) gameId playerId db of
          (Inl ErrSeatUnavailable, db) \<Rightarrow> (Inl FailedPrecondition, db, [])
        | (Inl ErrNotFound, db) \<Rightarrow> (Inl NotFound, db, [])
        | (Inl e, db) \<Rightarrow> (Inl Internal, db, [])
        | (Inr g, db) \<Rightarrow>
            let calls = (if srv_session srv
                         then [SessionCreate (ID g) (WhiteID g) (BlackID g) (InitialMs g) (IncrementMs g)] else [])
            in (case Store_GetGame (env_up env 2) (ID g) db of
                  Inl e \<Rightarrow> (Inl Internal, db, calls)
                | Inr (_, ms) \<Rightarrow> (Inr (toProtoGame g ms), db, calls)))"

section \<open>After the end of a game\<close>

definition startFENFor :: "Game \<Rightarrow> string" where
  "startFENFor g = StartFEN"

definition GameForAnalysis :: "bool \<Rightarrow> string \<Rightarrow> DB \<Rightarrow> StoreError + (string list \<times> string list)" where
  "GameForAnalysis up gid db =
     (case Store_GetGame up gid db of
        Inl e \<Rightarrow> Inl e
      | Inr (g, ms) \<Rightarrow> Inr (startFENFor g # map FENAfter ms, map UCI ms))"

definition applyRatings :: "Env \<Rightarrow> string \<Rightarrow> Result \<Rightarrow> DB \<Rightarrow> DB" where
  "applyRatings env gid result db =
     (let run = (\<lambda>outcome. snd (ApplyRatings (env_up env 2) (env_up env 3) gid outcome db)) in
      case result of
        WhiteWins \<Rightarrow> run WhiteWon
      | BlackWins \<Rightarrow> run BlackWon
      | Draw \<Rightarrow> run Drawn
      | InProgress \<Rightarrow> db)"

definition requestAnalysis :: "Srv \<Rightarrow> Env \<Rightarrow> string \<Rightarrow> DB \<Rightarrow> Effect list" where
  "requestAnalysis srv env gid db =
     (if \<not> srv_events srv then []
      else case Store_GetGame (env_up env 4) gid db of
          Inl e \<Rightarrow> []
        | Inr (g, _) \<Rightarrow>
            (case GameForAnalysis (env_up env 5) gid db of
               Inl e \<Rightarrow> []
             | Inr (fens, ucis) \<Rightarrow>
                 if ucis = [] then []
                 else [PublishAnalysis \<lparr>req_GameId = gid, req_WhiteId = WhiteID g, req_BlackId = BlackID g,
                         req_VsEngine = VsEngine g, req_FenHistory = fens, req_Uci = ucis,
                         req_Depth = uwrap32 (srv_analysisDepth srv)\<rparr>]))"

text \<open>
  A panic of \<open>PGN\<close> would end the request; from the starting position it does not panic, whatever the
  moves, so that the errors below are those that the code logs.
\<close>

lemma archive_never_panics: "PGN quote StartFEN ucis tags \<noteq> Inl PgnPanic"
proof -
  have "ParseFEN StartFEN = Inr startBoard" using ParseFEN_FEN [OF fen_ok_startBoard] by (simp only: FEN_startBoard)
  then show ?thesis using movetext_no_panic [OF valid_startBoard, of "''''" ucis]
    by (cases "movetext startBoard '''' ucis") (auto simp: PGN_def Let_def)
qed

definition archivePGN :: "Srv \<Rightarrow> Env \<Rightarrow> string \<Rightarrow> DB \<Rightarrow> Effect list" where
  "archivePGN srv env gid db =
     (if \<not> srv_objects srv then []
      else case Store_GetGame (env_up env 6) gid db of
          Inl e \<Rightarrow> []
        | Inr (g, ms) \<Rightarrow>
            if ms = [] then []
            else
              let white = (case Store_GetUser (env_up env 7) (WhiteID g) db of Inr u \<Rightarrow> usr_Username u | Inl e \<Rightarrow> ''Guest'');
                  black = (if VsEngine g then ''Stockfish''
                           else case Store_GetUser (env_up env 8) (BlackID g) db of Inr u \<Rightarrow> usr_Username u | Inl e \<Rightarrow> ''Guest'')
              in (case PGN (env_quote env) StartFEN (map UCI ms)
                         [(''Event'', ''Alekhine's Counter-Gambit''), (''Site'', ''localhost''),
                          (''Date'', env_date env (StartedAt g)), (''White'', white), (''Black'', black),
                          (''Result'', pgnResult (Status g))] of
                    Inl e \<Rightarrow> []
                  | Inr pgn \<Rightarrow> [PutPGN (gid @ ''.pgn'') pgn]))"

definition ingestOpening :: "Env \<Rightarrow> string \<Rightarrow> string \<Rightarrow> DB \<Rightarrow> DB" where
  "ingestOpening env gid status db =
     (case GameForAnalysis (env_up env 9) gid db of
        Inl e \<Rightarrow> db
      | Inr (fens, ucis) \<Rightarrow> if ucis = [] then db else snd (IngestGameOpening (env_up env 10) gid status fens ucis db))"

text \<open>The four steps every finished game goes through, in the order of the source.\<close>

definition afterEnd :: "Srv \<Rightarrow> Env \<Rightarrow> string \<Rightarrow> Result \<Rightarrow> DB \<Rightarrow> DB \<times> Effect list" where
  "afterEnd srv env gid result db =
     (let db = applyRatings env gid result db;
          fx = requestAnalysis srv env gid db @ archivePGN srv env gid db;
          db = ingestOpening env gid (resultToDB result) db
      in (db, fx))"

section \<open>Moves\<close>

definition buildHistory :: "StoredMove list \<Rightarrow> string list" where
  "buildHistory ms = StartFEN # map FENAfter ms"

text \<open>\<open>None\<close> is success.\<close>

definition authorizeMover :: "Game \<Rightarrow> Color \<Rightarrow> string \<Rightarrow> Code option" where
  "authorizeMover g turn playerID =
     (if playerID = '''' then Some InvalidArgument
      else
        let expected = (if turn = Black then BlackID g else WhiteID g)
        in if playerID \<noteq> expected then Some PermissionDenied else None)"

record Planned =
  pl_after :: Board
  pl_history :: "string list"
  pl_move :: StoredMove
  pl_result :: Result
  pl_reason :: EndReason

text \<open>From the game as loaded to the move to be stored: everything before the write.\<close>

definition planMove :: "Game \<Rightarrow> StoredMove list \<Rightarrow> string \<Rightarrow> string \<Rightarrow> Code + Planned" where
  "planMove g ms uci playerId =
     (if Status g \<noteq> ''IN_PROGRESS'' then Inl FailedPrecondition
      else case ParseFEN (Game_FEN g) of
          Inl e \<Rightarrow> Inl Internal
        | Inr board \<Rightarrow>
            (case (if VsEngine g then None else authorizeMover g (Turn board) playerId) of
               Some c \<Rightarrow> Inl c
             | None \<Rightarrow>
                 (case ApplyUCI board uci of
                    Inl e \<Rightarrow> Inl InvalidArgument
                  | Inr after \<Rightarrow>
                      let history = buildHistory ms @ [FEN after];
                          (result, reason) = OutcomeWithHistory after history
                      in Inr \<lparr>pl_after = after, pl_history = history,
                              pl_move = \<lparr>Ply = int (length ms) + 1, UCI = uci, FENAfter = FEN after\<rparr>,
                              pl_result = result, pl_reason = reason\<rparr>)))"

definition appendPlanned :: "bool \<Rightarrow> int \<Rightarrow> string \<Rightarrow> Planned \<Rightarrow> DB \<Rightarrow> unit stored" where
  "appendPlanned up now gid pl db =
     AppendMove up gid (pl_move pl) (resultToDB (pl_result pl)) (reasonToDB (pl_reason pl)) (pl_result pl \<noteq> InProgress) now db"

definition endSession :: "string \<Rightarrow> Result \<Rightarrow> EndReason \<Rightarrow> Effect" where
  "endSession gid result reason =
     SessionEnd gid (case result of WhiteWins \<Rightarrow> WinnerWhite | BlackWins \<Rightarrow> WinnerBlack | _ \<Rightarrow> WinnerNone) (reasonToSession reason)"

definition planReply :: "Board \<Rightarrow> string list \<Rightarrow> int \<Rightarrow> string \<Rightarrow> Code + Planned" where
  "planReply after history ply uci =
     (case ApplyUCI after uci of
        Inl e \<Rightarrow> Inl Internal
      | Inr engineAfter \<Rightarrow>
          let history = history @ [FEN engineAfter];
              (result, reason) = OutcomeWithHistory engineAfter history
          in Inr \<lparr>pl_after = engineAfter, pl_history = history,
                  pl_move = \<lparr>Ply = ply, UCI = uci, FENAfter = FEN engineAfter\<rparr>, pl_result = result, pl_reason = reason\<rparr>)"

text \<open>\<open>None\<close> is success.\<close>

definition playEngineReply :: "Env \<Rightarrow> Game \<Rightarrow> Board \<Rightarrow> string list \<Rightarrow> int \<Rightarrow> DB \<Rightarrow> Code option \<times> DB" where
  "playEngineReply env g after history ply db =
     (case env_engine env (FEN after) (EngineDepth g) of
        Inl e \<Rightarrow> (Some Internal, db)
      | Inr uci \<Rightarrow>
          (case planReply after history ply uci of
             Inl c \<Rightarrow> (Some c, db)
           | Inr pl \<Rightarrow>
               (case appendPlanned (env_up env 11) (env_now env) (ID g) pl db of
                  (Inl e, db) \<Rightarrow> (Some Internal, db)
                | (Inr _, db) \<Rightarrow> (None, db))))"

definition sessionEffects :: "Srv \<Rightarrow> Game \<Rightarrow> Planned \<Rightarrow> string \<Rightarrow> Effect list" where
  "sessionEffects srv g pl playerId =
     (if \<not> VsEngine g \<and> srv_session srv
      then [if pl_result pl \<noteq> InProgress then endSession (ID g) (pl_result pl) (pl_reason pl) else SessionMoveMade (ID g) playerId]
      else [])"

definition moveMetrics :: "Planned \<Rightarrow> Effect list" where
  "moveMetrics pl = MetricMove # (if pl_result pl \<noteq> InProgress then [MetricGameEnded (pl_result pl)] else [])"

definition reloaded :: "Env \<Rightarrow> string \<Rightarrow> DB \<Rightarrow> Code + ProtoGame" where
  "reloaded env gid db =
     (case Store_GetGame (env_up env 12) gid db of Inl e \<Rightarrow> Inl Internal | Inr (g, ms) \<Rightarrow> Inr (toProtoGame g ms))"

definition SubmitMove :: "Srv \<Rightarrow> Env \<Rightarrow> string \<Rightarrow> string \<Rightarrow> string \<Rightarrow> DB \<Rightarrow> ProtoGame handled" where
  "SubmitMove srv env gameId uci playerId db =
     (if gameId = '''' \<or> uci = '''' then (Inl InvalidArgument, db, [])
      else case Store_GetGame (env_up env 0) gameId db of
          Inl ErrNotFound \<Rightarrow> (Inl NotFound, db, [])
        | Inl e \<Rightarrow> (Inl Internal, db, [])
        | Inr (g, ms) \<Rightarrow>
            (case planMove g ms uci playerId of
               Inl c \<Rightarrow> (Inl c, db, [])
             | Inr pl \<Rightarrow>
                 (case appendPlanned (env_up env 1) (env_now env) (ID g) pl db of
                    (Inl e, db) \<Rightarrow> (Inl Internal, db, [])
                  | (Inr _, db) \<Rightarrow>
                      let fx = sessionEffects srv g pl playerId @ moveMetrics pl in
                      if pl_result pl \<noteq> InProgress then
                        let (db, fx') = afterEnd srv env (ID g) (pl_result pl) db
                        in (reloaded env (ID g) db, db, fx @ fx')
                      else if VsEngine g then
                        (case playEngineReply env g (pl_after pl) (pl_history pl) (Ply (pl_move pl) + 1) db of
                           (Some c, db) \<Rightarrow> (Inl c, db, fx)
                         | (None, db) \<Rightarrow> (reloaded env (ID g) db, db, fx))
                      else (reloaded env (ID g) db, db, fx))))"

section \<open>Resigning and reading\<close>

definition resignAs :: "Srv \<Rightarrow> Env \<Rightarrow> Game \<Rightarrow> string \<Rightarrow> Result \<Rightarrow> DB \<Rightarrow> ProtoGame handled" where
  "resignAs srv env g playerId winner db =
     (case EndGame (env_up env 1) (ID g) (resultToDB winner) ''RESIGNATION'' (env_now env) db of
        (Inl ErrNotInProgress, db) \<Rightarrow> (Inl FailedPrecondition, db, [])
      | (Inl e, db) \<Rightarrow> (Inl Internal, db, [])
      | (Inr _, db) \<Rightarrow>
          let fx = MetricGameEnded winner #
                (if \<not> VsEngine g \<and> srv_session srv then [SessionResign (ID g) playerId] else []);
              (db, fx') = afterEnd srv env (ID g) winner db
          in (reloaded env (ID g) db, db, fx @ fx'))"

definition Resign :: "Srv \<Rightarrow> Env \<Rightarrow> string \<Rightarrow> string \<Rightarrow> DB \<Rightarrow> ProtoGame handled" where
  "Resign srv env gameId playerId db =
     (if gameId = '''' \<or> playerId = '''' then (Inl InvalidArgument, db, [])
      else case Store_GetGame (env_up env 0) gameId db of
          Inl ErrNotFound \<Rightarrow> (Inl NotFound, db, [])
        | Inl e \<Rightarrow> (Inl Internal, db, [])
        | Inr (g, _) \<Rightarrow>
            if playerId = WhiteID g then resignAs srv env g playerId BlackWins db
            else if playerId = BlackID g then resignAs srv env g playerId WhiteWins db
            else (Inl PermissionDenied, db, []))"

definition Server_LegalMoves :: "Env \<Rightarrow> string \<Rightarrow> DB \<Rightarrow> Code + string list" where
  "Server_LegalMoves env gameId db =
     (if gameId = '''' then Inl InvalidArgument
      else case Store_GetGame (env_up env 0) gameId db of
          Inl ErrNotFound \<Rightarrow> Inl NotFound
        | Inl e \<Rightarrow> Inl Internal
        | Inr (g, _) \<Rightarrow>
            (case ParseFEN (Game_FEN g) of
               Inl e \<Rightarrow> Inl Internal
             | Inr board \<Rightarrow> Inr (map Move_String (LegalMoves board))))"

definition Server_GetGame :: "Env \<Rightarrow> string \<Rightarrow> DB \<Rightarrow> Code + ProtoGame" where
  "Server_GetGame env gameId db =
     (if gameId = '''' then Inl InvalidArgument
      else case Store_GetGame (env_up env 0) gameId db of
          Inl ErrNotFound \<Rightarrow> Inl NotFound
        | Inl e \<Rightarrow> Inl Internal
        | Inr (g, ms) \<Rightarrow> Inr (toProtoGame g ms))"

end
