(* ===== verification/Game_Record.thy ===== *)
theory Game_Record
  imports Game_Server
begin

text \<open>
  What the tables say about games.  \<open>core\<close> is the part of the database that records play: the
  current position of each game, the moves, and the outbox.  \<open>shape_ok\<close> says that the moves of a game are
  numbered 1, 2, \<dots> without gaps, that its row shows the position stored with the last one, and that the
  outbox announces exactly the stored moves in the order in which they were stored; \<open>core_ok\<close> says that
  the moves of each game also follow one another legally.

  Only \<open>AppendMove\<close> and the creation of a game change \<open>core\<close>; every other operation of the store
  leaves it alone.  The service is a system of interleaved requests, \<open>sys_step\<close>, whose steps are the single
  statements of the database; what survives any interleaving is \<open>sys_ok\<close>.
\<close>

section \<open>The record of a game\<close>

definition moves_of :: "string \<Rightarrow> MoveRow list \<Rightarrow> MoveRow list" where
  "moves_of gid ms = filter (\<lambda>m. mv_game m = gid) ms"

fun follows :: "Board \<Rightarrow> MoveRow list \<Rightarrow> Board \<Rightarrow> bool" where
  "follows b [] b' \<longleftrightarrow> b' = b"
| "follows b (m # ms) b' \<longleftrightarrow>
     (case ApplyUCI b (mv_uci m) of Inl e \<Rightarrow> False | Inr nb \<Rightarrow> mv_fen_after m = FEN nb \<and> follows nb ms b')"

definition record_ok :: "string \<Rightarrow> string \<Rightarrow> MoveRow list \<Rightarrow> bool" where
  "record_ok gid fen ms \<longleftrightarrow>
     map mv_ply (moves_of gid ms) = [1..int (length (moves_of gid ms))] \<and>
     (\<exists>b. follows startBoard (moves_of gid ms) b \<and> fen = FEN b)"

definition mirror :: "MoveRow list \<Rightarrow> (int \<times> string \<times> int \<times> string \<times> string) list" where
  "mirror ms = map (\<lambda>(i, m). (int i + 1, mv_game m, mv_ply m, mv_uci m, mv_fen_after m)) (enumerate 0 ms)"

type_synonym core = "(string \<times> string) list \<times> MoveRow list \<times> (int \<times> string \<times> int \<times> string \<times> string) list"

definition core :: "DB \<Rightarrow> core" where
  "core db = (map (\<lambda>g. (g_id g, g_fen g)) (games db), moves db,
              map (\<lambda>r. (ob_id r, ob_game r, ob_ply r, ob_uci r, ob_fen_after r)) (outbox db))"

definition core_ok :: "core \<Rightarrow> bool" where
  "core_ok c = (case c of (gs, ms, os) \<Rightarrow>
     distinct (map fst gs) \<and> (\<forall>m \<in> set ms. mv_game m \<in> fst ` set gs) \<and>
     (\<forall>(gid, fen) \<in> set gs. record_ok gid fen ms) \<and> os = mirror ms)"

abbreviation db_ok :: "DB \<Rightarrow> bool" where
  "db_ok db \<equiv> core_ok (core db)"

text \<open>The part of it that says nothing about chess.\<close>

definition numbered :: "MoveRow list \<Rightarrow> bool" where
  "numbered ms \<longleftrightarrow> map mv_ply ms = [1..int (length ms)]"

definition latest :: "MoveRow list \<Rightarrow> string" where
  "latest ms = (if ms = [] then StartFEN else mv_fen_after (last ms))"

definition shape_ok :: "core \<Rightarrow> bool" where
  "shape_ok c = (case c of (gs, ms, os) \<Rightarrow>
     distinct (map fst gs) \<and> (\<forall>m \<in> set ms. mv_game m \<in> fst ` set gs) \<and>
     (\<forall>(gid, fen) \<in> set gs. numbered (moves_of gid ms) \<and> fen = latest (moves_of gid ms)) \<and> os = mirror ms)"

definition legal_game :: "MoveRow list \<Rightarrow> bool" where
  "legal_game ms \<longleftrightarrow> (\<exists>b. follows startBoard ms b)"

text \<open>
  Moves that need not follow one another: each is legal in the starting position or in a position
  stored with an earlier move of the game.
\<close>

definition plays :: "MoveRow \<Rightarrow> string \<Rightarrow> bool" where
  "plays m f \<longleftrightarrow>
     (case ParseFEN f of Inl e \<Rightarrow> False
      | Inr b \<Rightarrow> (case ApplyUCI b (mv_uci m) of Inl e \<Rightarrow> False | Inr nb \<Rightarrow> mv_fen_after m = FEN nb))"

fun branches :: "string list \<Rightarrow> MoveRow list \<Rightarrow> bool" where
  "branches fens [] \<longleftrightarrow> True"
| "branches fens (m # ms) \<longleftrightarrow> list_ex (plays m) fens \<and> branches (fens @ [mv_fen_after m]) ms"

definition positions :: "string \<Rightarrow> MoveRow list \<Rightarrow> string list" where
  "positions gid ms = StartFEN # map mv_fen_after (moves_of gid ms)"

section \<open>Following a game\<close>

lemma follows_append: "follows b (xs @ ys) b' \<longleftrightarrow> (\<exists>c. follows b xs c \<and> follows c ys b')"
  by (induction xs arbitrary: b) (auto split: sum.splits)

lemma follows_unique: "follows b ms c \<Longrightarrow> follows b ms d \<Longrightarrow> c = d"
  by (induction ms arbitrary: b) (auto split: sum.splits)

lemma follows_take: "follows b ms c \<Longrightarrow> \<exists>d. follows b (take n ms) d"
  using follows_append [of b "take n ms" "drop n ms" c] by auto

lemma follows_reachable: "follows b ms c \<Longrightarrow> reachable n b \<Longrightarrow> reachable (n + length ms) c"
proof (induction ms arbitrary: b n)
  case (Cons m ms)
  then obtain nb where "ApplyUCI b (mv_uci m) = Inr nb" "follows nb ms c" by (auto split: sum.splits)
  with Cons.IH [OF this(2) reachable.step [OF Cons.prems(2) this(1)]] show ?case by simp
qed simp

lemma reachable_start: "reachable 0 startBoard"
  by (rule reachable.start [OF NewBoard_startBoard])

lemma follows_parse:
  assumes "follows startBoard ms b" and "length ms < 2 ^ 62"
  shows "ParseFEN (FEN b) = Inr b"
  using reachable_fen_ok [OF follows_reachable [OF assms(1) reachable_start]] assms(2) ParseFEN_FEN by simp

lemma follows_latest: "follows b ms c \<Longrightarrow> FEN c = (if ms = [] then FEN b else mv_fen_after (last ms))"
proof (induction ms arbitrary: b)
  case (Cons m ms)
  then obtain nb where "mv_fen_after m = FEN nb" "follows nb ms c" by (auto split: sum.splits)
  then show ?case using Cons.IH [of nb] by simp
qed simp

lemma follows_start: "follows startBoard ms b \<Longrightarrow> FEN b = latest ms"
  using follows_latest [of startBoard ms b] by (simp only: latest_def FEN_startBoard)

lemma record_iff: "record_ok gid fen ms \<longleftrightarrow> numbered (moves_of gid ms) \<and> fen = latest (moves_of gid ms) \<and> legal_game (moves_of gid ms)"
proof
  show "record_ok gid fen ms \<Longrightarrow> numbered (moves_of gid ms) \<and> fen = latest (moves_of gid ms) \<and> legal_game (moves_of gid ms)"
    using follows_start [of "moves_of gid ms"] by (auto simp: record_ok_def numbered_def legal_game_def)
next
  assume r: "numbered (moves_of gid ms) \<and> fen = latest (moves_of gid ms) \<and> legal_game (moves_of gid ms)"
  then obtain b where "follows startBoard (moves_of gid ms) b" by (auto simp: legal_game_def)
  moreover from this have "latest (moves_of gid ms) = FEN b" by (simp add: follows_start)
  ultimately show "record_ok gid fen ms" using r by (auto simp: record_ok_def numbered_def)
qed

lemma legal_Nil [simp]: "legal_game []"
  by (simp add: legal_game_def)

lemma no_moves: "gid \<notin> fst ` set gs \<Longrightarrow> \<forall>m \<in> set ms. mv_game m \<in> fst ` set gs \<Longrightarrow> moves_of gid ms = []"
  by (auto simp: moves_of_def filter_empty_conv)

lemma core_ok_iff: "core_ok (gs, ms, os) \<longleftrightarrow> shape_ok (gs, ms, os) \<and> (\<forall>gid. legal_game (moves_of gid ms))"
proof -
  have all: "legal_game (moves_of gid ms)"
    if "\<forall>m \<in> set ms. mv_game m \<in> fst ` set gs" "\<And>i fen. (i, fen) \<in> set gs \<Longrightarrow> legal_game (moves_of i ms)" for gid
    using that no_moves [of gid gs ms] by (cases "gid \<in> fst ` set gs") auto
  show ?thesis
  proof
    assume ok: "core_ok (gs, ms, os)"
    then have "shape_ok (gs, ms, os)" by (auto simp: core_ok_def shape_ok_def record_iff)
    moreover have "legal_game (moves_of gid ms)" for gid
      by (rule all) (use ok in \<open>auto simp: core_ok_def record_iff\<close>)
    ultimately show "shape_ok (gs, ms, os) \<and> (\<forall>gid. legal_game (moves_of gid ms))" by blast
  next
    assume "shape_ok (gs, ms, os) \<and> (\<forall>gid. legal_game (moves_of gid ms))"
    then show "core_ok (gs, ms, os)" by (auto simp: core_ok_def shape_ok_def record_iff)
  qed
qed

lemma db_ok_iff: "db_ok db \<longleftrightarrow> shape_ok (core db) \<and> (\<forall>gid. legal_game (moves_of gid (moves db)))"
  by (simp add: core_def core_ok_iff)

lemma branches_append: "branches fens (xs @ ys) \<longleftrightarrow> branches fens xs \<and> branches (fens @ map mv_fen_after xs) ys"
  by (induction xs arbitrary: fens) simp_all

text \<open>Every stored position is the text of a position that can be reached by legal moves.\<close>

definition shows_reachable :: "nat \<Rightarrow> string \<Rightarrow> bool" where
  "shows_reachable N f \<longleftrightarrow> (\<exists>b k. k \<le> N \<and> reachable k b \<and> f = FEN b)"

lemma shows_mono: "shows_reachable N f \<Longrightarrow> shows_reachable (Suc N) f"
  unfolding shows_reachable_def using le_SucI by blast

lemma branches_reachable:
  assumes "branches fens ms" and "\<forall>f \<in> set fens. shows_reachable N f" and "N + length ms < 2 ^ 62"
    and "f \<in> set (fens @ map mv_fen_after ms)"
  shows "shows_reachable (N + length ms) f"
  using assms
proof (induction ms arbitrary: fens N)
  case Nil
  then show ?case by simp
next
  case (Cons m ms)
  obtain f0 where f0: "f0 \<in> set fens" "plays m f0" using Cons.prems(1) by (auto simp: list_ex_iff)
  obtain b k where b: "k \<le> N" "reachable k b" "f0 = FEN b" using Cons.prems(2) f0(1) unfolding shows_reachable_def by blast
  have "ParseFEN f0 = Inr b" using reachable_fen_ok [OF b(2)] b(1,3) Cons.prems(3) ParseFEN_FEN by simp
  then obtain nb where nb: "ApplyUCI b (mv_uci m) = Inr nb" "mv_fen_after m = FEN nb"
    using f0(2) by (auto simp: plays_def split: sum.splits)
  have "reachable (Suc k) nb" using reachable.step [OF b(2) nb(1)] by simp
  then have "shows_reachable (Suc N) (mv_fen_after m)" using nb(2) b(1) unfolding shows_reachable_def by (meson Suc_le_mono)
  then have "\<forall>f \<in> set (fens @ [mv_fen_after m]). shows_reachable (Suc N) f" using Cons.prems(2) shows_mono by auto
  from Cons.IH [OF _ this] show ?case using Cons.prems(1,3,4) by simp
qed

lemma position_parses:
  assumes "branches [StartFEN] (moves_of gid ms)" and "length (moves_of gid ms) < 2 ^ 62" and "f \<in> set (positions gid ms)"
  obtains b k where "k \<le> length (moves_of gid ms)" and "reachable k b" and "f = FEN b" and "ParseFEN f = Inr b"
proof -
  have "StartFEN = FEN startBoard" by (rule FEN_startBoard [symmetric])
  then have "\<forall>f \<in> set [StartFEN]. shows_reachable 0 f" using reachable_start unfolding shows_reachable_def by auto
  from branches_reachable [OF assms(1) this, of f] obtain b k where b: "k \<le> length (moves_of gid ms)" "reachable k b" "f = FEN b"
    using assms(2,3) unfolding shows_reachable_def by (auto simp: positions_def)
  have "fen_ok b" using reachable_fen_ok [OF b(2)] b(1) assms(2) by simp
  then show ?thesis using that b ParseFEN_FEN by simp
qed

lemma moves_of_le: "length (moves_of gid ms) \<le> length ms"
  by (simp add: moves_of_def)

section \<open>Reading a game\<close>

lemma gameMoves_numbered:
  assumes "numbered (moves_of gid (moves db))"
  shows "gameMoves db gid = map (\<lambda>m. \<lparr>Ply = mv_ply m, UCI = mv_uci m, FENAfter = mv_fen_after m\<rparr>) (moves_of gid (moves db))"
proof -
  have "sorted (map mv_ply (moves_of gid (moves db)))" using assms by (simp add: numbered_def)
  then have "sort_key mv_ply (moves_of gid (moves db)) = moves_of gid (moves db)" by (rule sort_key_id_if_sorted)
  then show ?thesis by (simp add: gameMoves_def moves_of_def)
qed

lemma gameMoves_record:
  "record_ok gid fen (moves db) \<Longrightarrow>
    gameMoves db gid = map (\<lambda>m. \<lparr>Ply = mv_ply m, UCI = mv_uci m, FENAfter = mv_fen_after m\<rparr>) (moves_of gid (moves db))"
  by (rule gameMoves_numbered) (simp add: record_iff)

lemma gameMoves_length: "length (gameMoves db gid) = length (moves_of gid (moves db))"
  by (simp add: gameMoves_def moves_of_def)

lemma core_record: "core_ok (gs, ms, os) \<Longrightarrow> (gid, fen) \<in> set gs \<Longrightarrow> record_ok gid fen ms"
  by (auto simp: core_ok_def)

lemma find_game_in: "find_game db gid = Some g \<Longrightarrow> g \<in> set (games db) \<and> g_id g = gid"
  by (auto simp: find_game_def find_Some_iff)

lemma find_game_record:
  assumes "db_ok db" and "find_game db gid = Some g"
  shows "record_ok gid (g_fen g) (moves db)"
  using assms find_game_in [OF assms(2)] by (auto simp: core_def intro!: core_record)

text \<open>What \<open>Store_GetGame\<close> returns is a legal game.\<close>

lemma GetGame_record:
  assumes "db_ok db" and "Store_GetGame up gid db = Inr (g, ms)"
  obtains row b where "find_game db gid = Some row" and "g = rowToGame row" and "ID g = gid"
    and "length ms = length (moves_of gid (moves db))" and "follows startBoard (moves_of gid (moves db)) b"
    and "Game_FEN g = FEN b"
proof -
  obtain row where row: "find_game db gid = Some row" "g = rowToGame row" "ms = gameMoves db gid"
    using assms(2) by (auto simp: Store_GetGame_eq split: if_splits option.splits)
  have rec: "record_ok gid (g_fen row) (moves db)" using find_game_record [OF assms(1) row(1)] .
  then obtain b where "follows startBoard (moves_of gid (moves db)) b" "g_fen row = FEN b" by (auto simp: record_ok_def)
  then show ?thesis using that row gameMoves_record [OF rec] find_game_in [OF row(1)] by (simp add: rowToGame_def)
qed

section \<open>Appending a move\<close>

text \<open>
  A pending write: computed when the game had the first \<open>n\<close> of its present moves, it plays a move
  that is legal there.
\<close>

definition pending_ok :: "DB \<Rightarrow> string \<Rightarrow> Planned \<Rightarrow> bool" where
  "pending_ok db gid pl \<longleftrightarrow>
     (\<exists>n b. n \<le> length (moves_of gid (moves db)) \<and> follows startBoard (take n (moves_of gid (moves db))) b \<and>
        ApplyUCI b (UCI (pl_move pl)) = Inr (pl_after pl) \<and> FENAfter (pl_move pl) = FEN (pl_after pl) \<and>
        Ply (pl_move pl) = int n + 1)"

lemma mirror_snoc: "mirror (ms @ [m]) = mirror ms @ [(int (length ms) + 1, mv_game m, mv_ply m, mv_uci m, mv_fen_after m)]"
  by (simp add: mirror_def enumerate_append_eq)

lemma shape_length: "shape_ok (core db) \<Longrightarrow> length (outbox db) = length (moves db)"
  by (auto simp: shape_ok_def core_def mirror_def dest: arg_cong [where f = length])

lemma find_game_shape:
  assumes "shape_ok (core db)" and "find_game db gid = Some g"
  shows "numbered (moves_of gid (moves db))" and "g_fen g = latest (moves_of gid (moves db))"
  using assms find_game_in [OF assms(2)] by (auto simp: shape_ok_def core_def)

definition newRow :: "string \<Rightarrow> StoredMove \<Rightarrow> MoveRow" where
  "newRow gid m = \<lparr>mv_game = gid, mv_ply = Ply m, mv_uci = UCI m, mv_fen_after = FENAfter m\<rparr>"

lemma newRow_simps [simp]: "mv_game (newRow gid m) = gid" "mv_ply (newRow gid m) = Ply m" "mv_uci (newRow gid m) = UCI m"
    "mv_fen_after (newRow gid m) = FENAfter m"
  by (simp_all add: newRow_def)

lemma AppendMove_shape:
  assumes "AppendMove up gid m st er en now db = (Inr (), db')" and "shape_ok (core db)"
  shows "core db' = (map (\<lambda>(i, f). (i, if i = gid then FENAfter m else f)) (fst (core db)), moves db @ [newRow gid m],
      snd (snd (core db)) @ [(int (length (moves db)) + 1, gid, Ply m, UCI m, FENAfter m)])"
    and "find_game db gid \<noteq> None" and "\<forall>r \<in> set (moves db). \<not> (mv_game r = gid \<and> mv_ply r = Ply m)"
proof -
  have db': "db' = db\<lparr>moves := moves db @ [newRow gid m],
      outbox := outbox db @ [\<lparr>ob_id = nextOutboxId db, ob_game = gid, ob_ply = Ply m, ob_uci = UCI m, ob_fen_after = FENAfter m,
                ob_status = st, ob_end_reason = er, ob_ended = en, ob_published = False\<rparr>],
      games := update_where (\<lambda>g. g_id g = gid)
              (\<lambda>g. if en then g\<lparr>g_fen := FENAfter m, g_status := st, g_end_reason := Some er, g_ended_at := Some now\<rparr>
                   else g\<lparr>g_fen := FENAfter m, g_status := st\<rparr>) (games db)\<rparr>"
    and c: "find_game db gid \<noteq> None" "\<not> list_ex (\<lambda>r. mv_game r = gid \<and> mv_ply r = Ply m) (moves db)"
    using assms(1) by (auto simp: AppendMove_def newRow_def split: if_splits)
  show "find_game db gid \<noteq> None" by (rule c(1))
  show "\<forall>r \<in> set (moves db). \<not> (mv_game r = gid \<and> mv_ply r = Ply m)" using c(2) by (simp add: list_ex_iff)
  show "core db' = (map (\<lambda>(i, f). (i, if i = gid then FENAfter m else f)) (fst (core db)), moves db @ [newRow gid m],
      snd (snd (core db)) @ [(int (length (moves db)) + 1, gid, Ply m, UCI m, FENAfter m)])"
    unfolding db' using shape_length [OF assms(2)] by (auto simp: core_def update_where_def nextOutboxId_def)
qed

lemmas AppendMove_core = AppendMove_shape [OF _ conjunct1 [OF iffD1 [OF db_ok_iff]]]

lemma moves_of_append: "moves_of gid (ms @ [r]) = moves_of gid ms @ (if mv_game r = gid then [r] else [])"
  by (simp add: moves_of_def)

lemma moves_of_newRow: "moves_of i (ms @ [newRow gid m]) = moves_of i ms @ (if i = gid then [newRow gid m] else [])"
  by (simp add: moves_of_append newRow_def)

text \<open>
  The uniqueness of plies keeps the numbering whole: a write whose ply is at most the next one is
  refused, or has the next one.
\<close>

lemma append_shape:
  assumes "shape_ok (core db)" and "1 \<le> Ply m" and "Ply m \<le> int (length (moves_of gid (moves db))) + 1"
    and a: "AppendMove up gid m st er en now db = (Inr (), db')"
  shows "shape_ok (core db')" and "moves db' = moves db @ [newRow gid m]" and "Ply m = int (length (moves_of gid (moves db))) + 1"
proof -
  note core' = AppendMove_shape [OF a assms(1)]
  let ?ms = "moves_of gid (moves db)"
  obtain row where row: "find_game db gid = Some row" using core'(2) by auto
  have num: "numbered ?ms" using find_game_shape [OF assms(1) row] by simp
  have "mv_ply ` set ?ms = {1..int (length ?ms)}" using num unfolding numbered_def by (metis list.set_map set_upto)
  moreover have "Ply m \<notin> mv_ply ` set ?ms" using core'(3) by (auto simp: moves_of_def)
  ultimately have "Ply m \<notin> {1..int (length ?ms)}" by simp
  then show ply: "Ply m = int (length ?ms) + 1" using assms(2,3) by auto
  show ms': "moves db' = moves db @ [newRow gid m]" using core'(1) by (simp add: core_def)
  have gs: "distinct (map fst (fst (core db)))" "\<forall>r \<in> set (moves db). mv_game r \<in> fst ` set (fst (core db))"
    "snd (snd (core db)) = mirror (moves db)" using assms(1) by (auto simp: shape_ok_def core_def)
  have keys: "map fst (map (\<lambda>(i, f). (i, if i = gid then FENAfter m else f)) (fst (core db))) = map fst (fst (core db))"
    by (auto intro!: map_cong)
  have inkeys: "gid \<in> fst ` set (fst (core db))" using find_game_in [OF row] by (force simp: core_def)
  have "numbered (?ms @ [newRow gid m])"
    using num ply upto_rec2 [of 1 "int (length ?ms) + 1"] by (simp add: numbered_def newRow_def add.commute)
  then have each: "numbered (moves_of i (moves db @ [newRow gid m])) \<and>
      (if i = gid then FENAfter m else fn) = latest (moves_of i (moves db @ [newRow gid m]))"
    if "(i, fn) \<in> set (fst (core db))" for i fn
    using that assms(1) by (auto simp: moves_of_newRow shape_ok_def core_def latest_def)
  have keyset: "fst ` set (map (\<lambda>(i, f). (i, if i = gid then FENAfter m else f)) (fst (core db))) = fst ` set (fst (core db))"
    using arg_cong [OF keys, of set] by (simp only: set_map)
  show "shape_ok (core db')"
    unfolding core'(1) shape_ok_def prod.case keys keyset
    using gs each inkeys by (auto simp: mirror_snoc newRow_def)
qed

lemma append_ok:
  assumes "db_ok db" and p: "pending_ok db gid pl" and a: "AppendMove up gid (pl_move pl) st er en now db = (Inr (), db')"
  shows "db_ok db'" and "moves_of gid (moves db') = moves_of gid (moves db) @ [newRow gid (pl_move pl)]"
    and "follows startBoard (moves_of gid (moves db')) (pl_after pl)"
    and "Ply (pl_move pl) = int (length (moves_of gid (moves db))) + 1"
proof -
  let ?ms = "moves_of gid (moves db)" and ?m = "pl_move pl"
  have ok: "shape_ok (core db)" "legal_game (moves_of i (moves db))" for i using assms(1) by (simp_all add: db_ok_iff)
  obtain n b where n: "n \<le> length ?ms" "follows startBoard (take n ?ms) b" "ApplyUCI b (UCI ?m) = Inr (pl_after pl)"
    "FENAfter ?m = FEN (pl_after pl)" "Ply ?m = int n + 1" using p by (auto simp: pending_ok_def)
  have "1 \<le> Ply ?m" "Ply ?m \<le> int (length ?ms) + 1" using n(1,5) by simp_all
  note app = append_shape [OF ok(1) this a]
  show "Ply ?m = int (length ?ms) + 1" by (rule app(3))
  then have f: "follows startBoard ?ms b" using n by simp
  show m: "moves_of gid (moves db') = ?ms @ [newRow gid ?m]" by (simp add: app(2) moves_of_newRow)
  show g: "follows startBoard (moves_of gid (moves db')) (pl_after pl)"
    unfolding m follows_append using f n(3,4) by (auto simp: newRow_def)
  have "legal_game (moves_of i (moves db'))" for i
    using g ok(2) [of i] by (cases "i = gid") (auto simp: legal_game_def app(2) moves_of_newRow)
  then show "db_ok db'" using app(1) by (simp add: db_ok_iff)
qed

section \<open>Operations that leave the record alone\<close>

lemma core_games:
  assumes "\<And>g. g_id (f g) = g_id g \<and> g_fen (f g) = g_fen g"
  shows "core (db\<lparr>games := update_where P f (games db)\<rparr>) = core db"
  using assms by (simp add: core_def update_where_def)

lemma core_other [simp]:
  "core (db\<lparr>users := us\<rparr>) = core db" "core (db\<lparr>tokens := ts\<rparr>) = core db"
  "core (db\<lparr>opening_ingested := oi\<rparr>) = core db" "core (db\<lparr>opening_moves := om\<rparr>) = core db"
  by (simp_all add: core_def)

lemma core_addElo [simp]: "core (addElo uid d db) = core db"
  by (simp add: addElo_def)

lemma core_EndGame [simp]: "core (snd (EndGame up gid st er now db)) = core db"
  by (simp add: EndGame_def core_games Let_def)

lemma core_JoinGame [simp]: "core (snd (Store_JoinGame up up' gid p db)) = core db"
  by (simp add: Store_JoinGame_def core_games Let_def)

lemma core_ApplyRatings [simp]: "core (snd (ApplyRatings up up' gid oc db)) = core db"
  by (auto simp: ApplyRatings_def core_games Let_def split: option.splits prod.splits)

lemma core_Ingest [simp]: "core (snd (IngestGameOpening up gid res fens ucis db)) = core db"
  by (simp add: IngestGameOpening_def Let_def)

lemma core_MarkPublished [simp]: "core (snd (MarkPublished up ids db)) = core db"
  by (auto simp: MarkPublished_def core_def update_where_def)

lemma core_CreateGuestUser [simp]: "core (snd (CreateGuestUser lower up nid now db)) = core db"
  by (simp add: CreateGuestUser_def Let_def)

lemma core_Register [simp]: "core (snd (Store_Register lower up up' nid now p db)) = core db"
  by (simp add: Store_Register_def upgradeGuest_def Let_def)

lemma core_NewLoginToken [simp]: "core (snd (NewLoginToken lower h up up' tok now em db)) = core db"
  by (auto simp: NewLoginToken_def split: sum.splits)

lemma core_Redeem [simp]: "core (snd (Store_RedeemLoginToken h up up' now tok db)) = core db"
  by (auto simp: Store_RedeemLoginToken_def Let_def split: option.splits)

lemma core_afterEnd [simp]: "core (fst (afterEnd srv env gid r db)) = core db"
  by (cases r) (auto simp: afterEnd_def applyRatings_def ingestOpening_def Let_def split: sum.splits)

text \<open>A new game has no moves and shows the starting position.\<close>

lemma create_moves: "moves (snd (Store_CreateGame up nid now p db)) = moves db"
  by (simp add: Store_CreateGame_def Let_def)

lemma create_shape:
  assumes "shape_ok (core db)" and "cp_StartFEN p = StartFEN"
  shows "shape_ok (core (snd (Store_CreateGame up nid now p db)))"
proof -
  let ?db = "snd (Store_CreateGame up nid now p db)"
  show "shape_ok (core ?db)"
  proof (cases "?db = db")
    case False
    then have new: "find_game db nid = None" and c: "core ?db = (fst (core db) @ [(nid, StartFEN)], snd (core db))"
      using assms(2) by (auto simp: Store_CreateGame_def Let_def core_def split: if_splits)
    have fresh: "nid \<notin> fst ` set (fst (core db))" using new by (auto simp: find_game_def find_None_iff core_def)
    have "moves_of nid (moves db) = []"
      by (rule no_moves [OF fresh]) (use assms(1) in \<open>cases "core db"; auto simp: shape_ok_def core_def\<close>)
    then have "numbered (moves_of nid (moves db)) \<and> StartFEN = latest (moves_of nid (moves db))" by (simp add: numbered_def latest_def)
    then show ?thesis using assms(1) fresh unfolding c by (cases "core db") (auto simp: shape_ok_def core_def)
  qed (use assms in simp)
qed

lemma create_ok:
  assumes "db_ok db" and "cp_StartFEN p = StartFEN"
  shows "db_ok (snd (Store_CreateGame up nid now p db))"
  using assms create_shape by (simp add: db_ok_iff create_moves)

section \<open>The service as a system of interleaved requests\<close>

text \<open>
  The steps are the statements that the database executes as a whole.  A move request reads the row of its
  game, then the moves, then writes; anything may happen in between.  \<open>sys\<close> is the database with what the
  running requests hold: a row that was read, with the number of moves the game had at that moment (a history
  variable), or a write that has been computed and not executed.  A handler that crashes or gives up drops
  what it holds.  The engine's reply is computed from the position of the move just written, without
  another reading.

  \<open>T\<close> is the set of the games of which a reading may be torn: a move of the game is stored between the two
  queries of a request that goes on to plan a move.  With \<open>UNIV\<close> every interleaving is a run.
\<close>

datatype Held = Row Game nat | Write Planned

type_synonym sys = "DB \<times> (string \<times> Held) list"

inductive sys_step :: "string set \<Rightarrow> sys \<Rightarrow> sys \<Rightarrow> bool" for T where
  st_create: "cp_StartFEN p = StartFEN \<Longrightarrow> sys_step T (db, ps) (snd (Store_CreateGame up nid now p db), ps)"
| st_row: "selectGame up gid db = Inr g \<Longrightarrow> sys_step T (db, ps) (db, (gid, Row g (length (gameMoves db gid))) # ps)"
| st_plan: "(gid, Row g n) \<in> set ps \<Longrightarrow> planMove g (gameMoves db gid) uci player = Inr pl \<Longrightarrow>
    n = length (gameMoves db gid) \<or> gid \<in> T \<Longrightarrow> sys_step T (db, ps) (db, (gid, Write pl) # remove1 (gid, Row g n) ps)"
| st_write: "appendPlanned up now gid pl db = (r, db') \<Longrightarrow> (gid, Write pl) \<in> set ps \<Longrightarrow>
    sys_step T (db, ps) (db', remove1 (gid, Write pl) ps)"
| st_write_reply: "appendPlanned up now gid pl db = (Inr (), db') \<Longrightarrow> (gid, Write pl) \<in> set ps \<Longrightarrow>
    planReply (pl_after pl) (pl_history pl) (Ply (pl_move pl) + 1) uci = Inr pl' \<Longrightarrow>
    sys_step T (db, ps) (db', (gid, Write pl') # remove1 (gid, Write pl) ps)"
| st_drop: "p \<in> set ps \<Longrightarrow> sys_step T (db, ps) (db, remove1 p ps)"
| st_other: "core db' = core db \<Longrightarrow> sys_step T (db, ps) (db', ps)"

inductive_cases sys_stepE: "sys_step T s s'"

text \<open>
  What a request holds, in any interleaving: the row showed a position of the game, and the write plays a
  move that is legal in one, under at most the next number.
\<close>

fun loosely :: "MoveRow list \<Rightarrow> string \<Rightarrow> Held \<Rightarrow> bool" where
  "loosely ms gid (Row g n) \<longleftrightarrow> Game_FEN g \<in> set (positions gid ms)"
| "loosely ms gid (Write pl) \<longleftrightarrow>
     (\<exists>f b. f \<in> set (positions gid ms) \<and> ParseFEN f = Inr b \<and> ApplyUCI b (UCI (pl_move pl)) = Inr (pl_after pl)) \<and>
     FENAfter (pl_move pl) = FEN (pl_after pl) \<and> 1 \<le> Ply (pl_move pl) \<and> Ply (pl_move pl) \<le> int (length (moves_of gid ms)) + 1"

text \<open>What it holds when no reading of the game is torn.\<close>

fun strictly :: "DB \<Rightarrow> string \<Rightarrow> Held \<Rightarrow> bool" where
  "strictly db gid (Row g n) \<longleftrightarrow> n \<le> length (moves_of gid (moves db)) \<and>
     (\<exists>b. follows startBoard (take n (moves_of gid (moves db))) b \<and> Game_FEN g = FEN b)"
| "strictly db gid (Write pl) \<longleftrightarrow> pending_ok db gid pl"

definition sys_ok :: "string set \<Rightarrow> sys \<Rightarrow> bool" where
  "sys_ok T s \<longleftrightarrow> shape_ok (core (fst s)) \<and>
     (\<forall>gid. branches [StartFEN] (moves_of gid (moves (fst s))) \<and> (\<forall>h. (gid, h) \<in> set (snd s) \<longrightarrow> loosely (moves (fst s)) gid h) \<and>
        (gid \<notin> T \<longrightarrow> legal_game (moves_of gid (moves (fst s))) \<and> (\<forall>h. (gid, h) \<in> set (snd s) \<longrightarrow> strictly (fst s) gid h)))"

lemma sys_ok_shape: "sys_ok T (db, ps) \<Longrightarrow> shape_ok (core db)"
  by (simp add: sys_ok_def)

text \<open>Both are stable when moves are added.\<close>

lemma pending_mono:
  assumes "pending_ok db gid pl" and "moves_of gid (moves db') = moves_of gid (moves db) @ xs"
  shows "pending_ok db' gid pl"
proof -
  obtain n b where n: "n \<le> length (moves_of gid (moves db))" "follows startBoard (take n (moves_of gid (moves db))) b"
    "ApplyUCI b (UCI (pl_move pl)) = Inr (pl_after pl)" "FENAfter (pl_move pl) = FEN (pl_after pl)" "Ply (pl_move pl) = int n + 1"
    using assms(1) by (auto simp: pending_ok_def)
  then have "n \<le> length (moves_of gid (moves db'))" "follows startBoard (take n (moves_of gid (moves db'))) b"
    unfolding assms(2) by auto
  then show ?thesis unfolding pending_ok_def using n by blast
qed

lemma loosely_mono: "loosely ms gid h \<Longrightarrow> moves_of gid ms' = moves_of gid ms @ xs \<Longrightarrow> loosely ms' gid h"
  by (cases h) (auto simp: positions_def)

lemma strictly_mono:
  assumes "strictly db gid h" and "moves_of gid (moves db') = moves_of gid (moves db) @ xs"
  shows "strictly db' gid h"
  using assms pending_mono [of db gid _ db' xs] by (cases h) auto

text \<open>
  A step on one game: the tables keep their shape and every game its moves, the game may get more, and what
  is held afterwards was held before or is sound.
\<close>

lemma sys_ok_move:
  assumes "sys_ok T (db, ps)" and "shape_ok (core db')" and "\<And>i. moves_of i (moves db') = moves_of i (moves db) @ (if i = gid then xs else [])"
    and "branches [StartFEN] (moves_of gid (moves db'))" and "gid \<notin> T \<Longrightarrow> legal_game (moves_of gid (moves db'))"
    and "\<And>i h. (i, h) \<in> set ps' \<Longrightarrow> (i, h) \<in> set ps \<or> i = gid \<and> loosely (moves db') gid h \<and> (gid \<notin> T \<longrightarrow> strictly db' gid h)"
  shows "sys_ok T (db', ps')"
  unfolding sys_ok_def fst_conv snd_conv
proof (intro conjI allI impI assms(2))
  note old = assms(1) [unfolded sys_ok_def fst_conv snd_conv]
  fix i
  show "branches [StartFEN] (moves_of i (moves db'))" using old assms(3,4) by (cases "i = gid") simp_all
  show "legal_game (moves_of i (moves db'))" if "i \<notin> T" using old assms(3,5) that by (cases "i = gid") simp_all
  fix h
  assume h: "(i, h) \<in> set ps'"
  show "loosely (moves db') i h" using assms(6) [OF h] old loosely_mono [OF _ assms(3) [of i]] by blast
  show "strictly db' i h" if "i \<notin> T" using assms(6) [OF h] old strictly_mono [OF _ assms(3) [of i]] that by blast
qed

lemma sys_ok_keep:
  assumes "sys_ok T (db, ps)" and "shape_ok (core db')" and "moves db' = moves db" and "set ps' \<subseteq> set ps"
  shows "sys_ok T (db', ps')"
  using assms(1) by (rule sys_ok_move [where gid = undefined and xs = "[]"]) (use assms in \<open>auto simp: sys_ok_def\<close>)

lemma sys_ok_hold:
  assumes "sys_ok T (db, ps)" and "loosely (moves db) gid h" and "gid \<notin> T \<Longrightarrow> strictly db gid h" and "set ps' \<subseteq> set ps"
  shows "sys_ok T (db, (gid, h) # ps')"
  using assms(1) by (rule sys_ok_move [where gid = gid and xs = "[]"]) (use assms in \<open>auto simp: sys_ok_def\<close>)

lemma planned_parts:
  assumes "planMove g ms uci player = Inr pl"
  obtains b where "ParseFEN (Game_FEN g) = Inr b" and "ApplyUCI b uci = Inr (pl_after pl)"
    and "pl_move pl = \<lparr>Ply = int (length ms) + 1, UCI = uci, FENAfter = FEN (pl_after pl)\<rparr>"
  using assms by (auto simp: planMove_def Let_def split: if_splits option.splits sum.splits prod.splits)

lemma reply_parts:
  assumes "planReply board hist ply uci = Inr pl"
  shows "ApplyUCI board uci = Inr (pl_after pl)" and "pl_move pl = \<lparr>Ply = ply, UCI = uci, FENAfter = FEN (pl_after pl)\<rparr>"
  using assms by (auto simp: planReply_def Let_def split: sum.splits prod.splits)

lemma planMove_pending:
  assumes "db_ok db" and "Store_GetGame up gid db = Inr (g, ms)" and "planMove g ms uci player = Inr pl"
    and "length (moves db) < 2 ^ 62"
  shows "pending_ok db gid pl" and "ID g = gid"
proof -
  obtain row b where r: "ID g = gid" "length ms = length (moves_of gid (moves db))"
    "follows startBoard (moves_of gid (moves db)) b" "Game_FEN g = FEN b"
    by (rule GetGame_record [OF assms(1,2)])
  show "ID g = gid" by (rule r(1))
  have parse: "ParseFEN (Game_FEN g) = Inr b" using follows_parse [OF r(3)] moves_of_le [of gid "moves db"] assms(4) r(4) by simp
  obtain b' where "ParseFEN (Game_FEN g) = Inr b'" "ApplyUCI b' uci = Inr (pl_after pl)"
    "pl_move pl = \<lparr>Ply = int (length ms) + 1, UCI = uci, FENAfter = FEN (pl_after pl)\<rparr>" by (rule planned_parts [OF assms(3)])
  then show "pending_ok db gid pl" unfolding pending_ok_def using r(2,3) parse
    by (intro exI [of _ "length (moves_of gid (moves db))"] exI [of _ b]) simp
qed

lemma planReply_pending:
  assumes "planReply board hist ply uci = Inr pl" and "follows startBoard (moves_of gid (moves db)) board"
    and "ply = int (length (moves_of gid (moves db))) + 1"
  shows "pending_ok db gid pl"
  unfolding pending_ok_def using assms(2,3) reply_parts [OF assms(1)]
  by (intro exI [of _ "length (moves_of gid (moves db))"] exI [of _ board]) simp

lemma append_fails: "appendPlanned up now gid pl db = (Inl e, db') \<Longrightarrow> db' = db"
  by (auto simp: appendPlanned_def AppendMove_def split: if_splits)

lemma core_moves: "core db' = core db \<Longrightarrow> moves db' = moves db"
  by (simp add: core_def)

text \<open>A write that succeeds, in any interleaving.\<close>

lemma write_ok:
  assumes ok: "sys_ok T (db, ps)" and h: "(gid, Write pl) \<in> set ps" and a: "appendPlanned up now gid pl db = (Inr (), db')"
  shows "shape_ok (core db')" and "moves_of i (moves db') = moves_of i (moves db) @ (if i = gid then [newRow gid (pl_move pl)] else [])"
    and "branches [StartFEN] (moves_of gid (moves db'))" and "gid \<notin> T \<Longrightarrow> follows startBoard (moves_of gid (moves db')) (pl_after pl)"
    and "Ply (pl_move pl) = int (length (moves_of gid (moves db))) + 1"
proof -
  note ok = ok [unfolded sys_ok_def fst_conv snd_conv]
  have l: "loosely (moves db) gid (Write pl)" using ok h by blast
  then obtain f b where f: "f \<in> set (positions gid (moves db))" "ParseFEN f = Inr b" "ApplyUCI b (UCI (pl_move pl)) = Inr (pl_after pl)"
    and m: "FENAfter (pl_move pl) = FEN (pl_after pl)" "1 \<le> Ply (pl_move pl)" "Ply (pl_move pl) \<le> int (length (moves_of gid (moves db))) + 1"
    by auto
  note app = append_shape [OF conjunct1 [OF ok] m(2,3) a [unfolded appendPlanned_def]]
  show "shape_ok (core db')" "Ply (pl_move pl) = int (length (moves_of gid (moves db))) + 1" by (fact app)+
  show eq: "moves_of i (moves db') = moves_of i (moves db) @ (if i = gid then [newRow gid (pl_move pl)] else [])" for i
    by (simp add: app(2) moves_of_newRow)
  have "plays (newRow gid (pl_move pl)) f" using f(2,3) m(1) by (simp add: plays_def newRow_def)
  then show "branches [StartFEN] (moves_of gid (moves db'))"
    using ok f(1) unfolding eq by (auto simp: branches_append positions_def list_ex_iff)
  assume "gid \<notin> T"
  then have "strictly db gid (Write pl)" using ok h by blast
  then have p: "pending_ok db gid pl" by simp
  obtain n c where n: "n \<le> length (moves_of gid (moves db))" "follows startBoard (take n (moves_of gid (moves db))) c"
    "ApplyUCI c (UCI (pl_move pl)) = Inr (pl_after pl)" "Ply (pl_move pl) = int n + 1" using p by (auto simp: pending_ok_def)
  then show "follows startBoard (moves_of gid (moves db')) (pl_after pl)"
    using app(3) m(1) unfolding eq follows_append by (auto simp: newRow_def)
qed

lemma reply_held:
  assumes ok: "sys_ok T (db, ps)" and h: "(gid, Write pl) \<in> set ps" and a: "appendPlanned up now gid pl db = (Inr (), db')"
    and r: "planReply (pl_after pl) hist (Ply (pl_move pl) + 1) uci = Inr pl'" and short: "length (moves db') < 2 ^ 62"
  shows "loosely (moves db') gid (Write pl')" and "gid \<notin> T \<Longrightarrow> strictly db' gid (Write pl')"
proof -
  note w = write_ok [OF ok h a] and p = reply_parts [OF r]
  have eq: "moves_of gid (moves db') = moves_of gid (moves db) @ [newRow gid (pl_move pl)]" using w(2) [of gid] by simp
  have le: "length (moves_of gid (moves db')) < 2 ^ 62" using moves_of_le [of gid "moves db'"] short by simp
  obtain f b where f: "f \<in> set (positions gid (moves db))" "ParseFEN f = Inr b" "ApplyUCI b (UCI (pl_move pl)) = Inr (pl_after pl)"
    and m: "FENAfter (pl_move pl) = FEN (pl_after pl)"
    using ok h unfolding sys_ok_def fst_conv snd_conv by fastforce
  have br: "branches [StartFEN] (moves_of gid (moves db))" using ok by (simp add: sys_ok_def)
  obtain b' k where k: "k \<le> length (moves_of gid (moves db))" "reachable k b'" "ParseFEN f = Inr b'"
    by (rule position_parses [OF br _ f(1)]) (use le eq in auto)
  have "reachable (Suc k) (pl_after pl)" using reachable.step [OF k(2)] f(2,3) k(3) by simp
  then have "ParseFEN (FEN (pl_after pl)) = Inr (pl_after pl)"
    using ParseFEN_FEN reachable_fen_ok [of "Suc k" "pl_after pl"] k(1) le eq by simp
  moreover have "FEN (pl_after pl) \<in> set (positions gid (moves db'))" by (simp add: positions_def eq newRow_def m)
  ultimately show "loosely (moves db') gid (Write pl')" using p w(5) by (auto simp: eq)
  show "gid \<notin> T \<Longrightarrow> strictly db' gid (Write pl')" using planReply_pending [OF r w(4)] w(5) by (simp add: eq)
qed

lemma row_held:
  assumes ok: "sys_ok T (db, ps)" and "selectGame up gid db = Inr g"
  shows "loosely (moves db) gid (Row g n)" and "gid \<notin> T \<Longrightarrow> strictly db gid (Row g (length (gameMoves db gid)))"
proof -
  obtain row where row: "find_game db gid = Some row" "g = rowToGame row"
    using assms(2) by (auto simp: selectGame_def split: if_splits option.splits)
  have shape: "shape_ok (core db)" using ok by (simp add: sys_ok_def)
  have fen: "Game_FEN g = latest (moves_of gid (moves db))" using find_game_shape(2) [OF shape row(1)] row(2) by (simp add: rowToGame_def)
  then show "loosely (moves db) gid (Row g n)" by (auto simp: positions_def latest_def)
  assume "gid \<notin> T"
  then obtain b where "follows startBoard (moves_of gid (moves db)) b" using ok by (auto simp: sys_ok_def legal_game_def)
  moreover from this have "FEN b = latest (moves_of gid (moves db))" by (rule follows_start)
  ultimately show "strictly db gid (Row g (length (gameMoves db gid)))" using fen by (auto simp: gameMoves_length)
qed

lemma plan_held:
  assumes ok: "sys_ok T (db, ps)" and h: "(gid, Row g n) \<in> set ps" and p: "planMove g (gameMoves db gid) uci player = Inr pl"
    and whole: "n = length (gameMoves db gid) \<or> gid \<in> T" and short: "length (moves db) < 2 ^ 62"
  shows "loosely (moves db) gid (Write pl)" and "gid \<notin> T \<Longrightarrow> strictly db gid (Write pl)"
proof -
  obtain b where b: "ParseFEN (Game_FEN g) = Inr b" "ApplyUCI b uci = Inr (pl_after pl)"
    "pl_move pl = \<lparr>Ply = int (length (gameMoves db gid)) + 1, UCI = uci, FENAfter = FEN (pl_after pl)\<rparr>" by (rule planned_parts [OF p])
  have "Game_FEN g \<in> set (positions gid (moves db))" using ok h unfolding sys_ok_def fst_conv snd_conv by (metis loosely.simps(1))
  then show "loosely (moves db) gid (Write pl)" using b by (auto simp: gameMoves_length)
  assume "gid \<notin> T"
  then have "strictly db gid (Row g n)" using ok h unfolding sys_ok_def fst_conv snd_conv by blast
  moreover have "n = length (moves_of gid (moves db))" using whole \<open>gid \<notin> T\<close> by (auto simp: gameMoves_length)
  ultimately have "strictly db gid (Row g (length (moves_of gid (moves db))))" by simp
  then obtain b' where b': "follows startBoard (moves_of gid (moves db)) b'" "Game_FEN g = FEN b'" by auto
  have "b' = b" using follows_parse [OF b'(1)] moves_of_le [of gid "moves db"] short b(1) b'(2) by simp
  then show "strictly db gid (Write pl)" unfolding strictly.simps pending_ok_def using b b'(1)
    by (intro exI [of _ "length (moves_of gid (moves db))"] exI [of _ b]) (simp add: gameMoves_length)
qed

lemma sys_ok_step:
  assumes "sys_step T s s'" and "sys_ok T s" and "length (moves (fst s')) < 2 ^ 62"
  shows "sys_ok T s'"
  using assms
proof (induction rule: sys_step.induct)
  case (st_create p db ps up nid now)
  then have "shape_ok (core (snd (Store_CreateGame up nid now p db)))" using create_shape by (simp add: sys_ok_def)
  then show ?case by (rule sys_ok_keep [OF st_create.prems(1)]) (simp_all add: create_moves)
next
  case (st_row up gid db g ps)
  show ?case using row_held [OF st_row.prems(1) st_row.hyps] by (intro sys_ok_hold [OF st_row.prems(1)]) auto
next
  case (st_plan gid g n ps db uci player pl)
  have "length (moves db) < 2 ^ 62" using st_plan.prems by simp
  note held = plan_held [OF st_plan.prems(1) st_plan.hyps this]
  show ?case by (rule sys_ok_hold [OF st_plan.prems(1) held set_remove1_subset])
next
  case (st_write up now gid pl db r db' ps)
  have sub: "set (remove1 (gid, Write pl) ps) \<subseteq> set ps" by (rule set_remove1_subset)
  show ?case
  proof (cases r)
    case (Inl e)
    then have "db' = db" using append_fails st_write.hyps(1) by simp
    then show ?thesis using sys_ok_keep [OF st_write.prems(1) _ _ sub, of db] sys_ok_shape [OF st_write.prems(1)] by simp
  next
    case (Inr u)
    then have a: "appendPlanned up now gid pl db = (Inr (), db')" using st_write.hyps(1) by simp
    note w = write_ok [OF st_write.prems(1) st_write.hyps(2) a]
    show ?thesis by (rule sys_ok_move [OF st_write.prems(1) w(1,2,3)]) (use w(4) sub in \<open>auto simp: legal_game_def\<close>)
  qed
next
  case (st_write_reply up now gid pl db db' ps uci pl')
  note w = write_ok [OF st_write_reply.prems(1) st_write_reply.hyps(2,1)]
  have short: "length (moves db') < 2 ^ 62" using st_write_reply.prems(2) by simp
  note h = reply_held [OF st_write_reply.prems(1) st_write_reply.hyps(2,1,3) short]
  have sub: "set (remove1 (gid, Write pl) ps) \<subseteq> set ps" by (rule set_remove1_subset)
  have held: "(i, x) \<in> set ps \<or> i = gid \<and> loosely (moves db') gid x \<and> (gid \<notin> T \<longrightarrow> strictly db' gid x)"
    if "(i, x) \<in> set ((gid, Write pl') # remove1 (gid, Write pl) ps)" for i x
    using that h sub by (metis prod.inject set_ConsD subsetD)
  show ?case by (rule sys_ok_move [OF st_write_reply.prems(1) w(1,2,3) _ held]) (use w(4) in \<open>auto simp: legal_game_def\<close>)
next
  case (st_drop p ps db)
  show ?case by (rule sys_ok_keep [OF st_drop.prems(1) sys_ok_shape [OF st_drop.prems(1)] refl set_remove1_subset])
next
  case (st_other db' db ps)
  have "shape_ok (core db')" using sys_ok_shape [OF st_other.prems(1)] st_other.hyps by simp
  then show ?case using sys_ok_keep [OF st_other.prems(1) _ core_moves [OF st_other.hyps] subset_refl] by blast
qed

section \<open>Reachable states\<close>

inductive sys_reach :: "string set \<Rightarrow> sys \<Rightarrow> bool" for T where
  sr_init: "core db = ([], [], []) \<Longrightarrow> sys_reach T (db, [])"
| sr_step: "sys_reach T s \<Longrightarrow> sys_step T s s' \<Longrightarrow> sys_reach T s'"

lemma sys_step_moves: "sys_step T s s' \<Longrightarrow> length (moves (fst s)) \<le> length (moves (fst s'))"
proof (induction rule: sys_step.induct)
  case (st_other db' db ps)
  then show ?case using core_moves [of db' db] by simp
qed (auto simp: create_moves appendPlanned_def AppendMove_def split: if_splits)

lemma sys_ok_init: "core db = ([], [], []) \<Longrightarrow> sys_ok T (db, [])"
  by (simp add: sys_ok_def shape_ok_def mirror_def core_def moves_of_def)

lemma sys_reach_ok: "sys_reach T s \<Longrightarrow> length (moves (fst s)) < 2 ^ 62 \<Longrightarrow> sys_ok T s"
proof (induction rule: sys_reach.induct)
  case (sr_step s s')
  then show ?case using sys_ok_step [of T s s'] sys_step_moves [of T s s'] by simp
qed (rule sys_ok_init)

lemma sys_reach_steps: "(sys_step T)\<^sup>*\<^sup>* s s' \<Longrightarrow> sys_reach T s \<Longrightarrow> sys_reach T s'"
  by (induction rule: rtranclp_induct) (auto intro: sys_reach.sr_step)

text \<open>Without torn readings every game is legal.\<close>

lemma whole_ok: "sys_ok {} (db, ps) \<Longrightarrow> db_ok db"
  by (simp add: sys_ok_def db_ok_iff)

text \<open>Each handler that writes is a run of such steps, whatever other requests have pending.\<close>

lemma step_core: "core db' = core db \<Longrightarrow> (sys_step T)\<^sup>*\<^sup>* (db, ps) (db', ps)"
  by (auto intro: sys_step.st_other)

lemma get_parts:
  "Store_GetGame up gid db = Inr (g, ms) \<Longrightarrow> selectGame up gid db = Inr g \<and> ms = gameMoves db gid"
  by (auto simp: Store_GetGame_def split: sum.splits)

text \<open>An undisturbed reading, and the planning.\<close>

lemma plan_steps:
  assumes "Store_GetGame up gid db = Inr (g, ms)" and "planMove g ms uci p = Inr pl"
  shows "(sys_step T)\<^sup>*\<^sup>* (db, ps) (db, (gid, Write pl) # ps)"
proof -
  have g: "selectGame up gid db = Inr g" "ms = gameMoves db gid" using get_parts [OF assms(1)] by auto
  let ?row = "Row g (length (gameMoves db gid))"
  have "sys_step T (db, ps) (db, (gid, ?row) # ps)" by (rule sys_step.st_row [OF g(1)])
  moreover have "sys_step T (db, (gid, ?row) # ps) (db, (gid, Write pl) # ps)"
    using sys_step.st_plan [of gid g "length (gameMoves db gid)" "(gid, ?row) # ps" db uci p pl T] assms(2) g(2) by simp
  ultimately show ?thesis by (meson converse_rtranclp_into_rtranclp r_into_rtranclp)
qed

lemma write_steps:
  assumes "Store_GetGame up gid db = Inr (g, ms)" and "planMove g ms uci p = Inr pl" and "appendPlanned up' now gid pl db = (r, db')"
  shows "(sys_step T)\<^sup>*\<^sup>* (db, ps) (db', ps)"
  using plan_steps [OF assms(1,2), of T ps] sys_step.st_write [OF assms(3), of "(gid, Write pl) # ps" T]
  by (auto intro: rtranclp.rtrancl_into_rtrancl)

lemma reply_steps:
  assumes "Store_GetGame up gid db = Inr (g, ms)" and "planMove g ms uci p = Inr pl" and "appendPlanned up' now gid pl db = (Inr (), db1)"
    and "planReply (pl_after pl) (pl_history pl) (Ply (pl_move pl) + 1) uci' = Inr pl'" and "appendPlanned up'' now gid pl' db1 = (r, db')"
  shows "(sys_step T)\<^sup>*\<^sup>* (db, ps) (db', ps)"
proof -
  have "sys_step T (db, (gid, Write pl) # ps) (db1, (gid, Write pl') # ps)"
    using sys_step.st_write_reply [OF assms(3) _ assms(4), of "(gid, Write pl) # ps" T] by simp
  moreover have "sys_step T (db1, (gid, Write pl') # ps) (db', ps)"
    using sys_step.st_write [OF assms(5), of "(gid, Write pl') # ps" T] by simp
  ultimately show ?thesis using plan_steps [OF assms(1,2), of T ps] by (meson rtranclp.rtrancl_into_rtrancl)
qed

lemma GetGame_ID: "Store_GetGame up gid db = Inr (g, ms) \<Longrightarrow> ID g = gid"
  using find_game_in by (auto simp: Store_GetGame_eq rowToGame_def split: if_splits option.splits)

lemma SubmitMove_steps: "(sys_step T)\<^sup>*\<^sup>* (db, ps) (fst (snd (SubmitMove srv env gid uci p db)), ps)"
proof (cases "gid = '''' \<or> uci = ''''")
  case False
  show ?thesis
  proof (cases "Store_GetGame (env_up env 0) gid db")
    case (Inl e)
    then show ?thesis using False by (cases e) (auto simp: SubmitMove_def)
  next
    case (Inr gm)
    obtain g ms where gm: "gm = (g, ms)" by fastforce
    note get = Inr [unfolded gm] and ident = GetGame_ID [OF Inr [unfolded gm]]
    show ?thesis
    proof (cases "planMove g ms uci p")
      case (Inr pl)
      obtain r db1 where a: "appendPlanned (env_up env 1) (env_now env) gid pl db = (r, db1)" by fastforce
      note w = write_steps [OF get Inr a, of T ps]
      have reply: "(sys_step T)\<^sup>*\<^sup>* (db, ps) (snd (playEngineReply env g (pl_after pl) (pl_history pl) (Ply (pl_move pl) + 1) db1), ps)"
        if "r = Inr ()"
      proof (cases "env_engine env (FEN (pl_after pl)) (EngineDepth g)")
        case (Inr u)
        show ?thesis
        proof (cases "planReply (pl_after pl) (pl_history pl) (Ply (pl_move pl) + 1) u")
          case (Inr pl')
          obtain r2 db2 where "appendPlanned (env_up env 11) (env_now env) gid pl' db1 = (r2, db2)" by fastforce
          then show ?thesis using reply_steps [OF get \<open>planMove g ms uci p = Inr pl\<close> a [unfolded that] Inr, of "env_up env 11" r2 db2 T ps]
            \<open>env_engine env _ _ = Inr u\<close> Inr by (cases r2) (simp_all add: playEngineReply_def ident)
        qed (use w \<open>env_engine env _ _ = Inr u\<close> in \<open>simp add: playEngineReply_def\<close>)
      qed (use w in \<open>simp add: playEngineReply_def\<close>)
      have aft: "(sys_step T)\<^sup>*\<^sup>* (db1, ps) (fst (afterEnd srv env gid (pl_result pl) db1), ps)" by (rule step_core) simp
      show ?thesis using False get Inr a ident w reply rtranclp_trans [OF w aft]
        by (auto simp: SubmitMove_def Let_def split: sum.splits prod.splits option.splits)
    qed (use False get in \<open>simp add: SubmitMove_def\<close>)
  qed
qed (auto simp: SubmitMove_def)

lemma core_EndGame_eq: "EndGame up i st er now db = (r, db1) \<Longrightarrow> core db1 = core db"
  using core_EndGame [of up i st er now db] by simp

lemma core_afterEnd_eq: "afterEnd srv env i w db1 = (db2, fx) \<Longrightarrow> core db2 = core db1"
  using core_afterEnd [of srv env i w db1] by simp

lemma core_resignAs [simp]: "core (fst (snd (resignAs srv env g p w db))) = core db"
proof -
  obtain r db1 where e: "EndGame (env_up env 1) (ID g) (resultToDB w) ''RESIGNATION'' (env_now env) db = (r, db1)" by fastforce
  obtain db2 fx where a: "afterEnd srv env (ID g) w db1 = (db2, fx)" by fastforce
  show ?thesis unfolding resignAs_def e using core_EndGame_eq [OF e] core_afterEnd_eq [OF a]
    by (cases r) (auto simp: a Let_def split: StoreError.split)
qed

lemma core_Resign [simp]: "core (fst (snd (Resign srv env gid p db))) = core db"
  by (auto simp: Resign_def split: sum.splits StoreError.splits)

lemma core_Join [simp]: "core (fst (snd (JoinGame srv env gid p db))) = core db"
proof -
  have "core db1 = core db" if "Store_JoinGame up up' i q db = (r, db1)" for up up' i q r db1
    using core_JoinGame [of up up' i q db] that by simp
  then show ?thesis by (auto simp: JoinGame_def Let_def split: sum.splits prod.splits StoreError.splits)
qed

lemma createFor_step: "sys_step T (db, ps) (fst (snd (createFor srv env req w db)), ps)"
proof -
  obtain r db' where c: "Store_CreateGame (env_up env 1) (env_newGame env) (env_now env)
     \<lparr>cp_WhiteID = w, cp_BlackID = cr_BlackId req, cp_VsEngine = cr_VsEngine req,
      cp_EngineDepth = cr_EngineDepth req, cp_StartFEN = StartFEN, cp_Rated = cr_Rated req,
      cp_InitialMs = cr_InitialMs req, cp_IncrementMs = cr_IncrementMs req\<rparr> db = (r, db')" (is "Store_CreateGame _ _ _ ?p _ = _")
    by fastforce
  have "sys_step T (db, ps) (db', ps)"
    using sys_step.st_create [of ?p T db ps "env_up env 1" "env_newGame env" "env_now env"] by (simp only: c) simp
  moreover have "fst (snd (createFor srv env req w db)) = db'"
    unfolding createFor_def c by (cases r) (simp_all add: Let_def)
  ultimately show ?thesis by simp
qed

lemma CreateGame_steps: "(sys_step T)\<^sup>*\<^sup>* (db, ps) (fst (snd (CreateGame srv env req db)), ps)"
proof -
  obtain r db1 where g: "CreateGuestUser (env_lower env) (env_up env 0) (env_newUser env) (env_now env) db = (r, db1)" by fastforce
  have "core db1 = core db" using core_CreateGuestUser [of "env_lower env" "env_up env 0" "env_newUser env" "env_now env" db] g by simp
  then have "sys_step T (db, ps) (db1, ps)" by (rule sys_step.st_other)
  then show ?thesis using createFor_step [of T _ ps srv env req] g
    by (auto simp: CreateGame_def split: sum.splits intro: converse_rtranclp_into_rtranclp [OF _ r_into_rtranclp])
qed

end
