(* ===== verification/Game_Play.thy ===== *)
theory Game_Play
  imports Game_Record
begin

text \<open>
  The properties of the game service: every reachable database records legal games, what an
  accepted move request did, that refused requests do nothing, that seats and results are settled
  once, and where two interleaved requests do not respect that.
\<close>

section \<open>Requests, one by one\<close>

lemma planMove_inv:
  assumes "planMove g ms uci p = Inr pl" and "ParseFEN (Game_FEN g) = Inr b"
  shows "Status g = ''IN_PROGRESS''" and "VsEngine g \<or> authorizeMover g (Turn b) p = None"
    and "ApplyUCI b uci = Inr (pl_after pl)"
    and "pl_move pl = \<lparr>Ply = int (length ms) + 1, UCI = uci, FENAfter = FEN (pl_after pl)\<rparr>"
    and "pl_history pl = buildHistory ms @ [FEN (pl_after pl)]"
    and "(pl_result pl, pl_reason pl) = OutcomeWithHistory (pl_after pl) (pl_history pl)"
  using assms by (auto simp: planMove_def Let_def split: if_splits option.splits sum.splits prod.splits)

lemma authorizeMover_None:
  "authorizeMover g t p = None \<longleftrightarrow> p \<noteq> '''' \<and> p = (if t = Black then BlackID g else WhiteID g)"
  by (auto simp: authorizeMover_def Let_def)

lemma appended:
  assumes "db_ok db" and "appendPlanned up now gid pl db = (Inr (), db')"
  shows "moves db' = moves db @ [newRow gid (pl_move pl)]"
  using AppendMove_core(1) [OF assms(2) [unfolded appendPlanned_def] assms(1)] by (simp add: core_def)

lemma moves_afterEnd [simp]: "moves (fst (afterEnd srv env gid r db)) = moves db"
  by (rule core_moves) simp

text \<open>The engine's reply adds at most one more move, legal where it is played.\<close>

lemma reply_moves:
  assumes "db_ok db" and "follows startBoard (moves_of gid (moves db)) b"
    and "playEngineReply env g b hist (int (length (moves_of gid (moves db))) + 1) db = (None, db')" and "ID g = gid"
  shows "db_ok db'" and "\<exists>m. moves db' = moves db @ [m] \<and> mv_game m = gid"
proof -
  obtain u pl where u: "planReply b hist (int (length (moves_of gid (moves db))) + 1) u = Inr pl"
    "appendPlanned (env_up env 11) (env_now env) gid pl db = (Inr (), db')"
    using assms(3,4) by (auto simp: playEngineReply_def split: sum.splits prod.splits)
  have "pending_ok db gid pl" using planReply_pending [OF u(1) assms(2)] by simp
  then show "db_ok db'" using append_ok(1) [OF assms(1) _ u(2) [unfolded appendPlanned_def]] by simp
  show "\<exists>m. moves db' = moves db @ [m] \<and> mv_game m = gid" using appended [OF assms(1) u(2)] by (simp add: newRow_def)
qed

text \<open>What an accepted request has been through.\<close>

lemma SubmitMove_inv:
  assumes "SubmitMove srv env gid uci p db = (Inr pg, db', fx)"
  obtains g ms pl db1 where "Store_GetGame (env_up env 0) gid db = Inr (g, ms)" and "planMove g ms uci p = Inr pl"
    and "appendPlanned (env_up env 1) (env_now env) gid pl db = (Inr (), db1)"
    and "pl_result pl \<noteq> InProgress \<and> db' = fst (afterEnd srv env gid (pl_result pl) db1)
       \<or> pl_result pl = InProgress \<and> \<not> VsEngine g \<and> db' = db1
       \<or> pl_result pl = InProgress \<and> VsEngine g \<and>
           playEngineReply env g (pl_after pl) (pl_history pl) (Ply (pl_move pl) + 1) db1 = (None, db')"
proof -
  obtain g ms where get: "Store_GetGame (env_up env 0) gid db = Inr (g, ms)"
    using assms by (auto simp: SubmitMove_def split: if_splits sum.splits StoreError.splits)
  obtain pl where pl: "planMove g ms uci p = Inr pl"
    using assms by (auto simp: SubmitMove_def get split: if_splits sum.splits)
  obtain r db1 where a: "appendPlanned (env_up env 1) (env_now env) gid pl db = (r, db1)" by fastforce
  have "r = Inr ()" using assms by (cases r) (auto simp: SubmitMove_def get pl a [unfolded One_nat_def] GetGame_ID [OF get] split: if_splits)
  moreover obtain db2 fx2 where e: "afterEnd srv env gid (pl_result pl) db1 = (db2, fx2)" by fastforce
  ultimately show ?thesis using that [OF get pl a [unfolded \<open>r = Inr ()\<close>]] assms
    by (auto simp: SubmitMove_def get pl a [unfolded One_nat_def] e GetGame_ID [OF get] Let_def split: if_splits prod.splits option.splits)
qed

lemma mirror_snd: "map snd (mirror ms) = map (\<lambda>m. (mv_game m, mv_ply m, mv_uci m, mv_fen_after m)) ms"
  by (rule nth_equalityI) (simp_all add: mirror_def nth_enumerate_eq)

lemma outbox_announces:
  assumes "shape_ok (core db)"
  shows "map (\<lambda>r. (ob_game r, ob_ply r, ob_uci r, ob_fen_after r)) (outbox db) =
      map (\<lambda>m. (mv_game m, mv_ply m, mv_uci m, mv_fen_after m)) (moves db)"
proof -
  have "map (\<lambda>r. (ob_id r, ob_game r, ob_ply r, ob_uci r, ob_fen_after r)) (outbox db) = mirror (moves db)"
    using assms by (simp add: shape_ok_def core_def)
  from arg_cong [OF this, of "map snd"] show ?thesis by (simp add: mirror_snd comp_def)
qed

section \<open>Properties\<close>

text \<open>A small database on which the properties are exercised: two players, and a game between them.\<close>

definition demoUser :: "string \<Rightarrow> UserRow" where
  "demoUser n = \<lparr>u_id = n, u_username = n, u_email = None, u_password_hash = None, u_elo = 1200, u_is_guest = True, u_created_at = 0\<rparr>"

definition demoUsers :: DB where
  "demoUsers = \<lparr>games = [], moves = [], outbox = [], users = [demoUser ''ann'', demoUser ''bob''], tokens = [],
     opening_moves = [], opening_ingested = []\<rparr>"

definition demoParams :: CreateGameParams where
  "demoParams = \<lparr>cp_WhiteID = ''ann'', cp_BlackID = ''bob'', cp_VsEngine = False, cp_EngineDepth = 0, cp_StartFEN = StartFEN,
     cp_Rated = True, cp_InitialMs = 60000, cp_IncrementMs = 0\<rparr>"

definition demoRow :: GameRow where
  "demoRow = \<lparr>g_id = ''g1'', g_white = ''ann'', g_black = Some ''bob'', g_status = ''IN_PROGRESS'', g_end_reason = None,
     g_fen = StartFEN, g_engine_depth = 0, g_vs_engine = False, g_rated = True, g_initial_ms = 60000, g_increment_ms = 0,
     g_started_at = 5, g_ended_at = None, g_white_elo_before = None, g_black_elo_before = None, g_white_elo_delta = None,
     g_black_elo_delta = None\<rparr>"

definition demoGame :: DB where
  "demoGame = demoUsers\<lparr>games := [demoRow]\<rparr>"

definition demoEnv :: Env where
  "demoEnv = \<lparr>env_up = (\<lambda>_. True), env_sessionOk = True, env_engine = (\<lambda>_ _. Inl ''no engine''), env_now = 9, env_newUser = ''u'',
     env_newGame = ''g2'', env_lower = (\<lambda>s. s), env_quote = (\<lambda>s. s), env_date = (\<lambda>_. '''')\<rparr>"

definition demoSrv :: Srv where
  "demoSrv = New_Server True True False 0"

lemma demo_create: "snd (Store_CreateGame True ''g1'' 5 demoParams demoUsers) = demoGame"
  by (simp add: Store_CreateGame_def demoParams_def demoUsers_def demoUser_def demoGame_def demoRow_def find_game_def has_user_def Let_def)

lemma demo_reach: "sys_reach T (demoGame, [])"
proof -
  have "sys_reach T (demoUsers, [])" by (rule sys_reach.sr_init) (simp add: demoUsers_def core_def)
  then show ?thesis using sys_reach.sr_step sys_step.st_create [of demoParams T demoUsers "[]" True "''g1''" 5] demo_create
    by (simp add: demoParams_def)
qed

lemma demo_get: "Store_GetGame up ''g1'' demoGame = (if up then Inr (rowToGame demoRow, []) else Inl DbErr)"
  by (simp add: Store_GetGame_eq find_game_def demoGame_def demoUsers_def demoRow_def gameMoves_def)

lemma demo_ok: "db_ok demoGame"
  by (rule whole_ok [OF sys_reach_ok [OF demo_reach]]) (simp add: demoGame_def demoUsers_def)

lemma reachable_record:
  assumes "sys_reach T (db, ps)" and "length (moves db) < 2 ^ 62" and "g \<in> set (games db)"
  shows "map mv_ply (moves_of (g_id g) (moves db)) = [1..int (length (moves_of (g_id g) (moves db)))]"
    and "branches [StartFEN] (moves_of (g_id g) (moves db))" and "g_fen g = latest (moves_of (g_id g) (moves db))"
    and "g_id g \<notin> T \<Longrightarrow> \<exists>b. follows startBoard (moves_of (g_id g) (moves db)) b \<and> g_fen g = FEN b"
    and "map (\<lambda>r. (ob_game r, ob_ply r, ob_uci r, ob_fen_after r)) (outbox db) =
      map (\<lambda>m. (mv_game m, mv_ply m, mv_uci m, mv_fen_after m)) (moves db)"
proof -
  have ok: "sys_ok T (db, ps)" by (rule sys_reach_ok [OF assms(1)]) (use assms(2) in simp)
  note shape = sys_ok_shape [OF ok]
  show "map mv_ply (moves_of (g_id g) (moves db)) = [1..int (length (moves_of (g_id g) (moves db)))]"
    and fen: "g_fen g = latest (moves_of (g_id g) (moves db))"
    using shape assms(3) by (auto simp: shape_ok_def core_def numbered_def)
  show "branches [StartFEN] (moves_of (g_id g) (moves db))" using ok by (simp add: sys_ok_def)
  show "\<exists>b. follows startBoard (moves_of (g_id g) (moves db)) b \<and> g_fen g = FEN b" if "g_id g \<notin> T"
  proof -
    have "legal_game (moves_of (g_id g) (moves db))" using ok that by (simp add: sys_ok_def)
    then obtain b where "follows startBoard (moves_of (g_id g) (moves db)) b" unfolding legal_game_def by blast
    moreover from this have "g_fen g = FEN b" by (simp add: fen follows_start)
    ultimately show ?thesis by blast
  qed
  show "map (\<lambda>r. (ob_game r, ob_ply r, ob_uci r, ob_fen_after r)) (outbox db) =
      map (\<lambda>m. (mv_game m, mv_ply m, mv_uci m, mv_fen_after m)) (moves db)" using shape by (rule outbox_announces)
qed

text \<open>
  C5. What the tables record under any interleaving of the statements of concurrent requests (creating and
  joining games, rows and moves read in two queries, moves written after other requests wrote, engine
  replies, resignations, crashes at any point).  The stored moves of each game are numbered from 1 without
  gaps; each is legal in the starting position or in one stored with an earlier move of the game, and is stored with the
  position it leads to; the game's row shows the position of the last one; and the outbox announces each
  stored move exactly once, in the order in which the moves were stored.  The moves are a legal game,
  each played in the position the previous one led to, for every game outside \<open>T\<close>: the games of which no
  move request read the row before, and the moves after, another move was stored.  (For a game in \<open>T\<close> this can
  fail: \<open>torn_reading_stores_an_illegal_move\<close>.)
\<close>

theorem reachable_games_are_legal:
  assumes "sys_reach T (db, ps)" and "length (moves db) < 2 ^ 62" and "g \<in> set (games db)"
  shows "map mv_ply (moves_of (g_id g) (moves db)) = [1..int (length (moves_of (g_id g) (moves db)))] \<and>
    branches [StartFEN] (moves_of (g_id g) (moves db)) \<and> g_fen g = latest (moves_of (g_id g) (moves db)) \<and>
    (g_id g \<notin> T \<longrightarrow> (\<exists>b. follows startBoard (moves_of (g_id g) (moves db)) b \<and> g_fen g = FEN b)) \<and>
    map (\<lambda>r. (ob_game r, ob_ply r, ob_uci r, ob_fen_after r)) (outbox db) =
      map (\<lambda>m. (mv_game m, mv_ply m, mv_uci m, mv_fen_after m)) (moves db)"
  using reachable_record [OF assms] by blast

theorem reachable_games_are_legal_witness:
  "\<exists>b. follows startBoard (moves_of ''g1'' (moves demoGame)) b \<and> g_fen demoRow = FEN b"
  using reachable_games_are_legal [OF demo_reach, of demoRow "{}"]
  by (simp add: demoGame_def demoUsers_def) (simp add: demoRow_def)

lemma handlers_reach:
  assumes "sys_reach T (db, ps)"
  shows "sys_reach T (fst (snd (CreateGame srv env req db)), ps)"
    and "sys_reach T (fst (snd (JoinGame srv env gid p db)), ps)"
    and "sys_reach T (fst (snd (SubmitMove srv env gid uci p db)), ps)"
    and "sys_reach T (fst (snd (Resign srv env gid p db)), ps)"
  using sys_reach_steps [OF CreateGame_steps assms] sys_reach_steps [OF SubmitMove_steps assms]
    sys_reach_steps [OF step_core [OF core_Join] assms] sys_reach_steps [OF step_core [OF core_Resign] assms] by blast+

text \<open>
  The states above are closed under the real handlers: from a reachable database, whatever
  writes of other requests are pending, creating a game, joining one, submitting a move (with the
  engine's reply when the opponent is the engine) and resigning lead to a reachable database, for
  every request, every behaviour of the engine and the session service, and every failure of a
  database call.
\<close>

theorem handlers_stay_reachable:
  assumes "sys_reach T (db, ps)"
  shows "sys_reach T (fst (snd (CreateGame srv env req db)), ps) \<and>
    sys_reach T (fst (snd (JoinGame srv env gid p db)), ps) \<and>
    sys_reach T (fst (snd (SubmitMove srv env gid uci p db)), ps) \<and>
    sys_reach T (fst (snd (Resign srv env gid p db)), ps)"
  using handlers_reach [OF assms] by blast

theorem handlers_stay_reachable_witness:
  "sys_reach T (fst (snd (SubmitMove demoSrv demoEnv ''g1'' ''e2e4'' ''ann'' demoGame)), [])"
  using handlers_stay_reachable [OF demo_reach] by blast

text \<open>The move row stored for a planned move.\<close>

lemma planned_row:
  assumes "db_ok db" and "length (moves db) < 2 ^ 62" and "Store_GetGame up gid db = Inr (g, ms)" and "planMove g ms uci p = Inr pl"
  obtains row b where "find_game db gid = Some row" and "g = rowToGame row" and "g_fen row = FEN b"
    and "follows startBoard (moves_of gid (moves db)) b" and "ParseFEN (Game_FEN g) = Inr b" and "length ms = length (moves_of gid (moves db))"
    and "newRow gid (pl_move pl) = \<lparr>mv_game = gid, mv_ply = int (length (moves_of gid (moves db))) + 1, mv_uci = uci, mv_fen_after = FEN (pl_after pl)\<rparr>"
proof -
  obtain row b where r: "find_game db gid = Some row" "g = rowToGame row" "ID g = gid" "length ms = length (moves_of gid (moves db))"
    "follows startBoard (moves_of gid (moves db)) b" "Game_FEN g = FEN b"
    by (rule GetGame_record [OF assms(1,3)])
  have "length (moves_of gid (moves db)) \<le> length (moves db)" by (simp add: moves_of_def)
  then have parse: "ParseFEN (Game_FEN g) = Inr b" using follows_parse [OF r(5)] assms(2) r(6) by simp
  then show ?thesis using that r planMove_inv(4) [OF assms(4) parse] by (simp add: newRow_def rowToGame_def)
qed


text \<open>The next number is free: the write cannot be refused for it.\<close>

lemma record_fresh:
  assumes "db_ok db" and "find_game db gid = Some row"
  shows "\<forall>r \<in> set (moves db). \<not> (mv_game r = gid \<and> mv_ply r = int (length (moves_of gid (moves db))) + 1)"
proof -
  have "map mv_ply (moves_of gid (moves db)) = [1..int (length (moves_of gid (moves db)))]"
    using find_game_record [OF assms] by (simp add: record_ok_def)
  then have "mv_ply ` set (moves_of gid (moves db)) = {1..int (length (moves_of gid (moves db)))}"
    by (metis list.set_map set_upto)
  then show ?thesis by (force simp: moves_of_def)
qed

lemma outbox_mirrors:
  assumes "db_ok db" and "r \<in> set (outbox db)"
  shows "\<exists>m \<in> set (moves db). mv_game m = ob_game r \<and> mv_ply m = ob_ply r"
proof -
  have "(ob_id r, ob_game r, ob_ply r, ob_uci r, ob_fen_after r) \<in> set (mirror (moves db))"
    using assms by (auto simp: core_ok_def core_def dest!: arg_cong [where f = set])
  then show ?thesis by (auto simp: mirror_def in_set_enumerate_eq)
qed

lemma append_succeeds:
  assumes "db_ok db" and "find_game db gid = Some row" and "Ply m = int (length (moves_of gid (moves db))) + 1"
  shows "\<exists>db'. AppendMove True gid m st er en now db = (Inr (), db')"
  using record_fresh [OF assms(1,2)] outbox_mirrors [OF assms(1)] assms(2,3)
  by (fastforce simp: AppendMove_def list_ex_iff)

lemma find_game_None: "find_game db gid = None \<longleftrightarrow> gid \<notin> fst ` set (fst (core db))"
  by (force simp: find_game_def find_None_iff core_def)

lemma find_game_core: "core db' = core db \<Longrightarrow> find_game db' gid = None \<longleftrightarrow> find_game db gid = None"
  by (simp add: find_game_None)

lemma append_find:
  assumes "appendPlanned up now gid pl db = (Inr (), db')" and "db_ok db"
  shows "find_game db' gid \<noteq> None"
proof -
  have "fst ` set (fst (core db')) = fst ` set (fst (core db))"
    unfolding AppendMove_core(1) [OF assms(1) [unfolded appendPlanned_def] assms(2)] by force
  then show ?thesis using AppendMove_core(2) [OF assms(1) [unfolded appendPlanned_def] assms(2)] by (simp add: find_game_None)
qed

lemma reloaded_found: "find_game db gid \<noteq> None \<Longrightarrow> env_up env 12 \<Longrightarrow> \<exists>pg. reloaded env gid db = Inr pg"
  by (auto simp: reloaded_def Store_GetGame_eq)

lemma planMove_legal:
  assumes "Status g = ''IN_PROGRESS''" and "ParseFEN (Game_FEN g) = Inr b" and "VsEngine g \<or> authorizeMover g (Turn b) p = None"
    and "ApplyUCI b uci = Inr b'"
  obtains pl where "planMove g ms uci p = Inr pl" and "pl_after pl = b'" and "Ply (pl_move pl) = int (length ms) + 1"
proof -
  have "(if VsEngine g then None else authorizeMover g (Turn b) p) = None" using assms(3) by auto
  then show ?thesis using that assms(1,2,4)
    by (cases "OutcomeWithHistory b' (buildHistory ms @ [FEN b'])") (simp add: planMove_def Let_def)
qed

lemma legal_move_accepted:
  assumes "db_ok db" and "length (moves db) < 2 ^ 62" and "find_game db gid = Some row" and "g_status row = ''IN_PROGRESS''"
    and "\<not> g_vs_engine row" and "follows startBoard (moves_of gid (moves db)) b" and "ApplyUCI b uci = Inr b'"
    and "p \<noteq> ''''" and "if Turn b = Black then g_black row = Some p else g_white row = p"
    and "gid \<noteq> ''''" and "uci \<noteq> ''''" and "\<forall>i. env_up env i"
  shows "\<exists>pg db' fx. SubmitMove srv env gid uci p db = (Inr pg, db', fx)"
proof -
  have up: "env_up env i" for i using assms(12) by blast
  have get: "Store_GetGame True gid db = Inr (rowToGame row, gameMoves db gid)"
    using assms(3) by (simp add: Store_GetGame_eq)
  obtain b1 where r: "length (gameMoves db gid) = length (moves_of gid (moves db))"
    "follows startBoard (moves_of gid (moves db)) b1" "Game_FEN (rowToGame row) = FEN b1" "ID (rowToGame row) = gid"
    by (rule GetGame_record [OF assms(1) get])
  have "b1 = b" using follows_unique [OF r(2) assms(6)] .
  have "length (moves_of gid (moves db)) \<le> length (moves db)" by (simp add: moves_of_def)
  then have parse: "ParseFEN (Game_FEN (rowToGame row)) = Inr b"
    using follows_parse [OF r(2)] assms(2) unfolding r(3) \<open>b1 = b\<close> by simp
  have auth: "authorizeMover (rowToGame row) (Turn b) p = None"
    using assms(8,9) unfolding authorizeMover_None by (auto simp: rowToGame_def split: if_splits)
  have status: "Status (rowToGame row) = ''IN_PROGRESS''" using assms(4) by (simp add: rowToGame_def)
  obtain pl where pl: "planMove (rowToGame row) (gameMoves db gid) uci p = Inr pl"
    "Ply (pl_move pl) = int (length (gameMoves db gid)) + 1"
    by (rule planMove_legal [OF status parse disjI2 [OF auth] assms(7)])
  obtain db1 where a: "appendPlanned True (env_now env) gid pl db = (Inr (), db1)"
    using append_succeeds [OF assms(1,3) pl(2) [unfolded r(1)], of "resultToDB (pl_result pl)" "reasonToDB (pl_reason pl)"
        "pl_result pl \<noteq> InProgress" "env_now env"] by (auto simp: appendPlanned_def)
  have found: "find_game db1 gid \<noteq> None" by (rule append_find [OF a assms(1)])
  obtain db2 fx2 where e: "afterEnd srv env gid (pl_result pl) db1 = (db2, fx2)" by fastforce
  have found2: "find_game db2 gid \<noteq> None" using find_game_core [OF core_afterEnd_eq [OF e]] found by simp
  have engine: "\<not> VsEngine (rowToGame row)" using assms(5) by (simp add: rowToGame_def)
  show ?thesis using reloaded_found [OF found up] reloaded_found [OF found2 up] engine assms(10,11)
    by (auto simp: SubmitMove_def up get pl a e r(4) Let_def)
qed

lemma demo_follows: "follows startBoard (moves_of ''g1'' (moves demoGame)) startBoard"
  by (simp add: moves_of_def demoGame_def demoUsers_def)

lemma demo_find: "find_game demoGame ''g1'' = Some demoRow"
  by (simp add: find_game_def demoGame_def demoUsers_def demoRow_def)

lemma demo_short: "length (moves demoGame) < 2 ^ 62"
  by (simp add: demoGame_def demoUsers_def)

lemma demo_accepted:
  obtains pg db' fx where "SubmitMove demoSrv demoEnv ''g1'' ''e2e4'' ''ann'' demoGame = (Inr pg, db', fx)"
  using legal_move_accepted [OF demo_ok demo_short demo_find _ _ demo_follows ApplyUCI_e2e4, of "''ann''" demoEnv demoSrv]
  by (auto simp: demoRow_def demoEnv_def startBoard_def)


lemma joined_found:
  assumes "list_ex (joinable gid p) (games db)"
  shows "find_game (db\<lparr>games := update_where (joinable gid p) (g_black_update (\<lambda>_. Some p)) (games db)\<rparr>) gid \<noteq> None"
  using assms by (auto simp: find_game_def find_None_iff update_where_def list_ex_iff joinable_def)

lemma refused:
  assumes "c \<in> {InvalidArgument, NotFound, FailedPrecondition, PermissionDenied}"
  shows "SubmitMove srv env gid uci p db = (Inl c, db', fx) \<Longrightarrow> db' = db \<and> fx = []"
    and "Resign srv env gid p db = (Inl c, db', fx) \<Longrightarrow> db' = db \<and> fx = []"
    and "JoinGame srv env gid p db = (Inl c, db', fx) \<Longrightarrow> db' = db \<and> fx = []"
proof -
  have 1: "c \<noteq> Internal" using assms by auto
  have 2: "reloaded env i d \<noteq> Inl c" for i d using 1 by (auto simp: reloaded_def split: sum.splits)
  have 3: "playEngineReply env g b h n d \<noteq> (Some c, d')" for g b h n d d'
    using 1 by (auto simp: playEngineReply_def planReply_def Let_def split: sum.splits prod.splits)
  have 4: "resignAs srv env g p w db = (Inl c, db', fx) \<Longrightarrow> db' = db \<and> fx = []" for g w
    using 1 2 by (auto simp: resignAs_def EndGame_def Let_def split: sum.splits prod.splits StoreError.splits if_splits)
  show "SubmitMove srv env gid uci p db = (Inl c, db', fx) \<Longrightarrow> db' = db \<and> fx = []"
    using 1 2 3 by (auto simp: SubmitMove_def Let_def split: if_splits sum.splits prod.splits option.splits StoreError.splits)
  show "Resign srv env gid p db = (Inl c, db', fx) \<Longrightarrow> db' = db \<and> fx = []"
    using 1 4 by (auto simp: Resign_def split: if_splits sum.splits StoreError.splits)
  show "JoinGame srv env gid p db = (Inl c, db', fx) \<Longrightarrow> db' = db \<and> fx = []"
    using 1 joined_found [of gid p db] by (auto simp: JoinGame_def Store_JoinGame_def Store_GetGame_eq Let_def split: if_splits sum.splits prod.splits StoreError.splits option.splits)
qed

text \<open>
  C23. A request that the service refuses, for a missing argument, an unknown game, a game that is
  over, a player who may not do it or an illegal move, leaves the database as it was and causes no
  effect outside it.
\<close>

theorem refusals_change_nothing:
  assumes "c \<in> {InvalidArgument, NotFound, FailedPrecondition, PermissionDenied}"
  shows "(SubmitMove srv env gid uci p db = (Inl c, db', fx) \<longrightarrow> db' = db \<and> fx = []) \<and>
    (Resign srv env gid p db = (Inl c, db', fx) \<longrightarrow> db' = db \<and> fx = []) \<and>
    (JoinGame srv env gid p db = (Inl c, db', fx) \<longrightarrow> db' = db \<and> fx = [])"
  using refused(1) [OF assms, of srv env gid uci p db db' fx] refused(2,3) [OF assms, of srv env gid p db db' fx] by blast

theorem refusals_change_nothing_witness:
  "Resign demoSrv demoEnv ''g1'' ''eve'' demoGame = (Inl PermissionDenied, demoGame, [])"
proof -
  have "fst (Resign demoSrv demoEnv ''g1'' ''eve'' demoGame) = Inl PermissionDenied"
    by (simp add: Resign_def demo_get demoEnv_def demoRow_def rowToGame_def)
  then obtain db' fx where "Resign demoSrv demoEnv ''g1'' ''eve'' demoGame = (Inl PermissionDenied, db', fx)"
    by (cases "Resign demoSrv demoEnv ''g1'' ''eve'' demoGame") auto
  then show ?thesis using refusals_change_nothing [of PermissionDenied demoSrv demoEnv "''g1''" _ "''eve''" demoGame db' fx] by simp
qed

lemma find_update_where:
  "(\<And>r. Q (f r) = Q r) \<Longrightarrow> find Q (update_where P f rows) = map_option (\<lambda>r. if P r then f r else r) (find Q rows)"
  by (induction rows) (auto simp: update_where_def)

lemma find_game_update:
  "(\<And>r. g_id (f r) = g_id r) \<Longrightarrow>
   find_game (db\<lparr>games := update_where P f (games db)\<rparr>) gid = map_option (\<lambda>r. if P r then f r else r) (find_game db gid)"
  by (simp add: find_game_def find_update_where)

lemma joined_row:
  assumes "distinct (map g_id (games db))" and "list_ex (joinable gid p) (games db)"
  obtains row where "find_game db gid = Some row" and "joinable gid p row"
proof -
  obtain row where row: "row \<in> set (games db)" "joinable gid p row" using assms(2) by (auto simp: list_ex_iff)
  moreover have "find_game db gid \<noteq> None" using row by (auto simp: find_game_def find_None_iff joinable_def)
  ultimately show ?thesis using that assms(1) find_game_in [of db gid]
    by (metis eq_key_imp_eq_value inj_onD joinable_def not_None_eq distinct_map)
qed

lemma joined_seat:
  assumes "distinct (map g_id (games db))" and "JoinGame srv env gid p db = (Inr pg, db', fx)"
  shows "\<exists>row. find_game db' gid = Some row \<and> g_black row = Some p \<and> p \<noteq> g_white row \<and> pg_BlackId pg = p"
    and "env_up env' 0 \<Longrightarrow> q \<noteq> '''' \<Longrightarrow> JoinGame srv' env' gid q db' = (Inl FailedPrecondition, db', [])"
proof -
  obtain g where j: "Store_JoinGame (env_up env 0) (env_up env 1) gid p db = (Inr g, db')" and "gid \<noteq> ''''"
    and pg: "pg_BlackId pg = BlackID g"
    using assms(2) by (auto simp: JoinGame_def Let_def toProtoGame_def split: if_splits sum.splits prod.splits StoreError.splits)
  then have ex: "list_ex (joinable gid p) (games db)"
    and db': "db' = db\<lparr>games := update_where (joinable gid p) (\<lambda>g. g\<lparr>g_black := Some p\<rparr>) (games db)\<rparr>"
    and g: "map_sum (\<lambda>e. e) fst (Store_GetGame (env_up env 1) gid db') = Inr g"
    by (auto simp: Store_JoinGame_def Let_def split: if_splits)
  obtain row where row: "find_game db gid = Some row" "joinable gid p row" by (rule joined_row [OF assms(1) ex])
  have f: "find_game db' gid = Some (row\<lparr>g_black := Some p\<rparr>)" unfolding db' using row by (simp add: find_game_update)
  then have "BlackID g = p" using g by (auto simp: Store_GetGame_eq rowToGame_def split: if_splits)
  then show "\<exists>row. find_game db' gid = Some row \<and> g_black row = Some p \<and> p \<noteq> g_white row \<and> pg_BlackId pg = p"
    using f row(2) pg by (auto simp: joinable_def)
  have ids: "map g_id (games db') = map g_id (games db)" by (simp add: db' update_where_def)
  have "\<not> joinable gid q r" if "r \<in> set (games db')" for r
  proof -
    have "g_id r = gid \<Longrightarrow> r = row\<lparr>g_black := Some p\<rparr>"
      using that find_game_in [OF f] assms(1) [folded ids] by (metis inj_onD distinct_map)
    then show ?thesis by (auto simp: joinable_def)
  qed
  then have "\<not> list_ex (joinable gid q) (games db')" by (auto simp: list_ex_iff)
  then show "env_up env' 0 \<Longrightarrow> q \<noteq> '''' \<Longrightarrow> JoinGame srv' env' gid q db' = (Inl FailedPrecondition, db', [])"
    using \<open>gid \<noteq> ''''\<close> by (simp add: JoinGame_def Store_JoinGame_def)
qed

text \<open>
  The second seat is taken once: after a successful join, when the game's identifier is
  unique, the joiner holds the black seat and every later attempt to join, by anyone, is refused
  and changes nothing.
\<close>

theorem JoinGame_settles_the_seat:
  assumes "distinct (map g_id (games db))" and "JoinGame srv env gid p db = (Inr pg, db', fx)"
  shows "(\<exists>row. find_game db' gid = Some row \<and> g_black row = Some p \<and> p \<noteq> g_white row \<and> pg_BlackId pg = p) \<and>
    (\<forall>srv' env' q. env_up env' 0 \<and> q \<noteq> [] \<longrightarrow> JoinGame srv' env' gid q db' = (Inl FailedPrecondition, db', []))"
  using joined_seat [OF assms] by blast

definition demoOpen :: DB where
  "demoOpen = demoUsers\<lparr>games := [demoRow\<lparr>g_black := None\<rparr>]\<rparr>"

theorem JoinGame_settles_the_seat_witness:
  "\<exists>pg db' fx. JoinGame demoSrv demoEnv ''g1'' ''bob'' demoOpen = (Inr pg, db', fx) \<and> pg_BlackId pg = ''bob'' \<and>
     JoinGame demoSrv demoEnv ''g1'' ''eve'' db' = (Inl FailedPrecondition, db', [])"
proof -
  have d: "distinct (map g_id (games demoOpen))" by (simp add: demoOpen_def demoUsers_def)
  have "\<exists>pg db' fx. JoinGame demoSrv demoEnv ''g1'' ''bob'' demoOpen = (Inr pg, db', fx)"
    by (simp add: JoinGame_def Store_JoinGame_def Store_GetGame_eq find_game_def demoOpen_def demoUsers_def demoUser_def demoRow_def
        demoEnv_def joinable_def has_user_def update_where_def rowToGame_def Let_def)
  then obtain pg db' fx where j: "JoinGame demoSrv demoEnv ''g1'' ''bob'' demoOpen = (Inr pg, db', fx)" by blast
  show ?thesis using j JoinGame_settles_the_seat [OF d j] by (auto simp: demoEnv_def)
qed

text \<open>
  A game that is over stays as it is: \<open>finished\<close> collects what the requests need to know of the row.
\<close>

definition finished :: "DB \<Rightarrow> string \<Rightarrow> bool" where
  "finished db gid \<longleftrightarrow> (\<exists>r \<in> set (games db). g_id r = gid) \<and>
     (\<forall>r \<in> set (games db). g_id r = gid \<longrightarrow> g_status r \<noteq> ''IN_PROGRESS'')"

lemma finished_found:
  assumes "finished db gid"
  obtains row where "find_game db gid = Some row" and "g_status row \<noteq> ''IN_PROGRESS''"
proof -
  have "find_game db gid \<noteq> None" using assms by (auto simp: finished_def find_game_def find_None_iff)
  then show ?thesis using that assms find_game_in [of db gid] by (auto simp: finished_def)
qed

lemma SubmitMove_finished:
  assumes "finished db gid" and "env_up env 0" and "gid \<noteq> ''''" and "uci \<noteq> ''''"
  shows "SubmitMove srv env gid uci p db = (Inl FailedPrecondition, db, [])"
  by (rule finished_found [OF assms(1)]) (use assms(2-4) in \<open>simp add: SubmitMove_def Store_GetGame_eq planMove_def rowToGame_def\<close>)

lemma Resign_finished:
  assumes "finished db gid"
  shows "fst (snd (Resign srv env gid p db)) = db \<and> (\<forall>pg. fst (Resign srv env gid p db) \<noteq> Inr pg)"
proof -
  have "\<not> list_ex (\<lambda>g. g_id g = gid \<and> g_status g = ''IN_PROGRESS'') (games db)"
    using assms by (auto simp: finished_def list_ex_iff)
  then have "fst (snd (resignAs srv env g p w db)) = db \<and> (\<forall>pg. fst (resignAs srv env g p w db) \<noteq> Inr pg)" if "ID g = gid" for g w
    using that by (auto simp: resignAs_def EndGame_def Let_def)
  then show ?thesis using GetGame_ID [of "env_up env 0" gid db]
    by (auto simp: Resign_def split: sum.splits StoreError.splits prod.splits)
qed

lemma status_afterEnd:
  "map (\<lambda>g. (g_id g, g_status g)) (games (fst (afterEnd srv env gid w db))) = map (\<lambda>g. (g_id g, g_status g)) (games db)"
proof -
  have 1: "map (\<lambda>g. (g_id g, g_status g)) (games (snd (ApplyRatings up up' i oc d))) = map (\<lambda>g. (g_id g, g_status g)) (games d)" for up up' i oc d
    by (auto simp: ApplyRatings_def addElo_def update_where_def Let_def split: option.splits prod.splits)
  have 2: "games (snd (IngestGameOpening up i res fens ucis d)) = games d" for up i res fens ucis d
    by (simp add: IngestGameOpening_def Let_def)
  show ?thesis by (cases w) (auto simp: afterEnd_def applyRatings_def ingestOpening_def 1 2 Let_def split: sum.splits)
qed

lemma finished_statuses:
  assumes "map (\<lambda>g. (g_id g, g_status g)) (games db') = map (\<lambda>g. (g_id g, g_status g)) (games db)"
  shows "finished db' gid \<longleftrightarrow> finished db gid"
proof -
  have *: "finished d gid \<longleftrightarrow> list_ex (\<lambda>(i, s). i = gid) (map (\<lambda>g. (g_id g, g_status g)) (games d)) \<and>
      list_all (\<lambda>(i, s). i = gid \<longrightarrow> s \<noteq> ''IN_PROGRESS'') (map (\<lambda>g. (g_id g, g_status g)) (games d))" for d
    by (simp add: finished_def list_ex_iff list_all_iff)
  show ?thesis unfolding * assms ..
qed

text \<open>Statuses are found by the identifier alone, and the steps after the end of a game keep them.\<close>

lemma find_game_status:
  "map_option g_status (find_game db gid) = map_option snd (find (\<lambda>x. fst x = gid) (map (\<lambda>g. (g_id g, g_status g)) (games db)))"
proof -
  have "map_option g_status (find (\<lambda>g. g_id g = gid) rows) =
      map_option snd (find (\<lambda>x. fst x = gid) (map (\<lambda>g. (g_id g, g_status g)) rows))" for rows
    by (induction rows) simp_all
  then show ?thesis by (simp add: find_game_def)
qed

lemma append_status:
  assumes "appendPlanned up now gid pl db = (Inr (), db')"
  shows "map_option g_status (find_game db' gid) = Some (resultToDB (pl_result pl))"
proof -
  let ?en = "pl_result pl \<noteq> InProgress"
  let ?f = "\<lambda>g. if ?en then g\<lparr>g_fen := FENAfter (pl_move pl), g_status := resultToDB (pl_result pl),
      g_end_reason := Some (reasonToDB (pl_reason pl)), g_ended_at := Some now\<rparr>
    else g\<lparr>g_fen := FENAfter (pl_move pl), g_status := resultToDB (pl_result pl)\<rparr>"
  have "find_game db gid \<noteq> None" and gs: "games db' = update_where (\<lambda>g. g_id g = gid) ?f (games db)"
    using assms by (auto simp: appendPlanned_def AppendMove_def split: if_splits)
  then obtain row where row: "find_game db gid = Some row" by auto
  have "find_game db' gid = map_option (\<lambda>r. if g_id r = gid then ?f r else r) (find_game db gid)"
    unfolding find_game_def gs by (rule find_update_where) simp
  then show ?thesis using row find_game_in [OF row] by simp
qed

lemma SubmitMove_reload:
  assumes "SubmitMove srv env gid uci p db = (Inr pg, db', fx)"
  shows "reloaded env gid db' = Inr pg"
proof -
  obtain g ms pl db1 where i: "Store_GetGame (env_up env 0) gid db = Inr (g, ms)" "planMove g ms uci p = Inr pl"
    "appendPlanned (env_up env 1) (env_now env) gid pl db = (Inr (), db1)"
    by (rule SubmitMove_inv [OF assms])
  then show ?thesis using assms
    by (auto simp: SubmitMove_def GetGame_ID [OF i(1)] Let_def split: if_splits prod.splits option.splits)
qed

lemma accepted_update:
  assumes "db_ok db" and "length (moves db) < 2 ^ 62" and "SubmitMove srv env gid uci p db = (Inr pg, db', fx)"
    and "find_game db gid = Some row" and "\<not> g_vs_engine row" and "follows startBoard (moves_of gid (moves db)) b" and "ApplyUCI b uci = Inr b'"
  shows "moves db' = moves db @ [\<lparr>mv_game = gid, mv_ply = int (length (moves_of gid (moves db))) + 1, mv_uci = uci, mv_fen_after = FEN b'\<rparr>]"
    and "pg_Id pg = gid" and "pg_Fen pg = FEN b'" and "map UCI (pg_Moves pg) = map mv_uci (moves_of gid (moves db)) @ [uci]"
    and "pg_Status pg = statusFromDB (resultToDB (fst (OutcomeWithHistory b' (StartFEN # map mv_fen_after (moves_of gid (moves db)) @ [FEN b']))))"
proof -
  obtain g ms pl db1 where s: "Store_GetGame (env_up env 0) gid db = Inr (g, ms)" "planMove g ms uci p = Inr pl"
    "appendPlanned (env_up env 1) (env_now env) gid pl db = (Inr (), db1)"
    and fin: "pl_result pl \<noteq> InProgress \<and> db' = fst (afterEnd srv env gid (pl_result pl) db1)
       \<or> pl_result pl = InProgress \<and> \<not> VsEngine g \<and> db' = db1
       \<or> pl_result pl = InProgress \<and> VsEngine g \<and>
           playEngineReply env g (pl_after pl) (pl_history pl) (Ply (pl_move pl) + 1) db1 = (None, db')"
    by (rule SubmitMove_inv [OF assms(3)])
  obtain row' b1 where r: "find_game db gid = Some row'" "g = rowToGame row'" "follows startBoard (moves_of gid (moves db)) b1"
    "ParseFEN (Game_FEN g) = Inr b1" and new: "newRow gid (pl_move pl) = \<lparr>mv_game = gid, mv_ply = int (length (moves_of gid (moves db))) + 1,
       mv_uci = uci, mv_fen_after = FEN (pl_after pl)\<rparr>"
    by (rule planned_row [OF assms(1,2) s(1,2)])
  note pl = planMove_inv [OF s(2) r(4)]
  have b': "pl_after pl = b'" using follows_unique [OF r(3) assms(6)] pl(3) assms(7) by simp
  have "\<not> VsEngine g" using r(1,2) assms(4,5) by (simp add: rowToGame_def)
  then have keep: "moves db' = moves db1" "core db' = core db1" "map (\<lambda>g. (g_id g, g_status g)) (games db') = map (\<lambda>g. (g_id g, g_status g)) (games db1)"
    using fin status_afterEnd [of srv env gid "pl_result pl" db1] by auto
  have ms: "moves db' = moves db @ [newRow gid (pl_move pl)]" using appended [OF assms(1) s(3)] keep(1) by simp
  then show "moves db' = moves db @ [\<lparr>mv_game = gid, mv_ply = int (length (moves_of gid (moves db))) + 1, mv_uci = uci, mv_fen_after = FEN b'\<rparr>]"
    by (simp add: new b')
  have "db_ok db1" using append_ok(1) [OF assms(1) planMove_pending(1) [OF assms(1) s(1,2) assms(2)] s(3) [unfolded appendPlanned_def]] .
  then have shape: "shape_ok (core db')" using keep(2) by (simp add: db_ok_iff)
  obtain row2 where row2: "find_game db' gid = Some row2" and pg: "pg = toProtoGame (rowToGame row2) (gameMoves db' gid)"
    using SubmitMove_reload [OF assms(3)] by (auto simp: reloaded_def Store_GetGame_eq split: if_splits option.splits)
  note f = find_game_shape [OF shape row2]
  have mine: "moves_of gid (moves db') = moves_of gid (moves db) @ [newRow gid (pl_move pl)]" by (simp add: ms moves_of_newRow)
  show "pg_Id pg = gid" "pg_Fen pg = FEN b'" "map UCI (pg_Moves pg) = map mv_uci (moves_of gid (moves db)) @ [uci]"
    using find_game_in [OF row2] f(2) by (simp_all add: pg toProtoGame_def rowToGame_def mine latest_def new b' gameMoves_numbered [OF f(1)] comp_def)
  have "map_option g_status (find_game db' gid) = Some (resultToDB (pl_result pl))"
    using append_status [OF s(3)] keep(3) by (simp add: find_game_status)
  then have "g_status row2 = resultToDB (pl_result pl)" using row2 by simp
  moreover have "map FENAfter ms = map mv_fen_after (moves_of gid (moves db))"
    using get_parts [OF s(1)] find_game_shape(1) [of db gid] assms(1,4) by (simp add: db_ok_iff gameMoves_numbered comp_def)
  then have "pl_result pl = fst (OutcomeWithHistory b' (StartFEN # map mv_fen_after (moves_of gid (moves db)) @ [FEN b']))"
    using pl(5,6) b' by (simp add: buildHistory_def) (metis fst_conv)
  ultimately show "pg_Status pg = statusFromDB (resultToDB (fst (OutcomeWithHistory b' (StartFEN # map mv_fen_after (moves_of gid (moves db)) @ [FEN b']))))"
    by (simp add: pg toProtoGame_def rowToGame_def)
qed

text \<open>
  C22. A player's legal move is always accepted, stored and shown: in a game in progress between two players,
  when the database answers, the player whose turn it is, sending a move that is legal in the position
  reached by the stored moves, gets the updated game back.  The move is stored as the game's next
  one, and the reply has the game's identifier, all its moves with the new one at the end, the
  position the move leads to and the status that the rules give to the game after it.
\<close>

theorem SubmitMove_accepts_legal_moves:
  assumes "db_ok db" and "length (moves db) < 2 ^ 62" and "find_game db gid = Some row" and "g_status row = ''IN_PROGRESS''"
    and "\<not> g_vs_engine row" and "follows startBoard (moves_of gid (moves db)) b" and "ApplyUCI b uci = Inr b'"
    and "p \<noteq> ''''" and "if Turn b = Black then g_black row = Some p else g_white row = p"
    and "gid \<noteq> ''''" and "uci \<noteq> ''''" and "\<forall>i. env_up env i"
  shows "\<exists>pg db' fx. SubmitMove srv env gid uci p db = (Inr pg, db', fx) \<and>
    moves db' = moves db @ [\<lparr>mv_game = gid, mv_ply = int (length (moves_of gid (moves db))) + 1, mv_uci = uci, mv_fen_after = FEN b'\<rparr>] \<and>
    pg_Id pg = gid \<and> pg_Fen pg = FEN b' \<and> map UCI (pg_Moves pg) = map mv_uci (moves_of gid (moves db)) @ [uci] \<and>
    pg_Status pg = statusFromDB (resultToDB (fst (OutcomeWithHistory b' (StartFEN # map mv_fen_after (moves_of gid (moves db)) @ [FEN b']))))"
proof -
  obtain pg db' fx where s: "SubmitMove srv env gid uci p db = (Inr pg, db', fx)" using legal_move_accepted [OF assms] by blast
  show ?thesis using s accepted_update [OF assms(1,2) s assms(3,5,6,7)] by (intro exI conjI)
qed

theorem SubmitMove_accepts_legal_moves_witness:
  "\<exists>pg db' fx. SubmitMove demoSrv demoEnv ''g1'' ''e2e4'' ''ann'' demoGame = (Inr pg, db', fx) \<and> pg_Fen pg = FEN afterE4 \<and>
     map UCI (pg_Moves pg) = [''e2e4'']"
proof -
  have none: "moves_of ''g1'' (moves demoGame) = []" by (simp add: moves_of_def demoGame_def demoUsers_def)
  show ?thesis
    using SubmitMove_accepts_legal_moves [OF demo_ok demo_short demo_find _ _ demo_follows ApplyUCI_e2e4, of "''ann''" demoEnv demoSrv]
    by (auto simp: demoRow_def demoEnv_def startBoard_def none)
qed

text \<open>A move changes the side to move.\<close>

lemma ApplyUCI_turn: "ApplyUCI b u = Inr nb \<Longrightarrow> Turn nb = Opposite (Turn b)"
  by (auto simp: ApplyUCI_def ApplyMove_def apply_fields(3) split: sum.splits if_splits)

lemma illegal_after_tear:
  assumes "follows startBoard ms b" and "ApplyUCI b u = Inr b1" and "follows startBoard (ms @ [r1]) b1" and "mv_fen_after r2 = FEN b2"
    and "ApplyUCI b (mv_uci r2) = Inr b2" and "length ms + 2 < 2 ^ 62"
  shows "\<not> legal_game (ms @ [r1, r2])"
proof
  assume "legal_game (ms @ [r1, r2])"
  then obtain c where "follows startBoard ((ms @ [r1]) @ [r2]) c" by (auto simp: legal_game_def)
  then obtain c1 where "follows startBoard (ms @ [r1]) c1" "follows c1 [r2] c" unfolding follows_append by blast
  moreover from this have "c1 = b1" using follows_unique [OF _ assms(3)] by blast
  ultimately have c: "ApplyUCI b1 (mv_uci r2) = Inr c" "FEN c = FEN b2" using assms(4) by (auto split: sum.splits)
  have "reachable (length ms) b" using follows_reachable [OF assms(1) reachable_start] by simp
  then have "reachable (length ms + 1) b1" "reachable (length ms + 1) b2"
    using reachable.step [OF _ assms(2)] reachable.step [OF _ assms(5)] by simp_all
  moreover from this(1) have "reachable (length ms + 2) c" using reachable.step [OF _ c(1)] by simp
  ultimately have "fen_ok c" "fen_ok b2"
    using reachable_fen_ok [of "length ms + 2" c] reachable_fen_ok [of "length ms + 1" b2] assms(6) by simp_all
  then have "Inr c = (Inr b2 :: FENError + Board)" using ParseFEN_FEN [of c] ParseFEN_FEN [of b2] unfolding c(2) by metis
  then have "Turn c = Turn b2" by simp
  moreover have "Turn c = Opposite (Opposite (Turn b))" "Turn b2 = Opposite (Turn b)"
    using ApplyUCI_turn [OF assms(2)] ApplyUCI_turn [OF assms(5)] ApplyUCI_turn [OF c(1)] by simp_all
  ultimately show False by (cases "Turn b") simp_all
qed

text \<open>
  C24. A torn reading stores an illegal move.  \<open>GetGame\<close> reads the row and the moves of a game in two queries.
  When one request reads the row, a second one stores its move, and then the first reads the moves, the
  first plans its move from the old position but gives it the number after the new move.  The uniqueness of numbers
  does not refuse it: the move is stored, although the other side was to move, the moves of the game
  are no longer a legal game, and the game goes on from a position in which the second request's move
  was never played.  So a move that is sent twice at the same moment can be stored twice.
\<close>

theorem torn_reading_stores_an_illegal_move:
  assumes "db_ok db" and "length (moves db) + 2 < 2 ^ 62" and "selectGame up gid db = Inr g" and "ParseFEN (Game_FEN g) = Inr b"
    and "planMove g (gameMoves db gid) u1 p1 = Inr pl1" and "appendPlanned up1 now1 gid pl1 db = (Inr (), db1)"
    and "planMove g (gameMoves db1 gid) u2 p2 = Inr pl2"
  shows "\<exists>db2 row b2. appendPlanned True now2 gid pl2 db1 = (Inr (), db2) \<and> (sys_step {gid})\<^sup>*\<^sup>* (db, []) (db2, []) \<and>
    map mv_uci (moves_of gid (moves db2)) = map mv_uci (moves_of gid (moves db)) @ [u1, u2] \<and> \<not> legal_game (moves_of gid (moves db2)) \<and>
    ApplyUCI b u2 = Inr b2 \<and> find_game db2 gid = Some row \<and> g_fen row = FEN b2"
proof -
  let ?n = "length (gameMoves db gid)"
  have get: "Store_GetGame up gid db = Inr (g, gameMoves db gid)" using assms(3) by (simp add: Store_GetGame_def)
  have short: "length (moves db) < 2 ^ 62" using assms(2) by simp
  obtain row b' where r: "find_game db gid = Some row" "follows startBoard (moves_of gid (moves db)) b'" "ParseFEN (Game_FEN g) = Inr b'"
    by (rule planned_row [OF assms(1) short get assms(5)])
  have f: "follows startBoard (moves_of gid (moves db)) b" using r(2,3) assms(4) by simp
  note p1 = planMove_inv [OF assms(5,4)] and p2 = planMove_inv [OF assms(7,4)]
  note app1 = append_ok [OF assms(1) planMove_pending(1) [OF assms(1) get assms(5) short] assms(6) [unfolded appendPlanned_def]]
  obtain row1 where row1: "find_game db1 gid = Some row1" using append_find [OF assms(6,1)] by auto
  have ply: "Ply (pl_move pl2) = int (length (moves_of gid (moves db1))) + 1" using p2(4) by (simp add: gameMoves_length)
  obtain db2 where a: "appendPlanned True now2 gid pl2 db1 = (Inr (), db2)"
    using append_succeeds [OF app1(1) row1 ply] unfolding appendPlanned_def by blast
  have shape1: "shape_ok (core db1)" using app1(1) by (simp add: db_ok_iff)
  have "1 \<le> Ply (pl_move pl2)" "Ply (pl_move pl2) \<le> int (length (moves_of gid (moves db1))) + 1" using ply by simp_all
  note app2 = append_shape [OF shape1 this a [unfolded appendPlanned_def]]
  have ms: "moves_of gid (moves db2) = moves_of gid (moves db) @ [newRow gid (pl_move pl1), newRow gid (pl_move pl2)]"
    by (simp add: app2(2) app1(2) moves_of_newRow)
  have "\<not> legal_game (moves_of gid (moves db2))" unfolding ms
    by (rule illegal_after_tear [OF f p1(3) app1(3) [unfolded app1(2)]])
      (use p2(3,4) moves_of_le [of gid "moves db"] assms(2) in simp_all)
  moreover obtain row2 where row2: "find_game db2 gid = Some row2" using append_find [OF a app1(1)] by auto
  moreover have "g_fen row2 = FEN (pl_after pl2)" using find_game_shape(2) [OF app2(1) row2] p2(4) by (simp add: ms latest_def)
  moreover have "(sys_step {gid})\<^sup>*\<^sup>* (db, []) (db2, [])"
  proof -
    have "sys_step {gid} (db, []) (db, [(gid, Row g ?n)])" by (rule sys_step.st_row [OF assms(3)])
    moreover have "(sys_step {gid})\<^sup>*\<^sup>* (db, [(gid, Row g ?n)]) (db1, [(gid, Row g ?n)])" by (rule write_steps [OF get assms(5,6)])
    moreover have "sys_step {gid} (db1, [(gid, Row g ?n)]) (db1, [(gid, Write pl2)])"
      using sys_step.st_plan [of gid g ?n "[(gid, Row g ?n)]" db1 u2 p2 pl2 "{gid}"] assms(7) by simp
    moreover have "sys_step {gid} (db1, [(gid, Write pl2)]) (db2, [])" using sys_step.st_write [OF a, of "[(gid, Write pl2)]"] by simp
    ultimately show ?thesis by (meson converse_rtranclp_into_rtranclp rtranclp_trans rtranclp.rtrancl_into_rtrancl)
  qed
  ultimately show ?thesis using a p1(4) p2(3,4) ms by auto
qed

lemma EndGame_finished:
  assumes "EndGame up gid st er now db = (Inr (), db')" and "st \<noteq> ''IN_PROGRESS''"
  shows "finished db' gid"
proof -
  let ?f = "\<lambda>r. if g_id r = gid \<and> g_status r = ''IN_PROGRESS''
      then r\<lparr>g_status := st, g_end_reason := Some er, g_ended_at := Some now\<rparr> else r"
  have ex: "\<exists>r \<in> set (games db). g_id r = gid" and gs: "games db' = map ?f (games db)"
    using assms(1) by (auto simp: EndGame_def update_where_def Let_def list_ex_iff split: if_splits)
  have "g_id (?f r) = g_id r" and "g_id r = gid \<Longrightarrow> g_status (?f r) \<noteq> ''IN_PROGRESS''" for r using assms(2) by simp_all
  then show ?thesis unfolding finished_def gs set_map using ex by (smt (verit) imageE imageI)
qed

lemma resigned:
  assumes "Resign srv env gid p db = (Inr pg, db', fx)"
  shows "finished db' gid"
    and "env_up env' 0 \<Longrightarrow> uci \<noteq> '''' \<Longrightarrow> SubmitMove srv' env' gid uci q db' = (Inl FailedPrecondition, db', [])"
    and "fst (snd (Resign srv' env' gid q db')) = db' \<and> (\<forall>pg. fst (Resign srv' env' gid q db') \<noteq> Inr pg)"
proof -
  obtain g ms w where g: "Store_GetGame (env_up env 0) gid db = Inr (g, ms)" "gid \<noteq> ''''" "w \<noteq> InProgress"
    and r: "resignAs srv env g p w db = (Inr pg, db', fx)"
    using assms by (fastforce simp: Resign_def split: if_splits sum.splits StoreError.splits)
  obtain db1 where e: "EndGame (env_up env 1) gid (resultToDB w) ''RESIGNATION'' (env_now env) db = (Inr (), db1)"
    and db': "db' = fst (afterEnd srv env gid w db1)"
    using r GetGame_ID [OF g(1)] by (auto simp: resignAs_def Let_def split: sum.splits prod.splits StoreError.splits)
  have "resultToDB w \<noteq> ''IN_PROGRESS''" using g(3) by (cases w) simp_all
  then have "finished db1 gid" by (rule EndGame_finished [OF e])
  then show fin: "finished db' gid" unfolding db' by (simp add: finished_statuses [OF status_afterEnd])
  show "env_up env' 0 \<Longrightarrow> uci \<noteq> '''' \<Longrightarrow> SubmitMove srv' env' gid uci q db' = (Inl FailedPrecondition, db', [])"
    using SubmitMove_finished [OF fin] g(2) by simp
  show "fst (snd (Resign srv' env' gid q db')) = db' \<and> (\<forall>pg. fst (Resign srv' env' gid q db') \<noteq> Inr pg)"
    by (rule Resign_finished [OF fin])
qed

text \<open>
  A resignation settles the game: after a successful one the game is over, and every later move
  request and every later resignation, by anyone, is refused and changes nothing.
\<close>

theorem Resign_settles_the_game:
  assumes "Resign srv env gid p db = (Inr pg, db', fx)"
  shows "finished db' gid \<and>
    (\<forall>srv' env' uci q. env_up env' 0 \<and> uci \<noteq> [] \<longrightarrow> SubmitMove srv' env' gid uci q db' = (Inl FailedPrecondition, db', [])) \<and>
    (\<forall>srv' env' q. fst (snd (Resign srv' env' gid q db')) = db' \<and> (\<forall>pg. fst (Resign srv' env' gid q db') \<noteq> Inr pg))"
  using resigned [OF assms] by blast

lemma demo_Resign: "\<exists>pg db' fx. Resign demoSrv demoEnv ''g1'' ''ann'' demoGame = (Inr pg, db', fx)"
proof -
  obtain db1 where e: "EndGame True ''g1'' ''BLACK_WON'' ''RESIGNATION'' 9 demoGame = (Inr (), db1)"
    by (simp add: EndGame_def demoGame_def demoRow_def)
  obtain db2 fx2 where a: "afterEnd demoSrv demoEnv ''g1'' BlackWins db1 = (db2, fx2)" by fastforce
  have "find_game db2 ''g1'' \<noteq> None"
    using find_game_core [OF core_afterEnd_eq [OF a]] find_game_core [OF core_EndGame_eq [OF e]] demo_find by simp
  then obtain pg where "reloaded demoEnv ''g1'' db2 = Inr pg" using reloaded_found [of db2 "''g1''" demoEnv] by (auto simp: demoEnv_def)
  then have "resignAs demoSrv demoEnv (rowToGame demoRow) ''ann'' BlackWins demoGame =
      (Inr pg, db2, [MetricGameEnded BlackWins, SessionResign ''g1'' ''ann''] @ fx2)"
    using e a by (simp add: resignAs_def rowToGame_def demoRow_def demoEnv_def demoSrv_def New_Server_def)
  then show ?thesis by (simp add: Resign_def demo_get rowToGame_def demoEnv_def demoRow_def)
qed

theorem Resign_settles_the_game_witness:
  "\<exists>pg db' fx. Resign demoSrv demoEnv ''g1'' ''ann'' demoGame = (Inr pg, db', fx) \<and>
     SubmitMove demoSrv demoEnv ''g1'' ''e2e4'' ''ann'' db' = (Inl FailedPrecondition, db', [])"
proof -
  obtain pg db' fx where r: "Resign demoSrv demoEnv ''g1'' ''ann'' demoGame = (Inr pg, db', fx)" using demo_Resign by blast
  show ?thesis using r Resign_settles_the_game [OF r] by (auto simp: demoEnv_def)
qed

text \<open>
  C32. Only the sequential order protects a result.  When a game is ended (a resignation) between the
  moment a move request has read it and the moment it writes its move, the write succeeds and the game
  is in progress again, with the reason and the time of the resignation still on its row, unless
  the move itself ends the game.
\<close>

theorem late_move_reopens_game:
  assumes "db_ok db" and "length (moves db) < 2 ^ 62" and "Store_GetGame up gid db = Inr (g, ms)" and "planMove g ms uci p = Inr pl"
    and "pl_result pl = InProgress" and "EndGame up1 gid st er now db = (Inr (), db1)"
  shows "\<exists>db2 row. appendPlanned True now' gid pl db1 = (Inr (), db2) \<and> find_game db2 gid = Some row \<and>
      g_status row = ''IN_PROGRESS'' \<and> g_end_reason row = Some er \<and> g_ended_at row = Some now"
proof -
  obtain row b where r: "find_game db gid = Some row" "g = rowToGame row" "length ms = length (moves_of gid (moves db))"
    "ParseFEN (Game_FEN g) = Inr b" by (rule planned_row [OF assms(1-4)])
  note pl = planMove_inv [OF assms(4) r(4)]
  have c: "core db1 = core db" by (rule core_EndGame_eq [OF assms(6)])
  have db1: "db1 = db\<lparr>games := update_where (\<lambda>g. g_id g = gid \<and> g_status g = ''IN_PROGRESS'')
      (\<lambda>g. g\<lparr>g_status := st, g_end_reason := Some er, g_ended_at := Some now\<rparr>) (games db)\<rparr>"
    using assms(6) by (auto simp: EndGame_def Let_def split: if_splits)
  have "g_status row = ''IN_PROGRESS''" using pl(1) r(2) by (simp add: rowToGame_def)
  then have row1: "find_game db1 gid = Some (row\<lparr>g_status := st, g_end_reason := Some er, g_ended_at := Some now\<rparr>)"
    unfolding db1 using r(1) find_game_in [OF r(1)] by (simp add: find_game_update)
  have ply: "Ply (pl_move pl) = int (length (moves_of gid (moves db1))) + 1" using pl(4) r(3) core_moves [OF c] by simp
  obtain db2 where a: "AppendMove True gid (pl_move pl) ''IN_PROGRESS'' (reasonToDB (pl_reason pl)) False now' db1 = (Inr (), db2)"
    using append_succeeds [OF _ row1 ply, of "''IN_PROGRESS''" "reasonToDB (pl_reason pl)" False now'] assms(1) c by auto
  have games: "games db2 = update_where (\<lambda>g. g_id g = gid) (\<lambda>g. g\<lparr>g_fen := FENAfter (pl_move pl), g_status := ''IN_PROGRESS''\<rparr>) (games db1)"
    using a by (auto simp: AppendMove_def split: if_splits)
  have "find_game db2 gid = find (\<lambda>g. g_id g = gid) (games db2)" by (simp add: find_game_def)
  then have "find_game db2 gid = Some (row\<lparr>g_fen := FENAfter (pl_move pl), g_status := ''IN_PROGRESS'', g_end_reason := Some er, g_ended_at := Some now\<rparr>)"
    using row1 find_game_in [OF row1] unfolding games by (simp add: find_update_where find_game_def)
  then show ?thesis using a assms(5) by (simp add: appendPlanned_def)
qed

lemma Outcome_afterE4: "Outcome afterE4 = (InProgress, Ongoing)"
  by code_simp

lemma short_history: "length fens < 3 \<Longrightarrow> \<not> threefold fens"
  unfolding threefold_iff by (meson leD length_filter_le order_trans)

lemma demo_plan:
  obtains pl where "planMove (rowToGame demoRow) [] ''e2e4'' ''ann'' = Inr pl" and "pl_result pl = InProgress"
proof -
  have "ParseFEN (Game_FEN (rowToGame demoRow)) = Inr startBoard"
    using ParseFEN_FEN [OF fen_ok_startBoard] FEN_startBoard by (simp add: rowToGame_def demoRow_def)
  moreover have "OutcomeWithHistory afterE4 (buildHistory [] @ [FEN afterE4]) = (InProgress, Ongoing)"
    using short_history [of "buildHistory [] @ [FEN afterE4]"] by (simp add: OutcomeWithHistory_def Outcome_afterE4 buildHistory_def)
  moreover have "authorizeMover (rowToGame demoRow) (Turn startBoard) ''ann'' = None"
    by (simp add: authorizeMover_def rowToGame_def demoRow_def startBoard_def)
  moreover have "Status (rowToGame demoRow) = ''IN_PROGRESS''" by (simp add: rowToGame_def demoRow_def)
  ultimately show ?thesis using that by (simp add: planMove_def ApplyUCI_e2e4)
qed

theorem torn_reading_stores_an_illegal_move_witness:
  "\<exists>db2. (sys_step {''g1''})\<^sup>*\<^sup>* (demoGame, []) (db2, []) \<and> map mv_uci (moves_of ''g1'' (moves db2)) = [''e2e4'', ''e2e4''] \<and>
     \<not> legal_game (moves_of ''g1'' (moves db2))"
proof -
  have none: "moves_of ''g1'' (moves demoGame) = []" "gameMoves demoGame ''g1'' = []"
    by (simp_all add: moves_of_def gameMoves_def demoGame_def demoUsers_def)
  have sel: "selectGame True ''g1'' demoGame = Inr (rowToGame demoRow)" by (simp add: selectGame_def demo_find)
  have parse: "ParseFEN (Game_FEN (rowToGame demoRow)) = Inr startBoard"
    using ParseFEN_FEN [OF fen_ok_startBoard] FEN_startBoard by (simp add: rowToGame_def demoRow_def)
  have auth: "VsEngine (rowToGame demoRow) \<or> authorizeMover (rowToGame demoRow) (Turn startBoard) ''ann'' = None"
    and status: "Status (rowToGame demoRow) = ''IN_PROGRESS''"
    by (simp_all add: authorizeMover_def rowToGame_def demoRow_def startBoard_def)
  obtain pl1 where p1: "planMove (rowToGame demoRow) (gameMoves demoGame ''g1'') ''e2e4'' ''ann'' = Inr pl1"
      "Ply (pl_move pl1) = int (length (gameMoves demoGame ''g1'')) + 1"
    by (rule planMove_legal [OF status parse auth ApplyUCI_e2e4])
  have "Ply (pl_move pl1) = int (length (moves_of ''g1'' (moves demoGame))) + 1" using p1(2) none by simp
  then obtain db1 where a: "appendPlanned True 6 ''g1'' pl1 demoGame = (Inr (), db1)"
    using append_succeeds [OF demo_ok demo_find] unfolding appendPlanned_def by blast
  obtain pl2 where p2: "planMove (rowToGame demoRow) (gameMoves db1 ''g1'') ''e2e4'' ''ann'' = Inr pl2"
    by (rule planMove_legal [OF status parse auth ApplyUCI_e2e4])
  have "length (moves demoGame) + 2 < 2 ^ 62" by (simp add: demoGame_def demoUsers_def)
  from torn_reading_stores_an_illegal_move [OF demo_ok this sel parse p1(1) a p2, of 7] obtain db2 where
    "(sys_step {''g1''})\<^sup>*\<^sup>* (demoGame, []) (db2, [])" "\<not> legal_game (moves_of ''g1'' (moves db2))"
    "map mv_uci (moves_of ''g1'' (moves db2)) = map mv_uci (moves_of ''g1'' (moves demoGame)) @ [''e2e4'', ''e2e4'']" by blast
  then show ?thesis by (intro exI [of _ db2] conjI) (simp_all only: none list.map append_Nil simp_thms)
qed

theorem late_move_reopens_game_witness:
  "\<exists>pl db1 db2 row. planMove (rowToGame demoRow) [] ''e2e4'' ''ann'' = Inr pl \<and>
     EndGame True ''g1'' ''WHITE_WON'' ''RESIGNATION'' 7 demoGame = (Inr (), db1) \<and>
     appendPlanned True 8 ''g1'' pl db1 = (Inr (), db2) \<and> find_game db2 ''g1'' = Some row \<and>
     g_status row = ''IN_PROGRESS'' \<and> g_end_reason row = Some ''RESIGNATION''"
proof -
  obtain pl where pl: "planMove (rowToGame demoRow) [] ''e2e4'' ''ann'' = Inr pl" "pl_result pl = InProgress" by (rule demo_plan)
  obtain db1 where e: "EndGame True ''g1'' ''WHITE_WON'' ''RESIGNATION'' 7 demoGame = (Inr (), db1)"
    by (simp add: EndGame_def demoGame_def demoRow_def)
  have "Store_GetGame True ''g1'' demoGame = Inr (rowToGame demoRow, [])" by (simp add: demo_get)
  from late_move_reopens_game [OF demo_ok demo_short this pl e, of 8] show ?thesis using pl(1) e by blast
qed

end
