(* ===== verification/Store_Once.thy ===== *)
theory Store_Once
  imports Game_Play
begin

text \<open>
  Operations that take effect at most once.  Rating a game, folding it into the opening statistics
  and redeeming a sign-in token are all asked for again when a request is retried or a message
  is delivered again; each is protected by a mark it leaves in its own transaction.  The locale
  \<open>at_most_once\<close> is that contract; its lemmas bound what any sequence of deliveries can do,
  also with other work in between.
\<close>

section \<open>The contract\<close>

locale at_most_once =
  fixes run :: "'a \<Rightarrow> 's \<Rightarrow> 's" and settled :: "'s \<Rightarrow> bool" and inv :: "'s \<Rightarrow> bool"
  assumes settles: "inv s \<Longrightarrow> run a s \<noteq> s \<Longrightarrow> settled (run a s)"
    and settled_noop: "inv s \<Longrightarrow> settled s \<Longrightarrow> run a s = s"
    and inv_run: "inv s \<Longrightarrow> inv (run a s)"
begin

lemma fold_settled: "inv s \<Longrightarrow> settled s \<Longrightarrow> fold run as s = s"
  by (induction as) (simp_all add: settled_noop)

text \<open>Of any number of deliveries at most one changes anything.\<close>

lemma deliveries: "inv s \<Longrightarrow> fold run as s = s \<or> (\<exists>a \<in> set as. run a s \<noteq> s \<and> fold run as s = run a s)"
proof (induction as)
  case (Cons a as)
  then show ?case
    using settles [of s a] inv_run [of s a] fold_settled [of "run a s" as] by (cases "run a s = s") auto
qed simp

text \<open>Work in between that keeps the mark does not bring the effect back.\<close>

lemma later_noop:
  assumes "inv s" and "run a s \<noteq> s" and "\<And>t. inv t \<and> settled t \<Longrightarrow> inv (f t) \<and> settled (f t)"
  shows "run b (f (run a s)) = f (run a s)"
  using assms settles settled_noop inv_run by metis

end

section \<open>Ratings\<close>

definition rate :: "string \<Rightarrow> bool \<times> bool \<times> RatingOutcome \<Rightarrow> DB \<Rightarrow> DB" where
  "rate gid d db = (case d of (up, up', oc) \<Rightarrow> snd (ApplyRatings up up' gid oc db))"

lemma ball_update_where:
  "(\<forall>x \<in> set (update_where P f rows). Q x) \<longleftrightarrow> (\<forall>r \<in> set rows. Q (if P r then f r else r))"
  by (simp add: update_where_def del: if_image_distrib)

lemma ApplyRatings_cases:
  obtains (nothing) "snd (ApplyRatings up up' gid oc db) = db"
  | (rated) g w1 n1 w2 n2 dw db1 db' where "up" "up'" "find (scorable gid) (games db) = Some g"
      "playerRating db (g_white g) = Some (w1, n1)" "playerRating db (the (g_black g)) = Some (w2, n2)"
      "dw = Update w1 w2 oc n1 n2" "db1 = addElo (the (g_black g)) (snd dw) (addElo (g_white g) (fst dw) db)"
      "ApplyRatings up up' gid oc db = (Inr True, db')"
      "db' = db1\<lparr>games := update_where (\<lambda>r. g_id r = gid)
         (\<lambda>r. r\<lparr>g_white_elo_before := Some w1, g_black_elo_before := Some w2, g_white_elo_delta := Some (fst dw),
                g_black_elo_delta := Some (snd dw)\<rparr>) (games db1)\<rparr>"
proof -
  consider "\<not> (up \<and> up' \<and> find (scorable gid) (games db) \<noteq> None)"
    | g where "up" "up'" "find (scorable gid) (games db) = Some g" by blast
  then show ?thesis
  proof cases
    case 1
    then have "snd (ApplyRatings up up' gid oc db) = db" by (auto simp: ApplyRatings_def split: option.splits prod.splits)
    then show ?thesis by (rule nothing)
  next
    case (2 g)
    show ?thesis
    proof (cases "playerRating db (g_white g) = None \<or> playerRating db (the (g_black g)) = None")
      case True
      then have "snd (ApplyRatings up up' gid oc db) = db" using 2 by (auto simp: ApplyRatings_def split: option.splits)
      then show ?thesis by (rule nothing)
    next
      case False
      then obtain w1 n1 w2 n2 where p: "playerRating db (g_white g) = Some (w1, n1)" "playerRating db (the (g_black g)) = Some (w2, n2)"
        by auto
      show ?thesis using rated [OF 2 p refl refl _ refl] 2 p by (simp add: ApplyRatings_def Let_def case_prod_beta)
    qed
  qed
qed

interpretation rated_once: at_most_once "rate gid" "\<lambda>db. \<not> list_ex (scorable gid) (games db)" "\<lambda>_. True"
  for gid
proof
  fix s and a :: "bool \<times> bool \<times> RatingOutcome"
  obtain up up' oc where a: "a = (up, up', oc)" by (cases a) auto
  show "\<not> list_ex (scorable gid) (games (rate gid a s))" if "rate gid a s \<noteq> s"
  proof (cases rule: ApplyRatings_cases [of up up' gid oc s])
    case nothing
    then show ?thesis using that by (simp add: rate_def a)
  next
    case (rated g w1 n1 w2 n2 dw db1 db')
    have "\<forall>r \<in> set (games db'). \<not> scorable gid r" unfolding rated(9) by (simp add: ball_update_where scorable_def)
    then show ?thesis using rated(8) by (simp add: rate_def a list_ex_iff)
  qed
  show "rate gid a s = s" if "\<not> list_ex (scorable gid) (games s)"
  proof -
    have "find (scorable gid) (games s) = None" using that by (auto simp: find_None_iff list_ex_iff)
    then show ?thesis by (simp add: rate_def a ApplyRatings_def)
  qed
qed simp

section \<open>Opening statistics\<close>

definition ingest :: "string \<Rightarrow> bool \<times> string \<times> string list \<times> string list \<Rightarrow> DB \<Rightarrow> DB" where
  "ingest gid d db = (case d of (up, res, fens, ucis) \<Rightarrow> snd (IngestGameOpening up gid res fens ucis db))"

interpretation ingested_once: at_most_once "ingest gid" "\<lambda>db. gid \<in> set (opening_ingested db)" "\<lambda>_. True"
  for gid
  by unfold_locales (auto simp: ingest_def IngestGameOpening_def Let_def split: prod.splits if_splits)

section \<open>Sign-in tokens\<close>

text \<open>The hash is the primary key of its table.\<close>

definition redeem :: "(string \<Rightarrow> string) \<Rightarrow> string \<Rightarrow> bool \<times> bool \<times> int \<Rightarrow> DB \<Rightarrow> DB" where
  "redeem h tok d db = (case d of (up, up', now) \<Rightarrow> snd (Store_RedeemLoginToken h up up' now tok db))"

definition consumed :: "string \<Rightarrow> DB \<Rightarrow> bool" where
  "consumed hsh db \<longleftrightarrow> (\<forall>t \<in> set (tokens db). t_hash t = hsh \<longrightarrow> t_consumed t)"

lemma consumed_invalid:
  assumes "consumed (h tok) db"
  shows "Store_RedeemLoginToken h True up' now tok db = (Inl ErrTokenInvalid, db)"
proof -
  have "find (redeemable (h tok) now) (tokens db) = None" using assms by (auto simp: find_None_iff consumed_def redeemable_def)
  then show ?thesis by (simp add: Store_RedeemLoginToken_def)
qed

lemma redeem_tokens:
  "tokens (snd (Store_RedeemLoginToken h up up' now tok db)) =
     (if up then update_where (redeemable (h tok) now) (\<lambda>t. t\<lparr>t_consumed := True\<rparr>) (tokens db) else tokens db)"
  by (auto simp: Store_RedeemLoginToken_def update_where_def find_None_iff Let_def intro!: map_idI [symmetric] split: option.splits)

lemma redeem_consumes:
  assumes "distinct (map t_hash (tokens db))" and "up" and "t \<in> set (tokens db)" and "redeemable (h tok) now t"
  shows "consumed (h tok) (snd (Store_RedeemLoginToken h up up' now tok db))"
proof -
  have "r = t" if "r \<in> set (tokens db)" "t_hash r = h tok" for r
    using that assms(1,3,4) by (metis distinct_map inj_onD redeemable_def)
  then show ?thesis unfolding consumed_def redeem_tokens using assms(2,4) by (auto simp: update_where_def)
qed

interpretation redeemed_once: at_most_once "redeem h tok" "consumed (h tok)" "\<lambda>db. distinct (map t_hash (tokens db))"
  for h tok
proof
  fix s :: DB and a :: "bool \<times> bool \<times> int"
  obtain up up' now where a: "a = (up, up', now)" by (cases a) auto
  assume d: "distinct (map t_hash (tokens s))"
  show "consumed (h tok) (redeem h tok a s)" if "redeem h tok a s \<noteq> s"
  proof -
    have "up \<and> find (redeemable (h tok) now) (tokens s) \<noteq> None"
      using that by (cases "find (redeemable (h tok) now) (tokens s)") (auto simp: redeem_def a Store_RedeemLoginToken_def split: if_splits)
    then obtain t where "up" "find (redeemable (h tok) now) (tokens s) = Some t" by blast
    then show ?thesis using redeem_consumes [OF d, of up t h tok now up'] by (auto simp: redeem_def a find_Some_iff)
  qed
  show "redeem h tok a s = s" if "consumed (h tok) s"
    using consumed_invalid [of h tok s up' now] that by (cases up) (simp_all add: redeem_def a Store_RedeemLoginToken_def)
  show "distinct (map t_hash (tokens (redeem h tok a s)))"
    using d by (simp add: redeem_def a redeem_tokens update_where_def comp_def if_distrib cong: if_cong)
qed

section \<open>Properties\<close>

text \<open>
  C35. A game is rated at most once.  However often the rating of a game is asked for, with whatever
  outcomes and failures, at most one of the requests changes the database; that one adds to
  the two players' ratings exactly the changes that \<open>Update\<close> computes from their ratings and
  numbers of finished games, records them on the game, and touches nobody else's rating.
\<close>

theorem game_rated_once:
  "fold (rate gid) ds db = db \<or>
   (\<exists>up up' oc g w1 n1 w2 n2. (up, up', oc) \<in> set ds \<and> find (scorable gid) (games db) = Some g \<and>
      playerRating db (g_white g) = Some (w1, n1) \<and> playerRating db (the (g_black g)) = Some (w2, n2) \<and>
      users (fold (rate gid) ds db) =
        map (\<lambda>u. u\<lparr>u_elo := u_elo u + (if u_id u = g_white g then fst (Update w1 w2 oc n1 n2) else 0)
                           + (if u_id u = the (g_black g) then snd (Update w1 w2 oc n1 n2) else 0)\<rparr>) (users db) \<and>
      (\<forall>r \<in> set (games (fold (rate gid) ds db)). g_id r = gid \<longrightarrow>
         g_white_elo_delta r = Some (fst (Update w1 w2 oc n1 n2)) \<and> g_black_elo_delta r = Some (snd (Update w1 w2 oc n1 n2))))"
proof (subst disj_imp, rule impI)
  assume "fold (rate gid) ds db \<noteq> db"
  then obtain d where d: "d \<in> set ds" "rate gid d db \<noteq> db" "fold (rate gid) ds db = rate gid d db"
    using rated_once.deliveries [of gid ds db] by auto
  obtain up up' oc where dd: "d = (up, up', oc)" by (cases d) auto
  show "\<exists>up up' oc g w1 n1 w2 n2. (up, up', oc) \<in> set ds \<and> find (scorable gid) (games db) = Some g \<and>
      playerRating db (g_white g) = Some (w1, n1) \<and> playerRating db (the (g_black g)) = Some (w2, n2) \<and>
      users (fold (rate gid) ds db) =
        map (\<lambda>u. u\<lparr>u_elo := u_elo u + (if u_id u = g_white g then fst (Update w1 w2 oc n1 n2) else 0)
                           + (if u_id u = the (g_black g) then snd (Update w1 w2 oc n1 n2) else 0)\<rparr>) (users db) \<and>
      (\<forall>r \<in> set (games (fold (rate gid) ds db)). g_id r = gid \<longrightarrow>
         g_white_elo_delta r = Some (fst (Update w1 w2 oc n1 n2)) \<and> g_black_elo_delta r = Some (snd (Update w1 w2 oc n1 n2)))"
  proof (cases rule: ApplyRatings_cases [of up up' gid oc db])
    case nothing
    then show ?thesis using d(2) by (simp add: rate_def dd)
  next
    case (rated g w1 n1 w2 n2 dw db1 db')
    have run: "fold (rate gid) ds db = db'" using d(3) rated(8) by (simp add: rate_def dd)
    have "users db' = map (\<lambda>u. u\<lparr>u_elo := u_elo u + (if u_id u = g_white g then fst dw else 0)
        + (if u_id u = the (g_black g) then snd dw else 0)\<rparr>) (users db)"
      unfolding rated(9,7) by (simp add: addElo_def update_where_def)
    moreover have "\<forall>r \<in> set (games db'). g_id r = gid \<longrightarrow> g_white_elo_delta r = Some (fst dw) \<and> g_black_elo_delta r = Some (snd dw)"
      unfolding rated(9) by (simp add: ball_update_where)
    ultimately show ?thesis unfolding run using d(1) dd rated(3-6) by blast
  qed
qed

definition demoFinished :: DB where
  "demoFinished = demoGame\<lparr>games := [demoRow\<lparr>g_status := ''WHITE_WON''\<rparr>]\<rparr>"

theorem game_rated_once_witness:
  "\<exists>dw db. map u_elo (users (fold (rate ''g1'') [(True, True, WhiteWon), (True, True, WhiteWon)] demoFinished)) = [1200 + dw, 1200 + db] \<and>
     (dw, db) = Update 1200 1200 WhiteWon 1 1"
proof -
  let ?ds = "[(True, True, WhiteWon), (True, True, WhiteWon)]"
  have g: "find (scorable ''g1'') (games demoFinished) = Some (demoRow\<lparr>g_status := ''WHITE_WON''\<rparr>)"
    by (simp add: demoFinished_def scorable_def demoRow_def)
  have p: "playerRating demoFinished ''ann'' = Some (1200, 1)" "playerRating demoFinished ''bob'' = Some (1200, 1)"
    by (simp_all add: demoFinished_def playerRating_def demoGame_def demoUsers_def demoUser_def finishedGames_def demoRow_def)
  have u: "users demoFinished = [demoUser ''ann'', demoUser ''bob'']" by (simp add: demoFinished_def demoGame_def demoUsers_def)
  have ne: "fold (rate ''g1'') ?ds demoFinished \<noteq> demoFinished"
  proof -
    define db1 where "db1 = rate ''g1'' (True, True, WhiteWon) demoFinished"
    have gs: "games db1 = [demoRow\<lparr>g_status := ''WHITE_WON'', g_white_elo_before := Some 1200, g_black_elo_before := Some 1200,
        g_white_elo_delta := Some (fst (Update 1200 1200 WhiteWon 1 1)), g_black_elo_delta := Some (snd (Update 1200 1200 WhiteWon 1 1))\<rparr>]"
      using g p unfolding db1_def
      by (simp add: rate_def ApplyRatings_def case_prod_beta Let_def demoFinished_def demoRow_def addElo_def update_where_def)
    then have "rate ''g1'' (True, True, WhiteWon) db1 = db1"
      by (simp add: rate_def ApplyRatings_def scorable_def)
    then have "fold (rate ''g1'') ?ds demoFinished = db1" by (simp flip: db1_def)
    moreover have "games db1 \<noteq> games demoFinished" unfolding gs by (simp add: demoFinished_def demoRow_def)
    ultimately show ?thesis by metis
  qed
  show ?thesis using game_rated_once [of "''g1''" ?ds demoFinished] ne g p u
    by (auto simp: demoRow_def demoUser_def)
qed

text \<open>
  A game enters the opening statistics at most once: however often its ingestion is asked for,
  at most one of the requests changes the tables, so no game is counted twice.
\<close>

theorem opening_ingested_once:
  "fold (ingest gid) ds db = db \<or> (\<exists>d \<in> set ds. fold (ingest gid) ds db = ingest gid d db \<and>
     opening_ingested (ingest gid d db) = opening_ingested db @ [gid] \<and> gid \<notin> set (opening_ingested db))"
proof (subst disj_imp, rule impI)
  assume "fold (ingest gid) ds db \<noteq> db"
  then obtain d where d: "d \<in> set ds" "ingest gid d db \<noteq> db" "fold (ingest gid) ds db = ingest gid d db"
    using ingested_once.deliveries [of gid ds db] by auto
  then have "opening_ingested (ingest gid d db) = opening_ingested db @ [gid] \<and> gid \<notin> set (opening_ingested db)"
    by (auto simp: ingest_def IngestGameOpening_def Let_def split: prod.splits if_splits)
  then show "\<exists>d \<in> set ds. fold (ingest gid) ds db = ingest gid d db \<and>
     opening_ingested (ingest gid d db) = opening_ingested db @ [gid] \<and> gid \<notin> set (opening_ingested db)" using d by blast
qed

text \<open>
  C36. A sign-in token works once and only before it expires: a redemption that returns a user found
  an unused token with that hash, not yet expired, and every later redemption of the token, at any
  time, reports it as invalid.
\<close>

theorem token_redeemed_once:
  assumes "distinct (map t_hash (tokens db))" and "Store_RedeemLoginToken h up up' now tok db = (Inr u, db')"
  shows "(\<exists>t \<in> set (tokens db). t_hash t = h tok \<and> \<not> t_consumed t \<and> now < t_expires_at t \<and> usr_ID u = t_user t) \<and>
    Store_RedeemLoginToken h True up2 now2 tok db' = (Inl ErrTokenInvalid, db')"
proof -
  obtain t where t: "up" "find (redeemable (h tok) now) (tokens db) = Some t" "Store_GetUser up' (t_user t) db' = Inr u"
    using assms(2) by (cases "find (redeemable (h tok) now) (tokens db)") (auto simp: Store_RedeemLoginToken_def Let_def split: if_splits)
  have mem: "t \<in> set (tokens db)" "redeemable (h tok) now t" using t(2) by (auto simp: find_Some_iff)
  have "usr_ID u = t_user t"
    using t(3) by (auto simp: Store_GetUser_def scanUser_def find_Some_iff split: if_splits option.splits)
  moreover have "consumed (h tok) db'" using redeem_consumes [where h = h and tok = tok, OF assms(1) t(1) mem, of up'] assms(2) by simp
  ultimately show ?thesis using mem consumed_invalid [of h tok db' up2 now2] by (auto simp: redeemable_def)
qed

definition demoToken :: DB where
  "demoToken = demoUsers\<lparr>tokens := [\<lparr>t_hash = ''h'', t_user = ''ann'', t_expires_at = 10, t_consumed = False\<rparr>]\<rparr>"

theorem token_redeemed_once_witness:
  "\<exists>u db'. Store_RedeemLoginToken (\<lambda>_. ''h'') True True 5 ''secret'' demoToken = (Inr u, db') \<and> usr_ID u = ''ann'' \<and>
     Store_RedeemLoginToken (\<lambda>_. ''h'') True True 6 ''secret'' db' = (Inl ErrTokenInvalid, db')"
proof -
  have d: "distinct (map t_hash (tokens demoToken))" by (simp add: demoToken_def)
  have "\<exists>u db'. Store_RedeemLoginToken (\<lambda>_. ''h'') True True 5 ''secret'' demoToken = (Inr u, db')"
    by (simp add: Store_RedeemLoginToken_def demoToken_def redeemable_def Store_GetUser_def demoUsers_def demoUser_def Let_def)
  then obtain u db' where r: "Store_RedeemLoginToken (\<lambda>_. ''h'') True True 5 ''secret'' demoToken = (Inr u, db')" by blast
  show ?thesis using r token_redeemed_once [OF d r, of True 6] by (auto simp: demoToken_def)
qed

end
