(* ===== verification/Event_Log.thy ===== *)
theory Event_Log
  imports Store_Once
begin

text \<open>
  The move-event log (\<open>pkg/eventlog\<close>: \<open>event.go\<close>, \<open>stream.go\<close>, \<open>relay.go\<close>).  Redis is the list of
  all stream entries in the order in which they were added; a stream is the part of it with one
  key.  What Redis answers to an addition is a parameter: it may add the entry and say so, refuse it,
  or add it while the reply is lost.

  The relay uses the store only through the interface \<open>OutboxSource\<close> of the source, here a
  locale; its facts are proved once there and hold for the tables by interpretation.
\<close>

section \<open>Events\<close>

record MoveEvent =
  ev_GameID :: string
  ev_Ply :: int
  ev_UCI :: string
  ev_FENAfter :: string
  ev_Status :: string
  ev_EndReason :: string
  ev_Ended :: bool

record Entry =
  en_ID :: string
  en_Event :: MoveEvent

definition FormatBool :: "bool \<Rightarrow> string" where
  "FormatBool b = (if b then ''true'' else ''false'')"

definition ParseBool :: "string \<Rightarrow> bool option" where
  "ParseBool s =
     (if s \<in> {''1'', ''t'', ''T'', ''true'', ''TRUE'', ''True''} then Some True
      else if s \<in> {''0'', ''f'', ''F'', ''false'', ''FALSE'', ''False''} then Some False
      else None)"

definition event_fields :: "MoveEvent \<Rightarrow> (string \<rightharpoonup> string)" where
  "event_fields e =
     [''game_id'' \<mapsto> ev_GameID e, ''ply'' \<mapsto> Itoa (ev_Ply e), ''uci'' \<mapsto> ev_UCI e, ''fen_after'' \<mapsto> ev_FENAfter e,
      ''status'' \<mapsto> ev_Status e, ''end_reason'' \<mapsto> ev_EndReason e, ''ended'' \<mapsto> FormatBool (ev_Ended e)]"

text \<open>A missing key of a Go map reads as the empty string.\<close>

definition field :: "(string \<rightharpoonup> string) \<Rightarrow> string \<Rightarrow> string" where
  "field m k = (case m k of Some v \<Rightarrow> v | None \<Rightarrow> '''')"

definition decodeEvent :: "(string \<rightharpoonup> string) \<Rightarrow> string + MoveEvent" where
  "decodeEvent m =
     (case Atoi (field m ''ply'') of
        None \<Rightarrow> Inl (field m ''ply'')
      | Some ply \<Rightarrow>
          Inr \<lparr>ev_GameID = field m ''game_id'', ev_Ply = ply, ev_UCI = field m ''uci'', ev_FENAfter = field m ''fen_after'',
               ev_Status = field m ''status'', ev_EndReason = field m ''end_reason'',
               ev_Ended = (case ParseBool (field m ''ended'') of Some b \<Rightarrow> b | None \<Rightarrow> False)\<rparr>)"

lemma decode_fields: "int64_range (ev_Ply e) \<Longrightarrow> decodeEvent (event_fields e) = Inr e"
  by (simp add: decodeEvent_def event_fields_def field_def Atoi_Itoa FormatBool_def ParseBool_def)

section \<open>Streams\<close>

record XMessage =
  xm_ID :: string
  xm_Values :: "string \<rightharpoonup> string"

type_synonym RedisLog = "(string \<times> XMessage) list"

datatype XAddReply = Added string | AddRefused | ReplyLost string

definition key :: "string \<Rightarrow> string" where
  "key gameID = ''game:'' @ gameID @ '':events''"

definition streamOf :: "string \<Rightarrow> RedisLog \<Rightarrow> XMessage list" where
  "streamOf k rl = map snd (filter (\<lambda>x. fst x = k) rl)"

definition Stream_Append :: "bool \<Rightarrow> XAddReply \<Rightarrow> MoveEvent \<Rightarrow> RedisLog \<Rightarrow> (unit + string) \<times> RedisLog" where
  "Stream_Append enabled reply e rl =
     (if \<not> enabled then (Inr '''', rl)
      else
        let entry = (\<lambda>i. (key (ev_GameID e), \<lparr>xm_ID = i, xm_Values = event_fields e\<rparr>)) in
        case reply of
          Added i \<Rightarrow> (Inr i, rl @ [entry i])
        | AddRefused \<Rightarrow> (Inl (), rl)
        | ReplyLost i \<Rightarrow> (Inl (), rl @ [entry i]))"

definition stream_decode :: "XMessage list \<Rightarrow> Entry list" where
  "stream_decode msgs =
     concat (map (\<lambda>m. case decodeEvent (xm_Values m) of Inl e \<Rightarrow> [] | Inr ev \<Rightarrow> [\<lparr>en_ID = xm_ID m, en_Event = ev\<rparr>]) msgs)"

text \<open>\<open>xrange\<close> and \<open>xread\<close> are the two queries, from a start (or the last identifier) to messages.\<close>

definition Replay :: "bool \<Rightarrow> (string \<Rightarrow> string \<Rightarrow> XMessage list option) \<Rightarrow> string \<Rightarrow> string \<Rightarrow> unit + Entry list" where
  "Replay enabled xrange gameID afterID =
     (if \<not> enabled then Inr []
      else
        let start = (if afterID \<noteq> '''' then ''('' @ afterID else ''-'') in
        case xrange (key gameID) start of None \<Rightarrow> Inl () | Some msgs \<Rightarrow> Inr (stream_decode msgs))"

text \<open>A read that finds nothing before the time is over is the empty list of messages.\<close>

definition Stream_Read :: "bool \<Rightarrow> (string \<Rightarrow> string \<Rightarrow> XMessage list option) \<Rightarrow> string \<Rightarrow> string \<Rightarrow> unit + Entry list" where
  "Stream_Read enabled xread gameID lastID =
     (if \<not> enabled then Inr []
      else
        let lastID = (if lastID = '''' then ''$'' else lastID) in
        case xread (key gameID) lastID of None \<Rightarrow> Inl () | Some msgs \<Rightarrow> Inr (stream_decode msgs))"

section \<open>The relay\<close>

definition rowEvent :: "OutboxRow \<Rightarrow> MoveEvent" where
  "rowEvent row =
     \<lparr>ev_GameID = ob_game row, ev_Ply = ob_ply row, ev_UCI = ob_uci row, ev_FENAfter = ob_fen_after row,
      ev_Status = ob_status row, ev_EndReason = ob_end_reason row, ev_Ended = ob_ended row\<rparr>"

text \<open>The loop over the rows: the identifiers published, whether an addition failed, and the log.\<close>

fun appendRows :: "(nat \<Rightarrow> XAddReply) \<Rightarrow> nat \<Rightarrow> OutboxRow list \<Rightarrow> RedisLog \<Rightarrow> int list \<times> bool \<times> RedisLog" where
  "appendRows xadd i [] rl = ([], False, rl)"
| "appendRows xadd i (row # rows) rl =
     (case Stream_Append True (xadd i) (rowEvent row) rl of
        (Inl _, rl) \<Rightarrow> ([], True, rl)
      | (Inr _, rl) \<Rightarrow>
          let (published, failed, rl) = appendRows xadd (i + 1) rows rl in (ob_id row # published, failed, rl))"

definition relay_batch :: int where
  "relay_batch = 200"

text \<open>The number of rows published, whether the cycle failed, the source and the log afterwards.\<close>

definition drainOnce :: "(int \<Rightarrow> 's \<Rightarrow> 'e + OutboxRow list) \<Rightarrow> (int list \<Rightarrow> 's \<Rightarrow> ('e + unit) \<times> 's) \<Rightarrow>
    (nat \<Rightarrow> XAddReply) \<Rightarrow> 's \<Rightarrow> RedisLog \<Rightarrow> nat \<times> bool \<times> 's \<times> RedisLog" where
  "drainOnce fetch mark xadd s rl =
     (case fetch relay_batch s of
        Inl e \<Rightarrow> (0, True, s, rl)
      | Inr rows \<Rightarrow>
          if length rows = 0 then (0, False, s, rl)
          else
            let (published, failed, rl) = appendRows xadd 0 rows rl in
            case mark published s of
              (Inl e, s) \<Rightarrow> (length published, True, s, rl)
            | (Inr _, s) \<Rightarrow> (length published, failed, s, rl))"

section \<open>What the relay needs from its source\<close>

locale outbox_source =
  fixes fetch :: "int \<Rightarrow> 's \<Rightarrow> 'e + OutboxRow list"
    and mark :: "int list \<Rightarrow> 's \<Rightarrow> ('e + unit) \<times> 's"
    and events :: "'s \<Rightarrow> MoveEvent list"
    and handed :: "'s \<Rightarrow> nat"
    and inv :: "'s \<Rightarrow> bool"
  assumes fetch_next: "inv s \<Longrightarrow> fetch relay_batch s = Inr rows \<Longrightarrow> map rowEvent rows = take (nat relay_batch) (drop (handed s) (events s))"
    and mark_prefix: "inv s \<Longrightarrow> fetch relay_batch s = Inr rows \<Longrightarrow> mark (map ob_id (take j rows)) s = (r, s') \<Longrightarrow>
      inv s' \<and> events s' = events s \<and> handed s' = (if r = Inr () then handed s + min j (length rows) else handed s)"
    and plies: "inv s \<Longrightarrow> e \<in> set (events s) \<Longrightarrow> int64_range (ev_Ply e)"
    and once_each: "inv s \<Longrightarrow> distinct (map (\<lambda>e. (ev_GameID e, ev_Ply e)) (events s))"

lemma appendRows_spec:
  assumes "appendRows xadd i rows rl = (published, failed, rl')"
  obtains j k msgs where "j \<le> k" and "k \<le> length rows" and "k \<le> Suc j" and "published = map ob_id (take j rows)"
    and "failed \<longleftrightarrow> j < length rows" and "rl' = rl @ msgs"
    and "map fst msgs = map (\<lambda>r. key (ob_game r)) (take k rows)"
    and "map (\<lambda>m. xm_Values (snd m)) msgs = map (\<lambda>r. event_fields (rowEvent r)) (take k rows)"
  using assms
proof (induction rows arbitrary: i rl published thesis)
  case Nil
  then show ?case by (auto intro: Nil.prems(1) [of 0 0 "[]"])
next
  case (Cons row rows)
  show ?case
  proof (cases "xadd i")
    case (Added x)
    let ?e = "(key (ob_game row), \<lparr>xm_ID = x, xm_Values = event_fields (rowEvent row)\<rparr>)"
    obtain p where p: "appendRows xadd (i + 1) rows (rl @ [?e]) = (p, failed, rl')" "published = ob_id row # p"
      using Cons.prems(2) Added by (auto simp: Stream_Append_def rowEvent_def Let_def split: prod.splits)
    obtain j k msgs where "j \<le> k" "k \<le> length rows" "k \<le> Suc j" "p = map ob_id (take j rows)" "failed \<longleftrightarrow> j < length rows"
      "rl' = (rl @ [?e]) @ msgs" "map fst msgs = map (\<lambda>r. key (ob_game r)) (take k rows)"
      "map (\<lambda>m. xm_Values (snd m)) msgs = map (\<lambda>r. event_fields (rowEvent r)) (take k rows)"
      by (rule Cons.IH [OF _ p(1)])
    then show ?thesis using p(2) by (intro Cons.prems(1) [of "Suc j" "Suc k" "?e # msgs"]) auto
  next
    case AddRefused
    then show ?thesis using Cons.prems(2) by (intro Cons.prems(1) [of 0 0 "[]"]) (auto simp: Stream_Append_def Let_def)
  next
    case (ReplyLost x)
    let ?e = "(key (ob_game row), \<lparr>xm_ID = x, xm_Values = event_fields (rowEvent row)\<rparr>)"
    show ?thesis using Cons.prems(2) ReplyLost
      by (intro Cons.prems(1) [of 0 1 "[?e]"]) (auto simp: Stream_Append_def rowEvent_def Let_def)
  qed
qed

section \<open>What consumers see\<close>

text \<open>Consumers drop an event whose game and ply they have seen; \<open>firsts\<close> is what remains.\<close>

abbreviation ev_key :: "MoveEvent \<Rightarrow> string \<times> int" where
  "ev_key e \<equiv> (ev_GameID e, ev_Ply e)"

fun firsts :: "(string \<times> int) set \<Rightarrow> MoveEvent list \<Rightarrow> MoveEvent list" where
  "firsts seen [] = []"
| "firsts seen (e # es) = (if ev_key e \<in> seen then firsts seen es else e # firsts (insert (ev_key e) seen) es)"

definition logged :: "RedisLog \<Rightarrow> MoveEvent list" where
  "logged rl = map en_Event (stream_decode (map snd rl))"

lemma firsts_append: "firsts seen (xs @ ys) = firsts seen xs @ firsts (seen \<union> ev_key ` set xs) ys"
  by (induction xs arbitrary: seen) (simp_all add: insert_absorb)

lemma firsts_new: "distinct (map ev_key es) \<Longrightarrow> ev_key ` set es \<inter> seen = {} \<Longrightarrow> firsts seen es = es"
  by (induction es arbitrary: seen) auto

lemma firsts_seen: "ev_key ` set es \<subseteq> seen \<Longrightarrow> firsts seen es = []"
  by (induction es) auto

lemma firsts_keys: "ev_key ` set (firsts {} es) = ev_key ` set es"
proof -
  have "seen \<union> ev_key ` set (firsts seen es) = seen \<union> ev_key ` set es" for seen
  proof (induction es arbitrary: seen)
    case (Cons e es)
    show ?case using Cons.IH [of seen] Cons.IH [of "insert (ev_key e) seen"] by (simp add: insert_absorb)
  qed simp
  from this [of "{}"] show ?thesis by simp
qed

lemma firsts_filter:
  "firsts {k \<in> seen. fst k = g} (filter (\<lambda>e. ev_GameID e = g) es) = filter (\<lambda>e. ev_GameID e = g) (firsts seen es)"
proof (induction es arbitrary: seen)
  case (Cons e es)
  have eq: "{k \<in> insert (ev_key e) seen. fst k = g} = (if ev_GameID e = g then insert (ev_key e) {k \<in> seen. fst k = g} else {k \<in> seen. fst k = g})"
    by auto
  show ?case using Cons.IH [of seen] Cons.IH [of "insert (ev_key e) seen"] unfolding eq by (cases "ev_GameID e = g") simp_all
qed simp

text \<open>
  The state of the relay: \<open>n\<close> events handed on and marked, and a log whose new events, in the order
  of their first occurrence, are an initial part of the announced events that covers these.
\<close>

definition in_order :: "MoveEvent list \<Rightarrow> nat \<Rightarrow> RedisLog \<Rightarrow> bool" where
  "in_order es n rl \<longleftrightarrow> (\<exists>m. n \<le> m \<and> m \<le> length es \<and> firsts {} (logged rl) = take m es)"

lemma logged_append: "logged (xs @ ys) = logged xs @ logged ys"
  by (simp add: logged_def stream_decode_def)

lemma logged_events:
  assumes "map (\<lambda>m. xm_Values (snd m)) msgs = map event_fields es" and "\<forall>e \<in> set es. int64_range (ev_Ply e)"
  shows "logged msgs = es"
  using assms
proof (induction msgs arbitrary: es)
  case (Cons m ms)
  then obtain e es' where es: "es = e # es'" "xm_Values (snd m) = event_fields e"
    "map (\<lambda>m. xm_Values (snd m)) ms = map event_fields es'" by (auto simp: Cons_eq_map_conv)
  then show ?case using Cons.IH [OF es(3)] Cons.prems(2) decode_fields [of e] by (simp add: logged_def stream_decode_def)
qed (simp add: logged_def stream_decode_def)

lemma in_order_append:
  assumes "in_order es n rl" and "distinct (map ev_key es)" and "logged rl' = logged rl @ take k (drop n es)"
    and "n \<le> n'" and "n' \<le> n + k" and "n' \<le> length es"
  shows "in_order es n' rl'"
proof -
  obtain m where m: "n \<le> m" "m \<le> length es" "firsts {} (logged rl) = take m es" using assms(1) by (auto simp: in_order_def)
  have seen: "ev_key ` set (logged rl) = ev_key ` set (take m es)" using firsts_keys [of "logged rl"] m(3) by simp
  have split: "take k (drop n es) = take (min k (m - n)) (drop n es) @ take (n + k - m) (drop m es)"
    using take_add [of "m - n" "n + k - m" "drop n es"] m(1) by (cases "n + k \<le> m") (simp_all add: min_def)
  have sub: "ev_key ` set (take (min k (m - n)) (drop n es)) \<subseteq> ev_key ` set (take m es)"
  proof -
    have "set (take (m - n) (drop n es)) \<subseteq> set (take m es)"
      using set_drop_subset [of n "take m es"] m(1) by (simp add: take_drop)
    moreover have "set (take (min k (m - n)) (drop n es)) \<subseteq> set (take (m - n) (drop n es))" by (rule set_take_subset_set_take) simp
    ultimately show ?thesis by (meson image_mono order_trans)
  qed
  note old = firsts_seen [OF sub]
  have "distinct (take (m + (n + k - m)) (map ev_key es))" using assms(2) by (rule distinct_take)
  then have d: "distinct (map ev_key (take m es @ take (n + k - m) (drop m es)))" by (simp only: take_map take_add)
  have new: "firsts (ev_key ` set (take m es)) (take (n + k - m) (drop m es)) = take (n + k - m) (drop m es)"
    using d by (intro firsts_new) auto
  have "firsts {} (logged rl') = take (m + (n + k - m)) es"
    unfolding assms(3) firsts_append seen m(3) using split old new by (simp add: firsts_append take_add Un_absorb2 [OF sub])
  then show ?thesis unfolding in_order_def using assms(4-6) m
    by (intro exI [of _ "min (m + (n + k - m)) (length es)"]) (cases "m + (n + k - m) \<le> length es"; auto simp: min_def)
qed

context outbox_source
begin

lemma drain_keeps:
  assumes "inv s" and "in_order (events s) (handed s) rl" and "drainOnce fetch mark xadd s rl = (n, failed, s', rl')"
    and "handed s \<le> length (events s)"
  shows "inv s'" and "events s' = events s" and "in_order (events s) (handed s') rl'" and "handed s' \<le> length (events s)"
    and "\<not> failed \<Longrightarrow> handed s' = min (handed s + nat relay_batch) (length (events s))"
proof -
  consider (nothing) "s' = s" "rl' = rl" "failed \<or> fetch relay_batch s = Inr []"
    | (some) rows p f r where "fetch relay_batch s = Inr rows" "appendRows xadd 0 rows rl = (p, f, rl')" "mark p s = (r, s')"
        "failed = (f \<or> r \<noteq> Inr ())"
    using assms(3) by (auto simp: drainOnce_def Let_def split: sum.splits prod.splits if_splits)
  then have "inv s' \<and> events s' = events s \<and> in_order (events s) (handed s') rl' \<and> handed s' \<le> length (events s) \<and>
      (\<not> failed \<longrightarrow> handed s' = min (handed s + nat relay_batch) (length (events s)))"
  proof cases
    case nothing
    then show ?thesis using assms fetch_next [OF assms(1), of "[]"] by (auto simp: relay_batch_def)
  next
    case (some rows p f r)
    have rows: "map rowEvent rows = take (nat relay_batch) (drop (handed s) (events s))" by (rule fetch_next [OF assms(1) some(1)])
    obtain j k msgs where jk: "j \<le> k" "k \<le> length rows" "k \<le> Suc j" "p = map ob_id (take j rows)" "f \<longleftrightarrow> j < length rows" "rl' = rl @ msgs"
      "map (\<lambda>m. xm_Values (snd m)) msgs = map (\<lambda>r. event_fields (rowEvent r)) (take k rows)"
      by (rule appendRows_spec [OF some(2)])
    have len: "length rows = min (nat relay_batch) (length (events s) - handed s)" using arg_cong [OF rows, of length] by simp
    have s': "inv s'" "events s' = events s" "handed s' = (if r = Inr () then handed s + j else handed s)"
      using mark_prefix [OF assms(1) some(1)] some(3) jk(1,2,4) by auto
    have es: "map rowEvent (take k rows) = take k (drop (handed s) (events s))"
    proof -
      have "k \<le> nat relay_batch" using jk(2) len by simp
      then show ?thesis using rows by (simp add: take_map [symmetric] min_absorb1)
    qed
    have "logged msgs = take k (drop (handed s) (events s))"
    proof (rule logged_events)
      show "map (\<lambda>m. xm_Values (snd m)) msgs = map event_fields (take k (drop (handed s) (events s)))"
        unfolding jk(7) es [symmetric] by simp
      show "\<forall>e \<in> set (take k (drop (handed s) (events s))). int64_range (ev_Ply e)"
        using plies [OF assms(1)] by (meson in_set_dropD in_set_takeD)
    qed
    then have "logged rl' = logged rl @ take k (drop (handed s) (events s))" by (simp add: jk(6) logged_append)
    then have "in_order (events s) (handed s') rl'"
      by (rule in_order_append [OF assms(2) once_each [OF assms(1)]]) (use s'(3) jk(1,2) len assms(4) in auto)
    moreover have "handed s' \<le> length (events s)" using s'(3) jk(1,2) len assms(4) by auto
    moreover have "handed s' = min (handed s + nat relay_batch) (length (events s))" if "\<not> failed"
      using that some(4) jk(1,2,5) s'(3) len assms(4) by auto
    ultimately show ?thesis using s'(1,2) by blast
  qed
  then show "inv s'" "events s' = events s" "in_order (events s) (handed s') rl'" "handed s' \<le> length (events s)"
    "\<not> failed \<Longrightarrow> handed s' = min (handed s + nat relay_batch) (length (events s))" by blast+
qed

end

section \<open>The tables as the relay's source\<close>

text \<open>
  The rows are numbered in the order of their insertion, and the published ones come first.
\<close>

definition outbox_ok :: "DB \<Rightarrow> bool" where
  "outbox_ok db \<longleftrightarrow> map ob_id (outbox db) = [1..int (length (outbox db))] \<and>
     (\<exists>n. map ob_published (outbox db) = replicate n True @ replicate (length (outbox db) - n) False) \<and>
     distinct (map (\<lambda>r. (ob_game r, ob_ply r)) (outbox db)) \<and> (\<forall>r \<in> set (outbox db). int64_range (ob_ply r))"

definition outbox_events :: "DB \<Rightarrow> MoveEvent list" where
  "outbox_events db = map rowEvent (outbox db)"

definition outbox_handed :: "DB \<Rightarrow> nat" where
  "outbox_handed db = length (filter ob_published (outbox db))"

lemma flags_split:
  assumes "map f xs = replicate n True @ replicate (length xs - n) False" and "n \<le> length xs"
  shows "filter f xs = take n xs" and "filter (\<lambda>x. \<not> f x) xs = drop n xs"
proof -
  have "map f (take n xs) = replicate n True" "map f (drop n xs) = replicate (length xs - n) False"
    using assms by (simp_all flip: take_map drop_map)
  then have t: "\<forall>x \<in> set (take n xs). f x" and d: "\<forall>x \<in> set (drop n xs). \<not> f x"
    by (metis imageI in_set_replicate list.set_map)+
  have "filter f (take n xs @ drop n xs) = take n xs" "filter (\<lambda>x. \<not> f x) (take n xs @ drop n xs) = drop n xs"
    unfolding filter_append using t d by (simp_all add: filter_id_conv filter_empty_conv)
  then show "filter f xs = take n xs" "filter (\<lambda>x. \<not> f x) xs = drop n xs" by simp_all
qed

lemma outbox_okE:
  assumes "outbox_ok db"
  obtains n where "n = outbox_handed db" and "n \<le> length (outbox db)"
    and "map ob_published (outbox db) = replicate n True @ replicate (length (outbox db) - n) False"
    and "filter (\<lambda>r. \<not> ob_published r) (outbox db) = drop n (outbox db)"
proof -
  obtain n where n: "map ob_published (outbox db) = replicate n True @ replicate (length (outbox db) - n) False"
    using assms by (auto simp: outbox_ok_def)
  have "n \<le> length (outbox db)" using arg_cong [OF n, of length] by simp
  then show ?thesis using that n flags_split [OF n] by (simp add: outbox_handed_def)
qed

lemma outbox_sorted: "outbox_ok db \<Longrightarrow> sorted_wrt (<) (map ob_id (outbox db))"
  by (simp add: outbox_ok_def strict_sorted_iff)

lemma sorted_ids: "sorted_wrt (<) (map ob_id rows) \<Longrightarrow> sort_key ob_id rows = rows"
  by (rule sort_key_id_if_sorted) (auto simp: strict_sorted_iff)

lemma fetch_rows:
  assumes "outbox_ok db" and "FetchUnpublished up relay_batch db = Inr rows"
  shows "rows = take (nat relay_batch) (drop (outbox_handed db) (outbox db))"
proof -
  obtain n where n: "n = outbox_handed db" "filter (\<lambda>r. \<not> ob_published r) (outbox db) = drop n (outbox db)"
    by (rule outbox_okE [OF assms(1)])
  have "sorted_wrt (<) (map ob_id (drop n (outbox db)))" using outbox_sorted [OF assms(1)] by (simp add: drop_map [symmetric] sorted_wrt_drop)
  note sorted_ids [OF this]
  then show ?thesis using assms(2) n by (auto simp: FetchUnpublished_def relay_batch_def Let_def split: if_splits)
qed

text \<open>Marking the next rows turns exactly these flags.\<close>

lemma mark_rows:
  assumes "outbox_ok db" and "n = outbox_handed db" and "n + j \<le> length (outbox db)"
    and "ids = map ob_id (take j (drop n (outbox db)))"
  shows "update_where (\<lambda>r. ob_id r \<in> set ids) (\<lambda>r. r\<lparr>ob_published := True\<rparr>) (outbox db) =
    map (\<lambda>r. r\<lparr>ob_published := True\<rparr>) (take (n + j) (outbox db)) @ drop (n + j) (outbox db)" (is "?l = ?r")
proof (rule nth_equalityI)
  show "length ?l = length ?r" using assms(3) by (simp add: update_where_def)
  fix i assume "i < length ?l"
  then have i: "i < length (outbox db)" by (simp add: update_where_def)
  obtain n' where n': "n' = outbox_handed db" "n' \<le> length (outbox db)"
    and fl: "map ob_published (outbox db) = replicate n' True @ replicate (length (outbox db) - n') False"
    by (rule outbox_okE [OF assms(1)])
  have inj: "i' = k" if "i' < length (outbox db)" "k < length (outbox db)" "ob_id (outbox db ! i') = ob_id (outbox db ! k)" for i' k
  proof -
    have "distinct (map ob_id (outbox db))" using outbox_sorted [OF assms(1)] by (simp only: strict_sorted_iff)
    then show ?thesis using that nth_eq_iff_index_eq [of "map ob_id (outbox db)" i' k] by simp
  qed
  have pub: "ob_published (outbox db ! i) \<longleftrightarrow> i < n"
    using arg_cong [OF fl, of "\<lambda>xs. xs ! i"] i n' assms(2) by (simp add: nth_append)
  have mem: "ob_id (outbox db ! i) \<in> set ids \<longleftrightarrow> n \<le> i \<and> i < n + j"
  proof
    assume "ob_id (outbox db ! i) \<in> set ids"
    then obtain k where "k < j" "ob_id (outbox db ! i) = ob_id (outbox db ! (n + k))"
      using assms(3) unfolding assms(4) by (auto simp: in_set_conv_nth)
    then show "n \<le> i \<and> i < n + j" using inj [of i "n + k"] i assms(3) by simp
  next
    assume i': "n \<le> i \<and> i < n + j"
    then have "i - n < j" by linarith
    then have "outbox db ! i = take j (drop n (outbox db)) ! (i - n)" "i - n < length (take j (drop n (outbox db)))"
      using assms(3) i i' by simp_all
    then show "ob_id (outbox db ! i) \<in> set ids" unfolding assms(4) by (metis image_eqI list.set_map nth_mem)
  qed
  have same: "(outbox db ! i)\<lparr>ob_published := True\<rparr> = outbox db ! i" if "i < n" using that pub by simp
  show "?l ! i = ?r ! i"
    using i assms(3) same by (cases "i < n") (simp_all add: update_where_def nth_append mem)
qed

lemma rowEvent_published [simp]: "rowEvent (r\<lparr>ob_published := b\<rparr>) = rowEvent r"
  by (simp add: rowEvent_def)

lemma mark_ok:
  assumes "outbox_ok db" and "n = outbox_handed db" and "n + j \<le> length (outbox db)"
    and db': "outbox db' = map (\<lambda>r. r\<lparr>ob_published := True\<rparr>) (take (n + j) (outbox db)) @ drop (n + j) (outbox db)"
  shows "outbox_ok db'" and "outbox_events db' = outbox_events db" and "outbox_handed db' = n + j"
proof -
  have ids: "map ob_id (outbox db') = map ob_id (outbox db)" and keys: "map (\<lambda>r. (ob_game r, ob_ply r)) (outbox db') = map (\<lambda>r. (ob_game r, ob_ply r)) (outbox db)"
    and ev: "map rowEvent (outbox db') = map rowEvent (outbox db)"
    unfolding db' by (simp_all add: comp_def flip: take_map drop_map)
  show "outbox_events db' = outbox_events db" by (simp add: outbox_events_def ev)
  obtain n' where n': "n' = outbox_handed db" "n' \<le> length (outbox db)"
    "map ob_published (outbox db) = replicate n' True @ replicate (length (outbox db) - n') False"
    by (rule outbox_okE [OF assms(1)])
  have "map ob_published (drop (n + j) (outbox db)) = replicate (length (outbox db) - (n + j)) False"
    using n' assms(2) by (simp flip: drop_map)
  then have fl: "map ob_published (outbox db') = replicate (n + j) True @ replicate (length (outbox db') - (n + j)) False"
    unfolding db' using assms(3) by (simp add: comp_def map_replicate_const)
  have "length (outbox db') = length (outbox db)" using arg_cong [OF ids, of length] by simp
  then show "outbox_handed db' = n + j" using flags_split(1) [OF fl] assms(3) by (simp add: outbox_handed_def)
  have "ob_ply ` set (outbox db') = ob_ply ` set (outbox db)"
    using arg_cong [OF keys, of "\<lambda>xs. snd ` set xs"] by (simp add: image_image)
  then have "\<forall>r \<in> set (outbox db'). int64_range (ob_ply r)" using assms(1) by (force simp: outbox_ok_def)
  then show "outbox_ok db'" using assms(1) fl \<open>length (outbox db') = length (outbox db)\<close> unfolding outbox_ok_def ids keys by auto
qed

interpretation relay_src: outbox_source "FetchUnpublished up" "MarkPublished up'" outbox_events outbox_handed outbox_ok
  for up up'
proof
  fix s :: DB and rows e j r s'
  assume ok: "outbox_ok s"
  show "map rowEvent rows = take (nat relay_batch) (drop (outbox_handed s) (outbox_events s))" if "FetchUnpublished up relay_batch s = Inr rows"
    using fetch_rows [OF ok that] by (simp add: outbox_events_def take_map drop_map)
  show "int64_range (ev_Ply e)" if "e \<in> set (outbox_events s)" using that ok by (auto simp: outbox_events_def outbox_ok_def rowEvent_def)
  show "distinct (map ev_key (outbox_events s))" using ok by (simp add: outbox_events_def outbox_ok_def rowEvent_def comp_def)
  show "outbox_ok s' \<and> outbox_events s' = outbox_events s \<and>
      outbox_handed s' = (if r = Inr () then outbox_handed s + min j (length rows) else outbox_handed s)"
    if f: "FetchUnpublished up relay_batch s = Inr rows" and m: "MarkPublished up' (map ob_id (take j rows)) s = (r, s')"
  proof -
    let ?n = "outbox_handed s" and ?j = "min j (length rows)"
    have rows: "rows = take (nat relay_batch) (drop ?n (outbox s))" by (rule fetch_rows [OF ok f])
    have tj: "take j rows = take ?j (drop ?n (outbox s))" using rows by (auto simp: min_def)
    have "?n \<le> length (outbox s)" by (simp add: outbox_handed_def)
    then have le: "?n + ?j \<le> length (outbox s)" using rows by auto
    show ?thesis
    proof (cases "take j rows = []")
      case True
      then show ?thesis using m ok by (auto simp: MarkPublished_def)
    next
      case False
      show ?thesis
      proof (cases up')
        case True
        have "map ob_id (take j rows) \<noteq> []" using False by (simp only: map_is_Nil_conv) simp
        then have "r = Inr ()" "s' = s\<lparr>outbox := update_where (\<lambda>r. ob_id r \<in> set (map ob_id (take ?j (drop ?n (outbox s)))))
            (\<lambda>r. r\<lparr>ob_published := True\<rparr>) (outbox s)\<rparr>"
          using m True unfolding MarkPublished_def tj [symmetric] by (simp_all only: if_False if_True simp_thms prod.inject)
        then show ?thesis using mark_ok [OF ok refl le, of s'] mark_rows [OF ok refl le refl] by simp
      qed (use m ok False in \<open>auto simp: MarkPublished_def\<close>)
    qed
  qed
qed

section \<open>Moves and relay together\<close>

text \<open>The relay's loop: one cycle for each element of the list, until the context ends.\<close>

fun Relay_Run :: "bool \<Rightarrow> (bool \<times> bool \<times> (nat \<Rightarrow> XAddReply)) list \<Rightarrow> DB \<Rightarrow> RedisLog \<Rightarrow> DB \<times> RedisLog" where
  "Relay_Run enabled [] db rl = (db, rl)"
| "Relay_Run enabled ((up, up', xadd) # rounds) db rl =
     (if \<not> enabled then (db, rl)
      else case drainOnce (FetchUnpublished up) (MarkPublished up') xadd db rl of
             (n, failed, db, rl) \<Rightarrow> Relay_Run enabled rounds db rl)"

inductive relay_reach :: "DB \<times> RedisLog \<Rightarrow> bool" where
  rr_init: "outbox db = [] \<Longrightarrow> relay_reach (db, [])"
| rr_move: "relay_reach (db, rl) \<Longrightarrow> AppendMove up gid m st er en now db = (r, db') \<Longrightarrow> int64_range (Ply m) \<Longrightarrow> relay_reach (db', rl)"
| rr_other: "relay_reach (db, rl) \<Longrightarrow> outbox db' = outbox db \<Longrightarrow> relay_reach (db', rl)"
| rr_drain: "relay_reach (db, rl) \<Longrightarrow> drainOnce (FetchUnpublished up) (MarkPublished up') xadd db rl = (n, failed, db', rl') \<Longrightarrow>
    relay_reach (db', rl')"

text \<open>Entries stand in the stream of their game.\<close>

definition filed :: "RedisLog \<Rightarrow> bool" where
  "filed rl \<longleftrightarrow> (\<forall>(k, m) \<in> set rl. \<exists>e. k = key (ev_GameID e) \<and> xm_Values m = event_fields e \<and> int64_range (ev_Ply e))"

lemma key_inj [simp]: "key g = key h \<longleftrightarrow> g = h"
  by (simp add: key_def)

lemma stream_logged:
  assumes "filed rl"
  shows "map en_Event (stream_decode (streamOf (key gid) rl)) = filter (\<lambda>e. ev_GameID e = gid) (logged rl)"
  using assms
proof (induction rl)
  case (Cons x rl)
  obtain k m where x: "x = (k, m)" by (cases x)
  obtain e where e: "k = key (ev_GameID e)" "decodeEvent (xm_Values m) = Inr e"
    using Cons.prems x decode_fields by (fastforce simp: filed_def)
  have "filed rl" using Cons.prems by (simp add: filed_def)
  then show ?case using Cons.IH x e by (simp add: streamOf_def stream_decode_def logged_def)
qed (simp add: streamOf_def stream_decode_def logged_def)

lemma appendRows_filed:
  assumes "appendRows xadd i rows rl = (p, f, rl')" and "filed rl" and "\<forall>r \<in> set rows. int64_range (ob_ply r)"
  shows "filed rl'"
proof -
  obtain k msgs where m: "rl' = rl @ msgs" "map fst msgs = map (\<lambda>r. key (ob_game r)) (take k rows)"
    "map (\<lambda>m. xm_Values (snd m)) msgs = map (\<lambda>r. event_fields (rowEvent r)) (take k rows)"
    by (rule appendRows_spec [OF assms(1)])
  have "filed msgs" unfolding filed_def
  proof (clarify)
    fix k' m' assume "(k', m') \<in> set msgs"
    then obtain i where i: "i < length msgs" "msgs ! i = (k', m')" by (auto simp: in_set_conv_nth)
    have len: "length msgs = length (take k rows)" using arg_cong [OF m(2), of length] by simp
    let ?r = "take k rows ! i"
    have "k' = key (ob_game ?r)" using arg_cong [OF m(2), of "\<lambda>xs. xs ! i"] i len by simp
    moreover have "xm_Values m' = event_fields (rowEvent ?r)" using arg_cong [OF m(3), of "\<lambda>xs. xs ! i"] i len by simp
    moreover have "?r \<in> set rows" using i len by (metis in_set_takeD nth_mem)
    ultimately show "\<exists>e. k' = key (ev_GameID e) \<and> xm_Values m' = event_fields e \<and> int64_range (ev_Ply e)"
      using assms(3) by (intro exI [of _ "rowEvent ?r"]) (simp add: rowEvent_def)
  qed
  then show ?thesis using assms(2) m(1) by (auto simp: filed_def)
qed

lemma drain_filed:
  assumes "drainOnce (FetchUnpublished up) (MarkPublished up') xadd db rl = (n, f, db', rl')" and "filed rl" and "outbox_ok db"
  shows "filed rl'"
proof (cases "FetchUnpublished up relay_batch db")
  case (Inr rows)
  have "\<forall>r \<in> set rows. int64_range (ob_ply r)"
    using fetch_rows [OF assms(3) Inr] assms(3) by (meson in_set_dropD in_set_takeD outbox_ok_def)
  then show ?thesis using assms(1,2) Inr appendRows_filed
    by (fastforce simp: drainOnce_def Let_def split: if_splits prod.splits sum.splits)
qed (use assms in \<open>simp add: drainOnce_def\<close>)

text \<open>A new move is the last row, unpublished.\<close>

lemma append_outbox:
  assumes "AppendMove up gid m st er en now db = (r, db')" and "outbox_ok db" and "int64_range (Ply m)"
  shows "outbox_ok db' \<and> outbox_handed db' = outbox_handed db \<and> (\<exists>es. outbox_events db' = outbox_events db @ es)"
proof (cases r)
  case (Inl e)
  then have "db' = db" using assms(1) by (auto simp: AppendMove_def split: if_splits)
  then show ?thesis using assms(2) by simp
next
  case (Inr u)
  let ?row = "\<lparr>ob_id = nextOutboxId db, ob_game = gid, ob_ply = Ply m, ob_uci = UCI m, ob_fen_after = FENAfter m,
                ob_status = st, ob_end_reason = er, ob_ended = en, ob_published = False\<rparr>"
  have o: "outbox db' = outbox db @ [?row]" and new: "\<forall>r \<in> set (outbox db). \<not> (ob_game r = gid \<and> ob_ply r = Ply m)"
    using assms(1) Inr by (auto simp: AppendMove_def list_ex_iff split: if_splits)
  obtain n where n: "n \<le> length (outbox db)" "map ob_published (outbox db) = replicate n True @ replicate (length (outbox db) - n) False"
    by (rule outbox_okE [OF assms(2)])
  have "map ob_published (outbox db') = replicate n True @ replicate (length (outbox db') - n) False"
    using n by (simp add: o Suc_diff_le replicate_app_Cons_same replicate_append_same)
  moreover have "map ob_id (outbox db') = [1..int (length (outbox db'))]"
    using assms(2) upto_rec2 [of 1 "int (length (outbox db)) + 1"] by (simp add: o outbox_ok_def nextOutboxId_def add.commute)
  ultimately have "outbox_ok db'" using assms(2,3) new unfolding outbox_ok_def by (auto simp: o)
  then show ?thesis by (simp add: o outbox_handed_def outbox_events_def)
qed

lemma in_order_mono: "in_order es n rl \<Longrightarrow> in_order (es @ es') n rl"
  unfolding in_order_def by (metis append_Nil2 diff_is_0_eq' le_add1 le_trans length_append take0 take_append)

lemma relay_reach_ok:
  "relay_reach (db, rl) \<Longrightarrow> outbox_ok db \<and> filed rl \<and> in_order (outbox_events db) (outbox_handed db) rl"
proof (induction "(db, rl)" arbitrary: db rl rule: relay_reach.induct)
  case (rr_init db)
  then show ?case
    by (simp add: outbox_ok_def filed_def in_order_def outbox_handed_def outbox_events_def logged_def stream_decode_def)
next
  case (rr_move db rl up gid m st er en now r db')
  then show ?case using append_outbox [OF rr_move(3)] in_order_mono [of "outbox_events db" "outbox_handed db" rl] by auto
next
  case (rr_other db rl db')
  then show ?case by (simp add: outbox_ok_def outbox_handed_def outbox_events_def)
next
  case (rr_drain db rl up up' xadd n failed db' rl')
  then have ok: "outbox_ok db" "in_order (outbox_events db) (outbox_handed db) rl" "filed rl" by blast+
  have "outbox_handed db \<le> length (outbox_events db)" by (simp add: outbox_handed_def outbox_events_def)
  note k = relay_src.drain_keeps [OF ok(1,2) rr_drain(3) this]
  show ?case using k(1-3) drain_filed [OF rr_drain(3) ok(3,1)] by simp
qed

lemma drain_good:
  assumes "outbox_ok db" and "\<And>i. \<exists>x. xadd i = Added x" and "drainOnce (FetchUnpublished True) (MarkPublished True) xadd db rl = (n, failed, db', rl')"
  shows "\<not> failed"
proof -
  have "fst (snd (appendRows xadd i rows rl)) = False" for i rows rl
  proof (induction rows arbitrary: i rl)
    case (Cons row rows)
    obtain x where "xadd i = Added x" using assms(2) by blast
    then show ?case using Cons.IH by (simp add: Stream_Append_def Let_def case_prod_beta)
  qed simp
  then have "appendRows xadd i rows rl \<noteq> (p, True, rl')" for i rows rl p rl' by (metis fst_conv snd_conv)
  then show ?thesis using assms(3)
    by (auto simp: drainOnce_def FetchUnpublished_def MarkPublished_def relay_batch_def Let_def split: if_splits prod.splits)
qed

lemma Run_good:
  assumes "outbox_ok db" and "in_order (outbox_events db) (outbox_handed db) rl"
    and "\<forall>(up, up', xadd) \<in> set rounds. up \<and> up' \<and> (\<forall>i. \<exists>x. xadd i = Added x)"
    and "Relay_Run True rounds db rl = (db', rl')"
  shows "outbox_ok db' \<and> outbox_events db' = outbox_events db \<and> in_order (outbox_events db) (outbox_handed db') rl' \<and>
    outbox_handed db' = min (outbox_handed db + 200 * length rounds) (length (outbox_events db))"
  using assms
proof (induction rounds arbitrary: db rl)
  case Nil
  then show ?case by (auto simp: outbox_handed_def outbox_events_def)
next
  case (Cons r rounds)
  obtain xadd where r: "r = (True, True, xadd)" "\<And>i. \<exists>x. xadd i = Added x"
    using Cons.prems(3) by (cases r) auto
  obtain n f db1 rl1 where d: "drainOnce (FetchUnpublished True) (MarkPublished True) xadd db rl = (n, f, db1, rl1)"
    by (metis prod.collapse)
  have "outbox_handed db \<le> length (outbox_events db)" by (simp add: outbox_handed_def outbox_events_def)
  note k = relay_src.drain_keeps [OF Cons.prems(1,2) d this]
  have "\<not> f" by (rule drain_good [OF Cons.prems(1) r(2) d])
  have IH: "outbox_ok db' \<and> outbox_events db' = outbox_events db1 \<and> in_order (outbox_events db1) (outbox_handed db') rl' \<and>
    outbox_handed db' = min (outbox_handed db1 + 200 * length rounds) (length (outbox_events db1))"
    by (rule Cons.IH) (use k Cons.prems(3,4) r(1) d in auto)
  then show ?case using k(2) k(5) [OF \<open>\<not> f\<close>] by (auto simp: relay_batch_def)
qed

section \<open>Properties\<close>

text \<open>
  Whatever the order of writes and relay cycles, and with any failure of the database or of Redis, the events
  of a game's stream, when a reader ignores a ply it has seen, are the announcements of the game in
  the order of the outbox, without a gap, up to a point that covers every row marked as published.
\<close>

lemma stream_announces:
  assumes "relay_reach (db, rl)"
  shows "\<exists>m. outbox_handed db \<le> m \<and> m \<le> length (outbox db) \<and>
     firsts {} (map en_Event (stream_decode (streamOf (key gid) rl))) =
       filter (\<lambda>e. ev_GameID e = gid) (map rowEvent (take m (outbox db)))"
proof -
  have ok: "outbox_ok db" "filed rl" "in_order (outbox_events db) (outbox_handed db) rl" using relay_reach_ok [OF assms] by blast+
  obtain m where m: "outbox_handed db \<le> m" "m \<le> length (outbox db)" "firsts {} (logged rl) = take m (outbox_events db)"
    using ok(3) by (auto simp: in_order_def outbox_events_def)
  have "firsts {} (map en_Event (stream_decode (streamOf (key gid) rl))) = filter (\<lambda>e. ev_GameID e = gid) (firsts {} (logged rl))"
    using firsts_filter [of "{}" gid "logged rl"] by (simp add: stream_logged [OF ok(2)])
  then show ?thesis using m by (auto simp: outbox_events_def take_map)
qed

definition demoPlayed :: DB where
  "demoPlayed = snd (AppendMove True ''g1'' \<lparr>Ply = 1, UCI = ''e2e4'', FENAfter = ''f''\<rparr> ''IN_PROGRESS'' '''' False 6 demoGame)"

definition demoLog :: RedisLog where
  "demoLog = snd (snd (snd (drainOnce (FetchUnpublished True) (MarkPublished False) (\<lambda>_. Added ''1-0'') demoPlayed [])))"

lemma demo_relay: "relay_reach (demoPlayed, demoLog)"
proof -
  have "relay_reach (demoGame, [])" by (rule relay_reach.rr_init) (simp add: demoGame_def demoUsers_def)
  moreover have "AppendMove True ''g1'' \<lparr>Ply = 1, UCI = ''e2e4'', FENAfter = ''f''\<rparr> ''IN_PROGRESS'' '''' False 6 demoGame = (Inr (), demoPlayed)"
    by (simp add: demoPlayed_def AppendMove_def demo_find) (simp add: demoGame_def demoUsers_def)
  ultimately have p: "relay_reach (demoPlayed, [])" by (rule relay_reach.rr_move) (simp add: int64_range_def)
  have "drainOnce (FetchUnpublished True) (MarkPublished False) (\<lambda>_. Added ''1-0'') demoPlayed [] = (1, True, demoPlayed, demoLog)"
    by (simp add: demoLog_def demoPlayed_def AppendMove_def demo_find)
      (simp add: demoGame_def demoUsers_def drainOnce_def FetchUnpublished_def MarkPublished_def relay_batch_def Stream_Append_def Let_def)
  then show ?thesis by (rule relay_reach.rr_drain [OF p])
qed

lemma Run_reach: "relay_reach (db, rl) \<Longrightarrow> Relay_Run en rounds db rl = (db', rl') \<Longrightarrow> relay_reach (db', rl')"
proof (induction rounds arbitrary: db rl)
  case (Cons r rounds)
  obtain up up' xadd where r: "r = (up, up', xadd)" by (metis prod_cases3)
  obtain n f db1 rl1 where d: "drainOnce (FetchUnpublished up) (MarkPublished up') xadd db rl = (n, f, db1, rl1)"
    by (metis prod.collapse)
  show ?case
  proof (cases en)
    case True
    then show ?thesis using Cons.IH [OF relay_reach.rr_drain [OF Cons.prems(1) d]] Cons.prems(2) r d by simp
  qed (use Cons.prems r in simp)
qed simp

text \<open>
  C33. The relay catches up: when the database and Redis answer, as many cycles as there are
  batches of 200 waiting rows are enough for every row to be marked as published, and then the stream
  of every game, when a reader ignores a ply it has seen, has the events of exactly that game's rows, in
  the order of the outbox.
\<close>

theorem relay_catches_up:
  assumes "relay_reach (db, rl)" and "length (filter (\<lambda>r. \<not> ob_published r) (outbox db)) \<le> 200 * length rounds"
    and "\<forall>(up, up', xadd) \<in> set rounds. up \<and> up' \<and> (\<forall>i. \<exists>x. xadd i = Added x)"
  shows "\<exists>db' rl'. Relay_Run True rounds db rl = (db', rl') \<and> (\<forall>r \<in> set (outbox db'). ob_published r) \<and>
     map rowEvent (outbox db') = map rowEvent (outbox db) \<and>
     (\<forall>gid. firsts {} (map en_Event (stream_decode (streamOf (key gid) rl'))) =
        map rowEvent (filter (\<lambda>r. ob_game r = gid) (outbox db)))"
proof -
  obtain db' rl' where run: "Relay_Run True rounds db rl = (db', rl')" by fastforce
  have "outbox_ok db" "in_order (outbox_events db) (outbox_handed db) rl" using relay_reach_ok [OF assms(1)] by blast+
  then have k: "outbox_ok db'" "outbox_events db' = outbox_events db"
    "outbox_handed db' = min (outbox_handed db + 200 * length rounds) (length (outbox_events db))"
    using Run_good [OF _ _ assms(3) run] by blast+
  have "outbox_handed db + length (filter (\<lambda>r. \<not> ob_published r) (outbox db)) = length (outbox db)"
    unfolding outbox_handed_def by (rule sum_length_filter_compl)
  then have all: "outbox_handed db' = length (outbox_events db)" using k(3) assms(2) by (simp add: outbox_events_def)
  have len: "length (outbox db') = length (outbox_events db)" using arg_cong [OF k(2), of length] by (simp add: outbox_events_def)
  then have pub: "\<forall>r \<in> set (outbox db'). ob_published r" using all unfolding outbox_handed_def by (metis length_filter_less nat_neq_iff)
  have "firsts {} (map en_Event (stream_decode (streamOf (key gid) rl'))) = map rowEvent (filter (\<lambda>r. ob_game r = gid) (outbox db))" for gid
  proof -
    obtain m where m: "outbox_handed db' \<le> m" "firsts {} (map en_Event (stream_decode (streamOf (key gid) rl'))) =
        filter (\<lambda>e. ev_GameID e = gid) (map rowEvent (take m (outbox db')))"
      using stream_announces [OF Run_reach [OF assms(1) run]] by blast
    then have "take m (outbox db') = outbox db'" using all len by simp
    moreover have "map rowEvent (outbox db') = map rowEvent (outbox db)" using k(2) by (simp add: outbox_events_def)
    moreover have "filter (\<lambda>e. ev_GameID e = gid) (map rowEvent (outbox db)) = map rowEvent (filter (\<lambda>r. ob_game r = gid) (outbox db))"
      by (simp add: filter_map comp_def rowEvent_def)
    ultimately show ?thesis using m(2) by (simp only:)
  qed
  then show ?thesis using run pub k(2) by (auto simp: outbox_events_def)
qed

theorem relay_catches_up_witness:
  "\<exists>db' rl'. Relay_Run True [(True, True, \<lambda>_. Added ''1-0'')] demoPlayed demoLog = (db', rl') \<and> (\<forall>r \<in> set (outbox db'). ob_published r) \<and>
     firsts {} (map en_Event (stream_decode (streamOf (key ''g1'') rl'))) = map rowEvent (filter (\<lambda>r. ob_game r = ''g1'') (outbox demoPlayed))"
proof -
  have "length (outbox demoPlayed) \<le> 1"
    by (simp add: demoPlayed_def AppendMove_def demo_find) (simp add: demoGame_def demoUsers_def)
  then have "length (filter (\<lambda>r. \<not> ob_published r) (outbox demoPlayed)) \<le> 200 * length [(True, True, \<lambda>_ :: nat. Added ''1-0'')]"
    using length_filter_le [of "\<lambda>r. \<not> ob_published r" "outbox demoPlayed"] by (simp del: length_filter_le)
  from relay_catches_up [OF demo_relay this] show ?thesis by auto
qed

text \<open>
  An event survives its stream: the fields written for an event decode to that event, for every
  ply in the range of a Go integer.
\<close>

theorem event_roundtrip: "int64_range (ev_Ply e) \<Longrightarrow> decodeEvent (event_fields e) = Inr e"
  by (rule decode_fields)

theorem event_roundtrip_witness:
  "decodeEvent (event_fields (rowEvent \<lparr>ob_id = 1, ob_game = ''g'', ob_ply = 12, ob_uci = ''e2e4'', ob_fen_after = ''f'', ob_status = ''s'',
      ob_end_reason = '''', ob_ended = True, ob_published = False\<rparr>)) =
   Inr \<lparr>ev_GameID = ''g'', ev_Ply = 12, ev_UCI = ''e2e4'', ev_FENAfter = ''f'', ev_Status = ''s'', ev_EndReason = '''', ev_Ended = True\<rparr>"
  by (subst event_roundtrip) (simp_all add: rowEvent_def int64_range_def)

end
