(* ===== verification/Fanout.thy ===== *)
theory Fanout
  imports Event_Log
begin

text \<open>
  Spectator fanout (\<open>services/fanout/internal/hub\<close>: \<open>hub.go\<close>, \<open>manager.go\<close>).  A hub keeps the
  history of one game and one buffered channel per spectator; every operation holds the hub's
  lock, so operations are atomic and their interleavings are the runs of \<open>hub_step\<close>.  A spectator
  object outlives its registration (the connection still holds it), hence the flag \<open>sb_in\<close>.
  \<open>sb_from\<close>, \<open>sb_at\<close> and \<open>sb_got\<close> are history variables: the request, the length of the history at
  that moment and what the connection has taken from the channel.
\<close>

section \<open>Deltas and subscribers\<close>

record Delta =
  dl_ID :: string
  dl_Ply :: int
  dl_UCI :: string
  dl_FEN :: string
  dl_Status :: string
  dl_EndReason :: string
  dl_Ended :: bool

definition deltaFrom :: "Entry \<Rightarrow> Delta" where
  "deltaFrom e =
     \<lparr>dl_ID = en_ID e, dl_Ply = ev_Ply (en_Event e), dl_UCI = ev_UCI (en_Event e), dl_FEN = ev_FENAfter (en_Event e),
      dl_Status = ev_Status (en_Event e), dl_EndReason = ev_EndReason (en_Event e), dl_Ended = ev_Ended (en_Event e)\<rparr>"

definition sendBuffer :: nat where
  "sendBuffer = 256"

record Sub =
  sb_Initial :: "Delta list"
  sb_ch :: "Delta list"
  sb_kicked :: bool
  sb_in :: bool
  sb_from :: string
  sb_at :: nat
  sb_got :: "Delta list"

record Hub =
  hb_gameID :: string
  hb_history :: "Delta list"
  hb_subs :: "(nat \<times> Sub) list"
  hb_cancelled :: bool

text \<open>Go compares strings byte by byte.\<close>

fun str_less :: "string \<Rightarrow> string \<Rightarrow> bool" where
  "str_less s [] = False"
| "str_less [] (c # cs) = True"
| "str_less (a # as) (c # cs) = ((of_char a :: nat) < of_char c \<or> a = c \<and> str_less as cs)"

definition filterAfter :: "Delta list \<Rightarrow> string \<Rightarrow> Delta list" where
  "filterAfter history frm =
     (if frm = '''' then history else filter (\<lambda>d. str_less frm (dl_ID d)) history)"

section \<open>Operations of a hub\<close>

definition attach :: "nat \<Rightarrow> string \<Rightarrow> Hub \<Rightarrow> Hub" where
  "attach i frm h =
     h\<lparr>hb_subs := (i, \<lparr>sb_Initial = filterAfter (hb_history h) frm, sb_ch = [], sb_kicked = False, sb_in = True,
                     sb_from = frm, sb_at = length (hb_history h), sb_got = []\<rparr>) # hb_subs h\<rparr>"

definition isEmptyHub :: "Hub \<Rightarrow> bool" where
  "isEmptyHub h \<longleftrightarrow> \<not> list_ex (\<lambda>(i, s). sb_in s) (hb_subs h)"

definition detach :: "nat \<Rightarrow> Hub \<Rightarrow> bool \<times> Hub" where
  "detach i h =
     (let h = h\<lparr>hb_subs := map (\<lambda>(k, s). (k, if k = i then s\<lparr>sb_in := False\<rparr> else s)) (hb_subs h)\<rparr>
      in (isEmptyHub h, h))"

definition deliver :: "Delta \<Rightarrow> Sub \<Rightarrow> Sub" where
  "deliver d s =
     (if \<not> sb_in s then s
      else if length (sb_ch s) < sendBuffer then s\<lparr>sb_ch := sb_ch s @ [d]\<rparr>
      else s\<lparr>sb_in := False, sb_kicked := True\<rparr>)"

definition broadcast :: "Delta \<Rightarrow> Hub \<Rightarrow> Hub" where
  "broadcast d h = h\<lparr>hb_history := hb_history h @ [d], hb_subs := map (\<lambda>(i, s). (i, deliver d s)) (hb_subs h)\<rparr>"

text \<open>A connection takes the next delta from its channel.\<close>

definition receive :: "nat \<Rightarrow> Hub \<Rightarrow> Hub" where
  "receive i h =
     h\<lparr>hb_subs := map (\<lambda>(k, s). (k, if k = i \<and> sb_ch s \<noteq> [] then s\<lparr>sb_ch := tl (sb_ch s), sb_got := sb_got s @ [hd (sb_ch s)]\<rparr> else s))
        (hb_subs h)\<rparr>"

definition loadHistory :: "bool \<Rightarrow> (string \<Rightarrow> string \<Rightarrow> XMessage list option) \<Rightarrow> Hub \<Rightarrow> string \<times> Hub" where
  "loadHistory enabled xrange h =
     (case Replay enabled xrange (hb_gameID h) '''' of
        Inl _ \<Rightarrow> (''0'', h)
      | Inr entries \<Rightarrow>
          (if entries = [] then ''0'' else en_ID (last entries), h\<lparr>hb_history := hb_history h @ map deltaFrom entries\<rparr>))"

text \<open>One turn of the reading loop: the last identifier and the hub afterwards.\<close>

definition readTurn :: "(string \<Rightarrow> string \<Rightarrow> XMessage list option) \<Rightarrow> string \<Rightarrow> Hub \<Rightarrow> string \<times> Hub" where
  "readTurn xread lastID h =
     (case Stream_Read True xread (hb_gameID h) lastID of
        Inl _ \<Rightarrow> (lastID, h)
      | Inr entries \<Rightarrow> (if entries = [] then lastID else en_ID (last entries), fold broadcast (map deltaFrom entries) h))"

section \<open>Runs of a hub\<close>

inductive hub_step :: "Hub \<Rightarrow> Hub \<Rightarrow> bool" where
  hs_attach: "i \<notin> fst ` set (hb_subs h) \<Longrightarrow> hub_step h (attach i f h)"
| hs_detach: "hub_step h (snd (detach i h))"
| hs_broadcast: "hub_step h (broadcast d h)"
| hs_receive: "hub_step h (receive i h)"

text \<open>What a subscriber has been sent, against the history of the hub.\<close>

definition sub_ok :: "Delta list \<Rightarrow> Sub \<Rightarrow> bool" where
  "sub_ok hist s \<longleftrightarrow> sb_at s \<le> length hist \<and> sb_Initial s = filterAfter (take (sb_at s) hist) (sb_from s) \<and>
     length (sb_ch s) \<le> sendBuffer \<and> (sb_kicked s \<longrightarrow> \<not> sb_in s) \<and>
     (\<exists>n. sb_got s @ sb_ch s = take n (drop (sb_at s) hist)) \<and>
     (sb_in s \<longrightarrow> sb_got s @ sb_ch s = drop (sb_at s) hist)"

definition hub_ok :: "Hub \<Rightarrow> bool" where
  "hub_ok h \<longleftrightarrow> distinct (map fst (hb_subs h)) \<and> (\<forall>(i, s) \<in> set (hb_subs h). sub_ok (hb_history h) s)"

lemma sub_ok_deliver:
  assumes "sub_ok hist s"
  shows "sub_ok (hist @ [d]) (deliver d s)"
proof -
  obtain n where n: "sb_got s @ sb_ch s = take n (drop (sb_at s) hist)" using assms by (auto simp: sub_ok_def)
  have "take n (drop (sb_at s) hist) = take (min n (length hist - sb_at s)) (drop (sb_at s) (hist @ [d]))"
    using assms by (cases "n \<le> length hist - sb_at s") (auto simp: sub_ok_def min_def)
  then have pre: "\<exists>n. sb_got s @ sb_ch s = take n (drop (sb_at s) (hist @ [d]))" using n by metis
  have "sb_in s \<Longrightarrow> (sb_got s @ sb_ch s) @ [d] = drop (sb_at s) (hist @ [d])" using assms by (simp add: sub_ok_def)
  then have full: "sb_in s \<Longrightarrow> sb_got s @ sb_ch s @ [d] = drop (sb_at s) (hist @ [d]) \<and>
      (\<exists>n. sb_got s @ sb_ch s @ [d] = take n (drop (sb_at s) (hist @ [d])))" by (metis append.assoc append_self_conv take_all_iff nle_le)
  show ?thesis using assms pre full unfolding deliver_def by (auto simp: sub_ok_def)
qed

lemma sub_ok_receive:
  "sub_ok hist s \<Longrightarrow> sb_ch s \<noteq> [] \<Longrightarrow> sub_ok hist (s\<lparr>sb_ch := tl (sb_ch s), sb_got := sb_got s @ [hd (sb_ch s)]\<rparr>)"
  by (cases "sb_ch s") (auto simp: sub_ok_def)

lemma hub_ok_step: "hub_step h h' \<Longrightarrow> hub_ok h \<Longrightarrow> hub_ok h'"
proof (induction rule: hub_step.induct)
  case (hs_attach i h f)
  then show ?case by (auto simp: hub_ok_def attach_def sub_ok_def)
next
  case (hs_detach h i)
  then show ?case by (auto simp: hub_ok_def detach_def Let_def comp_def case_prod_beta sub_ok_def)
next
  case (hs_broadcast h d)
  then show ?case by (auto simp: hub_ok_def broadcast_def comp_def case_prod_beta intro: sub_ok_deliver)
next
  case (hs_receive h i)
  then show ?case by (auto simp: hub_ok_def receive_def comp_def case_prod_beta intro: sub_ok_receive)
qed

inductive hub_reach :: "Hub \<Rightarrow> bool" where
  hr_new: "hb_subs h = [] \<Longrightarrow> hub_reach h"
| hr_step: "hub_reach h \<Longrightarrow> hub_step h h' \<Longrightarrow> hub_reach h'"

lemma hub_reach_ok: "hub_reach h \<Longrightarrow> hub_ok h"
proof (induction rule: hub_reach.induct)
  case (hr_new h)
  then show ?case by (simp add: hub_ok_def)
qed (rule hub_ok_step)

section \<open>Following the stream\<close>

text \<open>
  Redis identifies an entry by two numbers, milliseconds and a sequence number, written with a dash in between;
  without the second part it is 0.  A stream is sorted by identifier, the first that it gives is
  0-1, and \<open>XREAD\<close> from an identifier returns the entries with greater ones, up to the count.
\<close>

definition idNum :: "string \<Rightarrow> int \<times> int" where
  "idNum s = (digits_val (takeWhile (\<lambda>c. c \<noteq> CHR ''-'') s), digits_val (drop 1 (dropWhile (\<lambda>c. c \<noteq> CHR ''-'') s)))"

definition idBefore :: "string \<Rightarrow> string \<Rightarrow> bool" where
  "idBefore i j \<longleftrightarrow> fst (idNum i) < fst (idNum j) \<or> fst (idNum i) = fst (idNum j) \<and> snd (idNum i) < snd (idNum j)"

definition stream_sorted :: "XMessage list \<Rightarrow> bool" where
  "stream_sorted msgs \<longleftrightarrow> sorted_wrt (\<lambda>m m'. idBefore (xm_ID m) (xm_ID m')) msgs \<and> (\<forall>m \<in> set msgs. idBefore ''0'' (xm_ID m))"

definition xread_law :: "XMessage list \<Rightarrow> (string \<Rightarrow> XMessage list option) \<Rightarrow> bool" where
  "xread_law msgs xread \<longleftrightarrow>
     (\<forall>l. l = ''0'' \<or> l \<in> xm_ID ` set msgs \<longrightarrow> xread l = Some (take 128 (filter (\<lambda>m. idBefore l (xm_ID m)) msgs)))"

lemma idNum_0: "idNum ''0'' = (0, 0)" "idNum '''' = (0, 0)"
  by code_simp+

lemma idBefore_empty: "\<not> idBefore ''0'' ''''"
  by (simp add: idBefore_def idNum_0)

lemma idBefore_asym: "idBefore i j \<Longrightarrow> \<not> idBefore j i" "\<not> idBefore i i"
  unfolding idBefore_def by linarith+

lemma after_start: "stream_sorted msgs \<Longrightarrow> filter (\<lambda>m. idBefore ''0'' (xm_ID m)) msgs = msgs"
  by (simp add: stream_sorted_def filter_id_conv)

lemma after_nth:
  assumes "stream_sorted msgs" and "k < length msgs"
  shows "filter (\<lambda>m. idBefore (xm_ID (msgs ! k)) (xm_ID m)) msgs = drop (Suc k) msgs"
proof -
  let ?P = "\<lambda>m. idBefore (xm_ID (msgs ! k)) (xm_ID m)"
  have s: "sorted_wrt (\<lambda>m m'. idBefore (xm_ID m) (xm_ID m')) (take k msgs @ msgs ! k # drop (Suc k) msgs)"
    using assms(1) unfolding stream_sorted_def id_take_nth_drop [OF assms(2), symmetric] by simp
  have "\<forall>m \<in> set (take k msgs). idBefore (xm_ID m) (xm_ID (msgs ! k))" using s by (simp add: sorted_wrt_append)
  then have "\<forall>m \<in> set (take k msgs @ [msgs ! k]). \<not> ?P m" using idBefore_asym by auto
  moreover have "\<forall>m \<in> set (drop (Suc k) msgs). ?P m" using s by (simp add: sorted_wrt_append)
  ultimately have "filter ?P ((take k msgs @ [msgs ! k]) @ drop (Suc k) msgs) = drop (Suc k) msgs"
    unfolding filter_append by (simp add: filter_empty_conv filter_id_conv)
  then show ?thesis using id_take_nth_drop [OF assms(2)] by simp
qed

lemma stream_ids:
  assumes "stream_sorted msgs" and "m \<in> set msgs"
  shows "xm_ID m \<noteq> ''''"
proof
  assume "xm_ID m = ''''"
  moreover have "idBefore ''0'' (xm_ID m)" using assms unfolding stream_sorted_def by blast
  ultimately show False by (simp only: idBefore_empty)
qed

definition decodable :: "XMessage list \<Rightarrow> bool" where
  "decodable msgs \<longleftrightarrow> list_all (\<lambda>m. \<exists>e. decodeEvent (xm_Values m) = Inr e) msgs"

lemma stream_decode_append: "stream_decode (xs @ ys) = stream_decode xs @ stream_decode ys"
  by (simp add: stream_decode_def)

lemma decode_ids: "decodable msgs \<Longrightarrow> map en_ID (stream_decode msgs) = map xm_ID msgs"
  by (induction msgs) (auto simp: decodable_def stream_decode_def)

text \<open>A hub that has read the first \<open>k\<close> messages, and the identifier it goes on from.\<close>

definition tracks :: "XMessage list \<Rightarrow> nat \<Rightarrow> string \<Rightarrow> Hub \<Rightarrow> bool" where
  "tracks msgs k lastID h \<longleftrightarrow> k \<le> length msgs \<and> hb_history h = map deltaFrom (stream_decode (take k msgs)) \<and>
     lastID = (if k = 0 then ''0'' else xm_ID (msgs ! (k - 1)))"

lemma fold_broadcast: "hb_history (fold broadcast ds h) = hb_history h @ ds" "hb_gameID (fold broadcast ds h) = hb_gameID h"
  by (induction ds arbitrary: h) (simp_all add: broadcast_def)

lemma last_decoded_id:
  assumes "decodable (take n (drop k msgs))" and "0 < n" and "k + n \<le> length msgs"
  shows "stream_decode (take n (drop k msgs)) \<noteq> []" and "en_ID (last (stream_decode (take n (drop k msgs)))) = xm_ID (msgs ! (k + n - 1))"
proof -
  let ?ms = "take n (drop k msgs)"
  have ids: "map en_ID (stream_decode ?ms) = map xm_ID ?ms" by (rule decode_ids [OF assms(1)])
  have ne: "?ms \<noteq> []" using assms(2,3) by simp
  then show ne': "stream_decode ?ms \<noteq> []" using ids by (metis map_is_Nil_conv)
  have "en_ID (last (stream_decode ?ms)) = last (map xm_ID ?ms)" using ids ne' by (metis last_map)
  also have "\<dots> = xm_ID (msgs ! (k + n - 1))" using ne assms(2,3) by (simp add: last_map last_conv_nth)
  finally show "en_ID (last (stream_decode ?ms)) = xm_ID (msgs ! (k + n - 1))" .
qed

lemma readTurn_tracks:
  assumes "tracks msgs k lastID h" and "stream_sorted msgs" and "decodable msgs"
    and "xread_law msgs (xread (key (hb_gameID h)))" and "readTurn xread lastID h = (lastID', h')"
  shows "tracks msgs (min (k + 128) (length msgs)) lastID' h'" and "hb_gameID h' = hb_gameID h"
proof -
  have k: "k \<le> length msgs" "hb_history h = map deltaFrom (stream_decode (take k msgs))" "lastID = (if k = 0 then ''0'' else xm_ID (msgs ! (k - 1)))"
    using assms(1) by (auto simp: tracks_def)
  have read: "xread (key (hb_gameID h)) lastID = Some (take 128 (drop k msgs))"
  proof (cases k)
    case 0
    then show ?thesis using assms(4) k(3) after_start [OF assms(2)] by (simp add: xread_law_def)
  next
    case (Suc k')
    then have "lastID = xm_ID (msgs ! k')" "k' < length msgs" using k by simp_all
    then show ?thesis using assms(4) after_nth [OF assms(2), of k'] Suc by (simp add: xread_law_def)
  qed
  let ?n = "min 128 (length msgs - k)"
  have new: "take 128 (drop k msgs) = take ?n (drop k msgs)" by (simp add: min_def)
  have "lastID \<noteq> ''''" using k stream_ids [OF assms(2)] by (cases k) auto
  then have r: "readTurn xread lastID h = (if stream_decode (take ?n (drop k msgs)) = [] then lastID else en_ID (last (stream_decode (take ?n (drop k msgs)))),
      fold broadcast (map deltaFrom (stream_decode (take ?n (drop k msgs)))) h)"
    using read unfolding new by (simp add: readTurn_def Stream_Read_def)
  show "hb_gameID h' = hb_gameID h" using r assms(5) by (auto simp: fold_broadcast)
  have hist: "hb_history h' = map deltaFrom (stream_decode (take (k + ?n) msgs))"
    using r assms(5) k(2) by (auto simp: fold_broadcast take_add stream_decode_append)
  have le: "k + ?n = min (k + 128) (length msgs)" using k(1) by linarith
  show "tracks msgs (min (k + 128) (length msgs)) lastID' h'"
  proof (cases "?n = 0")
    case True
    then have "lastID' = lastID" "k = length msgs" using r assms(5) k(1) by (auto simp: stream_decode_def)
    then show ?thesis using hist k le by (simp add: tracks_def)
  next
    case False
    have "decodable (take ?n (drop k msgs))" using assms(3) by (auto simp: decodable_def list_all_iff dest: in_set_takeD in_set_dropD)
    note l = last_decoded_id [OF this]
    have "lastID' = xm_ID (msgs ! (k + ?n - 1))" using l False k(1) r assms(5) by simp
    moreover have "k + ?n \<le> length msgs" "k + ?n \<noteq> 0" using False k(1) by linarith+
    ultimately show ?thesis unfolding tracks_def le [symmetric] using hist by (simp only: if_False simp_thms)
  qed
qed

section \<open>The manager\<close>

text \<open>
  Hubs are objects with an identity: the map of the manager holds identities, \<open>mg_objs\<close> the
  objects, also those no longer registered.  A hub's reading loop runs until the hub is cancelled.
\<close>

record Mgr =
  mg_hubs :: "string \<rightharpoonup> nat"
  mg_objs :: "nat \<rightharpoonup> Hub"

definition newHub :: "string \<Rightarrow> Hub" where
  "newHub gameID = \<lparr>hb_gameID = gameID, hb_history = [], hb_subs = [], hb_cancelled = False\<rparr>"

text \<open>\<open>o\<close> and \<open>i\<close> are the identities of the new hub, if one is made, and of the new subscriber.\<close>

definition Subscribe :: "bool \<Rightarrow> (string \<Rightarrow> string \<Rightarrow> XMessage list option) \<Rightarrow> nat \<Rightarrow> nat \<Rightarrow> string \<Rightarrow> string \<Rightarrow> Mgr \<Rightarrow> Mgr" where
  "Subscribe enabled xrange ob i gameID frm m =
     (case mg_hubs m gameID of
        Some h \<Rightarrow> m\<lparr>mg_objs := (mg_objs m)(h := map_option (attach i frm) (mg_objs m h))\<rparr>
      | None \<Rightarrow>
          let h = snd (loadHistory enabled xrange (newHub gameID))
          in m\<lparr>mg_hubs := (mg_hubs m)(gameID \<mapsto> ob), mg_objs := (mg_objs m)(ob \<mapsto> attach i frm h)\<rparr>)"

text \<open>
  \<open>Unsubscribe\<close> takes the manager's lock twice, with the hub's lock in between: it looks the hub
  up, detaches the subscriber, and, when the hub was then empty, looks again.
\<close>

definition unsubLookup :: "string \<Rightarrow> Mgr \<Rightarrow> nat option" where
  "unsubLookup gameID m = mg_hubs m gameID"

definition unsubDetach :: "nat \<Rightarrow> nat \<Rightarrow> Mgr \<Rightarrow> bool \<times> Mgr" where
  "unsubDetach h i m =
     (case mg_objs m h of
        None \<Rightarrow> (False, m)
      | Some hb \<Rightarrow> let (empt, hb) = detach i hb in (empt, m\<lparr>mg_objs := (mg_objs m)(h \<mapsto> hb)\<rparr>))"

definition unsubClose :: "string \<Rightarrow> nat \<Rightarrow> Mgr \<Rightarrow> Mgr" where
  "unsubClose gameID h m =
     (if mg_hubs m gameID = Some h \<and> (case mg_objs m h of None \<Rightarrow> False | Some hb \<Rightarrow> isEmptyHub hb) then
        m\<lparr>mg_hubs := (mg_hubs m)(gameID := None),
          mg_objs := (mg_objs m)(h := map_option (\<lambda>hb. hb\<lparr>hb_cancelled := True\<rparr>) (mg_objs m h))\<rparr>
      else m)"

definition Unsubscribe :: "string \<Rightarrow> nat \<Rightarrow> Mgr \<Rightarrow> Mgr" where
  "Unsubscribe gameID i m =
     (case unsubLookup gameID m of
        None \<Rightarrow> m
      | Some h \<Rightarrow> let (empt, m) = unsubDetach h i m in if \<not> empt then m else unsubClose gameID h m)"

definition HubCount :: "Mgr \<Rightarrow> nat" where
  "HubCount m = card (dom (mg_hubs m))"

text \<open>
  The critical sections in any order, for any arguments, with the reading loops and the connections
  of all hubs at work.
\<close>

inductive mgr_step :: "Mgr \<Rightarrow> Mgr \<Rightarrow> bool" where
  ms_subscribe: "mg_objs m ob = None \<Longrightarrow> mgr_step m (Subscribe enabled xrange ob i gid f m)"
| ms_detach: "mgr_step m (snd (unsubDetach h i m))"
| ms_close: "mgr_step m (unsubClose gid h m)"
| ms_broadcast: "mg_objs m h = Some hb \<Longrightarrow> mgr_step m (m\<lparr>mg_objs := (mg_objs m)(h \<mapsto> broadcast d hb)\<rparr>)"
| ms_receive: "mg_objs m h = Some hb \<Longrightarrow> mgr_step m (m\<lparr>mg_objs := (mg_objs m)(h \<mapsto> receive i hb)\<rparr>)"

inductive mgr_reach :: "Mgr \<Rightarrow> bool" where
  mr_new: "mgr_reach \<lparr>mg_hubs = Map.empty, mg_objs = Map.empty\<rparr>"
| mr_step: "mgr_reach m \<Longrightarrow> mgr_step m m' \<Longrightarrow> mgr_reach m'"

definition mgr_ok :: "Mgr \<Rightarrow> bool" where
  "mgr_ok m \<longleftrightarrow> (\<forall>g h. mg_hubs m g = Some h \<longrightarrow> (\<exists>hb. mg_objs m h = Some hb \<and> hb_gameID hb = g \<and> \<not> hb_cancelled hb)) \<and>
     (\<forall>h hb. mg_objs m h = Some hb \<longrightarrow> \<not> hb_cancelled hb \<longrightarrow> mg_hubs m (hb_gameID hb) = Some h) \<and>
     (\<forall>h hb. mg_objs m h = Some hb \<longrightarrow> hb_cancelled hb \<longrightarrow> isEmptyHub hb)"

lemma hub_fields [simp]:
  "hb_gameID (attach i f h) = hb_gameID h" "hb_cancelled (attach i f h) = hb_cancelled h"
  "hb_gameID (broadcast d h) = hb_gameID h" "hb_cancelled (broadcast d h) = hb_cancelled h"
  "hb_gameID (receive i h) = hb_gameID h" "hb_cancelled (receive i h) = hb_cancelled h"
  "hb_gameID (snd (detach i h)) = hb_gameID h" "hb_cancelled (snd (detach i h)) = hb_cancelled h"
  by (simp_all add: attach_def broadcast_def receive_def detach_def Let_def)

lemma load_fields [simp]:
  "hb_gameID (snd (loadHistory e x h)) = hb_gameID h" "hb_cancelled (snd (loadHistory e x h)) = hb_cancelled h"
  by (auto simp: loadHistory_def split: sum.splits)

lemma empty_broadcast: "isEmptyHub h \<Longrightarrow> isEmptyHub (broadcast d h)"
  by (auto simp: isEmptyHub_def broadcast_def deliver_def list_ex_iff)

lemma empty_receive: "isEmptyHub h \<Longrightarrow> isEmptyHub (receive i h)"
  by (auto simp: isEmptyHub_def receive_def list_ex_iff split: if_splits)

lemma empty_detach: "isEmptyHub h \<Longrightarrow> isEmptyHub (snd (detach i h))"
  by (auto simp: isEmptyHub_def detach_def list_ex_iff Let_def split: if_splits)

text \<open>An update of one object that keeps its game and its state keeps the invariant.\<close>

lemma mgr_registered:
  assumes "mgr_ok m" and "mg_hubs m g = Some h"
  obtains hb where "mg_objs m h = Some hb" and "hb_gameID hb = g" and "\<not> hb_cancelled hb"
  using assms unfolding mgr_ok_def by blast

lemma mgr_running: "mgr_ok m \<Longrightarrow> mg_objs m h = Some hb \<Longrightarrow> \<not> hb_cancelled hb \<Longrightarrow> mg_hubs m (hb_gameID hb) = Some h"
  unfolding mgr_ok_def by blast

lemma mgr_closed: "mgr_ok m \<Longrightarrow> mg_objs m h = Some hb \<Longrightarrow> hb_cancelled hb \<Longrightarrow> isEmptyHub hb"
  unfolding mgr_ok_def by blast

lemma mgr_okI:
  assumes "\<And>g h. mg_hubs m g = Some h \<Longrightarrow> \<exists>hb. mg_objs m h = Some hb \<and> hb_gameID hb = g \<and> \<not> hb_cancelled hb"
    and "\<And>h hb. mg_objs m h = Some hb \<Longrightarrow> \<not> hb_cancelled hb \<Longrightarrow> mg_hubs m (hb_gameID hb) = Some h"
    and "\<And>h hb. mg_objs m h = Some hb \<Longrightarrow> hb_cancelled hb \<Longrightarrow> isEmptyHub hb"
  shows "mgr_ok m"
  using assms unfolding mgr_ok_def by blast

lemma mgr_ok_update:
  assumes "mgr_ok m" and "mg_objs m h = Some hb" and "hb_gameID hb' = hb_gameID hb" and "hb_cancelled hb' = hb_cancelled hb"
    and "hb_cancelled hb \<Longrightarrow> isEmptyHub hb'"
  shows "mgr_ok (m\<lparr>mg_objs := (mg_objs m)(h \<mapsto> hb')\<rparr>)" (is "mgr_ok ?m")
proof (rule mgr_okI)
  fix g k assume "mg_hubs ?m g = Some k"
  then obtain kb where "mg_objs m k = Some kb" "hb_gameID kb = g" "\<not> hb_cancelled kb" using mgr_registered [OF assms(1)] by auto
  then show "\<exists>hb. mg_objs ?m k = Some hb \<and> hb_gameID hb = g \<and> \<not> hb_cancelled hb" using assms(2-4) by (cases "k = h") auto
next
  fix k kb assume "mg_objs ?m k = Some kb"
  then show "\<not> hb_cancelled kb \<Longrightarrow> mg_hubs ?m (hb_gameID kb) = Some k" "hb_cancelled kb \<Longrightarrow> isEmptyHub kb"
    using mgr_running [OF assms(1)] mgr_closed [OF assms(1)] assms(2-5) by (auto split: if_splits)
qed

lemma mgr_ok_create:
  assumes "mgr_ok m" and "mg_hubs m gid = None" and "mg_objs m ob = None" and "hb_gameID hb = gid" and "\<not> hb_cancelled hb"
  shows "mgr_ok (m\<lparr>mg_hubs := (mg_hubs m)(gid \<mapsto> ob), mg_objs := (mg_objs m)(ob \<mapsto> hb)\<rparr>)" (is "mgr_ok ?m")
proof (rule mgr_okI)
  fix g k assume "mg_hubs ?m g = Some k"
  then show "\<exists>hb. mg_objs ?m k = Some hb \<and> hb_gameID hb = g \<and> \<not> hb_cancelled hb"
    using mgr_registered [OF assms(1), of g k] assms(3-5) by (cases "g = gid") fastforce+
next
  fix k kb assume kb: "mg_objs ?m k = Some kb"
  show "\<not> hb_cancelled kb \<Longrightarrow> mg_hubs ?m (hb_gameID kb) = Some k"
    using kb mgr_running [OF assms(1), of k kb] assms(2,4) by (cases "k = ob") auto
  show "hb_cancelled kb \<Longrightarrow> isEmptyHub kb" using kb mgr_closed [OF assms(1), of k kb] assms(5) by (cases "k = ob") auto
qed

lemma mgr_ok_close:
  assumes "mgr_ok m" and "mg_hubs m gid = Some h" and "mg_objs m h = Some hb" and "isEmptyHub hb"
  shows "mgr_ok (m\<lparr>mg_hubs := (mg_hubs m)(gid := None), mg_objs := (mg_objs m)(h \<mapsto> hb\<lparr>hb_cancelled := True\<rparr>)\<rparr>)" (is "mgr_ok ?m")
proof (rule mgr_okI)
  have hb: "hb_gameID hb = gid" using mgr_registered [OF assms(1,2)] assms(3) by auto
  fix g k assume k: "mg_hubs ?m g = Some k"
  then have g: "g \<noteq> gid" "mg_hubs m g = Some k" by (auto split: if_splits)
  then obtain kb where kb: "mg_objs m k = Some kb" "hb_gameID kb = g" "\<not> hb_cancelled kb" using mgr_registered [OF assms(1)] by blast
  then have "k \<noteq> h" using hb g(1) assms(3) by auto
  then show "\<exists>hb. mg_objs ?m k = Some hb \<and> hb_gameID hb = g \<and> \<not> hb_cancelled hb" using kb by simp
next
  fix k kb assume kb: "mg_objs ?m k = Some kb"
  show "\<not> hb_cancelled kb \<Longrightarrow> mg_hubs ?m (hb_gameID kb) = Some k"
    using kb mgr_running [OF assms(1), of k kb] assms(2) by (cases "k = h") auto
  show "hb_cancelled kb \<Longrightarrow> isEmptyHub kb"
    using kb mgr_closed [OF assms(1), of k kb] assms(4) by (cases "k = h") (auto simp: isEmptyHub_def)
qed

lemma mgr_ok_step: "mgr_step m m' \<Longrightarrow> mgr_ok m \<Longrightarrow> mgr_ok m'"
proof (induction rule: mgr_step.induct)
  case (ms_subscribe m ob enabled xrange i gid f)
  show ?case
  proof (cases "mg_hubs m gid")
    case (Some h)
    obtain hb where hb: "mg_objs m h = Some hb" "\<not> hb_cancelled hb" by (rule mgr_registered [OF ms_subscribe.prems Some])
    then show ?thesis using Some mgr_ok_update [OF ms_subscribe.prems hb(1), of "attach i f hb"] by (simp add: Subscribe_def)
  next
    case None
    then show ?thesis using mgr_ok_create [OF ms_subscribe.prems None ms_subscribe.hyps, of "attach i f (snd (loadHistory enabled xrange (newHub gid)))"]
      by (simp add: Subscribe_def newHub_def)
  qed
next
  case (ms_detach m h i)
  show ?case
  proof (cases "mg_objs m h")
    case (Some hb)
    then show ?thesis using mgr_ok_update [OF ms_detach Some, of "snd (detach i hb)"] empty_detach mgr_closed [OF ms_detach Some]
      by (simp add: unsubDetach_def case_prod_beta)
  qed (use ms_detach in \<open>simp add: unsubDetach_def\<close>)
next
  case (ms_close m gid h)
  then show ?case using mgr_ok_close [OF ms_close, of gid h] by (auto simp: unsubClose_def split: option.splits)
next
  case (ms_broadcast m h hb d)
  then show ?case using mgr_ok_update [OF ms_broadcast(2,1), of "broadcast d hb"] empty_broadcast mgr_closed [OF ms_broadcast(2,1)] by simp
next
  case (ms_receive m h hb i)
  then show ?case using mgr_ok_update [OF ms_receive(2,1), of "receive i hb"] empty_receive mgr_closed [OF ms_receive(2,1)] by simp
qed

lemma mgr_reach_ok: "mgr_reach m \<Longrightarrow> mgr_ok m"
proof (induction rule: mgr_reach.induct)
  case mr_new
  show ?case by (simp add: mgr_ok_def)
qed (rule mgr_ok_step)

section \<open>Properties\<close>

text \<open>
  C9. What a hub hands to a spectator: the backlog that the identifier of its request selects, and then
  the deltas that the hub broadcasts from that moment on, each once and in the order of the
  broadcasts.  In every reachable state of a hub this holds of the backlog, the deltas received and those in
  the channel together: a registered spectator has all of it, which for a spectator without an identifier is the hub's
  whole history; one that was dropped or has left has an initial part; and no channel holds more than 256.
  (It says nothing of the step before: whether an identifier selects what the spectator lacks, and
  whether the stream repeats a move, are questions of \<open>reconnect_loses_tenth\<close> and \<open>streams_carry_the_moves\<close>.)
\<close>

theorem spectators_get_every_broadcast:
  assumes "hub_reach h" and "(i, s) \<in> set (hb_subs h)"
  shows "(sb_in s \<longrightarrow> sb_Initial s @ sb_got s @ sb_ch s =
             filterAfter (take (sb_at s) (hb_history h)) (sb_from s) @ drop (sb_at s) (hb_history h)) \<and>
         (sb_in s \<and> sb_from s = [] \<longrightarrow> sb_Initial s @ sb_got s @ sb_ch s = hb_history h) \<and>
         (\<exists>n. sb_Initial s @ sb_got s @ sb_ch s =
             filterAfter (take (sb_at s) (hb_history h)) (sb_from s) @ take n (drop (sb_at s) (hb_history h))) \<and>
         length (sb_ch s) \<le> 256"
proof -
  have ok: "sub_ok (hb_history h) s" using hub_reach_ok [OF assms(1)] assms(2) by (auto simp: hub_ok_def)
  moreover obtain n where "sb_got s @ sb_ch s = take n (drop (sb_at s) (hb_history h))" using ok by (auto simp: sub_ok_def)
  ultimately show ?thesis by (auto simp: sub_ok_def sendBuffer_def filterAfter_def)
qed

definition demoDelta :: "nat \<Rightarrow> Delta" where
  "demoDelta n = \<lparr>dl_ID = nat_digits n, dl_Ply = int n, dl_UCI = ''e2e4'', dl_FEN = ''f'', dl_Status = ''IN_PROGRESS'', dl_EndReason = '''', dl_Ended = False\<rparr>"

definition demoHub :: Hub where
  "demoHub = receive 7 (broadcast (demoDelta 2) (attach 7 [] (broadcast (demoDelta 1) (newHub ''g1''))))"

theorem spectators_get_every_broadcast_witness:
  "\<exists>s. (7, s) \<in> set (hb_subs demoHub) \<and> sb_Initial s @ sb_got s @ sb_ch s = [demoDelta 1, demoDelta 2]"
proof -
  have "hub_reach (newHub ''g1'')" by (rule hub_reach.hr_new) (simp add: newHub_def)
  then have "hub_reach (broadcast (demoDelta 1) (newHub ''g1''))" by (rule hub_reach.hr_step) (rule hub_step.hs_broadcast)
  then have "hub_reach (attach 7 [] (broadcast (demoDelta 1) (newHub ''g1'')))"
    by (rule hub_reach.hr_step) (rule hub_step.hs_attach, simp add: broadcast_def newHub_def)
  then have "hub_reach (broadcast (demoDelta 2) (attach 7 [] (broadcast (demoDelta 1) (newHub ''g1''))))"
    by (rule hub_reach.hr_step) (rule hub_step.hs_broadcast)
  then have r: "hub_reach demoHub" unfolding demoHub_def by (rule hub_reach.hr_step) (rule hub_step.hs_receive)
  have "\<exists>s. (7, s) \<in> set (hb_subs demoHub) \<and> sb_in s \<and> sb_from s = []"
    by (simp add: demoHub_def receive_def broadcast_def attach_def newHub_def deliver_def sendBuffer_def)
  then obtain s where s: "(7, s) \<in> set (hb_subs demoHub)" "sb_in s" "sb_from s = []" by blast
  have "hb_history demoHub = [demoDelta 1, demoDelta 2]" by (simp add: demoHub_def receive_def broadcast_def attach_def newHub_def)
  then show ?thesis using spectators_get_every_broadcast [OF r s(1)] s by auto
qed

text \<open>
  A spectator that reconnects with the identifier of the last delta it has gets exactly the
  later ones, provided the identifiers of the history increase in the order of Go strings.
\<close>

theorem reconnect_resumes:
  assumes "sorted_wrt (\<lambda>a b. str_less (dl_ID a) (dl_ID b)) (xs @ d # ys)" and "dl_ID d \<noteq> ''''"
  shows "filterAfter (xs @ d # ys) (dl_ID d) = ys"
proof -
  have irrefl: "\<not> str_less s s" for s by (induction s) auto
  have asym: "str_less s t \<Longrightarrow> \<not> str_less t s" for s t by (induction s t rule: str_less.induct) auto
  have "filter (\<lambda>e. str_less (dl_ID d) (dl_ID e)) xs = []"
    using assms(1) asym by (auto simp: sorted_wrt_append filter_empty_conv)
  moreover have "filter (\<lambda>e. str_less (dl_ID d) (dl_ID e)) ys = ys" using assms(1) by (auto simp: sorted_wrt_append filter_id_conv)
  ultimately show ?thesis using assms(2) irrefl by (simp add: filterAfter_def)
qed

theorem reconnect_resumes_witness: "filterAfter ([demoDelta 1] @ demoDelta 2 # [demoDelta 3]) ''2'' = [demoDelta 3]"
proof -
  have "sorted_wrt (\<lambda>a b. str_less (dl_ID a) (dl_ID b)) ([demoDelta 1] @ demoDelta 2 # [demoDelta 3])" "dl_ID (demoDelta 2) = ''2''"
    by code_simp+
  then show ?thesis using reconnect_resumes [of "[demoDelta 1]" "demoDelta 2" "[demoDelta 3]"] by simp
qed

definition streamID :: "nat \<Rightarrow> nat \<Rightarrow> string" where
  "streamID ms n = nat_digits ms @ ''-'' @ nat_digits n"

lemma str_less_prefix [simp]: "str_less (p @ a) (p @ b) \<longleftrightarrow> str_less a b"
  by (induction p) simp_all

text \<open>
  Redis numbers the entries of one millisecond 0, 1, 2, \<dots>, and as strings the tenth and later
  numbers do not come after the ninth: a spectator that has seen entry 9 of a millisecond and
  reconnects is never sent entry 10 of it.
\<close>

theorem reconnect_loses_tenth:
  "filterAfter [(demoDelta 1)\<lparr>dl_ID := streamID ms 9\<rparr>, (demoDelta 2)\<lparr>dl_ID := streamID ms 10\<rparr>] (streamID ms 9) = []"
proof -
  have "nat_digits 9 = ''9''" "nat_digits 10 = ''10''" by code_simp+
  then show ?thesis by (simp add: filterAfter_def streamID_def)
qed

primrec hubRun :: "(string \<Rightarrow> string \<Rightarrow> XMessage list option) \<Rightarrow> nat \<Rightarrow> string \<Rightarrow> Hub \<Rightarrow> string \<times> Hub" where
  "hubRun xread 0 lastID h = (lastID, h)"
| "hubRun xread (Suc n) lastID h = (case readTurn xread lastID h of (lastID, h) \<Rightarrow> hubRun xread n lastID h)"

lemma hubRun_tracks:
  assumes "tracks msgs k lastID h" and "stream_sorted msgs" and "decodable msgs"
    and "xread_law msgs (xread (key (hb_gameID h)))" and "hubRun xread n lastID h = (lastID', h')"
  shows "tracks msgs (min (k + 128 * n) (length msgs)) lastID' h'"
  using assms
proof (induction n arbitrary: k lastID h)
  case 0
  then show ?case by (simp add: tracks_def min_def)
next
  case (Suc n)
  obtain l1 h1 where t: "readTurn xread lastID h = (l1, h1)" by fastforce
  note r = readTurn_tracks [OF Suc.prems(1-4) t]
  have "tracks msgs (min (min (k + 128) (length msgs) + 128 * n) (length msgs)) lastID' h'"
    by (rule Suc.IH [OF r(1) Suc.prems(2,3)]) (use r(2) Suc.prems(4,5) t in simp_all)
  moreover have "min (min (k + 128) (length msgs) + 128 * n) (length msgs) = min (k + 128 * Suc n) (length msgs)" by simp
  ultimately show ?case by metis
qed

text \<open>
  C34. A hub follows its stream to the end: however far it has read, enough turns of its reading
  loop, 128 messages each, leave it with the deltas of all the messages of the stream, in order, when
  the stream is sorted by identifier, every message decodes, and Redis answers the reads from \<open>0\<close> and
  from the identifiers of the stream with the next messages that have greater identifiers.
\<close>

theorem hub_follows_stream:
  assumes "tracks msgs k lastID h" and "stream_sorted msgs" and "decodable msgs"
    and "xread_law msgs (xread (key (hb_gameID h)))" and "length msgs \<le> k + 128 * n"
  shows "hb_history (snd (hubRun xread n lastID h)) = map deltaFrom (stream_decode msgs)"
proof -
  obtain lastID' h' where r: "hubRun xread n lastID h = (lastID', h')" by fastforce
  have "tracks msgs (length msgs) lastID' h'" using hubRun_tracks [OF assms(1-4) r] assms(5) by (simp add: min_absorb2)
  then show ?thesis by (simp add: r tracks_def)
qed

definition demoMsgs :: "XMessage list" where
  "demoMsgs = map (\<lambda>n. \<lparr>xm_ID = streamID 5 n, xm_Values = event_fields \<lparr>ev_GameID = ''g1'', ev_Ply = int n + 1, ev_UCI = ''e2e4'',
      ev_FENAfter = ''f'', ev_Status = ''IN_PROGRESS'', ev_EndReason = '''', ev_Ended = False\<rparr>\<rparr>) [0, 1]"

lemma demo_sorted: "stream_sorted demoMsgs" "decodable demoMsgs"
proof -
  have "idBefore (streamID 5 0) (streamID 5 1)" "idBefore ''0'' (streamID 5 0)" "idBefore ''0'' (streamID 5 1)" by code_simp+
  then show "stream_sorted demoMsgs" by (simp add: demoMsgs_def stream_sorted_def)
  show "decodable demoMsgs" by (simp add: demoMsgs_def decodable_def decode_fields int64_range_def)
qed

theorem hub_follows_stream_witness:
  "hb_history (snd (hubRun (\<lambda>_ l. Some (take 128 (filter (\<lambda>m. idBefore l (xm_ID m)) demoMsgs))) 1 ''0'' (newHub ''g1''))) =
     map deltaFrom (stream_decode demoMsgs)"
proof (rule hub_follows_stream)
  show "tracks demoMsgs 0 ''0'' (newHub ''g1'')" by (simp add: tracks_def newHub_def stream_decode_def)
qed (simp_all add: demo_sorted xread_law_def, simp add: demoMsgs_def)

text \<open>
  Each game has one reader and no spectator is left behind: in every state the manager can
  reach, however its critical sections interleave, a hub with a registered spectator is running and
  is the hub the manager has for that game, and two running hubs never serve the same game.
\<close>

theorem one_reader_per_game:
  assumes "mgr_reach m" and "mg_objs m h = Some hb"
  shows "(\<not> isEmptyHub hb \<longrightarrow> \<not> hb_cancelled hb \<and> mg_hubs m (hb_gameID hb) = Some h) \<and>
    (\<forall>h' hb'. mg_objs m h' = Some hb' \<and> \<not> hb_cancelled hb \<and> \<not> hb_cancelled hb' \<and> hb_gameID hb' = hb_gameID hb \<longrightarrow> h' = h)"
  using mgr_running [OF mgr_reach_ok [OF assms(1)]] mgr_closed [OF mgr_reach_ok [OF assms(1)]] assms(2)
  by (metis option.inject)

theorem one_reader_per_game_witness:
  "\<exists>(m :: Mgr) (hb :: Hub). mg_objs m 0 = Some hb \<and> \<not> isEmptyHub hb \<and> mg_hubs m ''g1'' = Some 0"
proof -
  let ?m = "Subscribe False (\<lambda>_ _. None) 0 1 ''g1'' [] \<lparr>mg_hubs = Map.empty, mg_objs = Map.empty\<rparr>"
  have "mgr_reach ?m" by (rule mgr_reach.mr_step [OF mgr_reach.mr_new]) (rule mgr_step.ms_subscribe, simp)
  moreover obtain hb where hb: "mg_objs ?m 0 = Some hb" "\<not> isEmptyHub hb" "hb_gameID hb = ''g1''"
    by (simp add: Subscribe_def Let_def isEmptyHub_def attach_def newHub_def loadHistory_def Replay_def)
  ultimately have "mg_hubs ?m (hb_gameID hb) = Some 0" using one_reader_per_game [of ?m 0 hb] by simp
  then show ?thesis using hb by (intro exI [of _ ?m] exI [of _ hb]) simp
qed

end
