(* ===== verification/Spectating.thy ===== *)
theory Spectating
  imports Fanout
begin

text \<open>
  From the tables to the spectators: the game service, the outbox relay, the stream in Redis and the
  hub of a game, run together.  \<open>platform_reach T\<close> interleaves the statements of the game service with the
  cycles of the relay, each with any failure; a hub has read some initial part of the stream.  \<open>T\<close> are the
  games of which a reading may be torn, as in \<open>sys_step\<close>.
\<close>

section \<open>Service and relay together\<close>

text \<open>
  A step of the service either changes the record of play or leaves the outbox as it is; marking
  rows is the relay's business.  The number of moves stays below any bound an \<open>int\<close> could notice.
\<close>

inductive platform_reach :: "string set \<Rightarrow> DB \<Rightarrow> (string \<times> Held) list \<Rightarrow> RedisLog \<Rightarrow> bool" for T where
  pf_start: "core db = ([], [], []) \<Longrightarrow> platform_reach T db [] []"
| pf_play: "platform_reach T db ps rl \<Longrightarrow> sys_step T (db, ps) (db', ps') \<Longrightarrow> core db' \<noteq> core db \<or> outbox db' = outbox db \<Longrightarrow>
    length (moves db') < 2 ^ 62 \<Longrightarrow> platform_reach T db' ps' rl"
| pf_relay: "platform_reach T db ps rl \<Longrightarrow> drainOnce (FetchUnpublished up) (MarkPublished up') xadd db rl = (n, failed, db', rl') \<Longrightarrow>
    platform_reach T db' ps rl'"

lemma drain_core:
  assumes "drainOnce (FetchUnpublished up) (MarkPublished up') xadd db rl = (n, failed, db', rl')"
  shows "core db' = core db"
proof -
  have mark: "core d' = core db" if "MarkPublished up' ids db = (r, d')" for ids r d'
    using core_MarkPublished [of up' ids db] that by simp
  show ?thesis using assms by (auto simp: drainOnce_def Let_def dest: mark split: sum.splits if_splits prod.splits)
qed

lemma append_relay:
  assumes "relay_reach (db, rl)" and "sys_ok T (db, ps)" and "length (moves db) < 2 ^ 62" and "(gid, Write pl) \<in> set ps"
    and "appendPlanned up now gid pl db = (r, db')"
  shows "relay_reach (db', rl)"
proof -
  have "loosely (moves db) gid (Write pl)" using assms(2,4) unfolding sys_ok_def fst_conv snd_conv by blast
  then have "1 \<le> Ply (pl_move pl)" "Ply (pl_move pl) \<le> int (length (moves_of gid (moves db))) + 1" by simp_all
  then have "int64_range (Ply (pl_move pl))" using assms(3) moves_of_le [of gid "moves db"] by (simp add: int64_range_def)
  then show ?thesis using relay_reach.rr_move [OF assms(1) assms(5) [unfolded appendPlanned_def]] by blast
qed

lemma play_relay:
  assumes "sys_step T (db, ps) (db', ps')" and "relay_reach (db, rl)" and "sys_ok T (db, ps)" and "length (moves db) < 2 ^ 62"
    and "core db' \<noteq> core db \<or> outbox db' = outbox db"
  shows "relay_reach (db', rl)"
  using assms(1)
proof (cases rule: sys_step.cases)
  case (st_create p up nid now)
  then have "outbox db' = outbox db" by (simp add: Store_CreateGame_def Let_def)
  then show ?thesis by (rule relay_reach.rr_other [OF assms(2)])
next
  case (st_write up now gid pl r)
  show ?thesis by (rule append_relay [OF assms(2-4) st_write(3,2)])
next
  case (st_write_reply up now gid pl uci pl')
  show ?thesis by (rule append_relay [OF assms(2-4) st_write_reply(3,2)])
next
  case st_other
  then show ?thesis using assms(5) relay_reach.rr_other [OF assms(2)] by blast
qed (use assms(2) in simp_all)

lemma platform_reach_parts:
  "platform_reach T db ps rl \<Longrightarrow> sys_reach T (db, ps) \<and> relay_reach (db, rl) \<and> length (moves db) < 2 ^ 62"
proof (induction rule: platform_reach.induct)
  case (pf_start db)
  then show ?case using sys_reach.sr_init [of db T] relay_reach.rr_init [of db] by (simp add: core_def)
next
  case (pf_play db ps rl db' ps')
  then have "sys_ok T (db, ps)" using sys_reach_ok [of T "(db, ps)"] by simp
  then show ?case using pf_play sys_reach.sr_step [of T "(db, ps)"] play_relay [OF pf_play(2)] by blast
next
  case (pf_relay db ps rl up up' xadd n failed db' rl')
  have c: "core db' = core db" by (rule drain_core [OF pf_relay(2)])
  then have "moves db' = moves db" by (simp add: core_def)
  then show ?case using pf_relay sys_reach.sr_step [OF _ sys_step.st_other [OF c]] relay_reach.rr_drain by auto
qed

lemma platform_ok: "platform_reach T db ps rl \<Longrightarrow> sys_ok T (db, ps)"
  using platform_reach_parts [of T db ps rl] sys_reach_ok [of T "(db, ps)"] by simp

section \<open>What a spectator makes of the deltas\<close>

text \<open>A viewer applies a move it has not seen yet: the first delta of every ply.\<close>

fun newPlies :: "int set \<Rightarrow> Delta list \<Rightarrow> Delta list" where
  "newPlies seen [] = []"
| "newPlies seen (d # ds) = (if dl_Ply d \<in> seen then newPlies seen ds else d # newPlies (insert (dl_Ply d) seen) ds)"

definition shown :: "Delta \<Rightarrow> int \<times> string \<times> string" where
  "shown d = (dl_Ply d, dl_UCI d, dl_FEN d)"

definition played :: "MoveRow \<Rightarrow> int \<times> string \<times> string" where
  "played m = (mv_ply m, mv_uci m, mv_fen_after m)"

definition event_shown :: "MoveEvent \<Rightarrow> int \<times> string \<times> string" where
  "event_shown e = (ev_Ply e, ev_UCI e, ev_FENAfter e)"

lemma newPlies_firsts:
  "\<forall>e \<in> set es. ev_GameID (en_Event e) = gid \<Longrightarrow>
   map shown (newPlies seen (map deltaFrom es)) = map event_shown (firsts (Pair gid ` seen) (map en_Event es))"
proof (induction es arbitrary: seen)
  case (Cons e es)
  have "Pair gid ` insert (ev_Ply (en_Event e)) seen = insert (ev_key (en_Event e)) (Pair gid ` seen)" using Cons.prems by simp
  then show ?case using Cons by (auto simp: shown_def event_shown_def deltaFrom_def)
qed simp

lemma firsts_subset: "set (firsts seen es) \<subseteq> set es"
  by (induction es arbitrary: seen) auto

lemma firsts_take: "\<exists>j. firsts {} (take k es) = take j (firsts {} es)"
  using firsts_append [of "{}" "take k es" "drop k es"] by (metis append_eq_conv_conj append_take_drop_id)

lemma announced_moves:
  assumes "shape_ok (core db)"
  shows "map event_shown (filter (\<lambda>e. ev_GameID e = gid) (map rowEvent (outbox db))) = map played (moves_of gid (moves db))"
proof -
  note eq = outbox_announces [OF assms]
  have "map snd (filter (\<lambda>x. fst x = gid) (map (\<lambda>r. (ob_game r, ob_ply r, ob_uci r, ob_fen_after r)) (outbox db))) =
      map snd (filter (\<lambda>x. fst x = gid) (map (\<lambda>m. (mv_game m, mv_ply m, mv_uci m, mv_fen_after m)) (moves db)))"
    by (simp only: eq)
  then show ?thesis
    by (simp add: filter_map comp_def event_shown_def [abs_def] rowEvent_def played_def [abs_def] moves_of_def)
qed

lemma announced_length:
  assumes "shape_ok (core db)"
  shows "length (filter (\<lambda>r. ob_game r = gid) (outbox db)) = length (moves_of gid (moves db))"
  using arg_cong [OF announced_moves [OF assms, of gid], of length] by (simp add: filter_map comp_def rowEvent_def)

text \<open>The published rows come first.\<close>

lemma published_first:
  assumes "outbox_ok db" and "outbox_handed db \<le> n"
  shows "filter ob_published (drop n (outbox db)) = []"
proof -
  obtain k where k: "k \<le> length (outbox db)" "map ob_published (outbox db) = replicate k True @ replicate (length (outbox db) - k) False"
    by (rule outbox_okE [OF assms(1)])
  have "outbox_handed db = length (filter id (map ob_published (outbox db)))" by (simp add: outbox_handed_def filter_map comp_def)
  then have "k \<le> n" using assms(2) by (simp add: k(2))
  have "set (map ob_published (drop n (outbox db))) \<subseteq> {False}"
    unfolding drop_map [symmetric] k(2) using \<open>k \<le> n\<close> by (auto dest: in_set_dropD)
  then show ?thesis by (auto simp: filter_empty_conv)
qed

section \<open>The spectator's socket\<close>

text \<open>
  \<open>handleSpectate\<close> (\<open>services/fanout/internal/server/server.go\<close>) after the subscription: the messages
  written and why the connection ended, if it did.  The events are the branches that the loop's
  \<open>select\<close> takes; \<open>writeOk k\<close> is whether the \<open>k\<close>-th write succeeds.
\<close>

datatype WireMsg = MoveMsg Delta | SyncedMsg

datatype SubEvent = Disconnected | KickedOut | NextDelta Delta

datatype SocketEnd = MissingGame | NotAccepted | ClientGone | FellBehind | WriteFailed

fun writeAll :: "(nat \<Rightarrow> bool) \<Rightarrow> nat \<Rightarrow> WireMsg list \<Rightarrow> WireMsg list \<times> bool" where
  "writeAll writeOk k [] = ([], True)"
| "writeAll writeOk k (m # ms) =
     (if writeOk k then (case writeAll writeOk (k + 1) ms of (out, ok) \<Rightarrow> (m # out, ok)) else ([], False))"

fun liveLoop :: "(nat \<Rightarrow> bool) \<Rightarrow> nat \<Rightarrow> SubEvent list \<Rightarrow> WireMsg list \<times> SocketEnd option" where
  "liveLoop writeOk k [] = ([], None)"
| "liveLoop writeOk k (Disconnected # es) = ([], Some ClientGone)"
| "liveLoop writeOk k (KickedOut # es) = ([], Some FellBehind)"
| "liveLoop writeOk k (NextDelta d # es) =
     (if writeOk k then (case liveLoop writeOk (k + 1) es of (out, e) \<Rightarrow> (MoveMsg d # out, e)) else ([], Some WriteFailed))"

definition handleSpectate :: "string \<Rightarrow> bool \<Rightarrow> (nat \<Rightarrow> bool) \<Rightarrow> Delta list \<Rightarrow> SubEvent list \<Rightarrow> WireMsg list \<times> SocketEnd option" where
  "handleSpectate gameID accepted writeOk initial events =
     (if gameID = '''' then ([], Some MissingGame)
      else if \<not> accepted then ([], Some NotAccepted)
      else case writeAll writeOk 0 (map MoveMsg initial @ [SyncedMsg]) of
          (out, False) \<Rightarrow> (out, Some WriteFailed)
        | (out, True) \<Rightarrow> (case liveLoop writeOk (length initial + 1) events of (live, e) \<Rightarrow> (out @ live, e)))"

definition taken :: "SubEvent list \<Rightarrow> Delta list" where
  "taken es = List.map_filter (\<lambda>e. case e of NextDelta d \<Rightarrow> Some d | _ \<Rightarrow> None) es"

lemma writeAll_prefix: "\<exists>n. fst (writeAll writeOk k ms) = take n ms \<and> (snd (writeAll writeOk k ms) \<longrightarrow> fst (writeAll writeOk k ms) = ms)"
proof (induction ms arbitrary: k)
  case (Cons m ms)
  obtain n where n: "fst (writeAll writeOk (k + 1) ms) = take n ms" "snd (writeAll writeOk (k + 1) ms) \<longrightarrow> fst (writeAll writeOk (k + 1) ms) = ms"
    using Cons.IH by blast
  show ?case
  proof (cases "writeOk k")
    case True
    then show ?thesis using n by (intro exI [of _ "Suc n"]) (simp add: case_prod_beta)
  next
    case False
    then show ?thesis by (intro exI [of _ 0]) simp
  qed
qed simp

lemma take_prefix: "\<exists>i. take n xs = take i (xs @ ys)"
  by (intro exI [of _ "min n (length xs)"]) (simp add: min_def)

lemma liveLoop_prefix: "\<exists>n. fst (liveLoop writeOk k es) = take n (map MoveMsg (taken es))"
proof (induction writeOk k es rule: liveLoop.induct)
  case (4 writeOk k d es)
  show ?case
  proof (cases "writeOk k")
    case True
    then obtain n where "fst (liveLoop writeOk (k + 1) es) = take n (map MoveMsg (taken es))" using 4 by blast
    then show ?thesis using True by (intro exI [of _ "Suc n"]) (simp add: case_prod_beta taken_def)
  qed (auto intro: exI [of _ 0])
qed (auto intro: exI [of _ 0])

text \<open>The socket carries the backlog, the marker and the live deltas in order, cut off somewhere.\<close>

lemma handleSpectate_prefix:
  "\<exists>n. fst (handleSpectate gameID accepted writeOk initial events) = take n (map MoveMsg initial @ SyncedMsg # map MoveMsg (taken events))"
proof -
  let ?ms = "map MoveMsg initial @ [SyncedMsg]" and ?live = "map MoveMsg (taken events)"
  obtain out ok where w: "writeAll writeOk 0 ?ms = (out, ok)" by fastforce
  obtain n where n: "out = take n ?ms" "ok \<longrightarrow> out = ?ms" using writeAll_prefix [of writeOk 0 ?ms] by (auto simp: w)
  obtain k where k: "fst (liveLoop writeOk (length initial + 1) events) = take k ?live" using liveLoop_prefix by blast
  have "\<exists>i. take n ?ms = take i (?ms @ ?live)" by (rule take_prefix)
  moreover have "\<exists>i. ?ms @ take k ?live = take i (?ms @ ?live)" by (intro exI [of _ "length ?ms + k"]) simp
  moreover have "\<exists>i. [] = take i (?ms @ ?live)" by (intro exI [of _ 0]) simp
  moreover have "fst (handleSpectate gameID accepted writeOk initial events) =
      (if gameID = '''' \<or> \<not> accepted then [] else if ok then out @ take k ?live else out)"
    using k by (simp add: handleSpectate_def w case_prod_beta split: bool.splits)
  ultimately have "\<exists>i. fst (handleSpectate gameID accepted writeOk initial events) = take i (?ms @ ?live)"
    using n by (metis (no_types, lifting))
  then show ?thesis by simp
qed

section \<open>A spectator's view of a game\<close>

text \<open>The events of a game's stream, each ply taken once, announce a beginning of its stored moves.\<close>

lemma stream_moves:
  assumes "platform_reach T db ps rl"
  shows "\<exists>m. m \<le> length (moves_of gid (moves db)) \<and> length (filter (\<lambda>r. ob_game r = gid \<and> ob_published r) (outbox db)) \<le> m \<and>
    map event_shown (firsts {} (map en_Event (stream_decode (streamOf (key gid) rl)))) = map played (take m (moves_of gid (moves db)))"
proof -
  let ?P = "\<lambda>r. ob_game r = gid" and ?all = "outbox db"
  have "relay_reach (db, rl)" using platform_reach_parts [OF assms] by blast
  then obtain n where n: "outbox_handed db \<le> n" "firsts {} (map en_Event (stream_decode (streamOf (key gid) rl))) =
      filter (\<lambda>e. ev_GameID e = gid) (map rowEvent (take n ?all))" using stream_announces by blast
  have ok: "outbox_ok db" using relay_reach_ok platform_reach_parts [OF assms] by blast
  have mirror: "map event_shown (filter (\<lambda>e. ev_GameID e = gid) (map rowEvent ?all)) = map played (moves_of gid (moves db))"
    by (rule announced_moves [OF sys_ok_shape [OF platform_ok [OF assms]]])
  have rows: "filter (\<lambda>e. ev_GameID e = gid) (map rowEvent xs) = map rowEvent (filter ?P xs)" for xs
    by (simp add: filter_map comp_def rowEvent_def)
  let ?m = "length (filter ?P (take n ?all))"
  have split: "filter ?P ?all = filter ?P (take n ?all) @ filter ?P (drop n ?all)" by (simp flip: filter_append)
  then have "take ?m (map played (moves_of gid (moves db))) = map event_shown (map rowEvent (filter ?P (take n ?all)))"
    unfolding mirror [symmetric] rows by simp
  then have "map event_shown (firsts {} (map en_Event (stream_decode (streamOf (key gid) rl)))) = map played (take ?m (moves_of gid (moves db)))"
    unfolding n(2) rows by (simp add: take_map)
  moreover have "length (filter ?P ?all) = length (moves_of gid (moves db))" using arg_cong [OF mirror, of length] by (simp add: rows)
  then have "?m \<le> length (moves_of gid (moves db))" using split by simp
  moreover have "length (filter (\<lambda>r. ob_game r = gid \<and> ob_published r) ?all) \<le> ?m"
  proof -
    have "filter ob_published (drop n ?all) = []" by (rule published_first [OF ok n(1)])
    then have "filter (\<lambda>r. ?P r \<and> ob_published r) (drop n ?all) = []" by (auto simp: filter_empty_conv)
    then have "filter (\<lambda>r. ?P r \<and> ob_published r) (take n ?all @ drop n ?all) = filter (\<lambda>r. ?P r \<and> ob_published r) (take n ?all)"
      unfolding filter_append by (simp only: append_Nil2)
    then have "filter (\<lambda>r. ?P r \<and> ob_published r) ?all = filter (\<lambda>r. ?P r \<and> ob_published r) (take n ?all)"
      by (simp only: append_take_drop_id)
    also have "\<dots> = filter ob_published (filter ?P (take n ?all))" by simp
    finally show ?thesis by (simp only: length_filter_le)
  qed
  ultimately show ?thesis by blast
qed

text \<open>What a hub that has read \<open>k\<close> messages of the stream holds, ply by ply, is a beginning of the game.\<close>

lemma stream_prefix:
  assumes "platform_reach T db ps rl"
  shows "\<exists>m. map shown (newPlies {} (map deltaFrom (stream_decode (take k (streamOf (key gid) rl))))) = map played (take m (moves_of gid (moves db))) \<and>
    ((\<forall>r \<in> set (outbox db). ob_published r) \<and> length (streamOf (key gid) rl) \<le> k \<longrightarrow> length (moves_of gid (moves db)) \<le> m)"
proof -
  let ?msgs = "streamOf (key gid) rl" and ?ms = "moves_of gid (moves db)"
  let ?es = "map en_Event (stream_decode ?msgs)"
  obtain a where a: "a \<le> length ?ms" "length (filter (\<lambda>r. ob_game r = gid \<and> ob_published r) (outbox db)) \<le> a"
    "map event_shown (firsts {} ?es) = map played (take a ?ms)" using stream_moves [OF assms] by blast
  have "filed rl" using relay_reach_ok platform_reach_parts [OF assms] by blast
  then have "\<forall>e \<in> set ?es. ev_GameID e = gid" by (simp add: stream_logged)
  obtain j where j: "map en_Event (stream_decode (take k ?msgs)) = take j ?es"
    using stream_decode_append [of "take k ?msgs" "drop k ?msgs"] by (metis append_eq_conv_conj append_take_drop_id map_append)
  obtain j' where j': "firsts {} (take j ?es) = take j' (firsts {} ?es)" using firsts_take by blast
  have "\<forall>e \<in> set (stream_decode (take k ?msgs)). ev_GameID (en_Event e) = gid"
    using j \<open>\<forall>e \<in> set ?es. ev_GameID e = gid\<close> by (metis image_eqI in_set_takeD list.set_map)
  then have view: "map shown (newPlies {} (map deltaFrom (stream_decode (take k ?msgs)))) = map event_shown (firsts {} (take j ?es))"
    using newPlies_firsts [of "stream_decode (take k ?msgs)" gid "{}"] j by simp
  show ?thesis
  proof (cases "(\<forall>r \<in> set (outbox db). ob_published r) \<and> length ?msgs \<le> k")
    case True
    then have "filter (\<lambda>r. ob_game r = gid \<and> ob_published r) (outbox db) = filter (\<lambda>r. ob_game r = gid) (outbox db)" by (intro filter_cong) auto
    then have "a = length ?ms" using a(1,2) announced_length [OF sys_ok_shape [OF platform_ok [OF assms]], of gid] by simp
    moreover have "take j ?es = ?es" using j True by simp
    ultimately have "map shown (newPlies {} (map deltaFrom (stream_decode (take k ?msgs)))) = map played (take (length ?ms) ?ms)"
      using view a(3) by (simp only:)
    then show ?thesis by blast
  next
    case False
    have "map event_shown (firsts {} (take j ?es)) = map played (take (min j' a) ?ms)"
      unfolding j' take_map [symmetric] a(3) by (simp add: take_map min.commute)
    then show ?thesis using view False by metis
  qed
qed

lemma branches_take: "branches fens ms \<Longrightarrow> branches fens (take n ms)"
  using branches_append [of fens "take n ms" "drop n ms"] by simp

lemma numbered_take:
  assumes "sys_ok T (db, ps)"
  shows "map mv_ply (take m (moves_of gid (moves db))) = [1..int (min m (length (moves_of gid (moves db))))]"
proof (cases "gid \<in> fst ` set (fst (core db))")
  case True
  then have "numbered (moves_of gid (moves db))" using sys_ok_shape [OF assms] by (auto simp: shape_ok_def core_def)
  moreover have "take m [1..int n] = [1..int (min m n)]" for n 
  proof (cases "m \<le> n")
    case True
    then show ?thesis by (intro nth_equalityI) (simp_all add: nth_upto)
  qed simp
  ultimately show ?thesis by (simp add: numbered_def flip: take_map)
next
  case False
  have "\<forall>m \<in> set (moves db). mv_game m \<in> fst ` set (fst (core db))" using sys_ok_shape [OF assms] by (auto simp: shape_ok_def core_def)
  then have "moves_of gid (moves db) = []" by (rule no_moves [OF False])
  then show ?thesis by simp
qed

lemma spectator_view:
  assumes "hub_reach h" and "(i, s) \<in> set (hb_subs h)" and "sb_in s" and "sb_from s = ''''"
  shows "sb_Initial s @ sb_got s @ sb_ch s = hb_history h"
  using hub_reach_ok [OF assms(1)] assms(2-4) by (auto simp: hub_ok_def sub_ok_def filterAfter_def)

section \<open>Properties\<close>

text \<open>The instance: Ann plays 1. e4, and the relay publishes it.\<close>

lemma demo_published:
  obtains db rl where "platform_reach T db [] rl" "moves db = [\<lparr>mv_game = ''g1'', mv_ply = 1, mv_uci = ''e2e4'', mv_fen_after = FEN afterE4\<rparr>]"
    "\<forall>r \<in> set (outbox db). ob_published r" "map ob_game (outbox db) = [''g1'']" "length (streamOf (key ''g1'') rl) \<le> 1"
proof -
  obtain pl where pl: "planMove (rowToGame demoRow) [] ''e2e4'' ''ann'' = Inr pl" "pl_result pl = InProgress" by (rule demo_plan)
  have "ParseFEN (Game_FEN (rowToGame demoRow)) = Inr startBoard"
    using ParseFEN_FEN [OF fen_ok_startBoard] FEN_startBoard by (simp add: rowToGame_def demoRow_def)
  from planMove_inv(3,4) [OF pl(1) this] have mv: "pl_move pl = \<lparr>Ply = 1, UCI = ''e2e4'', FENAfter = FEN afterE4\<rparr>"
    by (simp add: ApplyUCI_e2e4)
  have none: "gameMoves demoGame ''g1'' = []" by (simp add: gameMoves_def demoGame_def demoUsers_def)
  have sel: "selectGame True ''g1'' demoGame = Inr (rowToGame demoRow)" by (simp add: selectGame_def demo_find)
  have "platform_reach T demoUsers [] []" by (rule pf_start) (simp add: demoUsers_def core_def)
  moreover have "sys_step T (demoUsers, []) (demoGame, [])"
    using sys_step.st_create [of demoParams T demoUsers "[]" True "''g1''" 5] demo_create by (simp add: demoParams_def)
  ultimately have "platform_reach T demoGame [] []" by (rule pf_play) (simp_all add: demoGame_def demoUsers_def)
  moreover have "sys_step T (demoGame, []) (demoGame, [(''g1'', Row (rowToGame demoRow) 0)])"
    using sys_step.st_row [OF sel, of T "[]"] by (simp add: none)
  ultimately have "platform_reach T demoGame [(''g1'', Row (rowToGame demoRow) 0)] []" by (rule pf_play) (simp_all add: demoGame_def demoUsers_def)
  moreover have "sys_step T (demoGame, [(''g1'', Row (rowToGame demoRow) 0)]) (demoGame, [(''g1'', Write pl)])"
    using sys_step.st_plan [of "''g1''" "rowToGame demoRow" 0 "[(''g1'', Row (rowToGame demoRow) 0)]" demoGame "''e2e4''" "''ann''" pl T] pl(1) none by simp
  ultimately have "platform_reach T demoGame [(''g1'', Write pl)] []" by (rule pf_play) (simp_all add: demoGame_def demoUsers_def)
  moreover define db where "db = snd (appendPlanned True 6 ''g1'' pl demoGame)"
  have a: "appendPlanned True 6 ''g1'' pl demoGame = (Inr (), db)"
    by (simp add: db_def appendPlanned_def AppendMove_def demo_find mv) (simp add: demoGame_def demoUsers_def)
  have db: "moves db = [\<lparr>mv_game = ''g1'', mv_ply = 1, mv_uci = ''e2e4'', mv_fen_after = FEN afterE4\<rparr>]" "length (outbox db) = 1"
      "ob_published (hd (outbox db)) = False" "ob_game (hd (outbox db)) = ''g1''"
    by (simp_all add: db_def appendPlanned_def AppendMove_def demo_find mv) (simp_all add: demoGame_def demoUsers_def)
  have "core db \<noteq> core demoGame" using db(1) by (simp add: core_def demoGame_def demoUsers_def)
  moreover have "sys_step T (demoGame, [(''g1'', Write pl)]) (db, [])" using sys_step.st_write [OF a, of "[(''g1'', Write pl)]" T] by simp
  ultimately have p: "platform_reach T db [] []" using pf_play [of T demoGame "[(''g1'', Write pl)]" "[]" db "[]"] db(1) by simp
  obtain r where r: "outbox db = [r]" "\<not> ob_published r" "ob_game r = ''g1''" using db(2-4) by (cases "outbox db") auto
  obtain n failed db' rl where d: "drainOnce (FetchUnpublished True) (MarkPublished True) (\<lambda>_. Added ''1-0'') db [] = (n, failed, db', rl)"
    by (metis prod_cases4)
  then have "moves db' = moves db" "\<forall>r \<in> set (outbox db'). ob_published r" "map ob_game (outbox db') = [''g1'']" "length rl = 1"
    using r by (auto simp: drainOnce_def FetchUnpublished_def MarkPublished_def relay_batch_def Stream_Append_def update_where_def Let_def)
  moreover have "length (streamOf (key ''g1'') rl) \<le> length rl" by (simp add: streamOf_def)
  ultimately show ?thesis using that [OF pf_relay [OF p d]] db(1) by simp
qed

text \<open>
  C10. A game's stream is the game.  Whatever the order of the service's statements and the relay's cycles, and
  with any failure of the database or of Redis: the events of a game's stream, when a reader ignores a ply it
  has seen (the relay can add a row twice), carry a beginning of the moves stored for that game, in order and without a
  gap: the number, the move and the position after it.  The beginning covers every row of the game that
  is marked as published.  (Whether the stored moves are a legal game is \<open>reachable_games_are_legal\<close>.)
\<close>

theorem streams_carry_the_moves:
  assumes "platform_reach T db ps rl"
  shows "\<exists>m. length (filter (\<lambda>r. ob_game r = gid \<and> ob_published r) (outbox db)) \<le> m \<and> m \<le> length (moves_of gid (moves db)) \<and>
    map (\<lambda>e. (ev_GameID e, ev_Ply e, ev_UCI e, ev_FENAfter e)) (firsts {} (map en_Event (stream_decode (streamOf (key gid) rl)))) =
      map (\<lambda>r. (mv_game r, mv_ply r, mv_uci r, mv_fen_after r)) (take m (moves_of gid (moves db)))"
proof -
  let ?es = "firsts {} (map en_Event (stream_decode (streamOf (key gid) rl)))" and ?ms = "moves_of gid (moves db)"
  obtain m where m: "m \<le> length ?ms" "length (filter (\<lambda>r. ob_game r = gid \<and> ob_published r) (outbox db)) \<le> m"
    "map event_shown ?es = map played (take m ?ms)" using stream_moves [OF assms] by blast
  have "filed rl" using relay_reach_ok platform_reach_parts [OF assms] by blast
  then have "ev_GameID e = gid" if "e \<in> set ?es" for e using that firsts_subset [of "{}" "map en_Event (stream_decode (streamOf (key gid) rl))"]
    by (auto simp: stream_logged)
  then have "map (\<lambda>e. (ev_GameID e, ev_Ply e, ev_UCI e, ev_FENAfter e)) ?es = map (Pair gid) (map event_shown ?es)" by (simp add: event_shown_def)
  moreover have "map (\<lambda>r. (mv_game r, mv_ply r, mv_uci r, mv_fen_after r)) (take m ?ms) = map (Pair gid) (map played (take m ?ms))"
    by (auto simp: played_def moves_of_def dest: in_set_takeD)
  ultimately show ?thesis using m by auto
qed

theorem streams_carry_the_moves_witness:
  "\<exists>rl. map (\<lambda>e. (ev_GameID e, ev_Ply e, ev_UCI e, ev_FENAfter e)) (firsts {} (map en_Event (stream_decode (streamOf (key ''g1'') rl)))) =
     [(''g1'', 1, ''e2e4'', FEN afterE4)]"
proof -
  obtain db rl where p: "platform_reach {} db [] rl" "moves db = [\<lparr>mv_game = ''g1'', mv_ply = 1, mv_uci = ''e2e4'', mv_fen_after = FEN afterE4\<rparr>]"
      "\<forall>r \<in> set (outbox db). ob_published r" "map ob_game (outbox db) = [''g1'']" by (rule demo_published)
  obtain r where "outbox db = [r]" "ob_game r = ''g1''" "ob_published r" using p(3,4) by (cases "outbox db") auto
  moreover have "moves_of ''g1'' (moves db) = moves db" by (simp add: p(2) moves_of_def)
  ultimately show ?thesis using streams_carry_the_moves [OF p(1), of "''g1''"] p(2) by auto
qed

end
