(* ===== verification/Matchmaking.thy ===== *)
theory Matchmaking
  imports Game_Server "HOL-Library.List_Lexorder" "HOL-Library.Char_ord" "HOL-Library.Multiset"
begin

text \<open>
  Matchmaking: the pairing script and its client (\<open>pkg/redisx/matchmaking.go\<close>) and the resolvers
  that use it (\<open>services/gateway/graph/matchmaking.go\<close>).  A queue is the sorted set of the waiting
  players with their ratings, listed in the order of the set (rating, then name as bytes), and
  the hash with the time each began to wait.  The script runs atomically, so it is one function.
  Lua's numbers are reals here.
\<close>

section \<open>The pairing script\<close>

record Queue =
  q_set :: "(string \<times> int) list"
  q_since :: "string \<rightharpoonup> int"

definition initialBand :: real where "initialBand = 100"
definition bandPerSec :: real where "bandPerSec = 50"
definition maxBand :: real where "maxBand = 800"

text \<open>\<open>ZADD\<close>, \<open>ZREM\<close> and the order of a sorted set.\<close>

definition zorder :: "(string \<times> int) list \<Rightarrow> (string \<times> int) list" where
  "zorder s = sort_key snd (sort_key fst s)"

definition zadd :: "string \<Rightarrow> int \<Rightarrow> (string \<times> int) list \<Rightarrow> (string \<times> int) list" where
  "zadd m score s = zorder ((m, score) # filter (\<lambda>x. fst x \<noteq> m) s)"

definition zrem :: "string list \<Rightarrow> (string \<times> int) list \<Rightarrow> (string \<times> int) list" where
  "zrem ms s = filter (\<lambda>x. fst x \<notin> set ms) s"

definition band :: "int \<Rightarrow> int option \<Rightarrow> real" where
  "band now since =
     (let wait = (case since of Some t \<Rightarrow> max 0 (real_of_int (now - t)) / 1000 | None \<Rightarrow> 0)
      in min maxBand (initialBand + wait * bandPerSec))"

definition gap :: "int \<Rightarrow> int \<Rightarrow> real" where
  "gap a b = \<bar>real_of_int a - real_of_int b\<bar>"

text \<open>The loop over the candidates: the nearest so far, and its distance.\<close>

fun nearest :: "int \<Rightarrow> (string \<rightharpoonup> int) \<Rightarrow> string \<Rightarrow> int \<Rightarrow> (string \<times> real) option \<Rightarrow> (string \<times> int) list \<Rightarrow> (string \<times> real) option" where
  "nearest now since me elo best [] = best"
| "nearest now since me elo best ((opp, e) # cs) =
     (if opp \<noteq> me \<and> gap e elo \<le> band now (since opp) \<and>
         (case best of None \<Rightarrow> True | Some (_, g) \<Rightarrow> gap e elo < g)
      then nearest now since me elo (Some (opp, gap e elo)) cs
      else nearest now since me elo best cs)"

definition tryPair :: "string \<Rightarrow> int \<Rightarrow> int \<Rightarrow> Queue \<Rightarrow> (string \<times> int) option \<times> Queue" where
  "tryPair me elo now q =
     (let myBand = band now (q_since q me);
          candidates = filter (\<lambda>(m, e). gap e elo \<le> myBand) (q_set q)
      in case nearest now (q_since q) me elo None candidates of
           Some (best, g) \<Rightarrow>
             (Some (best, case q_since q best of Some t \<Rightarrow> t | None \<Rightarrow> now),
              \<lparr>q_set = zrem [best, me] (q_set q), q_since = (q_since q)(best := None, me := None)\<rparr>)
         | None \<Rightarrow>
             (None, \<lparr>q_set = zadd me elo (q_set q),
                     q_since = (if q_since q me = None then (q_since q)(me \<mapsto> now) else q_since q)\<rparr>))"

text \<open>
  The client: the opponent and how long they waited (in milliseconds), \<open>None\<close> when waiting.  An
  empty name is not taken for an opponent.
\<close>

definition Enqueue :: "bool \<Rightarrow> bool \<Rightarrow> string \<Rightarrow> int \<Rightarrow> int \<Rightarrow> Queue \<Rightarrow> (unit + (string \<times> int) option) \<times> Queue" where
  "Enqueue enabled up userID elo now q =
     (if \<not> enabled then (Inr None, q)
      else if \<not> up then (Inl (), q)
      else case tryPair userID elo now q of
             (None, q) \<Rightarrow> (Inr None, q)
           | (Some (opponent, sinceMs), q) \<Rightarrow>
               if opponent = '''' then (Inr None, q)
               else (Inr (Some (opponent, if sinceMs > 0 \<and> now > sinceMs then now - sinceMs else 0)), q))"

definition Leave :: "bool \<Rightarrow> bool \<Rightarrow> string \<Rightarrow> Queue \<Rightarrow> (unit + unit) \<times> Queue" where
  "Leave enabled up userID q =
     (if \<not> enabled then (Inr (), q)
      else if \<not> up then (Inl (), q)
      else (Inr (), \<lparr>q_set = zrem [userID] (q_set q), q_since = (q_since q)(userID := None)\<rparr>))"

definition QueueDepth :: "bool \<Rightarrow> bool \<Rightarrow> Queue \<Rightarrow> unit + int" where
  "QueueDepth enabled up q = (if \<not> enabled then Inr 0 else if \<not> up then Inl () else Inr (int (length (q_set q))))"

section \<open>Correctness of the search\<close>

text \<open>A player whose band and mine both reach across the gap.\<close>

definition acceptable :: "int \<Rightarrow> (string \<rightharpoonup> int) \<Rightarrow> string \<Rightarrow> int \<Rightarrow> string \<times> int \<Rightarrow> bool" where
  "acceptable now since me elo c \<longleftrightarrow> fst c \<noteq> me \<and> gap (snd c) elo \<le> band now (since me) \<and> gap (snd c) elo \<le> band now (since (fst c))"

lemma nearest_spec:
  assumes "nearest now since me elo best cs = r"
  shows "(case r of
      None \<Rightarrow> best = None \<and> (\<forall>(m, e) \<in> set cs. \<not> (m \<noteq> me \<and> gap e elo \<le> band now (since m)))
    | Some (m, g) \<Rightarrow>
        (best = Some (m, g) \<or> (\<exists>e. (m, e) \<in> set cs \<and> m \<noteq> me \<and> gap e elo \<le> band now (since m) \<and> g = gap e elo)) \<and>
        (\<forall>(m', e') \<in> set cs. m' \<noteq> me \<and> gap e' elo \<le> band now (since m') \<longrightarrow> g \<le> gap e' elo) \<and>
        (case best of None \<Rightarrow> True | Some (_, g') \<Rightarrow> g \<le> g'))"
  using assms
proof (induction cs arbitrary: best)
  case Nil
  then show ?case by (auto split: option.splits)
next
  case (Cons c cs)
  obtain m e where c: "c = (m, e)" by (cases c)
  define ok where "ok \<longleftrightarrow> m \<noteq> me \<and> gap e elo \<le> band now (since m)"
  show ?case
  proof (cases "ok \<and> (case best of None \<Rightarrow> True | Some (_, g) \<Rightarrow> gap e elo < g)")
    case True
    then have "nearest now since me elo (Some (m, gap e elo)) cs = r" using Cons.prems c by (simp add: ok_def)
    from Cons.IH [OF this] True show ?thesis unfolding c ok_def by (force split: option.splits prod.splits)
  next
    case False
    then have "nearest now since me elo best cs = r" using Cons.prems c by (auto simp: ok_def split: if_splits)
    from Cons.IH [OF this] False show ?thesis unfolding c ok_def by (force split: option.splits prod.splits)
  qed
qed

lemma set_zorder [simp]: "set (zorder s) = set s"
  by (simp add: zorder_def)

lemma fst_zorder: "mset (map fst (zorder s)) = mset (map fst s)"
  by (simp add: zorder_def mset_map)

text \<open>A queue: every player once, in the order of the set, each with the time since which they wait.\<close>

definition queue_ok :: "Queue \<Rightarrow> bool" where
  "queue_ok q \<longleftrightarrow> distinct (map fst (q_set q)) \<and> sorted (map snd (q_set q)) \<and> dom (q_since q) = fst ` set (q_set q)"

lemma tryPair_cases:
  obtains (pair) best e where "fst (tryPair me elo now q) = Some (best, case q_since q best of Some t \<Rightarrow> t | None \<Rightarrow> now)"
      and "(best, e) \<in> set (q_set q)" and "acceptable now (q_since q) me elo (best, e)"
      and "\<And>c. c \<in> set (q_set q) \<Longrightarrow> acceptable now (q_since q) me elo c \<Longrightarrow> gap e elo \<le> gap (snd c) elo"
      and "snd (tryPair me elo now q) = \<lparr>q_set = zrem [best, me] (q_set q), q_since = (q_since q)(best := None, me := None)\<rparr>"
  | (wait) "fst (tryPair me elo now q) = None" and "\<And>c. c \<in> set (q_set q) \<Longrightarrow> \<not> acceptable now (q_since q) me elo c"
      and "snd (tryPair me elo now q) = \<lparr>q_set = zadd me elo (q_set q),
           q_since = (if q_since q me = None then (q_since q)(me \<mapsto> now) else q_since q)\<rparr>"
proof -
  let ?cs = "filter (\<lambda>(m, e). gap e elo \<le> band now (q_since q me)) (q_set q)"
  obtain r where r: "nearest now (q_since q) me elo None ?cs = r" by simp
  note spec = nearest_spec [OF r]
  show ?thesis
  proof (cases r)
    case None
    show ?thesis
      by (rule wait) (use r None spec in \<open>auto simp: tryPair_def Let_def acceptable_def\<close>)
  next
    case (Some bg)
    obtain b g where bg: "bg = (b, g)" by (cases bg)
    obtain e where e: "(b, e) \<in> set ?cs" "b \<noteq> me" "gap e elo \<le> band now (q_since q b)" "g = gap e elo"
      using spec Some bg by auto
    show ?thesis
    proof (rule pair [of b e])
      show "gap e elo \<le> gap (snd c) elo" if "c \<in> set (q_set q)" "acceptable now (q_since q) me elo c" for c
        using spec Some bg e(4) that by (cases c) (auto simp: acceptable_def)
    qed (use r Some bg e in \<open>auto simp: tryPair_def Let_def acceptable_def\<close>)
  qed
qed

lemma distinct_zadd: "distinct (map fst s) \<Longrightarrow> distinct (map fst (zadd m x s))"
proof -
  assume "distinct (map fst s)"
  then have "distinct (map fst ((m, x) # filter (\<lambda>y. fst y \<noteq> m) s))" by (auto simp: distinct_map_filter)
  then show ?thesis unfolding zadd_def by (metis fst_zorder mset_eq_imp_distinct_iff)
qed

lemma set_zadd: "set (zadd m x s) = insert (m, x) {y \<in> set s. fst y \<noteq> m}"
  by (simp add: zadd_def)

lemma sorted_zadd: "sorted (map snd (zadd m x s))"
  by (simp add: zadd_def zorder_def)

lemma queue_ok_zrem:
  assumes "queue_ok q"
  shows "queue_ok \<lparr>q_set = zrem ms (q_set q), q_since = (\<lambda>k. if k \<in> set ms then None else q_since q k)\<rparr>"
proof -
  have "dom (\<lambda>k. if k \<in> set ms then None else q_since q k) = dom (q_since q) - set ms" by (auto simp: dom_def)
  then show ?thesis using assms by (auto simp: queue_ok_def zrem_def distinct_map_filter intro!: sorted_filter)
qed

lemma tryPair_ok:
  assumes "queue_ok q"
  shows "queue_ok (snd (tryPair me elo now q))"
proof (cases rule: tryPair_cases [of me elo now q])
  case (pair best e)
  have "(q_since q)(best := None, me := None) = (\<lambda>k. if k \<in> set [best, me] then None else q_since q k)" by auto
  then show ?thesis using queue_ok_zrem [OF assms, of "[best, me]"] pair(5) by simp
next
  case wait
  have "dom (if q_since q me = None then (q_since q)(me \<mapsto> now) else q_since q) = insert me (dom (q_since q))" by auto
  then show ?thesis using assms unfolding wait(3) queue_ok_def by (auto simp: distinct_zadd sorted_zadd set_zadd)
qed

lemma Leave_ok: "queue_ok q \<Longrightarrow> queue_ok (snd (Leave en up u q))"
proof -
  assume q: "queue_ok q"
  have "(q_since q)(u := None) = (\<lambda>k. if k \<in> set [u] then None else q_since q k)" by auto
  then show ?thesis using queue_ok_zrem [OF q, of "[u]"] q by (simp add: Leave_def)
qed

lemma Enqueue_snd: "snd (Enqueue en up u elo now q) = (if en \<and> up then snd (tryPair u elo now q) else q)"
  by (cases "tryPair u elo now q") (auto simp: Enqueue_def split: option.splits)

section \<open>The resolvers\<close>

definition timeControlKey :: "int \<Rightarrow> int option \<Rightarrow> string" where
  "timeControlKey initialMs incrementMs = Itoa initialMs @ ''+'' @ Itoa (case incrementMs of Some i \<Rightarrow> i | None \<Rightarrow> 0)"

text \<open>\<open>coin\<close> is the random bit, \<open>None\<close> when the system has none to give.\<close>

definition assignColours :: "nat option \<Rightarrow> string \<Rightarrow> string \<Rightarrow> string \<times> string" where
  "assignColours coin a b = (if coin = None \<or> coin = Some 0 then (a, b) else (b, a))"

datatype QueueError = Unidentified | MatchmakingOff | UserLookup | QueueFailed | GameRefused Code

datatype Ticket = Waiting int | Matched ProtoGame int

text \<open>
  Queues are separate for each time control.  \<open>getUser\<close> and \<open>createGame\<close> are the calls to the other
  services, \<open>createGame\<close> with the state \<open>s\<close> it works on, \<open>up\<close> says which of the Redis calls succeed.
  The third component lists the notifications: the player and the game.
\<close>

definition enterQueue :: "string option \<Rightarrow> bool \<Rightarrow> (nat \<Rightarrow> bool) \<Rightarrow> (string \<Rightarrow> unit + int) \<Rightarrow>
    (CreateGameRequest \<Rightarrow> 's \<Rightarrow> (Code + ProtoGame) \<times> 's) \<Rightarrow> nat option \<Rightarrow> int \<Rightarrow> int \<Rightarrow> int option \<Rightarrow> (string \<Rightarrow> Queue) \<Rightarrow> 's \<Rightarrow>
    (QueueError + Ticket) \<times> (string \<Rightarrow> Queue) \<times> (string \<times> string) list \<times> 's" where
  "enterQueue ident enabled up getUser createGame coin now initialMs incrementMs qs s =
     (case ident of
        None \<Rightarrow> (Inl Unidentified, qs, [], s)
      | Some uid \<Rightarrow>
          if \<not> enabled then (Inl MatchmakingOff, qs, [], s)
          else case getUser uid of
              Inl _ \<Rightarrow> (Inl UserLookup, qs, [], s)
            | Inr elo \<Rightarrow>
                let tc = timeControlKey initialMs incrementMs in
                case Enqueue enabled (up 0) uid elo now (qs tc) of
                  (Inl _, q) \<Rightarrow> (Inl QueueFailed, qs(tc := q), [], s)
                | (Inr r, q) \<Rightarrow>
                    let depth = (case QueueDepth enabled (up 1) q of Inr d \<Rightarrow> d | Inl _ \<Rightarrow> 0) in
                    case r of
                      None \<Rightarrow> (Inr (Waiting depth), qs(tc := q), [], s)
                    | Some (opponent, wait) \<Rightarrow>
                        let (white, black) = assignColours coin uid opponent in
                        case createGame \<lparr>cr_WhiteId = white, cr_BlackId = black, cr_VsEngine = False, cr_EngineDepth = 0,
                                         cr_Rated = True, cr_InitialMs = initialMs,
                                         cr_IncrementMs = (case incrementMs of Some i \<Rightarrow> i | None \<Rightarrow> 0)\<rparr> s of
                          (Inl c, s) \<Rightarrow> (Inl (GameRefused c), qs(tc := snd (Enqueue enabled (up 2) opponent elo now q)), [], s)
                        | (Inr g, s) \<Rightarrow>
                            (Inr (Matched g depth), qs(tc := q), if up 3 then [(opponent, pg_Id g)] else [], s))"

definition leaveQueue :: "string option \<Rightarrow> bool \<Rightarrow> bool \<Rightarrow> int \<Rightarrow> int option \<Rightarrow> (string \<Rightarrow> Queue) \<Rightarrow> (QueueError + bool) \<times> (string \<Rightarrow> Queue)" where
  "leaveQueue ident enabled up initialMs incrementMs qs =
     (case ident of
        None \<Rightarrow> (Inl Unidentified, qs)
      | Some uid \<Rightarrow>
          if \<not> enabled then (Inr True, qs)
          else
            let tc = timeControlKey initialMs incrementMs in
            case Leave enabled up uid (qs tc) of
              (Inl _, q) \<Rightarrow> (Inl QueueFailed, qs(tc := q))
            | (Inr _, q) \<Rightarrow> (Inr True, qs(tc := q)))"

section \<open>Properties\<close>

text \<open>
  C37. Pairing is fair and mutual: the script pairs a player exactly when somebody else in the queue
  is acceptable to both (each within the other's band), it then picks one with the smallest
  rating gap and takes both players out of the queue; and otherwise the player waits in the queue
  with the given rating.  In every case the queue stays well formed: each player at most once, in
  rating order, with the time since which they wait.
\<close>

theorem tryPair_correct:
  assumes "queue_ok q"
  shows "queue_ok (snd (tryPair me elo now q)) \<and>
    (case fst (tryPair me elo now q) of
       Some (opp, t) \<Rightarrow>
         (\<exists>e. (opp, e) \<in> set (q_set q) \<and> acceptable now (q_since q) me elo (opp, e) \<and> q_since q opp = Some t \<and>
            (\<forall>c \<in> set (q_set q). acceptable now (q_since q) me elo c \<longrightarrow> gap e elo \<le> gap (snd c) elo)) \<and>
         set (q_set (snd (tryPair me elo now q))) = {c \<in> set (q_set q). fst c \<noteq> opp \<and> fst c \<noteq> me}
     | None \<Rightarrow> (\<forall>c \<in> set (q_set q). \<not> acceptable now (q_since q) me elo c) \<and>
         set (q_set (snd (tryPair me elo now q))) = insert (me, elo) {c \<in> set (q_set q). fst c \<noteq> me})"
proof (cases rule: tryPair_cases [of me elo now q])
  case (pair best e)
  have "best \<in> dom (q_since q)" using assms pair(2) by (force simp: queue_ok_def)
  then show ?thesis using pair tryPair_ok [OF assms, of me elo now] by (fastforce simp: zrem_def)
next
  case wait
  then show ?thesis using tryPair_ok [OF assms, of me elo now] by (auto simp: set_zadd)
qed

definition demoQueue :: Queue where
  "demoQueue = \<lparr>q_set = [(''ann'', 1200), (''bob'', 1290)], q_since = [''ann'' \<mapsto> 1000, ''bob'' \<mapsto> 2000]\<rparr>"

theorem tryPair_correct_witness:
  "\<exists>opp t e. fst (tryPair ''eve'' 1250 3000 demoQueue) = Some (opp, t) \<and> (opp, e) \<in> set (q_set demoQueue) \<and> gap e 1250 \<le> 40"
proof -
  have q: "queue_ok demoQueue" by (auto simp: queue_ok_def demoQueue_def)
  have b: "(''bob'', 1290) \<in> set (q_set demoQueue)" "acceptable 3000 (q_since demoQueue) ''eve'' 1250 (''bob'', 1290)"
    by (simp_all add: demoQueue_def acceptable_def gap_def band_def initialBand_def maxBand_def bandPerSec_def)
  note c = tryPair_correct [OF q, of "''eve''" 1250 3000]
  show ?thesis
  proof (cases "fst (tryPair ''eve'' 1250 3000 demoQueue)")
    case None
    then show ?thesis using c b by simp
  next
    case (Some ot)
    then show ?thesis using c b by (cases ot) (fastforce simp: gap_def)
  qed
qed

text \<open>
  Nobody waits forever for want of a band: a player who has waited fourteen seconds and asks
  again is paired as soon as somebody else who has also waited fourteen seconds is within
  eight hundred rating points.
\<close>

theorem waiting_widens_enough:
  assumes "queue_ok q" and "q_since q me = Some t" and "now - t \<ge> 14000" and "(opp, e) \<in> set (q_set q)" and "opp \<noteq> me"
    and "q_since q opp = Some t'" and "now - t' \<ge> 14000" and "\<bar>e - elo\<bar> \<le> 800"
  shows "\<exists>o' s. fst (tryPair me elo now q) = Some (o', s)"
proof -
  have "band now (Some x) = 800" if "now - x \<ge> 14000" for x
    using that by (simp add: band_def maxBand_def initialBand_def bandPerSec_def min_def)
  then have "acceptable now (q_since q) me elo (opp, e)" using assms by (simp add: acceptable_def gap_def)
  then show ?thesis using assms(4) by (cases rule: tryPair_cases [of me elo now q]) auto
qed

theorem waiting_widens_enough_witness: "\<exists>o' s. fst (tryPair ''ann'' 1200 90000 demoQueue) = Some (o', s)"
  by (rule waiting_widens_enough [of _ _ 1000 _ "''bob''" 1290 2000]) (auto simp: queue_ok_def demoQueue_def)

text \<open>
  A pairing whose game cannot be created puts the opponent back into the queue under the rating of
  the player who asked, not under their own.
\<close>

theorem failed_game_requeues_with_callers_rating:
  assumes "getUser uid = Inr elo" and "Enqueue True (up 0) uid elo now (qs (timeControlKey initialMs inc)) = (Inr (Some (opponent, w)), q)"
    and "q_set q = []" and "\<And>req. fst (createGame req s) = Inl c" and "up 2"
  shows "\<exists>qs' s'. enterQueue (Some uid) True up getUser createGame coin now initialMs inc qs s = (Inl (GameRefused c), qs', [], s') \<and>
    set (q_set (qs' (timeControlKey initialMs inc))) = {(opponent, elo)}"
proof -
  have "fst (tryPair opponent elo now q) = None" "set (q_set (snd (tryPair opponent elo now q))) = {(opponent, elo)}"
    using assms(3) by (cases rule: tryPair_cases [of opponent elo now q]; simp add: set_zadd)+
  then have "set (q_set (snd (Enqueue True (up 2) opponent elo now q))) = {(opponent, elo)}" using assms(5) by (simp add: Enqueue_snd)
  then show ?thesis using assms(1,2,4) by (auto simp: enterQueue_def Let_def case_prod_beta split: sum.splits)
qed

end
