(* ===== verification/Rate_Limit.thy ===== *)
theory Rate_Limit
  imports Go_Strings Complex_Main
begin

text \<open>
  The token-bucket limiter (\<open>pkg/redisx/ratelimit.go\<close>) and the middleware that uses it
  (\<open>services/gateway/internal/auth/ratelimit.go\<close>).  A bucket holds the tokens and the time (in
  milliseconds) of the last look; a caller without a bucket has none stored.  Lua's numbers are
  reals here.
\<close>

section \<open>The script\<close>

type_synonym Bucket = "(real \<times> int) option"

definition refill :: "real \<Rightarrow> real \<Rightarrow> int \<Rightarrow> Bucket \<Rightarrow> real" where
  "refill rate capacity now b =
     (let (tokens, ts) = (case b of Some x \<Rightarrow> x | None \<Rightarrow> (capacity, now));
          elapsed = max 0 (real_of_int (now - ts)) / 1000
      in min capacity (tokens + elapsed * rate))"

text \<open>Whether the request may pass, the tokens left, the bucket, and its time to live in milliseconds.\<close>

definition tokenBucket :: "real \<Rightarrow> real \<Rightarrow> int \<Rightarrow> real \<Rightarrow> Bucket \<Rightarrow> bool \<times> int \<times> Bucket \<times> int" where
  "tokenBucket rate capacity now cost b =
     (let tokens = refill rate capacity now b;
          allowed = (cost \<le> tokens);
          tokens = (if allowed then tokens - cost else tokens)
      in (allowed, \<lfloor>tokens\<rfloor>, Some (tokens, now), \<lceil>capacity / rate * 1000\<rceil> + 1000))"

record Limiter =
  lim_client :: bool
  lim_rate :: real
  lim_capacity :: int

definition burst :: "Limiter option \<Rightarrow> int" where
  "burst l = (case l of None \<Rightarrow> 0 | Some l \<Rightarrow> lim_capacity l)"

text \<open>\<open>None\<close> is the nil limiter; \<open>up\<close> says whether Redis answers in time.\<close>

definition Allow :: "Limiter option \<Rightarrow> bool \<Rightarrow> int \<Rightarrow> Bucket \<Rightarrow> bool \<times> int \<times> Bucket" where
  "Allow l up now b =
     (case l of
        None \<Rightarrow> (True, burst l, b)
      | Some lm \<Rightarrow>
          if \<not> lim_client lm \<or> lim_rate lm \<le> 0 \<or> \<not> up then (True, burst l, b)
          else case tokenBucket (lim_rate lm) (real_of_int (lim_capacity lm)) now 1 b of
                 (allowed, left, b, ttl) \<Rightarrow> (allowed, left, b))"

section \<open>The middleware\<close>

fun trimFront :: "string \<Rightarrow> string" where
  "trimFront [] = []"
| "trimFront (c # cs) = (if c = CHR '' '' \<or> c = CHR 0x09 then trimFront cs else c # cs)"

definition trimSpaceTab :: "string \<Rightarrow> string" where
  "trimSpaceTab s = rev (trimFront (rev (trimFront s)))"

text \<open>\<open>hostOf\<close> is \<open>net.SplitHostPort\<close>: the host, or nothing when the address has no port.\<close>

definition clientIP :: "(string \<Rightarrow> string option) \<Rightarrow> string \<Rightarrow> string \<Rightarrow> string" where
  "clientIP hostOf xff remoteAddr =
     (if xff \<noteq> '''' then trimSpaceTab (takeWhile (\<lambda>c. c \<noteq> CHR '','') xff)
      else case hostOf remoteAddr of None \<Rightarrow> remoteAddr | Some h \<Rightarrow> h)"

text \<open>The loop of \<open>itoa\<close>: digits from the last to the first; it stops when the rest is not positive.\<close>

function itoaDigits :: "int \<Rightarrow> string" where
  "itoaDigits n = (if n > 0 then itoaDigits (n div 10) @ [digit_char (nat (n mod 10))] else [])"
  by auto
termination by (relation "measure nat") auto

declare itoaDigits.simps [simp del]

text \<open>The negation of the least integer wraps around to itself.\<close>

definition go_itoa :: "int \<Rightarrow> string" where
  "go_itoa n =
     (if n = 0 then ''0''
      else let m = (if n < 0 then wrap64 (- n) else n)
           in (if n < 0 then ''-'' else '''') @ itoaDigits m)"

datatype HttpOutcome = Passed | TooManyRequests

text \<open>\<open>ident\<close> is the signed-in user, if any; the second component is the header with the tokens left.\<close>

definition limitKey :: "string option \<Rightarrow> string \<Rightarrow> string" where
  "limitKey ident ip = (case ident of Some uid \<Rightarrow> ''user:'' @ uid | None \<Rightarrow> ''ip:'' @ ip)"

definition RateLimitMiddleware :: "Limiter option \<Rightarrow> bool \<Rightarrow> int \<Rightarrow> string option \<Rightarrow> string \<Rightarrow> (string \<Rightarrow> Bucket) \<Rightarrow>
    HttpOutcome \<times> string \<times> (string \<Rightarrow> Bucket)" where
  "RateLimitMiddleware l up now ident ip buckets =
     (let k = ''ratelimit:'' @ limitKey ident ip;
          (allowed, remaining, b) = Allow l up now (buckets k)
      in (if allowed then Passed else TooManyRequests, go_itoa remaining, buckets(k := b)))"

section \<open>Lemmas\<close>

lemma itoaDigits_nat: "itoaDigits (int n) = (if n = 0 then '''' else nat_digits n)"
proof (induction n rule: less_induct)
  case (less n)
  show ?case
  proof (cases "n < 10")
    case True
    then have "int n div 10 = 0" by simp
    then show ?thesis using True nat_digits.simps [of n] by (subst itoaDigits.simps) (simp add: itoaDigits.simps [of 0] nat_mod_distrib)
  next
    case False
    have "itoaDigits (int n) = itoaDigits (int (n div 10)) @ [digit_char (n mod 10)]"
      using False by (subst itoaDigits.simps) (simp add: zdiv_int nat_mod_distrib)
    moreover have "n div 10 \<noteq> 0" using False by (simp add: div_eq_0_iff)
    ultimately show ?thesis using False less.IH [of "n div 10"] nat_digits.simps [of n] by simp
  qed
qed

lemma nat_digits_0: "nat_digits 0 = ''0''"
  by code_simp

lemma go_itoa_Itoa: "int64_range n \<Longrightarrow> n \<noteq> - (2 ^ 63) \<Longrightarrow> go_itoa n = Itoa n"
proof -
  assume r: "int64_range n" "n \<noteq> - (2 ^ 63)"
  show ?thesis
  proof (cases "n < 0")
    case True
    then have "wrap64 (- n) = int (nat (- n))" using r by (simp add: wrap64_id int64_range_def)
    then show ?thesis using True itoaDigits_nat [of "nat (- n)"] by (simp add: go_itoa_def Itoa_def)
  next
    case False
    then show ?thesis using itoaDigits_nat [of "nat n"] nat_digits_0 by (auto simp: go_itoa_def Itoa_def)
  qed
qed

lemma go_itoa_least: "go_itoa (- (2 ^ 63)) = ''-''"
  by (simp add: go_itoa_def wrap64_def itoaDigits.simps)

section \<open>A sequence of requests\<close>

text \<open>How many of the requests made at the given times pass, and the bucket at the end.\<close>

fun serve :: "real \<Rightarrow> real \<Rightarrow> int list \<Rightarrow> Bucket \<Rightarrow> nat \<times> Bucket" where
  "serve rate capacity [] b = (0, b)"
| "serve rate capacity (t # ts) b =
     (case tokenBucket rate capacity t 1 b of
        (allowed, _, b, _) \<Rightarrow> let (n, b) = serve rate capacity ts b in ((if allowed then n + 1 else n), b))"

lemma tokenBucket_step:
  assumes "0 \<le> rate" and "0 \<le> k" and "t \<le> now" and "0 \<le> capacity"
    and "tokenBucket rate capacity now 1 (Some (k, t)) = (allowed, left, b, ttl)"
  obtains k' where "b = Some (k', now)" and "0 \<le> k'" and "k' + (if allowed then 1 else 0) \<le> k + rate * real_of_int (now - t) / 1000"
proof -
  let ?r = "min capacity (k + real_of_int (now - t) / 1000 * rate)"
  have r: "refill rate capacity now (Some (k, t)) = ?r" using assms(3) by (simp add: refill_def max_def)
  have "0 \<le> real_of_int (now - t) / 1000 * rate" using assms(1,3) by (intro mult_nonneg_nonneg) simp_all
  then have "0 \<le> ?r" using assms(2,4) by simp
  moreover have "?r \<le> k + rate * real_of_int (now - t) / 1000" by (simp add: mult.commute)
  ultimately show ?thesis using that [of "if 1 \<le> ?r then ?r - 1 else ?r"] assms(5) unfolding tokenBucket_def r Let_def
    by (auto split: if_splits)
qed

lemma serve_bound:
  assumes "0 \<le> rate" and "0 \<le> capacity" and "0 \<le> k" and "sorted (t # ts)" and "serve rate capacity ts (Some (k, t)) = (n, b)"
  shows "real n \<le> k + rate * real_of_int (last (t # ts) - t) / 1000"
  using assms
proof (induction ts arbitrary: k t n)
  case Nil
  then show ?case by simp
next
  case (Cons u us)
  obtain al left b1 ttl where tb: "tokenBucket rate capacity u 1 (Some (k, t)) = (al, left, b1, ttl)" by (metis prod.collapse)
  have "t \<le> u" using Cons.prems(4) by simp
  from tokenBucket_step [OF Cons.prems(1,3) this Cons.prems(2) tb]
  obtain k' where k': "b1 = Some (k', u)" "0 \<le> k'" "k' + (if al then 1 else 0) \<le> k + rate * real_of_int (u - t) / 1000" .
  obtain m b2 where m: "serve rate capacity us (Some (k', u)) = (m, b2)" by fastforce
  have "real m \<le> k' + rate * real_of_int (last (u # us) - u) / 1000"
    using Cons.IH [OF Cons.prems(1,2) k'(2), of u m] Cons.prems(4,5) tb k'(1) m by (auto split: prod.splits if_splits)
  moreover have "n = (if al then m + 1 else m)" using Cons.prems(5) tb k'(1) m by (simp split: if_splits)
  moreover have "rate * real_of_int (u - t) / 1000 + rate * real_of_int (last (u # us) - u) / 1000 = rate * real_of_int (last (t # u # us) - t) / 1000"
    by (simp add: field_simps flip: add_divide_distrib)
  ultimately show ?case using k'(3) by (auto split: if_splits)
qed

section \<open>Properties\<close>

text \<open>
  The limit holds over every interval: of a caller's requests, made at any times from a full
  bucket on, the number that passes is at most the burst size plus the rate times the length of the
  interval.
\<close>

theorem limiter_bounds_the_rate:
  assumes "0 < rate" and "0 \<le> capacity" and "sorted (t # ts)"
  shows "real (fst (serve rate capacity (t # ts) None)) \<le> capacity + rate * real_of_int (last (t # ts) - t) / 1000"
proof -
  have full: "tokenBucket rate capacity t 1 None = tokenBucket rate capacity t 1 (Some (capacity, t))"
    by (simp add: tokenBucket_def refill_def)
  obtain n b where n: "serve rate capacity (t # ts) (Some (capacity, t)) = (n, b)" by fastforce
  have "real n \<le> capacity + rate * real_of_int (last (t # t # ts) - t) / 1000"
    by (rule serve_bound [OF _ assms(2,2) _ n]) (use assms in auto)
  then show ?thesis using n full by simp
qed

theorem limiter_bounds_the_rate_witness: "real (fst (serve 2 3 [0, 10, 20, 500] None)) \<le> 4"
  using limiter_bounds_the_rate [of 2 3 0 "[10, 20, 500]"] by simp

lemma refill_range:
  assumes "0 < rate" and "0 \<le> capacity" and "case b of None \<Rightarrow> True | Some (k, t0) \<Rightarrow> 0 \<le> k"
  shows "0 \<le> refill rate capacity now b" and "refill rate capacity now b \<le> capacity"
proof -
  have "0 \<le> max 0 (real_of_int (now - t)) / 1000 * rate" for t using assms(1) by (intro mult_nonneg_nonneg) simp_all
  then show "0 \<le> refill rate capacity now b" using assms(2,3) unfolding refill_def Let_def by (auto split: option.splits intro: add_nonneg_nonneg)
qed (simp add: refill_def Let_def split: prod.split)

text \<open>The same from any bucket the script can have left: it never holds a negative number of tokens.\<close>

lemma serve_from_bucket:
  assumes "0 < rate" and "0 \<le> capacity" and "sorted (t # ts)" and "case b of None \<Rightarrow> True | Some (k, t0) \<Rightarrow> 0 \<le> k"
  shows "real (fst (serve rate capacity (t # ts) b)) \<le> capacity + rate * real_of_int (last (t # ts) - t) / 1000"
proof -
  define r where "r = refill rate capacity t b"
  have r: "0 \<le> r" "r \<le> capacity" using refill_range [OF assms(1,2,4), of t] by (simp_all add: r_def)
  have "refill rate capacity t (Some (r, t)) = r" using r(2) by (simp add: refill_def)
  then have "tokenBucket rate capacity t 1 b = tokenBucket rate capacity t 1 (Some (r, t))" by (simp add: tokenBucket_def r_def)
  then have same: "serve rate capacity (t # ts) b = serve rate capacity (t # ts) (Some (r, t))" by simp
  obtain n b' where n: "serve rate capacity (t # ts) (Some (r, t)) = (n, b')" by fastforce
  have "real n \<le> r + rate * real_of_int (last (t # t # ts) - t) / 1000"
    by (rule serve_bound [OF _ assms(2) r(1) _ n]) (use assms in auto)
  then show ?thesis using n r(2) same by simp
qed

lemma tokenBucket_tokens:
  assumes "0 < rate" and "0 \<le> capacity" and "case b of None \<Rightarrow> True | Some (k, t0) \<Rightarrow> 0 \<le> k" and "tokenBucket rate capacity now 1 b = (allowed, left, b', ttl)"
  shows "case b' of None \<Rightarrow> True | Some (k, t0) \<Rightarrow> 0 \<le> k"
  using refill_range(1) [OF assms(1-3), of now] assms(4) by (auto simp: tokenBucket_def Let_def split: if_splits)

text \<open>
  Forgetting an idle bucket is invisible: once the time to live that the script sets has
  passed, the next request is answered as for a caller without a bucket.
\<close>

theorem expired_bucket_is_full:
  assumes "0 < rate" and "0 \<le> capacity" and "0 \<le> k" and "tokenBucket rate capacity t0 cost b0 = (allowed, left, Some (k, t), ttl)"
    and "now \<ge> t + ttl"
  shows "tokenBucket rate capacity now cost (Some (k, t)) = tokenBucket rate capacity now cost None"
proof -
  have "ttl = \<lceil>capacity / rate * 1000\<rceil> + 1000" using assms(4) by (simp add: tokenBucket_def Let_def)
  then have "capacity / rate * 1000 \<le> real_of_int (now - t)" using assms(5) by linarith
  then have "capacity \<le> real_of_int (now - t) / 1000 * rate" using assms(1) by (simp add: field_simps)
  moreover have "0 \<le> real_of_int (now - t)" using \<open>capacity / rate * 1000 \<le> _\<close> assms(1,2) by (smt (verit) divide_nonneg_nonneg)
  ultimately have "refill rate capacity now (Some (k, t)) = capacity" using assms(3) by (simp add: refill_def max_def min_def)
  moreover have "refill rate capacity now None = capacity" by (simp add: refill_def)
  ultimately show ?thesis by (simp add: tokenBucket_def)
qed

theorem expired_bucket_is_full_witness: "tokenBucket 2 3 9000 1 (Some (2, 0)) = tokenBucket 2 3 9000 1 None"
  by (rule expired_bucket_is_full [of 2 3 2 0 1 None True 2 0 2500]) (simp_all add: tokenBucket_def refill_def)

end
