(* ===== verification/Presence.thy ===== *)
theory Presence
  imports Matchmaking
begin

text \<open>
  The Redis views of players: rankings and presence (\<open>pkg/redisx/leaderboard.go\<close>), spectators, daily
  users and revoked sessions (\<open>pkg/redisx/audience.go\<close>).  Sorted sets are lists in the order of the
  set, as for matchmaking.  \<open>up\<close> says which commands of a pipeline reach Redis.  Times are
  nanoseconds for presence, whose scores are whole seconds, and milliseconds for revocations.
\<close>

section \<open>Rankings\<close>

record Board_View =
  lb_elo :: "(string \<times> int) list"
  lb_names :: "string \<rightharpoonup> string"
  lb_active :: "(string \<times> int) list"

record RankRow =
  rk_Rank :: int
  rk_UserID :: string
  rk_Username :: string
  rk_Elo :: int

definition Upsert :: "bool \<Rightarrow> (nat \<Rightarrow> bool) \<Rightarrow> string \<Rightarrow> string \<Rightarrow> int \<Rightarrow> Board_View \<Rightarrow> (unit + unit) \<times> Board_View" where
  "Upsert enabled up userID username elo v =
     (if \<not> enabled then (Inr (), v)
      else
        let v = (if up 0 then v\<lparr>lb_elo := zadd userID elo (lb_elo v)\<rparr> else v);
            v = (if up 1 then v\<lparr>lb_names := (lb_names v)(userID \<mapsto> username)\<rparr> else v)
        in (if up 0 \<and> up 1 then Inr () else Inl (), v))"

definition Lb_Remove :: "bool \<Rightarrow> (nat \<Rightarrow> bool) \<Rightarrow> string \<Rightarrow> Board_View \<Rightarrow> (unit + unit) \<times> Board_View" where
  "Lb_Remove enabled up userID v =
     (if \<not> enabled then (Inr (), v)
      else
        let v = (if up 0 then v\<lparr>lb_elo := zrem [userID] (lb_elo v)\<rparr> else v);
            v = (if up 1 then v\<lparr>lb_names := (lb_names v)(userID := None)\<rparr> else v)
        in (if up 0 \<and> up 1 then Inr () else Inl (), v))"

text \<open>\<open>ZREVRANK\<close>: the position from the top, if the member is there.\<close>

definition zrevrank :: "string \<Rightarrow> (string \<times> int) list \<Rightarrow> nat option" where
  "zrevrank m s =
     (let above = takeWhile (\<lambda>x. fst x \<noteq> m) (rev s)
      in if length above < length s then Some (length above) else None)"

definition Lb_Rank :: "bool \<Rightarrow> bool \<Rightarrow> string \<Rightarrow> Board_View \<Rightarrow> unit + int" where
  "Lb_Rank enabled up userID v =
     (if \<not> enabled then Inr 0
      else if \<not> up then Inl ()
      else case zrevrank userID (lb_elo v) of None \<Rightarrow> Inr 0 | Some r \<Rightarrow> Inr (int r + 1))"

definition Lb_Top :: "bool \<Rightarrow> (nat \<Rightarrow> bool) \<Rightarrow> int \<Rightarrow> Board_View \<Rightarrow> unit + RankRow list" where
  "Lb_Top enabled up limit v =
     (if \<not> enabled then Inr []
      else
        let limit = (if limit \<le> 0 \<or> limit > 100 then 20 else limit);
            rows = take (nat limit) (rev (lb_elo v))
        in if \<not> up 0 then Inl ()
           else if rows = [] then Inr []
           else if \<not> up 1 then Inl ()
           else Inr (map (\<lambda>(i, z). \<lparr>rk_Rank = int i + 1, rk_UserID = fst z,
                  rk_Username = (case lb_names v (fst z) of Some n \<Rightarrow> n | None \<Rightarrow> ''''), rk_Elo = snd z\<rparr>) (enumerate 0 rows)))"

definition Lb_Size :: "bool \<Rightarrow> bool \<Rightarrow> Board_View \<Rightarrow> unit + int" where
  "Lb_Size enabled up v = (if \<not> enabled then Inr 0 else if \<not> up then Inl () else Inr (int (length (lb_elo v))))"

section \<open>Presence\<close>

definition second :: int where "second = 10 ^ 9"
definition presenceWindow :: int where "presenceWindow = 5 * 60 * second"

definition Touch :: "bool \<Rightarrow> bool \<Rightarrow> int \<Rightarrow> string \<Rightarrow> Board_View \<Rightarrow> (unit + unit) \<times> Board_View" where
  "Touch enabled up now userID v =
     (if \<not> enabled then (Inr (), v)
      else if \<not> up then (Inl (), v)
      else (Inr (), v\<lparr>lb_active := zadd userID (now div second) (lb_active v)\<rparr>))"

definition OnlineCount :: "bool \<Rightarrow> bool \<Rightarrow> int \<Rightarrow> Board_View \<Rightarrow> (unit + int) \<times> Board_View" where
  "OnlineCount enabled up now v =
     (if \<not> enabled then (Inr 0, v)
      else if \<not> up then (Inl (), v)
      else
        let cutoff = (now - presenceWindow) div second;
            v = v\<lparr>lb_active := filter (\<lambda>x. \<not> snd x < cutoff) (lb_active v)\<rparr>
        in (Inr (int (length (lb_active v))), v))"

definition IsOnline :: "bool \<Rightarrow> bool \<Rightarrow> int \<Rightarrow> string \<Rightarrow> Board_View \<Rightarrow> unit + bool" where
  "IsOnline enabled up now userID v =
     (if \<not> enabled then Inr False
      else if \<not> up then Inl ()
      else case map_of (lb_active v) userID of
             None \<Rightarrow> Inr False
           | Some score \<Rightarrow> Inr (score * second > now - presenceWindow))"

section \<open>Audience\<close>

text \<open>The hyper-log-logs are the sets of the users added; \<open>pfcount\<close> is their approximate size.\<close>

record Audience =
  au_spectators :: "string \<Rightarrow> string set"
  au_dau :: "string \<Rightarrow> string set"

definition Watch :: "bool \<Rightarrow> bool \<Rightarrow> string \<Rightarrow> string \<Rightarrow> Audience \<Rightarrow> (unit + unit) \<times> Audience" where
  "Watch enabled up gameID userID a =
     (if \<not> enabled then (Inr (), a)
      else if \<not> up then (Inl (), a)
      else (Inr (), a\<lparr>au_spectators := (au_spectators a)(gameID := insert userID (au_spectators a gameID))\<rparr>))"

definition Unwatch :: "bool \<Rightarrow> bool \<Rightarrow> string \<Rightarrow> string \<Rightarrow> Audience \<Rightarrow> (unit + unit) \<times> Audience" where
  "Unwatch enabled up gameID userID a =
     (if \<not> enabled then (Inr (), a)
      else if \<not> up then (Inl (), a)
      else (Inr (), a\<lparr>au_spectators := (au_spectators a)(gameID := au_spectators a gameID - {userID})\<rparr>))"

definition SpectatorCount :: "bool \<Rightarrow> bool \<Rightarrow> string \<Rightarrow> Audience \<Rightarrow> unit + int" where
  "SpectatorCount enabled up gameID a =
     (if \<not> enabled then Inr 0 else if \<not> up then Inl () else Inr (int (card (au_spectators a gameID))))"

text \<open>\<open>day\<close> renders a day number as the key's date.\<close>

definition RecordActive :: "(int \<Rightarrow> string) \<Rightarrow> bool \<Rightarrow> bool \<Rightarrow> int \<Rightarrow> string \<Rightarrow> Audience \<Rightarrow> (unit + unit) \<times> Audience" where
  "RecordActive day enabled up today userID a =
     (if \<not> enabled then (Inr (), a)
      else if \<not> up then (Inl (), a)
      else let k = ''dau:'' @ day today
           in (Inr (), a\<lparr>au_dau := (au_dau a)(k := insert userID (au_dau a k))\<rparr>))"

definition DailyActive :: "(string set \<Rightarrow> int) \<Rightarrow> (int \<Rightarrow> string) \<Rightarrow> bool \<Rightarrow> bool \<Rightarrow> int \<Rightarrow> Audience \<Rightarrow> unit + int" where
  "DailyActive pfcount day enabled up d a =
     (if \<not> enabled then Inr 0 else if \<not> up then Inl () else Inr (pfcount (au_dau a (''dau:'' @ day d))))"

definition ActiveOverDays :: "(string set \<Rightarrow> int) \<Rightarrow> (int \<Rightarrow> string) \<Rightarrow> bool \<Rightarrow> bool \<Rightarrow> int \<Rightarrow> int \<Rightarrow> Audience \<Rightarrow> unit + int" where
  "ActiveOverDays pfcount day enabled up today days a =
     (if \<not> enabled \<or> days \<le> 0 then Inr 0
      else if \<not> up then Inl ()
      else Inr (pfcount (\<Union>i \<in> {0..<days}. au_dau a (''dau:'' @ day (today - i)))))"

section \<open>Revocations\<close>

type_synonym Revoked = "string \<rightharpoonup> int"

definition Revoke :: "bool \<Rightarrow> bool \<Rightarrow> int \<Rightarrow> string \<Rightarrow> int \<Rightarrow> Revoked \<Rightarrow> (unit + unit) \<times> Revoked" where
  "Revoke enabled up now tokenID until r =
     (if \<not> enabled then (Inr (), r)
      else if until - now \<le> 0 then (Inr (), r)
      else if \<not> up then (Inl (), r)
      else (Inr (), r(tokenID \<mapsto> until)))"

definition IsRevoked :: "bool \<Rightarrow> bool \<Rightarrow> int \<Rightarrow> string \<Rightarrow> Revoked \<Rightarrow> bool" where
  "IsRevoked enabled up now tokenID r =
     (enabled \<and> up \<and> (case r tokenID of None \<Rightarrow> False | Some until \<Rightarrow> now < until))"

section \<open>Lemmas\<close>

text \<open>The rankings: every player once, in rating order.\<close>

definition ranking_ok :: "Board_View \<Rightarrow> bool" where
  "ranking_ok v \<longleftrightarrow> distinct (map fst (lb_elo v)) \<and> sorted (map snd (lb_elo v)) \<and> distinct (map fst (lb_active v))"

lemma distinct_zrem: "distinct (map fst s) \<Longrightarrow> distinct (map fst (zrem ms s))"
  by (simp add: zrem_def distinct_map_filter)

lemma sorted_zrem: "sorted (map snd s) \<Longrightarrow> sorted (map snd (zrem ms s))"
  by (simp add: zrem_def sorted_filter)

lemma ranking_ok_ops:
  assumes "ranking_ok v"
  shows "ranking_ok (snd (Upsert en up u n e v))" and "ranking_ok (snd (Lb_Remove en up u v))"
    and "ranking_ok (snd (Touch en up1 now u v))" and "ranking_ok (snd (OnlineCount en up1 now v))"
  using assms by (auto simp: ranking_ok_def Upsert_def Lb_Remove_def Touch_def OnlineCount_def Let_def distinct_zadd sorted_zadd
      distinct_zrem sorted_zrem distinct_map_filter)

lemma int_div_less: "0 < b \<Longrightarrow> a div b < q \<longleftrightarrow> a < q * (b :: int)"
  using pos_imp_zdiv_neg_iff [of b "a + (- q) * b"] div_mult_self1 [of b a "- q"] by simp

lemma zrevrank_nth:
  assumes "distinct (map fst s)" and "i < length s"
  shows "zrevrank (fst (rev s ! i)) s = Some i"
proof -
  have "fst (rev s ! j) \<noteq> fst (rev s ! i)" if "j < i" for j
  proof -
    have "distinct (map fst (rev s))" using assms(1) by (simp flip: rev_map)
    then show ?thesis using that assms(2) nth_eq_iff_index_eq [of "map fst (rev s)" j i] by simp
  qed
  then have "takeWhile (\<lambda>x. fst x \<noteq> fst (rev s ! i)) (rev s) = take i (rev s)"
    using assms(2) by (intro takeWhile_eq_take_P_nth) auto
  then show ?thesis using assms(2) by (simp add: zrevrank_def)
qed

section \<open>Properties\<close>

text \<open>
  The leaderboard page agrees with the rank on a player's profile: row \<open>i\<close> of \<open>Top\<close> has rank
  \<open>i + 1\<close>, \<open>Rank\<close> returns the same number for that player, and ratings do not increase down the
  page; the rankings stay well formed under every update.
\<close>

theorem leaderboard_agrees_with_rank:
  assumes "ranking_ok v" and "Lb_Top True up limit v = Inr rows" and "i < length rows"
  shows "rk_Rank (rows ! i) = int i + 1 \<and> Lb_Rank True True (rk_UserID (rows ! i)) v = Inr (int i + 1) \<and>
    (\<forall>j < i. rk_Elo (rows ! i) \<le> rk_Elo (rows ! j))"
proof -
  let ?n = "nat (if limit \<le> 0 \<or> limit > 100 then 20 else limit)" and ?s = "lb_elo v"
  have rows: "rows = map (\<lambda>(i, z). \<lparr>rk_Rank = int i + 1, rk_UserID = fst z,
      rk_Username = (case lb_names v (fst z) of Some n \<Rightarrow> n | None \<Rightarrow> ''''), rk_Elo = snd z\<rparr>) (enumerate 0 (take ?n (rev ?s)))"
    using assms(2,3) by (auto simp: Lb_Top_def Let_def split: if_splits)
  then have len: "i < length ?s" "i < ?n" using assms(3) by simp_all
  have row: "rows ! k = \<lparr>rk_Rank = int k + 1, rk_UserID = fst (rev ?s ! k),
      rk_Username = (case lb_names v (fst (rev ?s ! k)) of Some n \<Rightarrow> n | None \<Rightarrow> ''''), rk_Elo = snd (rev ?s ! k)\<rparr>" if "k \<le> i" for k
    using that len unfolding rows by (simp add: nth_enumerate_eq)
  have "snd (rev ?s ! i) \<le> snd (rev ?s ! j)" if "j < i" for j
    using assms(1) that len sorted_nth_mono [of "map snd ?s" "length ?s - Suc i" "length ?s - Suc j"]
    by (simp add: ranking_ok_def rev_nth)
  moreover have "zrevrank (fst (rev ?s ! i)) ?s = Some i" using zrevrank_nth assms(1) len(1) by (simp add: ranking_ok_def)
  ultimately show ?thesis using row by (simp add: Lb_Rank_def)
qed

definition demoView :: Board_View where
  "demoView = \<lparr>lb_elo = [(''ann'', 1100), (''bob'', 1300)], lb_names = Map.empty, lb_active = []\<rparr>"

theorem leaderboard_agrees_with_rank_witness: "Lb_Rank True True ''bob'' demoView = Inr 1"
proof -
  have ok: "ranking_ok demoView" by (simp add: ranking_ok_def demoView_def)
  obtain rows where r: "Lb_Top True (\<lambda>_. True) 10 demoView = Inr rows" "length rows = 2" "rk_UserID (rows ! 0) = ''bob''"
    by (simp add: Lb_Top_def demoView_def)
  show ?thesis using leaderboard_agrees_with_rank [OF ok r(1), of 0] r(2,3) by simp
qed

text \<open>
  The two answers about presence agree except in one second: who is online is counted, and who is
  counted without being online acted in the very second that lies five minutes back.
\<close>

theorem presence_answers_agree:
  assumes "ranking_ok v" and "map_of (lb_active v) u = Some s"
  shows "IsOnline True True now u v = Inr True \<Longrightarrow> (u, s) \<in> set (lb_active (snd (OnlineCount True True now v)))"
    and "(u, s) \<in> set (lb_active (snd (OnlineCount True True now v))) \<Longrightarrow>
      IsOnline True True now u v = Inr True \<or> s = (now - presenceWindow) div second"
proof -
  have mem: "(u, s) \<in> set (lb_active v)" using assms(2) by (rule map_of_SomeD)
  have "(now - presenceWindow) div second < s \<longleftrightarrow> now - presenceWindow < s * second"
    by (rule int_div_less) (simp add: second_def)
  then show "IsOnline True True now u v = Inr True \<Longrightarrow> (u, s) \<in> set (lb_active (snd (OnlineCount True True now v)))"
    and "(u, s) \<in> set (lb_active (snd (OnlineCount True True now v))) \<Longrightarrow>
      IsOnline True True now u v = Inr True \<or> s = (now - presenceWindow) div second"
    using assms(2) mem by (auto simp: IsOnline_def OnlineCount_def Let_def)
qed

text \<open>A revoked session stays refused until the time its token would have expired, and no longer.\<close>

theorem revoked_until_expiry:
  assumes "now < until" and "Revoke True True now tok until r = (res, r')"
  shows "IsRevoked True True t tok r' \<longleftrightarrow> t < until"
  using assms by (auto simp: Revoke_def IsRevoked_def)

end
