(* ===== verification/Opening_Book.thy ===== *)
theory Opening_Book
  imports Chess_Game "HOL-Library.List_Lexorder" "HOL-Library.Char_ord" "HOL-Library.Multiset"
begin

text \<open>
  The opening book of the engine workers (\<open>pkg/openingbook\<close>): building it from opening lines,
  and the weighted random choice of a reply.  The Go maps are association lists in order of first
  insertion; the order does not matter, because the moves of a position are sorted by weight and
  name before they are used.  The number drawn is an argument.  Its JSON file is \<open>Book_File\<close>.
\<close>

section \<open>Building\<close>

definition bookKey :: "string \<Rightarrow> string" where
  "bookKey fen = (let f = Fields fen in if length f \<ge> 4 then Join (take 4 f) '' '' else fen)"

record BookMove =
  bm_UCI :: string
  bm_Weight :: int

type_synonym Book = "(string \<times> BookMove list) list"

type_synonym Counts = "((string \<times> string) \<times> int) list"

text \<open>\<open>counts[key][uci]++\<close>\<close>

fun bump :: "string \<times> string \<Rightarrow> Counts \<Rightarrow> Counts" where
  "bump k [] = [(k, 1)]"
| "bump k ((k', w) # cs) = (if k' = k then (k, w + 1) # cs else (k', w) # bump k cs)"

fun walkLine :: "Board \<Rightarrow> Counts \<Rightarrow> string list \<Rightarrow> ChessError + Counts" where
  "walkLine b counts [] = Inr counts"
| "walkLine b counts (uci # line) =
     (let counts = bump (bookKey (FEN b), uci) counts in
      case ApplyUCI b uci of Inl e \<Rightarrow> Inl e | Inr nb \<Rightarrow> walkLine nb counts line)"

datatype BuildError = BadStart FENError | IllegalLine ChessError

fun walkLines :: "Counts \<Rightarrow> string list list \<Rightarrow> BuildError + Counts" where
  "walkLines counts [] = Inr counts"
| "walkLines counts (line # lines) =
     (case ParseFEN StartFEN of
        Inl e \<Rightarrow> Inl (BadStart e)
      | Inr b \<Rightarrow> (case walkLine b counts line of Inl e \<Rightarrow> Inl (IllegalLine e) | Inr counts \<Rightarrow> walkLines counts lines))"

text \<open>Heaviest first, then by name.\<close>

definition movesAt :: "Counts \<Rightarrow> string \<Rightarrow> BookMove list" where
  "movesAt counts key =
     sort_key (\<lambda>m. - bm_Weight m) (sort_key bm_UCI
       (map (\<lambda>((k, u), w). \<lparr>bm_UCI = u, bm_Weight = w\<rparr>) (filter (\<lambda>((k, u), w). k = key) counts)))"

definition Build :: "string list list \<Rightarrow> BuildError + Book" where
  "Build lines =
     (case walkLines [] lines of
        Inl e \<Rightarrow> Inl e
      | Inr counts \<Rightarrow> Inr (map (\<lambda>key. (key, movesAt counts key)) (remdups (map (fst \<circ> fst) counts))))"

section \<open>Choosing\<close>

fun pick :: "int \<Rightarrow> BookMove list \<Rightarrow> string" where
  "pick n [] = ''''"
| "pick n [m] = bm_UCI m"
| "pick n (m # ms) = (if n < bm_Weight m then bm_UCI m else pick (wrap64 (n - bm_Weight m)) ms)"

definition totalWeight :: "BookMove list \<Rightarrow> int" where
  "totalWeight ms = foldl (\<lambda>total m. wrap64 (total + bm_Weight m)) 0 ms"

text \<open>\<open>rng\<close> is \<open>rand.Intn\<close>; a nil book is \<open>None\<close>.\<close>

definition Book_Move :: "(int \<Rightarrow> int) \<Rightarrow> Book option \<Rightarrow> string \<Rightarrow> string option" where
  "Book_Move rng book fen =
     (case book of
        None \<Rightarrow> None
      | Some ps \<Rightarrow>
          (case map_of ps (bookKey fen) of
             None \<Rightarrow> None
           | Some ms \<Rightarrow>
               if ms = [] then None
               else if totalWeight ms \<le> 0 then Some (bm_UCI (hd ms))
               else Some (pick (rng (totalWeight ms)) ms)))"

definition Book_Len :: "Book option \<Rightarrow> int" where
  "Book_Len book = (case book of None \<Rightarrow> 0 | Some ps \<Rightarrow> int (length ps))"

section \<open>The fallback book\<close>

definition seedLines :: "string list list" where
  "seedLines =
     [[''e2e4'', ''e7e5'', ''g1f3'', ''b8c6'', ''f1b5'', ''a7a6'', ''b5a4'', ''g8f6'', ''e1g1'', ''f8e7''],
      [''e2e4'', ''e7e5'', ''g1f3'', ''b8c6'', ''f1c4'', ''f8c5'', ''c2c3'', ''g8f6'', ''d2d4''],
      [''e2e4'', ''e7e5'', ''g1f3'', ''b8c6'', ''d2d4'', ''e5d4'', ''f3d4'', ''g8f6'', ''b1c3''],
      [''e2e4'', ''e7e5'', ''g1f3'', ''g8f6'', ''f3e5'', ''d7d6'', ''e5f3'', ''f6e4''],
      [''e2e4'', ''c7c5'', ''g1f3'', ''d7d6'', ''d2d4'', ''c5d4'', ''f3d4'', ''g8f6'', ''b1c3'', ''a7a6''],
      [''e2e4'', ''c7c5'', ''g1f3'', ''b8c6'', ''d2d4'', ''c5d4'', ''f3d4'', ''g8f6'', ''b1c3''],
      [''e2e4'', ''e7e6'', ''d2d4'', ''d7d5'', ''b1c3'', ''g8f6''],
      [''e2e4'', ''c7c6'', ''d2d4'', ''d7d5'', ''b1c3'', ''d5e4'', ''c3e4''],
      [''e2e4'', ''d7d5'', ''e4d5'', ''d8d5'', ''b1c3'', ''d5a5''],
      [''d2d4'', ''d7d5'', ''c2c4'', ''e7e6'', ''b1c3'', ''g8f6'', ''c1g5'', ''f8e7''],
      [''d2d4'', ''d7d5'', ''c2c4'', ''d5c4'', ''g1f3'', ''g8f6'', ''e2e3''],
      [''d2d4'', ''d7d5'', ''c2c4'', ''c7c6'', ''g1f3'', ''g8f6'', ''b1c3''],
      [''d2d4'', ''d7d5'', ''c1f4'', ''g8f6'', ''e2e3''],
      [''d2d4'', ''g8f6'', ''c2c4'', ''g7g6'', ''b1c3'', ''f8g7'', ''e2e4'', ''d7d6''],
      [''d2d4'', ''g8f6'', ''c2c4'', ''e7e6'', ''b1c3'', ''f8b4''],
      [''d2d4'', ''g8f6'', ''c2c4'', ''e7e6'', ''g1f3'', ''b7b6''],
      [''c2c4'', ''e7e5'', ''b1c3'', ''g8f6'', ''g1f3'', ''b8c6''],
      [''g1f3'', ''d7d5'', ''c2c4'', ''c7c6'', ''b2b3'']]"

text \<open>\<open>None\<close> is the panic on an illegal line.\<close>

definition Seed :: "Book option" where
  "Seed = (case Build seedLines of Inl e \<Rightarrow> None | Inr b \<Rightarrow> Some b)"

section \<open>Legality depends on the position only\<close>

text \<open>The move counters, which the key of a position leaves out, play no part in the rules.\<close>

definition counters :: "int \<Rightarrow> int \<Rightarrow> Board \<Rightarrow> Board" where
  "counters h f b = b\<lparr>HalfMove := h, FullMove := f\<rparr>"

lemma same_counters: "same_position b b' \<Longrightarrow> b' = counters (HalfMove b') (FullMove b') b"
  by (simp add: same_position_def counters_def)

lemma counters_fields [simp]:
  "sqAt (counters h f b) s = sqAt b s" "Turn (counters h f b) = Turn b" "Castling (counters h f b) = Castling b"
  "EnPassant (counters h f b) = EnPassant b" "setSq s p (counters h f b) = counters h f (setSq s p b)"
  by (simp_all add: counters_def sqAt_def setSq_def)

lemma reaches_counters [simp]: "reaches (counters h k b) c t f r f' r' = reaches b c t f r f' r'"
  by (cases t) (simp_all add: clear_between_def)

lemma attacked_by_counters [simp]: "attacked_by (counters h k b) s c = attacked_by b s c"
  by (simp add: attacked_by_def piece_attacks_def)

lemma moves_as_counters [simp]: "moves_as (counters h k b) us t m = moves_as b us t m"
  by (cases t) (simp_all only: moves_as.simps pawn_push_def pawn_double_def pawn_capture_def en_passant_def piece_move_def can_land_def
      castle_kingside_def castle_queenside_def counters_fields reaches_counters attacked_by_counters)

lemma apply_parts_counters:
  "movePiece (counters h k b) m = counters h k (movePiece b m)" "castleRook m (counters h k b) = counters h k (castleRook m b)"
  "isEnPassantCapture (counters h k b) m = isEnPassantCapture b m" "isCastle (counters h k b) m = isCastle b m"
  "enPassantVictim (counters h k b) m = enPassantVictim b m"
  by (simp_all add: movePiece_def castleRook_def isEnPassantCapture_def isCastle_def enPassantVictim_def Let_def)

lemma moved_counters: "moved (counters h k b) m = counters h k (moved b m)"
  by (simp only: moved_def Let_def apply_parts_counters counters_fields if_distrib [of "counters h k", symmetric])

lemma attacked_by_cong: "sqAt b = sqAt b' \<Longrightarrow> attacked_by b s c = attacked_by b' s c"
proof -
  assume "sqAt b = sqAt b'"
  then have "reaches b c t f r f' r' = reaches b' c t f r f' r'" for c t f r f' r'
    by (cases t) (simp_all only: reaches.simps clear_between_def)
  then show ?thesis using \<open>sqAt b = sqAt b'\<close> by (simp only: attacked_by_def piece_attacks_def)
qed

lemma apply_counters: "sqAt (applyMoveUnchecked (counters h k b) m) = sqAt (applyMoveUnchecked b m)"
  by (rule ext) (simp add: apply_fields(1) moved_counters)

lemma legal_move_counters: "legal_move (counters h k b) m = legal_move b m"
  by (simp only: legal_move_def king_on_def pseudo_legal_def apply_counters attacked_by_cong [OF apply_counters] counters_fields moves_as_counters)

lemma legal_move_cong: "same_position b b' \<Longrightarrow> legal_move b m = legal_move b' m"
  using legal_move_counters [of "HalfMove b'" "FullMove b'" b m] by (metis same_counters)

lemma accepted_cong:
  assumes "same_position b b'" and "valid_position b" and "valid_position b'" and "ApplyUCI b u = Inr nb"
  shows "\<exists>nb'. ApplyUCI b' u = Inr nb'"
proof -
  obtain m where "ParseUCIMove u = Inr m" "m \<in> set (LegalMoves b)" using ApplyUCI_valid [OF assms(2,4)] by blast
  moreover have "m \<in> set (LegalMoves b')"
    using \<open>m \<in> set (LegalMoves b)\<close> legal_move_cong [OF assms(1)] LegalMoves_spec [OF assms(2)] LegalMoves_spec [OF assms(3)] by simp
  ultimately show ?thesis by (simp add: ApplyUCI_def ApplyMove_def IsLegal_def list_ex_iff)
qed

section \<open>What a book holds\<close>

lemma bookKey_same:
  assumes "fen_ok b" and "fen_ok b'"
  shows "bookKey (FEN b) = bookKey (FEN b') \<longleftrightarrow> same_position b b'"
proof -
  have "bookKey (FEN c) = repetitionKey (FEN c)" if "fen_ok c" for c
    using that by (simp add: bookKey_def Fields_FEN repetitionKey_FEN fenFields_def)
  then show ?thesis using repetitionKey_same [OF assms] assms by simp
qed

text \<open>An entry stands for a move that was legal in some reachable position with its key.\<close>

definition entry_ok :: "(string \<times> string) \<times> int \<Rightarrow> bool" where
  "entry_ok c \<longleftrightarrow> 0 < snd c \<and> (\<exists>n b nb. reachable n b \<and> n < 2 ^ 62 \<and> fst (fst c) = bookKey (FEN b) \<and> ApplyUCI b (snd (fst c)) = Inr nb)"

lemma set_bump: "x \<in> set (bump k cs) \<Longrightarrow> x \<in> set cs \<or> (\<exists>w. x = (k, w) \<and> (w = 1 \<or> (\<exists>v. (k, v) \<in> set cs \<and> w = v + 1)))"
  by (induction k cs rule: bump.induct) (auto split: if_splits)

lemma fst_bump: "distinct (map fst cs) \<Longrightarrow> distinct (map fst (bump k cs))" "fst ` set (bump k cs) = insert k (fst ` set cs)"
  by (induction k cs rule: bump.induct) (auto split: if_splits)

lemma walkLine_ok:
  assumes "walkLine b cs line = Inr cs'" and "reachable n b" and "n + length line < 2 ^ 62" and "list_all entry_ok cs" and "distinct (map fst cs)"
  shows "list_all entry_ok cs' \<and> distinct (map fst cs')"
  using assms
proof (induction b cs line arbitrary: n rule: walkLine.induct)
  case (2 b cs u line)
  obtain nb where nb: "ApplyUCI b u = Inr nb" "walkLine nb (bump (bookKey (FEN b), u) cs) line = Inr cs'"
    using "2.prems"(1) by (auto split: sum.splits)
  have "entry_ok ((bookKey (FEN b), u), w)" if "0 < w" for w
    using that nb(1) "2.prems"(2,3) unfolding entry_ok_def by (intro conjI exI [of _ n] exI [of _ b] exI [of _ nb]) simp_all
  moreover have "0 < w" if "(k, w) \<in> set cs" for k w using "2.prems"(4) that by (auto simp: list_all_iff entry_ok_def)
  ultimately have "list_all entry_ok (bump (bookKey (FEN b), u) cs)"
    using "2.prems"(4) by (fastforce simp: list_all_iff dest!: set_bump)
  then show ?case using "2.IH" [OF refl nb(1) nb(2) reachable.step [OF "2.prems"(2) nb(1)]] "2.prems"(3,5) fst_bump(1) by simp
qed simp

lemma walkLines_ok:
  assumes "walkLines cs lines = Inr cs'" and "\<forall>line \<in> set lines. length line < 2 ^ 62" and "list_all entry_ok cs" and "distinct (map fst cs)"
  shows "list_all entry_ok cs' \<and> distinct (map fst cs')"
  using assms
proof (induction cs lines rule: walkLines.induct)
  case (2 cs line lines)
  obtain b c where b: "ParseFEN StartFEN = Inr b" "walkLine b cs line = Inr c" "walkLines c lines = Inr cs'"
    using "2.prems"(1) by (auto split: sum.splits)
  have "reachable 0 b" using b(1) by (intro reachable.start) (simp add: NewBoard_def)
  then have "list_all entry_ok c \<and> distinct (map fst c)" using walkLine_ok [OF b(2)] "2.prems" by fastforce
  then show ?case using "2.IH" [OF b] "2.prems"(2) by simp
qed simp

lemma set_movesAt: "m \<in> set (movesAt cs key) \<longleftrightarrow> ((key, bm_UCI m), bm_Weight m) \<in> set cs"
  by (force simp: movesAt_def)

lemma pick_in: "ms \<noteq> [] \<Longrightarrow> \<exists>m \<in> set ms. pick n ms = bm_UCI m"
  by (induction n ms rule: pick.induct) auto

lemma Book_Move_entry:
  assumes "Build lines = Inr book" and "\<forall>line \<in> set lines. length line < 2 ^ 62" and "Book_Move rng (Some book) fen = Some u"
  obtains n b nb where "reachable n b" "n < 2 ^ 62" "bookKey fen = bookKey (FEN b)" "ApplyUCI b u = Inr nb"
proof -
  obtain cs where cs: "walkLines [] lines = Inr cs" "book = map (\<lambda>key. (key, movesAt cs key)) (remdups (map (fst \<circ> fst) cs))"
    using assms(1) by (auto simp: Build_def split: sum.splits)
  have ok: "list_all entry_ok cs" using walkLines_ok [OF cs(1) assms(2)] by simp
  obtain ms where ms: "map_of book (bookKey fen) = Some ms" "ms \<noteq> []" "u = bm_UCI (hd ms) \<or> (\<exists>n. u = pick n ms)"
    using assms(3) by (auto simp: Book_Move_def split: option.splits if_splits)
  have "ms = movesAt cs (bookKey fen)" using ms(1) unfolding cs(2) by (auto dest!: map_of_SomeD)
  then obtain m where "m \<in> set (movesAt cs (bookKey fen))" "u = bm_UCI m" using ms(2,3) pick_in by (metis list.set_sel(1))
  then have "entry_ok ((bookKey fen, u), bm_Weight m)" using ok by (simp add: set_movesAt list_all_iff)
  then show ?thesis using that by (auto simp: entry_ok_def)
qed

section \<open>Weights\<close>

text \<open>The moves of a line, each with the key of the position it is played from.\<close>

fun lineSteps :: "Board \<Rightarrow> string list \<Rightarrow> (string \<times> string) list" where
  "lineSteps b [] = []"
| "lineSteps b (u # us) = (bookKey (FEN b), u) # (case ApplyUCI b u of Inr nb \<Rightarrow> lineSteps nb us | Inl e \<Rightarrow> [])"

definition times_played :: "string list list \<Rightarrow> string \<times> string \<Rightarrow> nat" where
  "times_played lines k = length (filter (\<lambda>x. x = k) (concat (map (lineSteps startBoard) lines)))"

definition count_of :: "Counts \<Rightarrow> string \<times> string \<Rightarrow> int" where
  "count_of cs k = (\<Sum>(k', w) \<leftarrow> cs. if k' = k then w else 0)"

lemma count_bump: "distinct (map fst cs) \<Longrightarrow> count_of (bump k cs) k' = count_of cs k' + (if k' = k then 1 else 0)"
  by (induction k cs rule: bump.induct) (auto simp: count_of_def)

lemma count_walkLine:
  "walkLine b cs line = Inr cs' \<Longrightarrow> distinct (map fst cs) \<Longrightarrow>
   count_of cs' k = count_of cs k + int (length (filter (\<lambda>x. x = k) (lineSteps b line)))"
  by (induction b cs line rule: walkLine.induct) (auto simp: count_bump fst_bump(1) split: sum.splits)

lemma walkLine_distinct: "walkLine b cs line = Inr cs' \<Longrightarrow> distinct (map fst cs) \<Longrightarrow> distinct (map fst cs')"
  by (induction b cs line rule: walkLine.induct) (auto simp: fst_bump(1) split: sum.splits)

lemma start_parses: "ParseFEN StartFEN = Inr b \<longleftrightarrow> b = startBoard"
  using NewBoard_startBoard by (auto simp: NewBoard_def split: sum.splits)

lemma count_walkLines:
  "walkLines cs lines = Inr cs' \<Longrightarrow> distinct (map fst cs) \<Longrightarrow> count_of cs' k = count_of cs k + int (times_played lines k)"
proof (induction cs lines rule: walkLines.induct)
  case (2 cs line lines)
  have sp: "ParseFEN StartFEN = Inr startBoard" using start_parses by blast
  obtain c where c: "walkLine startBoard cs line = Inr c" "walkLines c lines = Inr cs'"
    using "2.prems"(1) by (auto simp: sp split: sum.splits)
  then show ?case using "2.IH" [OF sp c(1)] "2.prems"(2)
    by (simp add: count_walkLine walkLine_distinct times_played_def)
qed (simp add: times_played_def)

lemma in_shift: "(n :: int) \<in> (\<lambda>n. n + w) ` B \<longleftrightarrow> n - w \<in> B"
  by (auto intro: image_eqI [of _ _ "n - w"])

lemma sum_sort_key: "(\<Sum>x \<leftarrow> sort_key f xs. g x) = (\<Sum>x \<leftarrow> xs. g x :: int)"
proof -
  have "mset (map g (sort_key f xs)) = mset (map g xs)" by simp
  then show ?thesis unfolding sum_mset_sum_list [symmetric] by (rule arg_cong)
qed

lemma movesAt_weight: "(\<Sum>m \<leftarrow> movesAt cs key. if bm_UCI m = u then bm_Weight m else 0) = count_of cs (key, u)"
  unfolding movesAt_def sum_sort_key count_of_def by (induction cs) auto

text \<open>The total without the machine's wrap-around, which positive weights below 2^63 do not meet.\<close>

definition weightSum :: "BookMove list \<Rightarrow> int" where
  "weightSum ms = (\<Sum>m \<leftarrow> ms. bm_Weight m)"

lemma weightSum_nonneg: "\<forall>m \<in> set ms. 0 < bm_Weight m \<Longrightarrow> 0 \<le> weightSum ms"
  unfolding weightSum_def by (intro sum_list_nonneg) auto

lemma totalWeight_sum:
  assumes "\<forall>m \<in> set ms. 0 < bm_Weight m" and "weightSum ms < 2 ^ 63"
  shows "totalWeight ms = weightSum ms"
proof -
  have "foldl (\<lambda>total m. wrap64 (total + bm_Weight m)) t ms = t + weightSum ms" if "0 \<le> t" "t + weightSum ms < 2 ^ 63" for t
    using assms(1) that
  proof (induction ms arbitrary: t)
    case (Cons m ms)
    have "0 \<le> weightSum ms" using Cons.prems(1) weightSum_nonneg by simp
    then have "int64_range (t + bm_Weight m)" using Cons.prems by (simp add: int64_range_def weightSum_def)
    then show ?case using Cons by (simp add: wrap64_id weightSum_def)
  qed (simp add: weightSum_def)
  then show ?thesis using assms(2) by (simp add: totalWeight_def)
qed

lemma pick_weight:
  assumes "ms \<noteq> []" and "\<forall>m \<in> set ms. 0 < bm_Weight m" and "weightSum ms < 2 ^ 63"
  shows "int (card {n \<in> {0..<weightSum ms}. pick n ms = u}) = (\<Sum>m \<leftarrow> ms. if bm_UCI m = u then bm_Weight m else 0)"
  using assms
proof (induction ms rule: induct_list012)
  case (2 m)
  have "{n \<in> {0..<weightSum [m]}. pick n [m] = u} = (if bm_UCI m = u then {0..<bm_Weight m} else {})"
    by (auto simp: weightSum_def)
  then show ?case using 2 by simp
next
  case (3 m m' ms)
  let ?r = "m' # ms" and ?w = "bm_Weight m"
  let ?A = "{n \<in> {0..<?w}. bm_UCI m = u}" and ?B = "{n \<in> {0..<weightSum ?r}. pick n ?r = u}"
  have pos: "0 < ?w" "0 \<le> weightSum ?r" using "3.prems"(2) weightSum_nonneg [of ?r] by auto
  have "{n \<in> {0..<weightSum (m # ?r)}. pick n (m # ?r) = u} = ?A \<union> (\<lambda>n. n + ?w) ` ?B"
  proof (rule set_eqI)
    fix n
    have tw: "weightSum (m # ?r) = ?w + weightSum ?r" by (simp add: weightSum_def)
    have wr: "pick (wrap64 (n - ?w)) ?r = pick (n - ?w) ?r" if "?w \<le> n" "n < weightSum (m # ?r)"
    proof -
      have "int64_range (n - ?w)" using that pos "3.prems"(3) by (simp add: int64_range_def)
      then show ?thesis by (simp only: wrap64_id)
    qed
    show "n \<in> {n \<in> {0..<weightSum (m # ?r)}. pick n (m # ?r) = u} \<longleftrightarrow> n \<in> ?A \<union> (\<lambda>n. n + ?w) ` ?B"
    proof (cases "?w \<le> n \<and> n < weightSum (m # ?r)")
      case True
      then show ?thesis unfolding Un_iff in_shift mem_Collect_eq atLeastLessThan_iff using wr pos by (simp add: tw)
    next
      case False
      then show ?thesis unfolding Un_iff in_shift mem_Collect_eq atLeastLessThan_iff using pos by (auto simp: tw)
    qed
  qed
  moreover have "?A \<inter> (\<lambda>n. n + ?w) ` ?B = {}" by auto
  moreover have fin: "finite ?A" "finite ((\<lambda>n. n + ?w) ` ?B)"
    using finite_subset [of ?A "{0..<?w}"] finite_subset [of ?B "{0..<weightSum ?r}"] by blast+
  ultimately have "card {n \<in> {0..<weightSum (m # ?r)}. pick n (m # ?r) = u} = card ?A + card ((\<lambda>n. n + ?w) ` ?B)"
    using card_Un_disjoint [OF fin] by metis
  also have "\<dots> = card ?A + card ?B" by (simp add: card_image inj_on_def)
  also have "int \<dots> = (if bm_UCI m = u then ?w else 0) + int (card ?B)"
  proof -
    have "?A = (if bm_UCI m = u then {0..<?w} else {})" by auto
    then have "card ?A = card (if bm_UCI m = u then {0..<?w} else {})" by (rule arg_cong)
    also have "\<dots> = nat (if bm_UCI m = u then ?w else 0)" by simp
    finally show ?thesis using pos(1) by (cases "bm_UCI m = u") (simp_all del: card_atLeastLessThan_int)
  qed
  finally show ?case using "3.IH"(2) "3.prems"(2,3) pos(1) by (simp add: weightSum_def)
qed simp

text \<open>The weights of a book add up to at most the number of moves in the lines.\<close>

definition countSum :: "Counts \<Rightarrow> int" where
  "countSum cs = (\<Sum>(k, w) \<leftarrow> cs. w)"

lemma countSum_bump: "countSum (bump k cs) = countSum cs + 1"
  by (induction k cs rule: bump.induct) (auto simp: countSum_def)

lemma countSum_walkLine: "walkLine b cs line = Inr cs' \<Longrightarrow> countSum cs' = countSum cs + int (length line)"
  by (induction b cs line rule: walkLine.induct) (auto simp: countSum_bump split: sum.splits)

lemma countSum_walkLines: "walkLines cs lines = Inr cs' \<Longrightarrow> countSum cs' = countSum cs + int (sum_list (map length lines))"
  by (induction cs lines rule: walkLines.induct) (auto dest!: countSum_walkLine split: sum.splits)

lemma weightSum_le: "\<forall>c \<in> set cs. 0 < snd c \<Longrightarrow> weightSum (movesAt cs key) \<le> countSum cs"
  unfolding weightSum_def movesAt_def sum_sort_key countSum_def by (induction cs) (auto simp: case_prod_beta)

section \<open>Properties\<close>

text \<open>
  Every move the book plays is legal: whatever number is drawn, a move that a book built from
  opening lines returns for a position a game can reach is accepted in that position, also when
  the position arose by another order of moves than in the lines (its move counters differ).
\<close>

theorem book_moves_are_legal:
  assumes "Build lines = Inr book" and "\<forall>line \<in> set lines. length line < 2 ^ 62" and "reachable n b" and "n < 2 ^ 62"
    and "Book_Move rng (Some book) (FEN b) = Some u"
  shows "\<exists>nb. ApplyUCI b u = Inr nb"
proof -
  obtain k b' nb where e: "reachable k b'" "k < 2 ^ 62" "bookKey (FEN b) = bookKey (FEN b')" "ApplyUCI b' u = Inr nb"
    by (rule Book_Move_entry [OF assms(1,2,5)])
  have "same_position b' b"
    using e(3) bookKey_same [of b' b] reachable_fen_ok [OF e(1,2)] reachable_fen_ok [OF assms(3,4)] by simp
  then show ?thesis using accepted_cong [OF _ reachable_valid [OF e(1)] reachable_valid [OF assms(3)] e(4)] by blast
qed

text \<open>
  The choice follows popularity: of the numbers that can be drawn for a position of the book,
  exactly as many select a move as the opening lines play that move from that position, and
  at least one number can be drawn.
\<close>

theorem book_choice_is_weighted:
  assumes "Build lines = Inr book" and "sum_list (map length lines) < 2 ^ 62" and "map_of book (bookKey fen) = Some ms"
  shows "0 < totalWeight ms \<and>
    card {k \<in> {0..<totalWeight ms}. Book_Move (\<lambda>_. k) (Some book) fen = Some u} = times_played lines (bookKey fen, u)"
proof -
  obtain cs where cs: "walkLines [] lines = Inr cs" "book = map (\<lambda>key. (key, movesAt cs key)) (remdups (map (fst \<circ> fst) cs))"
    using assms(1) by (auto simp: Build_def split: sum.splits)
  have "\<forall>line \<in> set lines. length line < 2 ^ 62" using assms(2) member_le_sum_list [of _ "map length lines"] by fastforce
  then have ok: "list_all entry_ok cs" using walkLines_ok [OF cs(1)] by simp
  have ms: "ms = movesAt cs (bookKey fen)" "bookKey fen \<in> (fst \<circ> fst) ` set cs"
    using assms(3) unfolding cs(2) by (auto dest!: map_of_SomeD)
  have "0 < snd x" if "x \<in> set cs" for x using ok that unfolding list_all_iff entry_ok_def by blast
  then have pos: "\<forall>m \<in> set ms. 0 < bm_Weight m" by (fastforce simp: ms(1) set_movesAt)
  obtain v w where "((bookKey fen, v), w) \<in> set cs" using ms(2) by force
  then have "\<lparr>bm_UCI = v, bm_Weight = w\<rparr> \<in> set ms" by (simp add: ms(1) set_movesAt)
  then have ne: "ms \<noteq> []" by auto
  have "\<forall>c \<in> set cs. 0 < snd c" using ok unfolding list_all_iff entry_ok_def by blast
  then have le: "weightSum ms < 2 ^ 63" using weightSum_le [of cs "bookKey fen"] countSum_walkLines [OF cs(1)] assms(2)
    by (simp add: ms(1) countSum_def)
  have eq: "totalWeight ms = weightSum ms" by (rule totalWeight_sum [OF pos le])
  have tw: "0 < totalWeight ms" using ne pos weightSum_nonneg [of "tl ms"] unfolding eq by (cases ms) (auto simp: weightSum_def)
  have "{k \<in> {0..<totalWeight ms}. Book_Move (\<lambda>_. k) (Some book) fen = Some u} = {k \<in> {0..<totalWeight ms}. pick k ms = u}"
    using assms(3) ne tw by (auto simp: Book_Move_def)
  then have "int (card {k \<in> {0..<totalWeight ms}. Book_Move (\<lambda>_. k) (Some book) fen = Some u}) = count_of cs (bookKey fen, u)"
    using pick_weight [OF ne pos le] movesAt_weight [of u cs "bookKey fen"] ms(1) eq by simp
  also have "\<dots> = int (times_played lines (bookKey fen, u))" using count_walkLines [OF cs(1), of "(bookKey fen, u)"] by (simp add: count_of_def)
  finally show ?thesis using tw by simp
qed

section \<open>The fallback book is legal\<close>

text \<open>
  Checking a line move by move, looking only at the moves of the piece that moves: enough to show
  that every line of the fallback book is legal, by evaluation.
\<close>

fun quickLine :: "Board \<Rightarrow> string list \<Rightarrow> bool" where
  "quickLine b [] = True"
| "quickLine b (u # us) =
     (case ParseUCIMove u of
        Inl e \<Rightarrow> False
      | Inr m \<Rightarrow> square_index (From m) \<and> list_ex (\<lambda>x. x = m) (genPiece b [] (From m)) \<and> kingSafeAfter b m \<and> quickLine (applyMoveUnchecked b m) us)"

lemma quick_legal:
  assumes "wf_board b" and "square_index (From m)" and "m \<in> set (genPiece b [] (From m))" and "kingSafeAfter b m"
  shows "m \<in> set (LegalMoves b)"
proof -
  have "m \<in> set (genPiece b moves (From m))" for moves
    using assms(3) genPiece_moves [OF assms(1,2), of m] by auto
  moreover have "m \<in> set (fold (\<lambda>s moves. genPiece b moves s) ss moves)"
    if "m \<in> set moves \<or> From m \<in> set ss" "\<forall>s \<in> set ss. square_index s" for ss moves
    using that
  proof (induction ss arbitrary: moves)
    case (Cons s ss)
    then show ?case using genPiece_moves [OF assms(1), of s m moves] \<open>\<And>moves. m \<in> set (genPiece b moves (From m))\<close> by auto
  qed simp
  ultimately have "m \<in> set (pseudoLegalMoves b)"
    unfolding pseudoLegalMoves_def using assms(2) by (auto simp: square_index_def)
  then show ?thesis using assms(4) by (simp add: LegalMoves_def)
qed

lemma quickLine_walks: "quickLine b line \<Longrightarrow> valid_position b \<Longrightarrow> \<exists>cs'. walkLine b cs line = Inr cs'"
proof (induction line arbitrary: b cs)
  case (Cons u us)
  obtain m where m: "ParseUCIMove u = Inr m" "square_index (From m)" "m \<in> set (genPiece b [] (From m))" "kingSafeAfter b m"
      "quickLine (applyMoveUnchecked b m) us" using Cons.prems(1) by (auto simp: list_ex_iff split: sum.splits)
  have "wf_board b" using Cons.prems(2) by (simp add: valid_position_def)
  then have a: "ApplyUCI b u = Inr (applyMoveUnchecked b m)"
    using m(1) quick_legal [OF _ m(2-4)] by (simp add: ApplyUCI_def ApplyMove_def IsLegal_def list_ex_iff)
  moreover have "valid_position (applyMoveUnchecked b m)" using ApplyUCI_valid [OF Cons.prems(2) a] by blast
  ultimately show ?case using Cons.IH [OF m(5)] by simp
qed simp

lemma seed_quick_1: "list_all (quickLine startBoard) (take 4 seedLines)" by code_simp
lemma seed_quick_2: "list_all (quickLine startBoard) (take 5 (drop 4 seedLines))" by code_simp
lemma seed_quick_3: "list_all (quickLine startBoard) (take 4 (drop 9 seedLines))" by code_simp
lemma seed_quick_4: "list_all (quickLine startBoard) (drop 13 seedLines)" by code_simp

lemma seed_quick: "list_all (quickLine startBoard) seedLines"
proof -
  have "seedLines = take 4 seedLines @ take 5 (drop 4 seedLines) @ take 4 (drop 9 seedLines) @ drop 13 seedLines"
    by (simp add: seedLines_def)
  then show ?thesis using seed_quick_1 seed_quick_2 seed_quick_3 seed_quick_4 by (metis list_all_append)
qed

lemma walkLines_quick: "list_all (quickLine startBoard) lines \<Longrightarrow> \<exists>cs'. walkLines cs lines = Inr cs'"
proof (induction lines arbitrary: cs)
  case (Cons line lines)
  have sp: "ParseFEN StartFEN = Inr startBoard" using start_parses by blast
  obtain c where "walkLine startBoard cs line = Inr c" using quickLine_walks [of startBoard line cs] Cons.prems valid_startBoard by auto
  then show ?case using Cons sp by simp
qed simp

text \<open>\<open>Seed\<close> does not panic, and its book answers the starting position.\<close>

lemma seed_book:
  obtains book ms where "Build seedLines = Inr book" "Seed = Some book" "map_of book (bookKey (FEN startBoard)) = Some ms" "ms \<noteq> []"
proof -
  obtain cs where cs: "walkLines [] seedLines = Inr cs" using walkLines_quick [OF seed_quick] by blast
  define book where "book = map (\<lambda>key. (key, movesAt cs key)) (remdups (map (fst \<circ> fst) cs))"
  have b: "Build seedLines = Inr book" by (simp add: Build_def cs book_def)
  let ?k = "(bookKey (FEN startBoard), ''e2e4'')"
  have "?k \<in> set (concat (map (lineSteps startBoard) seedLines))" by (simp add: seedLines_def)
  then have "0 < times_played seedLines ?k" by (auto simp: times_played_def filter_empty_conv)
  then have "0 < count_of cs ?k" using count_walkLines [OF cs, of ?k] by (simp add: count_of_def)
  moreover have "count_of cs ?k = 0" if "\<forall>w. (?k, w) \<notin> set cs" using that unfolding count_of_def by (induction cs) auto
  ultimately obtain w where w: "(?k, w) \<in> set cs" by force
  then have "\<lparr>bm_UCI = ''e2e4'', bm_Weight = w\<rparr> \<in> set (movesAt cs (fst ?k))" by (simp add: set_movesAt)
  then have "movesAt cs (fst ?k) \<noteq> []" by auto
  moreover have "map_of book (fst ?k) = Some (movesAt cs (fst ?k))"
  proof -
    have "fst ?k \<in> set (remdups (map (fst \<circ> fst) cs))" using w by force
    then show ?thesis unfolding book_def by (auto simp: map_of_map_restrict)
  qed
  ultimately show ?thesis using that b by (simp add: Seed_def)
qed

theorem book_moves_are_legal_witness:
  "\<exists>u nb. Book_Move (\<lambda>_. 0) Seed (FEN startBoard) = Some u \<and> ApplyUCI startBoard u = Inr nb"
proof -
  obtain book ms where b: "Build seedLines = Inr book" "Seed = Some book" "map_of book (bookKey (FEN startBoard)) = Some ms" "ms \<noteq> []"
    by (rule seed_book)
  have "Book_Move (\<lambda>_. 0) (Some book) (FEN startBoard) \<noteq> None" using b(3,4) by (simp add: Book_Move_def)
  then obtain u where u: "Book_Move (\<lambda>_. 0) (Some book) (FEN startBoard) = Some u" by blast
  have "\<forall>line \<in> set seedLines. length line < 2 ^ 62" by (simp add: seedLines_def)
  moreover have "reachable 0 startBoard" by (simp add: reachable_0 NewBoard_startBoard)
  ultimately show ?thesis using book_moves_are_legal [OF b(1) _ _ _ u] u b(2) by auto
qed

theorem book_choice_is_weighted_witness:
  "\<exists>book ms. Seed = Some book \<and> map_of book (bookKey (FEN startBoard)) = Some ms \<and> 0 < totalWeight ms"
proof -
  obtain book ms where b: "Build seedLines = Inr book" "Seed = Some book" "map_of book (bookKey (FEN startBoard)) = Some ms" "ms \<noteq> []"
    by (rule seed_book)
  have "sum_list (map length seedLines) < 2 ^ 62" by (simp add: seedLines_def)
  then show ?thesis using book_choice_is_weighted [OF b(1) _ b(3)] b(2,3) by blast
qed

end
