(* ===== verification/Engine.thy ===== *)
theory Engine
  imports Opening_Book Analysis_Worker
begin

text \<open>
  From the chess engine to its callers: the UCI dialogue (\<open>services/engine-worker/internal/uci/uci.go\<close>),
  the engine service (\<open>services/engine-worker/internal/server/server.go\<close>), the evaluation cache
  (\<open>pkg/redisx/evalcache.go\<close>) and the client with the cache in front of it (\<open>pkg/engine/client.go\<close>).

  The engine process is its output: the list of the lines that \<open>readLoop\<close> makes of it, closed at the
  end.  Whether a
  turn of the reading loop sees the cancelled context is an argument, because \<open>select\<close> may choose
  either when both are ready; so is whether a command can be written.  Starting and stopping the
  process is not modelled.  A cached value is a JSON text: \<open>Json e\<close> is the text of \<open>e\<close>, which
  \<open>encoding/json\<close> reads back as \<open>e\<close>, and \<open>Garbage\<close> a text that does not parse.
\<close>

section \<open>Reading a search\<close>

definition HasPrefix :: "string \<Rightarrow> string \<Rightarrow> bool" where
  "HasPrefix s p \<longleftrightarrow> take (length p) s = p"

record UciResult =
  res_BestMove :: string
  res_ScoreCP :: int
  res_Mate :: bool
  res_MateIn :: int
  res_Depth :: int
  res_PV :: "string list"

definition noResult :: UciResult where
  "noResult = \<lparr>res_BestMove = '''', res_ScoreCP = 0, res_Mate = False, res_MateIn = 0, res_Depth = 0, res_PV = []\<rparr>"

definition setBestMove :: "string \<Rightarrow> UciResult \<Rightarrow> UciResult" where
  "setBestMove line r = (let fields = Fields line in if length fields \<ge> 2 then r\<lparr>res_BestMove := fields ! 1\<rparr> else r)"

definition setDepth :: "string list \<Rightarrow> UciResult \<Rightarrow> UciResult" where
  "setDepth rest r =
     (case rest of
        d # _ \<Rightarrow> (case Atoi d of Some v \<Rightarrow> r\<lparr>res_Depth := uwrap32 v\<rparr> | None \<Rightarrow> r)
      | [] \<Rightarrow> r)"

definition setScore :: "string list \<Rightarrow> UciResult \<Rightarrow> UciResult" where
  "setScore rest r =
     (case rest of
        kind # v # _ \<Rightarrow>
          (case Atoi v of
             Some x \<Rightarrow> if kind = ''mate'' then r\<lparr>res_Mate := True, res_MateIn := wrap32 x, res_ScoreCP := 0\<rparr>
                       else r\<lparr>res_Mate := False, res_ScoreCP := wrap32 x, res_MateIn := 0\<rparr>
           | None \<Rightarrow> r)
      | _ \<Rightarrow> r)"

fun infoLoop :: "string list \<Rightarrow> UciResult \<Rightarrow> UciResult" where
  "infoLoop [] r = r"
| "infoLoop (f # rest) r =
     (if f = ''depth'' then infoLoop rest (setDepth rest r)
      else if f = ''score'' then infoLoop rest (setScore rest r)
      else if f = ''pv'' then r\<lparr>res_PV := rest\<rparr>
      else infoLoop rest r)"

definition parseInfo :: "string \<Rightarrow> UciResult \<Rightarrow> UciResult" where
  "parseInfo line r = infoLoop (Fields line) r"

text \<open>The lines of the output: \<open>strings.TrimRight(line, "\r\n")\<close>, without empty ones.\<close>

definition trimCRLF :: "string \<Rightarrow> string" where
  "trimCRLF s = rev (dropWhile (\<lambda>c. c = CHR 0x0D \<or> c = CHR 0x0A) (rev s))"

definition readLoop :: "string \<Rightarrow> string list" where
  "readLoop out = filter (\<lambda>l. l \<noteq> '''') (map trimCRLF (Split out (CHR 0x0A)))"

datatype UciError = EngineClosed | Cancelled | SendFailed

text \<open>The result, whether \<open>stop\<close> was sent, and the lines left.\<close>

fun readSearch :: "(nat \<Rightarrow> bool) \<Rightarrow> nat \<Rightarrow> bool \<Rightarrow> UciResult \<Rightarrow> string list \<Rightarrow> (UciError + UciResult) \<times> bool \<times> string list" where
  "readSearch cancelled i stopped r [] = (Inl EngineClosed, stopped \<or> cancelled i, [])"
| "readSearch cancelled i stopped r (line # lines) =
     (if cancelled i then
        if HasPrefix line ''bestmove'' then (Inl Cancelled, True, lines)
        else readSearch cancelled (i + 1) True r lines
      else if HasPrefix line ''info '' then readSearch cancelled (i + 1) stopped (parseInfo line r) lines
      else if HasPrefix line ''bestmove'' then (Inr (setBestMove line r), stopped, lines)
      else readSearch cancelled (i + 1) stopped r lines)"

fun waitFor :: "string \<Rightarrow> string list \<Rightarrow> (UciError + unit) \<times> string list" where
  "waitFor token [] = (Inl EngineClosed, [])"
| "waitFor token (line # lines) = (if HasPrefix line token then (Inr (), lines) else waitFor token lines)"

text \<open>Sending \<open>isready\<close>, and the handshake of a new process: the result, what was sent, the lines left.\<close>

definition ready :: "bool \<Rightarrow> string list \<Rightarrow> (UciError + unit) \<times> string list \<times> string list" where
  "ready sendOk lines =
     (if \<not> sendOk then (Inl SendFailed, [], lines)
      else case waitFor ''readyok'' lines of (r, lines) \<Rightarrow> (r, [''isready''], lines))"

definition handshake :: "(nat \<Rightarrow> bool) \<Rightarrow> string list \<Rightarrow> (UciError + unit) \<times> string list \<times> string list" where
  "handshake sendOk lines =
     (if \<not> sendOk 0 then (Inl SendFailed, [], lines)
      else case waitFor ''uciok'' lines of
          (Inl e, lines) \<Rightarrow> (Inl e, [''uci''], lines)
        | (Inr _, lines) \<Rightarrow> (case ready (sendOk 1) lines of (r, sent, lines) \<Rightarrow> (r, ''uci'' # sent, lines)))"

definition goCommand :: "int \<Rightarrow> int \<Rightarrow> string" where
  "goCommand depth movetimeMS =
     (if movetimeMS > 0 then ''go movetime '' @ Itoa movetimeMS
      else ''go depth '' @ Itoa (if depth = 0 then 12 else depth))"

text \<open>\<open>sendOk k\<close>: whether the \<open>k\<close>-th command of the call can be written.\<close>

definition Engine_Analyze :: "(nat \<Rightarrow> bool) \<Rightarrow> (nat \<Rightarrow> bool) \<Rightarrow> string \<Rightarrow> int \<Rightarrow> int \<Rightarrow> string list \<Rightarrow>
    (UciError + UciResult) \<times> string list \<times> string list" where
  "Engine_Analyze sendOk cancelled fen depth movetimeMS lines =
     (case ready (sendOk 0) lines of
        (Inl e, sent, lines) \<Rightarrow> (Inl e, sent, lines)
      | (Inr _, sent, lines) \<Rightarrow>
          if \<not> sendOk 1 then (Inl SendFailed, sent, lines)
          else if \<not> sendOk 2 then (Inl SendFailed, sent @ [''position fen '' @ fen], lines)
          else
            (case readSearch cancelled 0 False noResult lines of
               (r, stopped, lines) \<Rightarrow>
                 (r, sent @ [''position fen '' @ fen, goCommand depth movetimeMS] @ (if stopped then [''stop''] else []), lines)))"

section \<open>The engine service\<close>

record CachedEval =
  ce_BestMove :: string
  ce_ScoreCP :: int
  ce_Mate :: bool
  ce_MateIn :: int
  ce_Depth :: int
  ce_PV :: "string list"

datatype EngineError = FenRequired | SearchFailed

text \<open>
  \<open>search\<close> is the outcome of \<open>Engine_Analyze\<close> for this request.  The wire response is the
  evaluation and whether it came from the book.
\<close>

definition Server_Analyze :: "(int \<Rightarrow> int) \<Rightarrow> Book option \<Rightarrow> (string \<Rightarrow> int \<Rightarrow> int \<Rightarrow> UciError + UciResult) \<Rightarrow>
    string \<Rightarrow> int \<Rightarrow> int \<Rightarrow> bool \<Rightarrow> EngineError + (CachedEval \<times> bool)" where
  "Server_Analyze rng book search fen depth movetimeMS useBook =
     (if fen = '''' then Inl FenRequired
      else case (if useBook then Book_Move rng book fen else None) of
          Some move \<Rightarrow> Inr (\<lparr>ce_BestMove = move, ce_ScoreCP = 0, ce_Mate = False, ce_MateIn = 0, ce_Depth = 0, ce_PV = []\<rparr>, True)
        | None \<Rightarrow>
            (case search fen depth movetimeMS of
               Inl e \<Rightarrow> Inl SearchFailed
             | Inr r \<Rightarrow> Inr (\<lparr>ce_BestMove = res_BestMove r, ce_ScoreCP = res_ScoreCP r, ce_Mate = res_Mate r, ce_MateIn = res_MateIn r,
                             ce_Depth = res_Depth r, ce_PV = res_PV r\<rparr>, False)))"

section \<open>The evaluation cache\<close>

datatype Stored = Json CachedEval | Garbage

record EvalCache =
  ec_store :: "string \<Rightarrow> Stored option"
  ec_hits :: int
  ec_misses :: int
  ec_errs :: int

definition evalKey :: "string \<Rightarrow> int \<Rightarrow> string" where
  "evalKey fen depth = ''eval:d'' @ Itoa depth @ '':'' @ fen"

definition recordHit :: "EvalCache \<Rightarrow> EvalCache" where
  "recordHit c = c\<lparr>ec_hits := ec_hits c + 1\<rparr>"

definition recordMiss :: "EvalCache \<Rightarrow> EvalCache" where
  "recordMiss c = c\<lparr>ec_misses := ec_misses c + 1\<rparr>"

text \<open>The cache with a Redis client; \<open>up\<close> is whether Redis answers.  A failed delete goes unnoticed.\<close>

definition Cache_Get :: "bool \<Rightarrow> bool \<Rightarrow> string \<Rightarrow> int \<Rightarrow> EvalCache \<Rightarrow> CachedEval option \<times> EvalCache" where
  "Cache_Get up upDel fen depth c =
     (if \<not> up then (None, recordMiss (c\<lparr>ec_errs := ec_errs c + 1\<rparr>))
      else case ec_store c (evalKey fen depth) of
          None \<Rightarrow> (None, recordMiss c)
        | Some Garbage \<Rightarrow> (None, recordMiss (if upDel then c\<lparr>ec_store := (ec_store c)(evalKey fen depth := None)\<rparr> else c))
        | Some (Json e) \<Rightarrow> (Some e, recordHit c))"

definition Cache_Put :: "bool \<Rightarrow> string \<Rightarrow> int \<Rightarrow> CachedEval \<Rightarrow> EvalCache \<Rightarrow> EvalCache" where
  "Cache_Put up fen depth e c =
     (if up then c\<lparr>ec_store := (ec_store c)(evalKey fen depth := Some (Json e))\<rparr> else c\<lparr>ec_errs := ec_errs c + 1\<rparr>)"

definition HitRate :: "EvalCache \<Rightarrow> real" where
  "HitRate c = (let n = ec_hits c + ec_misses c in if n = 0 then 0 else ec_hits c / n)"

section \<open>The client\<close>

text \<open>
  \<open>eng fen depth useBook\<close> is the answer of the engine service; without a cache \<open>enabled\<close> is false.
  \<open>net k\<close>: whether the \<open>k\<close>-th Redis call is answered.
\<close>

definition client_analyze :: "(nat \<Rightarrow> bool) \<Rightarrow> bool \<Rightarrow> (string \<Rightarrow> int \<Rightarrow> bool \<Rightarrow> string + CachedEval) \<Rightarrow> string \<Rightarrow> int \<Rightarrow> bool \<Rightarrow>
    EvalCache \<Rightarrow> (string + CachedEval) \<times> EvalCache" where
  "client_analyze net enabled eng fen depth useBook c =
     (let cacheable = (\<not> useBook \<and> depth > 0 \<and> enabled);
          (hit, c) = (if cacheable then Cache_Get (net 0) (net 1) fen (uwrap32 depth) c else (None, c))
      in case hit of
           Some e \<Rightarrow> (Inr e, c)
         | None \<Rightarrow>
             (case eng fen (uwrap32 depth) useBook of
                Inl err \<Rightarrow> (Inl err, c)
              | Inr e \<Rightarrow> (Inr e, if cacheable then Cache_Put (net 2) fen (uwrap32 depth) e c else c)))"

definition Client_BestMove :: "(nat \<Rightarrow> bool) \<Rightarrow> bool \<Rightarrow> (string \<Rightarrow> int \<Rightarrow> bool \<Rightarrow> string + CachedEval) \<Rightarrow> string \<Rightarrow> int \<Rightarrow>
    EvalCache \<Rightarrow> (string + string) \<times> EvalCache" where
  "Client_BestMove net enabled eng fen depth c =
     (case client_analyze net enabled eng fen depth True c of
        (Inl err, c) \<Rightarrow> (Inl err, c)
      | (Inr e, c) \<Rightarrow> (Inr (ce_BestMove e), c))"

definition Client_Analyze :: "(nat \<Rightarrow> bool) \<Rightarrow> bool \<Rightarrow> (string \<Rightarrow> int \<Rightarrow> bool \<Rightarrow> string + CachedEval) \<Rightarrow> string \<Rightarrow> int \<Rightarrow>
    EvalCache \<Rightarrow> (string + CachedEval) \<times> EvalCache" where
  "Client_Analyze net enabled eng fen depth c = client_analyze net enabled eng fen depth False c"

section \<open>Reading what the engine says\<close>

definition keyword :: "string \<Rightarrow> bool" where
  "keyword w \<longleftrightarrow> w \<in> {''depth'', ''score'', ''pv''}"

lemma infoLoop_skip: "list_all (\<lambda>w. \<not> keyword w) ws \<Longrightarrow> infoLoop (ws @ rest) r = infoLoop rest r"
  by (induction ws) (auto simp: keyword_def)

lemma Itoa_no_keyword: "\<not> keyword (Itoa i)"
proof
  assume k: "keyword (Itoa i)"
  have "is_digit (last (nat_digits n))" for n
    using nat_digits_digits [of n] last_in_set [OF nat_digits_nonempty, of n] by (simp add: list_all_iff)
  then have "is_digit (last (Itoa i))" by (simp add: Itoa_def)
  then show False using k by (auto simp: keyword_def is_digit_def)
qed

text \<open>One answer of the engine: progress lines, then the line with the move.\<close>

definition answer_ok :: "string list \<Rightarrow> string \<Rightarrow> bool" where
  "answer_ok infos best \<longleftrightarrow> HasPrefix best ''bestmove'' \<and> list_all (\<lambda>l. \<not> HasPrefix l ''bestmove'') infos"

definition answer :: "string list \<Rightarrow> string \<Rightarrow> UciResult" where
  "answer infos best = setBestMove best (fold (\<lambda>l r. if HasPrefix l ''info '' then parseInfo l r else r) infos noResult)"

lemma bestmove_not_info: "HasPrefix l ''bestmove'' \<Longrightarrow> \<not> HasPrefix l ''info ''"
  by (cases l) (auto simp: HasPrefix_def)

lemma readSearch_rest:
  "answer_ok infos best \<Longrightarrow> snd (snd (readSearch cancelled i stopped r (infos @ best # rest))) = rest"
proof (induction infos arbitrary: i stopped r)
  case Nil
  then show ?case using bestmove_not_info [of best] by (simp add: answer_ok_def)
next
  case (Cons l infos)
  then show ?case by (simp add: answer_ok_def)
qed

lemma readSearch_answer:
  "answer_ok infos best \<Longrightarrow> (\<And>k. \<not> cancelled k) \<Longrightarrow>
   fst (readSearch cancelled i stopped r (infos @ best # rest)) =
     Inr (setBestMove best (fold (\<lambda>l r. if HasPrefix l ''info '' then parseInfo l r else r) infos r))"
proof (induction infos arbitrary: i stopped r)
  case Nil
  then show ?case using bestmove_not_info [of best] by (simp add: answer_ok_def)
next
  case (Cons l infos)
  then show ?case by (simp add: answer_ok_def)
qed

lemma readSearch_cancelled:
  "answer_ok infos best \<Longrightarrow> fst (readSearch cancelled i stopped r (infos @ best # rest)) = Inl Cancelled \<or>
   (\<exists>r'. fst (readSearch cancelled i stopped r (infos @ best # rest)) = Inr r')"
proof (induction infos arbitrary: i stopped r)
  case Nil
  then show ?case using bestmove_not_info [of best] by (simp add: answer_ok_def)
next
  case (Cons l infos)
  then show ?case by (simp add: answer_ok_def)
qed

lemma waitFor_skips: "list_all (\<lambda>l. \<not> HasPrefix l tok) noise \<Longrightarrow> HasPrefix l tok \<Longrightarrow> waitFor tok (noise @ l # rest) = (Inr (), rest)"
  by (induction noise) auto

text \<open>A run of searches on one process; each answer stands behind the reply to \<open>isready\<close>.\<close>

record Dialogue =
  dg_noise :: "string list"
  dg_ready :: string
  dg_infos :: "string list"
  dg_best :: string

definition dialogue_ok :: "Dialogue \<Rightarrow> bool" where
  "dialogue_ok d \<longleftrightarrow> list_all (\<lambda>l. \<not> HasPrefix l ''readyok'') (dg_noise d) \<and> HasPrefix (dg_ready d) ''readyok'' \<and> answer_ok (dg_infos d) (dg_best d)"

definition printed :: "Dialogue \<Rightarrow> string list" where
  "printed d = dg_noise d @ dg_ready d # dg_infos d @ [dg_best d]"

fun searches :: "((nat \<Rightarrow> bool) \<times> string \<times> int \<times> int) list \<Rightarrow> string list \<Rightarrow> (UciError + UciResult) list" where
  "searches [] lines = []"
| "searches ((cancelled, fen, depth, ms) # calls) lines =
     (case Engine_Analyze (\<lambda>_. True) cancelled fen depth ms lines of (r, _, lines) \<Rightarrow> r # searches calls lines)"

lemma Engine_Analyze_one:
  assumes "dialogue_ok d"
  shows "\<exists>r sent. Engine_Analyze (\<lambda>_. True) cancelled fen depth ms (printed d @ rest) = (r, sent, rest) \<and>
    ((\<forall>k. \<not> cancelled k) \<longrightarrow> r = Inr (answer (dg_infos d) (dg_best d))) \<and> (r = Inl Cancelled \<or> (\<exists>x. r = Inr x))"
proof -
  have a: "answer_ok (dg_infos d) (dg_best d)" using assms by (simp add: dialogue_ok_def)
  let ?s = "readSearch cancelled 0 False noResult (dg_infos d @ dg_best d # rest)"
  have w: "waitFor ''readyok'' (printed d @ rest) = (Inr (), dg_infos d @ dg_best d # rest)"
    using assms waitFor_skips [of "''readyok''" "dg_noise d" "dg_ready d"] by (simp add: printed_def dialogue_ok_def)
  show ?thesis using readSearch_rest [OF a, of cancelled 0 False noResult rest] readSearch_answer [OF a, of cancelled 0 False noResult rest]
      readSearch_cancelled [OF a, of cancelled 0 False noResult rest]
    by (cases ?s) (auto simp: Engine_Analyze_def ready_def w answer_def)
qed

section \<open>Caching\<close>

text \<open>
  What the client needs of a cache: a lookup returns a value of the contents and adds none, and
  storing adds at most the stored entry.
\<close>

locale eval_cache =
  fixes get :: "string \<Rightarrow> int \<Rightarrow> 's \<Rightarrow> CachedEval option \<times> 's"
    and put :: "string \<Rightarrow> int \<Rightarrow> CachedEval \<Rightarrow> 's \<Rightarrow> 's"
    and contents :: "'s \<Rightarrow> string \<times> int \<Rightarrow> CachedEval option"
  assumes get_val: "fst (get f d s) = Some e \<Longrightarrow> contents s (f, d) = Some e"
    and get_keeps: "contents (snd (get f d s)) k = Some e \<Longrightarrow> contents s k = Some e"
    and put_keeps: "contents (put f d e s) k = Some e' \<Longrightarrow> contents s k = Some e' \<or> k = (f, d) \<and> e' = e"
begin

text \<open>Every entry is an answer of the function that is cached.\<close>

definition faithful :: "(string \<times> int \<Rightarrow> 'err + CachedEval) \<Rightarrow> 's \<Rightarrow> bool" where
  "faithful ans s \<longleftrightarrow> (\<forall>k e. contents s k = Some e \<longrightarrow> ans k = Inr e)"

lemma lookup_faithful: "faithful ans s \<Longrightarrow> fst (get f d s) = Some e \<Longrightarrow> ans (f, d) = Inr e"
  using get_val unfolding faithful_def by blast

lemma get_faithful: "faithful ans s \<Longrightarrow> faithful ans (snd (get f d s))"
  using get_keeps unfolding faithful_def by blast

lemma put_faithful: "faithful ans s \<Longrightarrow> ans (f, d) = Inr e \<Longrightarrow> faithful ans (put f d e s)"
  using put_keeps unfolding faithful_def by blast

end

lemma nat_digits_inject: "nat_digits m = nat_digits n \<longleftrightarrow> m = n"
  by (metis digits_val_nat_digits of_nat_eq_iff)

lemma Itoa_inject: "Itoa i = Itoa j \<longleftrightarrow> i = j"
proof -
  have "nat_digits n \<noteq> CHR ''-'' # w" for n w using hd_nat_digits [of n] by auto
  then have ne: "nat_digits n \<noteq> CHR ''-'' # w" "CHR ''-'' # w \<noteq> nat_digits n" for n w by metis+
  show ?thesis using ne by (auto simp: Itoa_def nat_digits_inject split: if_splits)
qed

lemma Itoa_no_colon: "CHR '':'' \<notin> set (Itoa i)"
proof -
  have "\<not> is_digit (CHR '':'')" by (simp add: is_digit_def)
  then have "CHR '':'' \<notin> set (nat_digits n)" for n using nat_digits_digits [of n] by (auto simp: list_all_iff)
  then show ?thesis by (simp add: Itoa_def)
qed

lemma evalKey_inject: "evalKey f d = evalKey f' d' \<longleftrightarrow> f = f' \<and> d = d'"
proof
  assume e: "evalKey f d = evalKey f' d'"
  then have "Split (Itoa d @ CHR '':'' # f) (CHR '':'') = Split (Itoa d' @ CHR '':'' # f') (CHR '':'')" by (simp add: evalKey_def)
  then have "d = d'" using Itoa_inject by (simp add: Split_append Itoa_no_colon)
  then show "f = f' \<and> d = d'" using e by (simp add: evalKey_def)
qed simp

definition cached :: "EvalCache \<Rightarrow> string \<times> int \<Rightarrow> CachedEval option" where
  "cached c k = (case ec_store c (evalKey (fst k) (snd k)) of Some (Json e) \<Rightarrow> Some e | _ \<Rightarrow> None)"

interpretation ec: eval_cache "Cache_Get up upDel" "Cache_Put up'" cached
proof
  show "fst (Cache_Get up upDel f d s) = Some e \<Longrightarrow> cached s (f, d) = Some e" for f d s e
    by (auto simp: Cache_Get_def cached_def split: if_splits option.splits Stored.splits)
  show "cached (snd (Cache_Get up upDel f d s)) k = Some e \<Longrightarrow> cached s k = Some e" for f d s k e
    by (auto simp: Cache_Get_def cached_def recordMiss_def recordHit_def split: if_splits option.splits Stored.splits)
  show "cached (Cache_Put up' f d e s) k = Some e' \<Longrightarrow> cached s k = Some e' \<or> k = (f, d) \<and> e' = e" for f d e s k e'
    by (cases k) (auto simp: Cache_Put_def cached_def evalKey_inject split: if_splits option.splits Stored.splits)
qed

text \<open>
  The cache as the services use it together: lookups and stores of analyses, with the engine and
  Redis failing at any time, entries that expire, and entries that get corrupted.
\<close>

inductive cache_reach :: "(string \<Rightarrow> int \<Rightarrow> bool \<Rightarrow> string + CachedEval) \<Rightarrow> EvalCache \<Rightarrow> bool" for eng where
  cr_new: "ec_store c = (\<lambda>_. None) \<Longrightarrow> cache_reach eng c"
| cr_analyze: "cache_reach eng c \<Longrightarrow> cache_reach eng (snd (Client_Analyze net enabled eng fen depth c))"
| cr_play: "cache_reach eng c \<Longrightarrow> cache_reach eng (snd (Client_BestMove net enabled eng fen depth c))"
| cr_expire: "cache_reach eng c \<Longrightarrow> cache_reach eng (c\<lparr>ec_store := (ec_store c)(k := None)\<rparr>)"
| cr_corrupt: "cache_reach eng c \<Longrightarrow> cache_reach eng (c\<lparr>ec_store := (ec_store c)(k := Some Garbage)\<rparr>)"

abbreviation analysis_of :: "(string \<Rightarrow> int \<Rightarrow> bool \<Rightarrow> string + CachedEval) \<Rightarrow> string \<times> int \<Rightarrow> string + CachedEval" where
  "analysis_of eng k \<equiv> eng (fst k) (snd k) False"

lemma BestMove_cache: "snd (Client_BestMove net enabled eng fen depth c) = c"
  by (auto simp: Client_BestMove_def client_analyze_def split: sum.splits)

lemma client_faithful:
  assumes "ec.faithful (analysis_of eng) c"
  shows "ec.faithful (analysis_of eng) (snd (Client_Analyze net enabled eng fen depth c))"
    and "fst (Client_Analyze net enabled eng fen depth c) = Inr e \<Longrightarrow> eng fen (uwrap32 depth) False = Inr e"
proof -
  let ?g = "Cache_Get (net 0) (net 1) fen (uwrap32 depth) c"
  note hit = ec.lookup_faithful [OF assms, of "net 0" "net 1" fen "uwrap32 depth"]
  note keep = ec.get_faithful [OF assms, of "net 0" "net 1" fen "uwrap32 depth"]
  show "ec.faithful (analysis_of eng) (snd (Client_Analyze net enabled eng fen depth c))"
    using assms keep ec.put_faithful [OF keep, of fen "uwrap32 depth" _ "net 2"]
    by (cases ?g) (auto simp: Client_Analyze_def client_analyze_def Let_def split: sum.split option.split)
  show "eng fen (uwrap32 depth) False = Inr e" if "fst (Client_Analyze net enabled eng fen depth c) = Inr e"
    using that hit by (cases ?g) (auto simp: Client_Analyze_def client_analyze_def Let_def split: sum.splits option.splits if_splits)
qed

lemma cache_reach_faithful: "cache_reach eng c \<Longrightarrow> ec.faithful (analysis_of eng) c"
proof (induction rule: cache_reach.induct)
  case (cr_new c)
  then show ?case unfolding ec.faithful_def by (simp add: cached_def)
next
  case (cr_analyze c net enabled fen depth)
  then show ?case using client_faithful(1) by blast
next
  case (cr_play c net enabled fen depth)
  then show ?case by (simp add: BestMove_cache)
next
  case (cr_expire c k)
  then show ?case unfolding ec.faithful_def by (auto simp: cached_def split: option.splits Stored.splits if_splits)
next
  case (cr_corrupt c k)
  then show ?case unfolding ec.faithful_def by (auto simp: cached_def split: option.splits Stored.splits if_splits)
qed

section \<open>Properties\<close>

text \<open>
  C16. The cache never changes an answer: whatever analyses and book moves were asked for before,
  and however Redis failed, expired or corrupted entries, an evaluation that the client returns for
  a position and a depth is the one the engine gives for them without its book; in particular no
  book move, which carries no score, is ever handed to the analysis.
\<close>

theorem cached_analysis_is_the_engines:
  assumes "cache_reach eng c" and "fst (Client_Analyze net enabled eng fen depth c) = Inr e"
  shows "eng fen (uwrap32 depth) False = Inr e"
  using client_faithful(2) [OF cache_reach_faithful [OF assms(1)] assms(2)] .

text \<open>
  Searches on one engine process do not mix: when the process answers each search with progress
  lines and one line with a move, behind its reply to \<open>isready\<close>, then every search, cancelled or not,
  reads exactly its own answer, so that each later search returns its own result; a search that is
  never cancelled returns the last line's move with the values of its last progress lines, and a
  cancelled one returns the cancellation or a result.
\<close>

theorem searches_do_not_mix:
  assumes "list_all dialogue_ok ds" and "length calls = length ds" and "k < length ds"
  shows "let r = searches calls (concat (map printed ds)) ! k in
    ((\<forall>i. \<not> fst (calls ! k) i) \<longrightarrow> r = Inr (answer (dg_infos (ds ! k)) (dg_best (ds ! k)))) \<and> (r = Inl Cancelled \<or> (\<exists>x. r = Inr x))"
  using assms
proof (induction ds arbitrary: calls k)
  case (Cons d ds)
  obtain cancelled fen depth ms calls' where c: "calls = (cancelled, fen, depth, ms) # calls'" using Cons.prems(2) by (cases calls) auto
  obtain r sent where r: "Engine_Analyze (\<lambda>_. True) cancelled fen depth ms (printed d @ concat (map printed ds)) = (r, sent, concat (map printed ds))"
      "(\<forall>k. \<not> cancelled k) \<longrightarrow> r = Inr (answer (dg_infos d) (dg_best d))" "r = Inl Cancelled \<or> (\<exists>x. r = Inr x)"
    using Engine_Analyze_one [of d cancelled fen depth ms "concat (map printed ds)"] Cons.prems(1) by auto
  show ?case
  proof (cases k)
    case 0
    then show ?thesis using r c by simp
  next
    case (Suc j)
    then show ?thesis using Cons.IH [of calls' j] Cons.prems r(1) c by simp
  qed
qed simp

text \<open>
  A progress line is read back as it was written: from a line in the UCI format with a depth, a
  score and a variation, in this order and with any other items around them, \<open>parseInfo\<close> takes
  that depth, that score (in centipawns or as a mate) and that variation.
\<close>

theorem parseInfo_roundtrip:
  assumes "list_all word (a @ b @ c @ pv)" and "list_all (\<lambda>w. \<not> keyword w) (a @ b @ c)" and "kind = ''cp'' \<or> kind = ''mate''"
    and "int64_range d" and "int64_range x"
  shows "parseInfo (Join (''info'' # a @ [''depth'', Itoa d] @ b @ [''score'', kind, Itoa x] @ c @ ''pv'' # pv) '' '') r =
    r\<lparr>res_Depth := uwrap32 d, res_Mate := (kind = ''mate''), res_ScoreCP := (if kind = ''mate'' then 0 else wrap32 x),
      res_MateIn := (if kind = ''mate'' then wrap32 x else 0), res_PV := pv\<rparr>"
proof -
  let ?ws = "''info'' # a @ [''depth'', Itoa d] @ b @ [''score'', kind, Itoa x] @ c @ ''pv'' # pv"
  have kw: "word w" if "w \<in> {''info'', ''depth'', ''score'', ''pv'', ''cp'', ''mate''}" for w
    using that by (auto simp: word_def plain_def ascii_space_def)
  then have "list_all word ?ws" using assms(1,3) Itoa_word by auto
  then have f: "Fields (Join ?ws '' '') = ?ws" by (rule Fields_Join)
  have k: "\<not> keyword ''info''" "\<not> keyword kind" using assms(3) by (auto simp: keyword_def)
  have skip: "infoLoop (Itoa d # b @ rest) r = infoLoop rest r" "infoLoop (kind # Itoa x # c @ rest) r = infoLoop rest r" for rest r
    using infoLoop_skip [of "Itoa d # b"] infoLoop_skip [of "kind # Itoa x # c"] assms(2) k Itoa_no_keyword by simp_all
  have first: "infoLoop (''info'' # a @ rest) r = infoLoop rest r" for rest r using infoLoop_skip [of "''info'' # a"] assms(2) k by simp
  have "infoLoop ?ws r = infoLoop (''depth'' # Itoa d # b @ ''score'' # kind # Itoa x # c @ ''pv'' # pv) r" using first by simp
  also have "\<dots> = infoLoop (''score'' # kind # Itoa x # c @ ''pv'' # pv) (r\<lparr>res_Depth := uwrap32 d\<rparr>)"
    using skip(1) [of "''score'' # kind # Itoa x # c @ ''pv'' # pv"] Atoi_Itoa [OF assms(4)] by (simp add: setDepth_def)
  also have "\<dots> = (setScore [kind, Itoa x] (r\<lparr>res_Depth := uwrap32 d\<rparr>))\<lparr>res_PV := pv\<rparr>"
    using skip(2) [of "''pv'' # pv"] Atoi_Itoa [OF assms(5)] by (simp add: setScore_def)
  finally show ?thesis using f Atoi_Itoa [OF assms(5)] assms(3) by (auto simp: parseInfo_def setScore_def)
qed

section \<open>Instances\<close>

definition demoEngine :: "string \<Rightarrow> int \<Rightarrow> bool \<Rightarrow> string + CachedEval" where
  "demoEngine fen depth useBook =
     Inr \<lparr>ce_BestMove = ''e2e4'', ce_ScoreCP = (if useBook then 0 else 31), ce_Mate = False, ce_MateIn = 0, ce_Depth = depth, ce_PV = []\<rparr>"

definition emptyCache :: EvalCache where
  "emptyCache = \<lparr>ec_store = (\<lambda>_. None), ec_hits = 0, ec_misses = 0, ec_errs = 0\<rparr>"

theorem cached_analysis_is_the_engines_witness:
  "\<exists>e. fst (Client_Analyze (\<lambda>_. True) True demoEngine ''f'' 12 (snd (Client_Analyze (\<lambda>_. True) True demoEngine ''f'' 12 emptyCache))) = Inr e \<and>
     ec_hits (snd (Client_Analyze (\<lambda>_. True) True demoEngine ''f'' 12 (snd (Client_Analyze (\<lambda>_. True) True demoEngine ''f'' 12 emptyCache)))) = 1 \<and>
     demoEngine ''f'' (uwrap32 12) False = Inr e"
proof -
  define c where "c = snd (Client_Analyze (\<lambda>_. True) True demoEngine ''f'' 12 emptyCache)"
  have "cache_reach demoEngine emptyCache" by (rule cr_new) (simp add: emptyCache_def)
  then have r: "cache_reach demoEngine c" unfolding c_def by (rule cr_analyze)
  have h: "fst (Client_Analyze (\<lambda>_. True) True demoEngine ''f'' 12 c) = demoEngine ''f'' 12 False"
    "ec_hits (snd (Client_Analyze (\<lambda>_. True) True demoEngine ''f'' 12 c)) = 1"
    by (simp_all add: c_def Client_Analyze_def client_analyze_def Cache_Get_def Cache_Put_def emptyCache_def uwrap32_def
        demoEngine_def recordMiss_def recordHit_def)
  then have "fst (Client_Analyze (\<lambda>_. True) True demoEngine ''f'' 12 c) = Inr (projr (demoEngine ''f'' 12 False))" by (simp add: demoEngine_def)
  then show ?thesis using cached_analysis_is_the_engines [OF r] h(2) unfolding c_def by blast
qed

definition demoDialogue :: "string \<Rightarrow> Dialogue" where
  "demoDialogue m = \<lparr>dg_noise = [], dg_ready = ''readyok'', dg_infos = [''info depth 1 score cp 20 pv '' @ m], dg_best = ''bestmove '' @ m\<rparr>"

theorem searches_do_not_mix_witness:
  "\<exists>x. searches [(\<lambda>_. True, ''f'', 8, 0), (\<lambda>_. False, ''g'', 8, 0)] (concat (map printed [demoDialogue ''e2e4'', demoDialogue ''d7d5''])) ! 1 = Inr x \<and>
     res_BestMove x = ''d7d5''"
proof -
  have ok: "list_all dialogue_ok [demoDialogue ''e2e4'', demoDialogue ''d7d5'']"
    by (simp add: dialogue_ok_def answer_ok_def demoDialogue_def HasPrefix_def)
  have "res_BestMove (answer (dg_infos (demoDialogue ''d7d5'')) (dg_best (demoDialogue ''d7d5''))) = ''d7d5''" by code_simp
  then show ?thesis
    using searches_do_not_mix [OF ok, of "[(\<lambda>_. True, ''f'', 8, 0), (\<lambda>_. False, ''g'', 8, 0)]" 1] by (simp add: Let_def)
qed

theorem parseInfo_roundtrip_witness:
  "parseInfo (Join [''info'', ''depth'', Itoa 9, ''score'', ''mate'', Itoa (- 3), ''pv'', ''a1a2''] '' '') noResult =
     noResult\<lparr>res_Depth := 9, res_Mate := True, res_MateIn := - 3, res_PV := [''a1a2'']\<rparr>"
proof -
  have "word ''a1a2''" by (simp add: word_def plain_def ascii_space_def)
  then show ?thesis using parseInfo_roundtrip [of "[]" "[]" "[]" "[''a1a2'']" "''mate''" 9 "- 3" noResult]
    by (simp add: int64_range_def uwrap32_def wrap32_def noResult_def)
qed

end
