(* ===== verification/Game_History.thy ===== *)
theory Game_History
  imports Game_Play "HOL-Library.Multiset"
begin

text \<open>
  What is kept of a game and how it is read back: analysis reports in the store
  (\<open>pkg/store/analysis.go\<close>) and the read-only handlers of the game service
  (\<open>services/game-service/internal/server/history.go\<close>: history, leaderboard, opening explorer,
  reports, links to archived games).

  The report tables are a record of their own beside \<open>DB\<close>; the foreign key to the games table is
  checked.  \<open>pgReal\<close> is the rounding of a double to the \<open>REAL\<close> columns.  Of the wire enumeration
  of move qualities the model has the seven values the worker sends.
\<close>

section \<open>Stored reports\<close>

record MoveVerdict =
  mvd_Ply :: int
  mvd_UCI :: string
  mvd_BestUCI :: string
  mvd_EvalBeforeCP :: int
  mvd_EvalAfterCP :: int
  mvd_CentipawnLoss :: int
  mvd_Quality :: string
  mvd_MatchedEngine :: bool
  mvd_MateBefore :: bool
  mvd_MateAfter :: bool

record SideReport =
  sr_Accuracy :: real
  sr_ACPL :: real
  sr_MatchRate :: real
  sr_Blunders :: int
  sr_Mistakes :: int
  sr_Inaccuracies :: int

record GameReport =
  gr_GameID :: string
  gr_Depth :: int
  gr_NoveltyFEN :: string
  gr_NoveltyPly :: int
  gr_White :: SideReport
  gr_Black :: SideReport
  gr_Moves :: "MoveVerdict list"
  gr_AnalyzedAt :: int

record AnalysisRow =
  ar_depth :: int
  ar_novelty :: "(string \<times> int) option"
  ar_white :: SideReport
  ar_black :: SideReport
  ar_analyzed_at :: int

text \<open>Both tables in insertion order, each row with its primary key.\<close>

record Reports =
  game_analysis :: "(string \<times> AnalysisRow) list"
  move_analysis :: "((string \<times> int) \<times> MoveVerdict) list"

fun qualityName :: "Quality \<Rightarrow> string" where
  "qualityName QualityBrilliant = ''BRILLIANT''"
| "qualityName QualityBest = ''BEST''"
| "qualityName QualityExcellent = ''EXCELLENT''"
| "qualityName QualityGood = ''GOOD''"
| "qualityName QualityInaccuracy = ''INACCURACY''"
| "qualityName QualityMistake = ''MISTAKE''"
| "qualityName QualityBlunder = ''BLUNDER''"

text \<open>\<open>INSERT \<dots> ON CONFLICT (key) DO UPDATE\<close>, with every column taken from the new row.\<close>

definition upsert :: "'k \<times> 'v \<Rightarrow> ('k \<times> 'v) list \<Rightarrow> ('k \<times> 'v) list" where
  "upsert r rows = (if list_ex (\<lambda>x. fst x = fst r) rows then update_where (\<lambda>x. fst x = fst r) (\<lambda>_. r) rows else rows @ [r])"

definition sideRow :: "(real \<Rightarrow> real) \<Rightarrow> PlayerSummary \<Rightarrow> SideReport" where
  "sideRow pgReal p =
     \<lparr>sr_Accuracy = pgReal (ps_Accuracy p), sr_ACPL = pgReal (ps_AvgCentipawnLoss p), sr_MatchRate = pgReal (ps_EngineMatchRate p),
      sr_Blunders = wrap32 (ps_Blunders p), sr_Mistakes = wrap32 (ps_Mistakes p), sr_Inaccuracies = wrap32 (ps_Inaccuracies p)\<rparr>"

definition verdictRow :: "string \<Rightarrow> MoveAnalysis \<Rightarrow> (string \<times> int) \<times> MoveVerdict" where
  "verdictRow gid m =
     ((gid, wrap32 (ma_Ply m)),
      \<lparr>mvd_Ply = wrap32 (ma_Ply m), mvd_UCI = ma_Uci m, mvd_BestUCI = ma_BestUci m, mvd_EvalBeforeCP = ma_EvalBeforeCp m,
       mvd_EvalAfterCP = ma_EvalAfterCp m, mvd_CentipawnLoss = ma_CentipawnLoss m, mvd_Quality = qualityName (ma_Quality m),
       mvd_MatchedEngine = ma_MatchedEngine m, mvd_MateBefore = ma_MateBefore m, mvd_MateAfter = ma_MateAfter m\<rparr>)"

definition analysisRow :: "(real \<Rightarrow> real) \<Rightarrow> int \<Rightarrow> AnalysisCompleted \<Rightarrow> AnalysisRow" where
  "analysisRow pgReal now r =
     \<lparr>ar_depth = wrap32 (ac_Depth r),
      ar_novelty = (if ac_NoveltyFen r \<noteq> '''' then Some (ac_NoveltyFen r, wrap32 (ac_NoveltyPly r)) else None),
      ar_white = sideRow pgReal (ac_White r), ar_black = sideRow pgReal (ac_Black r), ar_analyzed_at = now\<rparr>"

definition SaveAnalysis :: "(real \<Rightarrow> real) \<Rightarrow> bool \<Rightarrow> int \<Rightarrow> AnalysisCompleted \<Rightarrow> DB \<Rightarrow> Reports \<Rightarrow> (StoreError + unit) \<times> Reports" where
  "SaveAnalysis pgReal up now r db rs =
     (if \<not> up \<or> find_game db (ac_GameId r) = None then (Inl DbErr, rs)
      else (Inr (), rs\<lparr>game_analysis := upsert (ac_GameId r, analysisRow pgReal now r) (game_analysis rs),
                      move_analysis := fold (\<lambda>m. upsert (verdictRow (ac_GameId r) m)) (ac_Moves r) (move_analysis rs)\<rparr>))"

definition Store_GetAnalysis :: "bool \<Rightarrow> bool \<Rightarrow> string \<Rightarrow> Reports \<Rightarrow> StoreError + GameReport" where
  "Store_GetAnalysis up up' gid rs =
     (if \<not> up then Inl DbErr
      else case map_of (game_analysis rs) gid of
          None \<Rightarrow> Inl ErrNotFound
        | Some row \<Rightarrow>
            if \<not> up' then Inl DbErr
            else Inr \<lparr>gr_GameID = gid, gr_Depth = ar_depth row,
                   gr_NoveltyFEN = (case ar_novelty row of Some (f, _) \<Rightarrow> f | None \<Rightarrow> ''''),
                   gr_NoveltyPly = (case ar_novelty row of Some (_, p) \<Rightarrow> p | None \<Rightarrow> 0),
                   gr_White = ar_white row, gr_Black = ar_black row,
                   gr_Moves = map snd (sort_key (\<lambda>x. snd (fst x)) (filter (\<lambda>x. fst (fst x) = gid) (move_analysis rs))),
                   gr_AnalyzedAt = ar_analyzed_at row\<rparr>)"

section \<open>Handlers\<close>

record ProtoVerdict =
  pv_Ply :: int
  pv_Uci :: string
  pv_BestUci :: string
  pv_EvalBeforeCp :: int
  pv_EvalAfterCp :: int
  pv_CentipawnLoss :: int
  pv_Quality :: string
  pv_MatchedEngine :: bool

record GetAnalysisResponse =
  ga_GameId :: string
  ga_Depth :: int
  ga_White :: SideReport
  ga_Black :: SideReport
  ga_Moves :: "ProtoVerdict list"
  ga_NoveltyFen :: string
  ga_NoveltyPly :: int
  ga_HasNovelty :: bool
  ga_AnalyzedAt :: int

definition toSideAnalysis :: "SideReport \<Rightarrow> SideReport" where
  "toSideAnalysis s =
     \<lparr>sr_Accuracy = sr_Accuracy s, sr_ACPL = sr_ACPL s, sr_MatchRate = sr_MatchRate s, sr_Blunders = uwrap32 (sr_Blunders s),
      sr_Mistakes = uwrap32 (sr_Mistakes s), sr_Inaccuracies = uwrap32 (sr_Inaccuracies s)\<rparr>"

definition toProtoVerdict :: "MoveVerdict \<Rightarrow> ProtoVerdict" where
  "toProtoVerdict m =
     \<lparr>pv_Ply = uwrap32 (mvd_Ply m), pv_Uci = mvd_UCI m, pv_BestUci = mvd_BestUCI m, pv_EvalBeforeCp = wrap32 (mvd_EvalBeforeCP m),
      pv_EvalAfterCp = wrap32 (mvd_EvalAfterCP m), pv_CentipawnLoss = wrap32 (mvd_CentipawnLoss m), pv_Quality = mvd_Quality m,
      pv_MatchedEngine = mvd_MatchedEngine m\<rparr>"

definition GetAnalysis :: "Env \<Rightarrow> string \<Rightarrow> Reports \<Rightarrow> Code + GetAnalysisResponse" where
  "GetAnalysis env gid rs =
     (if gid = '''' then Inl InvalidArgument
      else case Store_GetAnalysis (env_up env 0) (env_up env 1) gid rs of
          Inl ErrNotFound \<Rightarrow> Inl NotFound
        | Inl e \<Rightarrow> Inl Internal
        | Inr r \<Rightarrow> Inr \<lparr>ga_GameId = gr_GameID r, ga_Depth = uwrap32 (gr_Depth r), ga_White = toSideAnalysis (gr_White r),
            ga_Black = toSideAnalysis (gr_Black r), ga_Moves = map toProtoVerdict (gr_Moves r), ga_NoveltyFen = gr_NoveltyFEN r,
            ga_NoveltyPly = uwrap32 (gr_NoveltyPly r), ga_HasNovelty = (gr_NoveltyFEN r \<noteq> ''''), ga_AnalyzedAt = gr_AnalyzedAt r\<rparr>)"

record GameSummary =
  gs_Id :: string
  gs_WhiteId :: string
  gs_WhiteName :: string
  gs_BlackId :: string
  gs_BlackName :: string
  gs_VsEngine :: bool
  gs_Rated :: bool
  gs_Status :: ProtoStatus
  gs_EndReason :: ProtoEndReason
  gs_MoveCount :: int
  gs_StartedAt :: int
  gs_EloDelta :: int
  gs_HasEloDelta :: bool
  gs_EndedAt :: "int option"

definition toSummary :: "StoreSummary \<Rightarrow> GameSummary" where
  "toSummary g =
     \<lparr>gs_Id = sum_ID g, gs_WhiteId = sum_WhiteID g, gs_WhiteName = sum_WhiteName g, gs_BlackId = sum_BlackID g,
      gs_BlackName = sum_BlackName g, gs_VsEngine = sum_VsEngine g, gs_Rated = sum_Rated g, gs_Status = statusFromDB (sum_Status g),
      gs_EndReason = endReasonFromDB (sum_EndReason g), gs_MoveCount = wrap32 (sum_MoveCount g), gs_StartedAt = sum_StartedAt g,
      gs_EloDelta = (case sum_EloDelta g of Some d \<Rightarrow> wrap32 d | None \<Rightarrow> 0), gs_HasEloDelta = (sum_EloDelta g \<noteq> None),
      gs_EndedAt = sum_EndedAt g\<rparr>"

definition ListGames :: "Env \<Rightarrow> string \<Rightarrow> int \<Rightarrow> int \<Rightarrow> DB \<Rightarrow> Code + (GameSummary list \<times> int)" where
  "ListGames env userId limit offset db =
     (if userId = '''' then Inl InvalidArgument
      else case ListGamesForUser (env_up env 0) userId limit offset db of
          Inl e \<Rightarrow> Inl Internal
        | Inr gs \<Rightarrow>
            (case CountGamesForUser (env_up env 1) userId db of
               Inl e \<Rightarrow> Inl Internal
             | Inr n \<Rightarrow> Inr (map toSummary gs, wrap32 n)))"

definition Leaderboard :: "(string \<Rightarrow> 'k :: linorder) \<Rightarrow> Env \<Rightarrow> int \<Rightarrow> DB \<Rightarrow> Code + RankEntry list" where
  "Leaderboard byName env limit db =
     (case Store_Leaderboard byName (env_up env 0) limit db of
        Inl e \<Rightarrow> Inl Internal
      | Inr es \<Rightarrow> Inr (map (\<lambda>e. e\<lparr>re_Rank := wrap32 (re_Rank e), re_Elo := wrap32 (re_Elo e),
            re_GamesPlayed := wrap32 (re_GamesPlayed e)\<rparr>) es))"

text \<open>The total is a 64-bit sum.\<close>

definition OpeningExplorer :: "(string \<Rightarrow> 'k :: linorder) \<Rightarrow> Env \<Rightarrow> string \<Rightarrow> int \<Rightarrow> DB \<Rightarrow> Code + (OpeningMove list \<times> int)" where
  "OpeningExplorer byUci env reqFen limit db =
     (let fen = (if reqFen = '''' then StartFEN else reqFen) in
      case ParseFEN fen of
        Inl e \<Rightarrow> Inl InvalidArgument
      | Inr _ \<Rightarrow>
          (case Store_OpeningExplorer byUci (env_up env 0) fen limit db of
             Inl e \<Rightarrow> Inl Internal
           | Inr ms \<Rightarrow> Inr (ms, foldl (\<lambda>t m. wrap64 (t + om_Total m)) 0 ms)))"

text \<open>\<open>exists\<close> and \<open>presigned\<close> are the replies of the object store.\<close>

definition GamePgnUrl :: "Srv \<Rightarrow> (string \<Rightarrow> bool option) \<Rightarrow> (string \<Rightarrow> string option) \<Rightarrow> string \<Rightarrow> Code + string" where
  "GamePgnUrl srv exists presigned gid =
     (if gid = '''' then Inl InvalidArgument
      else if \<not> srv_objects srv then Inr ''''
      else
        let key = gid @ ''.pgn'' in
        if exists key \<noteq> Some True then Inr ''''
        else case presigned key of None \<Rightarrow> Inl Internal | Some url \<Rightarrow> Inr url)"

section \<open>Upserts\<close>

lemma set_upsert: "set (upsert r rows) = insert r {x \<in> set rows. fst x \<noteq> fst r}"
proof (cases "list_ex (\<lambda>x. fst x = fst r) rows")
  case True
  then show ?thesis by (fastforce simp: upsert_def update_where_def list_ex_iff image_iff)
next
  case False
  then show ?thesis by (auto simp: upsert_def list_ex_iff)
qed

lemma distinct_upsert: "distinct (map fst rows) \<Longrightarrow> distinct (map fst (upsert r rows))"
proof -
  have "map fst (update_where (\<lambda>x. fst x = fst r) (\<lambda>_. r) rows) = map fst rows" by (simp add: update_where_def)
  then show "distinct (map fst rows) \<Longrightarrow> ?thesis" by (auto simp: upsert_def list_ex_iff)
qed

lemma upsert_all:
  assumes "distinct (map fst rs)" and "distinct (map fst rows)"
  shows "distinct (map fst (fold upsert rs rows))"
    and "set (fold upsert rs rows) = set rs \<union> {x \<in> set rows. fst x \<notin> fst ` set rs}"
  using assms by (induction rs arbitrary: rows) (auto simp: distinct_upsert set_upsert)

lemma upsert_present: "distinct (map fst rows) \<Longrightarrow> r \<in> set rows \<Longrightarrow> upsert r rows = rows"
proof -
  assume d: "distinct (map fst rows)" and r: "r \<in> set rows"
  have "x = r" if "x \<in> set rows" "fst x = fst r" for x using d that r by (metis distinct_map inj_onD)
  then have "update_where (\<lambda>x. fst x = fst r) (\<lambda>_. r) rows = rows" unfolding update_where_def by (intro map_idI) metis
  then show ?thesis using r by (auto simp: upsert_def list_ex_iff)
qed

lemma upsert_all_present: "distinct (map fst rows) \<Longrightarrow> set rs \<subseteq> set rows \<Longrightarrow> fold upsert rs rows = rows"
  by (induction rs) (simp_all add: upsert_present)

lemma map_of_upsert: "map_of (upsert (k, v) rows) = (map_of rows)(k \<mapsto> v)"
proof (cases "list_ex (\<lambda>x. fst x = k) rows")
  case True
  have "map_of (update_where (\<lambda>x. fst x = k) (\<lambda>_. (k, v)) rows) k' = (if k' = k \<and> list_ex (\<lambda>x. fst x = k) rows then Some v else map_of rows k')" for k'
    by (induction rows) (auto simp: update_where_def)
  then show ?thesis using True by (auto simp: upsert_def)
next
  case False
  then have "map_of rows k = None" by (auto simp: list_ex_iff map_of_eq_None_iff)
  then show ?thesis using False by (auto simp: upsert_def map_add_def split: option.splits)
qed

text \<open>The primary key of the verdicts.\<close>

definition reports_ok :: "Reports \<Rightarrow> bool" where
  "reports_ok rs \<longleftrightarrow> distinct (map fst (move_analysis rs))"

lemma fold_verdicts: "fold (\<lambda>m. upsert (verdictRow gid m)) ms rows = fold upsert (map (verdictRow gid) ms) rows"
  by (simp add: fold_map comp_def)

lemma distinct_upserts: "distinct (map fst rows) \<Longrightarrow> distinct (map fst (fold upsert xs rows))"
  by (induction xs arbitrary: rows) (simp_all add: distinct_upsert)

lemma reports_ok_save: "reports_ok rs \<Longrightarrow> reports_ok (snd (SaveAnalysis pgReal up now r db rs))"
  by (simp add: SaveAnalysis_def reports_ok_def Let_def fold_verdicts distinct_upserts)

lemma upsert_over:
  assumes "fst a = fst b"
  shows "upsert b (upsert a rows) = upsert b rows"
proof (cases "list_ex (\<lambda>x. fst x = fst b) rows")
  case True
  have "list_ex (\<lambda>x. fst x = fst b) (upsert a rows)" unfolding list_ex_iff set_upsert using assms by blast
  moreover have "update_where (\<lambda>x. fst x = fst b) (\<lambda>_. b) (update_where (\<lambda>x. fst x = fst b) (\<lambda>_. a) rows) = update_where (\<lambda>x. fst x = fst b) (\<lambda>_. b) rows"
    using assms by (simp add: update_where_def)
  ultimately show ?thesis using True assms by (simp add: upsert_def)
next
  case False
  then have "update_where (\<lambda>x. fst x = fst b) (\<lambda>_. b) rows = rows"
    unfolding update_where_def list_ex_iff by (intro map_idI) metis
  then show ?thesis using False assms by (simp add: upsert_def update_where_def)
qed

lemma SaveAnalysis_eq:
  "find_game db (ac_GameId r) \<noteq> None \<Longrightarrow> snd (SaveAnalysis pgReal True now r db rs) =
     rs\<lparr>game_analysis := upsert (ac_GameId r, analysisRow pgReal now r) (game_analysis rs),
        move_analysis := fold upsert (map (verdictRow (ac_GameId r)) (ac_Moves r)) (move_analysis rs)\<rparr>"
  by (auto simp: SaveAnalysis_def fold_verdicts)

lemma distinct_verdicts: "distinct (map (\<lambda>m. wrap32 (ma_Ply m)) ms) \<Longrightarrow> distinct (map fst (map (verdictRow gid) ms))"
  by (simp add: verdictRow_def comp_def distinct_map inj_on_def)

lemma SaveAnalysis_again:
  assumes "find_game db (ac_GameId r) \<noteq> None" and "reports_ok rs" and "distinct (map (\<lambda>m. wrap32 (ma_Ply m)) (ac_Moves r))"
  shows "snd (SaveAnalysis pgReal True now' r db (snd (SaveAnalysis pgReal True now r db rs))) = snd (SaveAnalysis pgReal True now' r db rs)"
proof -
  let ?new = "map (verdictRow (ac_GameId r)) (ac_Moves r)"
  have old: "distinct (map fst (move_analysis rs))" using assms(2) by (simp add: reports_ok_def)
  note u = upsert_all [OF distinct_verdicts [OF assms(3)] old, of "ac_GameId r"]
  have "fold upsert ?new (fold upsert ?new (move_analysis rs)) = fold upsert ?new (move_analysis rs)"
    by (rule upsert_all_present [OF u(1)]) (use u(2) in blast)
  then show ?thesis by (simp add: SaveAnalysis_eq [OF assms(1)] upsert_over)
qed

lemma saved_verdicts:
  assumes "reports_ok rs" and "sorted (map (\<lambda>m. wrap32 (ma_Ply m)) ms)" and "distinct (map (\<lambda>m. wrap32 (ma_Ply m)) ms)"
    and "\<And>p v. ((gid, p), v) \<in> set (move_analysis rs) \<Longrightarrow> p \<in> (\<lambda>m. wrap32 (ma_Ply m)) ` set ms"
  shows "sort_key (\<lambda>x. snd (fst x)) (filter (\<lambda>x. fst (fst x) = gid) (fold upsert (map (verdictRow gid) ms) (move_analysis rs))) = map (verdictRow gid) ms"
proof -
  let ?new = "map (verdictRow gid) ms" and ?rows = "move_analysis rs"
  let ?got = "filter (\<lambda>x. fst (fst x) = gid) (fold upsert ?new ?rows)"
  have new: "distinct (map fst ?new)" by (rule distinct_verdicts [OF assms(3)])
  have old: "distinct (map fst ?rows)" using assms(1) by (simp add: reports_ok_def)
  note u = upsert_all [OF new old]
  have keys: "fst ` set ?new = Pair gid ` (\<lambda>m. wrap32 (ma_Ply m)) ` set ms" by (auto simp: verdictRow_def image_iff)
  have set: "set ?got = set ?new" unfolding set_filter u(2) keys using assms(4) by (fastforce simp: verdictRow_def)
  have d: "distinct ?got" "distinct ?new" using u(1) new by (simp_all add: distinct_map del: map_map)
  have "mset ?got = mset ?new" using d set set_eq_iff_mset_eq_distinct by blast
  moreover have "inj_on (\<lambda>x. snd (fst x)) (set ?got)" unfolding set using assms(3) by (auto simp: inj_on_def verdictRow_def distinct_map)
  moreover have "sorted (map (\<lambda>x. snd (fst x)) ?new)" using assms(2) by (simp add: verdictRow_def comp_def)
  ultimately show ?thesis by (rule sort_key_inj_key_eq)
qed

section \<open>From the worker to the reader\<close>

lemma wrap32_wrap32: "wrap32 (wrap32 x) = wrap32 x"
proof (rule wrap32_id)
  show "- (2 ^ 31) \<le> wrap32 x" "wrap32 x < 2 ^ 31" by (simp_all add: wrap32_def)
qed

lemma uwrap32_wrap32: "uwrap32 (wrap32 x) = uwrap32 x"
proof -
  have "uwrap32 (wrap32 x) = ((x + 2 ^ 31) mod 2 ^ 32 - 2 ^ 31) mod 2 ^ 32" by (simp add: uwrap32_def wrap32_def)
  also have "\<dots> = (x + 2 ^ 31 - 2 ^ 31) mod 2 ^ 32" by (rule mod_diff_left_eq)
  finally show ?thesis by (simp add: uwrap32_def)
qed

lemma uwrap32_uwrap32: "uwrap32 (uwrap32 x) = uwrap32 x"
  by (simp add: uwrap32_def)

lemma Analyze_report:
  assumes "Analyze w engine mexists maddFails now req = Inr (out, cmds)"
  shows "length (ac_Moves out) = length (req_Uci req)"
    and "k < length (req_Uci req) \<Longrightarrow> ma_Uci (ac_Moves out ! k) = req_Uci req ! k \<and> ma_Ply (ac_Moves out ! k) = uwrap32 (int k + 1)"
    and "ac_GameId out = req_GameId req" and "uwrap32 (ac_Depth out) = ac_Depth out" and "uwrap32 (ac_NoveltyPly out) = ac_NoveltyPly out"
proof -
  from assms obtain es rs where len: "length (req_FenHistory req) = length (req_Uci req) + 1"
    and ev: "evaluateAll engine (if req_Depth req \<le> 0 then wk_depth w else req_Depth req) 0 (req_FenHistory req) = Inr es"
    and mr: "moveReports 0 (req_Uci req) (req_FenHistory req) es = Inr rs"
    and out: "ac_Moves out = toProtoMoves rs" "ac_GameId out = req_GameId req" "uwrap32 (ac_Depth out) = ac_Depth out"
      "uwrap32 (ac_NoveltyPly out) = ac_NoveltyPly out"
    by (auto simp: Analyze_def Let_def andThen_Inr attachNovelty_def uwrap32_def split: if_splits prod.splits option.splits)
  note sp = moveReports_spec [OF mr len]
  have les: "length es = length (req_Uci req) + 1" using evaluateAll_length [OF ev] len by simp
  show "length (ac_Moves out) = length (req_Uci req)" using sp(1) les out(1) by (simp add: toProtoMoves_def)
  show "ma_Uci (ac_Moves out ! k) = req_Uci req ! k \<and> ma_Ply (ac_Moves out ! k) = uwrap32 (int k + 1)" if "k < length (req_Uci req)"
    using sp(1) [OF les] sp(2) [OF les that] that out(1) by (auto simp: toProtoMoves_def toProtoMove_def moveReport_def Let_def)
  show "ac_GameId out = req_GameId req" and "uwrap32 (ac_Depth out) = ac_Depth out"
    and "uwrap32 (ac_NoveltyPly out) = ac_NoveltyPly out" by (fact out)+
qed

section \<open>Properties\<close>

text \<open>
  A report reaches its reader as the worker computed it, however often it is delivered: saving the
  worker's report of a game and asking for it returns one verdict per move, in the order played and
  numbered from one, with the worker's moves, best moves and grades, the same depth and the
  same novelty; and saving it again leaves the tables as saving it only the second time would.
  (For games of fewer than \<open>2^31\<close> moves, with no verdict left over from a longer version.)
\<close>

theorem report_reaches_reader:
  assumes "Analyze w engine mexists maddFails t req = Inr (out, cmds)" and "length (req_Uci req) < 2 ^ 31"
    and "find_game db (req_GameId req) \<noteq> None" and "req_GameId req \<noteq> ''''" and "reports_ok rs"
    and "\<And>p v. ((req_GameId req, p), v) \<in> set (move_analysis rs) \<Longrightarrow> 1 \<le> p \<and> p \<le> int (length (req_Uci req))"
    and "env_up env 0" and "env_up env 1"
  shows "(\<exists>resp. GetAnalysis env (req_GameId req) (snd (SaveAnalysis pgReal True now out db rs)) = Inr resp \<and>
      map pv_Ply (ga_Moves resp) = map (\<lambda>k. int k + 1) [0..<length (req_Uci req)] \<and> map pv_Uci (ga_Moves resp) = req_Uci req \<and>
      map pv_BestUci (ga_Moves resp) = map ma_BestUci (ac_Moves out) \<and>
      map pv_Quality (ga_Moves resp) = map (qualityName \<circ> ma_Quality) (ac_Moves out) \<and>
      ga_Depth resp = ac_Depth out \<and> ga_NoveltyFen resp = ac_NoveltyFen out \<and>
      (ga_HasNovelty resp \<longrightarrow> ga_NoveltyPly resp = ac_NoveltyPly out) \<and> ga_AnalyzedAt resp = now) \<and>
    snd (SaveAnalysis pgReal True now' out db (snd (SaveAnalysis pgReal True now out db rs))) = snd (SaveAnalysis pgReal True now' out db rs)"
proof
  let ?n = "length (req_Uci req)" and ?g = "req_GameId req" and ?ms = "ac_Moves out"
  note r = Analyze_report [OF assms(1)]
  have w: "wrap32 (uwrap32 (int k + 1)) = int k + 1" if "k < ?n" for k using that assms(2) by (simp add: uwrap32_id wrap32_id)
  have plies: "map (\<lambda>m. wrap32 (ma_Ply m)) ?ms = map (\<lambda>k. int k + 1) [0..<?n]"
    using r(1,2) w by (intro nth_equalityI) simp_all
  have dist: "distinct (map (\<lambda>m. wrap32 (ma_Ply m)) ?ms)" unfolding plies by (simp add: distinct_map inj_on_def)
  have sorted: "sorted (map (\<lambda>m. wrap32 (ma_Ply m)) ?ms)" unfolding plies by (simp add: sorted_iff_nth_mono)
  have "p \<in> set (map (\<lambda>m. wrap32 (ma_Ply m)) ?ms)" if "((?g, p), v) \<in> set (move_analysis rs)" for p v
    using assms(6) [OF that] unfolding plies by (auto intro!: image_eqI [of _ _ "nat (p - 1)"])
  then have rows: "sort_key (\<lambda>x. snd (fst x)) (filter (\<lambda>x. fst (fst x) = ?g) (fold upsert (map (verdictRow ?g) ?ms) (move_analysis rs))) = map (verdictRow ?g) ?ms"
    by (intro saved_verdicts assms(5) dist sorted) simp
  have up: "uwrap32 (wrap32 (ma_Ply (?ms ! k))) = int k + 1" if "k < ?n" for k using r(2) [OF that] w [OF that] that assms(2) by (simp add: uwrap32_id)
  have found: "find_game db (ac_GameId out) \<noteq> None" using assms(3) r(3) by simp
  note save = SaveAnalysis_eq [OF found, unfolded r(3)]
  have "GetAnalysis env ?g (snd (SaveAnalysis pgReal True now out db rs)) = Inr \<lparr>ga_GameId = ?g, ga_Depth = ac_Depth out,
      ga_White = toSideAnalysis (sideRow pgReal (ac_White out)), ga_Black = toSideAnalysis (sideRow pgReal (ac_Black out)),
      ga_Moves = map (toProtoVerdict \<circ> snd \<circ> verdictRow ?g) ?ms, ga_NoveltyFen = ac_NoveltyFen out,
      ga_NoveltyPly = (if ac_NoveltyFen out \<noteq> '''' then ac_NoveltyPly out else 0),
      ga_HasNovelty = (ac_NoveltyFen out \<noteq> ''''), ga_AnalyzedAt = now\<rparr>"
    using assms(4,7,8) r(4,5) unfolding save
    by (simp add: GetAnalysis_def Store_GetAnalysis_def map_of_upsert rows analysisRow_def uwrap32_wrap32, simp add: uwrap32_def)
  then show "\<exists>resp. GetAnalysis env ?g (snd (SaveAnalysis pgReal True now out db rs)) = Inr resp \<and>
      map pv_Ply (ga_Moves resp) = map (\<lambda>k. int k + 1) [0..<?n] \<and> map pv_Uci (ga_Moves resp) = req_Uci req \<and>
      map pv_BestUci (ga_Moves resp) = map ma_BestUci ?ms \<and> map pv_Quality (ga_Moves resp) = map (qualityName \<circ> ma_Quality) ?ms \<and>
      ga_Depth resp = ac_Depth out \<and> ga_NoveltyFen resp = ac_NoveltyFen out \<and>
      (ga_HasNovelty resp \<longrightarrow> ga_NoveltyPly resp = ac_NoveltyPly out) \<and> ga_AnalyzedAt resp = now"
    using r(1,2) up by (auto simp: toProtoVerdict_def verdictRow_def intro!: nth_equalityI)
  show "snd (SaveAnalysis pgReal True now' out db (snd (SaveAnalysis pgReal True now out db rs))) = snd (SaveAnalysis pgReal True now' out db rs)"
    by (rule SaveAnalysis_again [OF found assms(5)]) (simp add: dist)
qed

definition noReports :: Reports where
  "noReports = \<lparr>game_analysis = [], move_analysis = []\<rparr>"

theorem report_reaches_reader_witness:
  "\<exists>(out :: AnalysisCompleted) (resp :: GetAnalysisResponse). GetAnalysis demoEnv ''g1'' (snd (SaveAnalysis id True 7 out demoGame noReports)) = Inr resp \<and> map pv_Uci (ga_Moves resp) = [''e2e4'']"
proof -
  let ?req = "exampleRequest\<lparr>req_GameId := ''g1''\<rparr>"
  have "\<exists>out cmds. Analyze (New_Worker True True 0) exampleEngine (\<lambda>_. None) False 0 ?req = Inr (out, cmds)"
    by (simp add: Analyze_def exampleRequest_def exampleEngine_def attachNovelty_def Let_def
        ParseFEN_FEN [OF fen_ok_startBoard] split: prod.splits)
  then obtain out cmds where a: "Analyze (New_Worker True True 0) exampleEngine (\<lambda>_. None) False 0 ?req = Inr (out, cmds)" by blast
  have "find_game demoGame ''g1'' \<noteq> None" by (simp add: find_game_def demoGame_def demoRow_def)
  moreover have "req_GameId ?req = ''g1''" "req_Uci ?req = [''e2e4'']" by (simp_all add: exampleRequest_def)
  moreover have "reports_ok noReports" "move_analysis noReports = []" by (simp_all add: noReports_def reports_ok_def)
  moreover have "env_up demoEnv n" for n by (simp add: demoEnv_def)
  ultimately obtain resp where "GetAnalysis demoEnv ''g1'' (snd (SaveAnalysis id True 7 out demoGame noReports)) = Inr resp" "map pv_Uci (ga_Moves resp) = [''e2e4'']"
    using report_reaches_reader [OF a, of demoGame noReports demoEnv id 7] by fastforce
  then show ?thesis by (intro exI [of _ out] exI [of _ resp]) simp
qed

text \<open>Consecutive pages of a list put together.\<close>

lemma pages_concat: "concat (map (\<lambda>i. take n (drop (i * n) xs)) [0..<k]) = take (k * n) xs"
proof (induction k)
  case (Suc k)
  have "take (k * n + n) xs = take (k * n) xs @ take n (drop (k * n) xs)" by (rule take_add)
  then show ?case using Suc by (simp add: add.commute)
qed simp

definition plays :: "string \<Rightarrow> GameRow \<Rightarrow> bool" where
  "plays uid g \<longleftrightarrow> g_white g = uid \<or> g_black g = Some uid"

text \<open>
  The history of a player is complete whatever the size of the pages: the pages of size \<open>n\<close> are
  consecutive pieces of one list, the newest game first, that holds each of the player's games
  once; the total on every page is its length, so a client that reads pages until the total is
  reached has seen every game once and in order.
\<close>

theorem history_pages_are_complete:
  assumes "env_up env 0" and "env_up env 1" and "uid \<noteq> ''''" and "1 \<le> n" and "n \<le> 100"
    and "\<forall>g \<in> set (games db). has_user db (g_white g)" and "length (games db) < 2 ^ 31"
  shows "\<exists>full. mset (map gs_Id full) = mset (map g_id (filter (plays uid) (games db))) \<and>
    sorted (map (\<lambda>s. - gs_StartedAt s) full) \<and>
    (\<forall>i. ListGames env uid (int n) (int (i * n)) db = Inr (take n (drop (i * n) full), int (length full))) \<and>
    (\<forall>k. length full \<le> k * n \<longrightarrow> concat (map (\<lambda>i. take n (drop (i * n) full)) [0..<k]) = full)"
proof -
  define mine where "mine = sort_key (\<lambda>g. - g_started_at g) (filter (plays uid) (games db))"
  define full where "full = map (toSummary \<circ> summaryRow db uid) mine"
  have join: "filter (\<lambda>g. (g_white g = uid \<or> g_black g = Some uid) \<and> has_user db (g_white g)) (games db) = filter (plays uid) (games db)"
    using assms(6) by (intro filter_cong) (auto simp: plays_def)
  have "length (filter (plays uid) (games db)) < 2 ^ 31" using length_filter_le assms(7) by (rule le_less_trans)
  then have total: "wrap32 (int (length (filter (plays uid) (games db)))) = int (length full)"
    using wrap32_id [of "int (length (filter (plays uid) (games db)))"] by (simp add: full_def mine_def)
  have page: "ListGames env uid (int n) (int (i * n)) db = Inr (take n (drop (i * n) full), int (length full))" for i
  proof -
    have "ListGamesForUser True uid (int n) (int (i * n)) db = Inr (map (summaryRow db uid) (take n (drop (i * n) mine)))"
      using assms(4,5) by (simp add: ListGamesForUser_def Let_def join mine_def del: of_nat_mult)
    moreover have "CountGamesForUser True uid db = Inr (int (length (filter (plays uid) (games db))))"
      by (simp add: CountGamesForUser_def plays_def [abs_def])
    ultimately show ?thesis using assms(1-3) total by (simp add: ListGames_def full_def take_map drop_map)
  qed
  have "map gs_Id full = map g_id mine" "map (\<lambda>s. - gs_StartedAt s) full = map (\<lambda>g. - g_started_at g) mine"
    by (simp_all add: full_def toSummary_def summaryRow_def)
  moreover have "sorted (map (\<lambda>g. - g_started_at g) mine)" unfolding mine_def by (rule sorted_sort_key)
  moreover have "mset (map g_id mine) = mset (map g_id (filter (plays uid) (games db)))" by (simp add: mine_def)
  ultimately show ?thesis using page by (intro exI [of _ full]) (simp add: pages_concat)
qed

theorem history_pages_are_complete_witness:
  "\<exists>s. ListGames demoEnv ''ann'' 10 0 demoGame = Inr ([s], 1) \<and> gs_Id s = ''g1''"
proof -
  have g: "games demoGame = [demoRow]" "plays ''ann'' demoRow" "g_id demoRow = ''g1''" by (simp_all add: demoGame_def plays_def demoRow_def)
  have h: "has_user demoGame (g_white demoRow)" by (simp add: demoGame_def has_user_def demoUsers_def demoUser_def demoRow_def)
  have e: "env_up demoEnv 0" "env_up demoEnv 1" by (simp_all add: demoEnv_def)
  obtain full where f: "mset (map gs_Id full) = {#''g1''#}" "\<forall>i. ListGames demoEnv ''ann'' (int 10) (int (i * 10)) demoGame = Inr (take 10 (drop (i * 10) full), int (length full))"
    using history_pages_are_complete [OF e, of "''ann''" 10 demoGame] g h by auto
  then have "map gs_Id full = [''g1'']" by (simp flip: mset_map)
  then obtain s where "full = [s]" "gs_Id s = ''g1''" by (auto simp: map_eq_Cons_conv)
  then show ?thesis using f(2) [rule_format, of 0] by simp
qed

end
