(* ===== verification/Kafka.thy ===== *)
theory Kafka
  imports Go_Strings "HOL-Library.Sublist"
begin

text \<open>
  The message queue (\<open>pkg/kafkax/kafkax.go\<close>): publishing, and the consumer loop that hands every
  record to a handler and commits.  The Kafka client (franz-go) is a pair of parameters, \<open>poll\<close> and
  \<open>commit\<close> on a client state; what the loop relies on are the documented laws of \<open>client_laws\<close>:
  a poll hands out the records that follow those handed out before, whether or not it also reports errors
  (a fetch covers several partitions), and a commit covers all that were handed out.  The handler is a state transformer that may fail.  Dialling and
  log lines are not modelled.
\<close>

section \<open>Producing\<close>

text \<open>
  \<open>None\<close> is the producer without brokers.  \<open>marshal\<close> is the protobuf encoding and \<open>produce\<close> the
  broker's acknowledgement; the result is the record that was sent, if any.
\<close>

datatype PublishError = MarshalFailed | ProduceFailed

definition Publish :: "(string \<times> string \<times> string \<Rightarrow> bool) option \<Rightarrow> ('m \<Rightarrow> string option) \<Rightarrow> string \<Rightarrow> string \<Rightarrow> 'm \<Rightarrow>
    PublishError option \<times> (string \<times> string \<times> string) option" where
  "Publish producer marshal topic key msg =
     (case producer of
        None \<Rightarrow> (None, None)
      | Some produce \<Rightarrow>
          (case marshal msg of
             None \<Rightarrow> (Some MarshalFailed, None)
           | Some payload \<Rightarrow>
               let rec = (topic, key, payload) in
               if produce rec then (None, Some rec) else (Some ProduceFailed, None)))"

section \<open>Consuming\<close>

text \<open>
  What a poll returns.  Every reply can hold records: the errors of a fetch are those of single partitions, and a
  poll that the context interrupts can have records already.
\<close>

datatype 'r PollReply = ClientClosed "'r list" | FetchErrors bool "'r list" | Fetched "'r list"

fun recordsOf :: "'r PollReply \<Rightarrow> 'r list" where
  "recordsOf (ClientClosed rs) = rs"
| "recordsOf (FetchErrors cancelled rs) = rs"
| "recordsOf (Fetched rs) = rs"

text \<open>The records of a reply that the loop passes over.\<close>

fun droppedBy :: "'r PollReply \<Rightarrow> 'r list" where
  "droppedBy (Fetched rs) = []"
| "droppedBy reply = recordsOf reply"

text \<open>The records of a batch, in order; every one is handled, also after a failure.\<close>

fun handleAll :: "('s \<Rightarrow> 'r \<Rightarrow> bool \<times> 's) \<Rightarrow> bool \<Rightarrow> 'r list \<Rightarrow> 's \<Rightarrow> bool \<times> 's" where
  "handleAll handle failed [] s = (failed, s)"
| "handleAll handle failed (r # rs) s =
     (case handle s r of (ok, s) \<Rightarrow> handleAll handle (failed \<or> \<not> ok) rs s)"

text \<open>
  The loop, for as many turns as the context lives.  \<open>ClientClosed\<close> is a closed client or an ended context, and
  \<open>FetchErrors True\<close> a cancelled fetch: both end it; after other fetch errors it pauses and polls again.
\<close>

fun Consumer_Run :: "('c \<Rightarrow> 'r PollReply \<times> 'c) \<Rightarrow> ('c \<Rightarrow> bool \<times> 'c) \<Rightarrow> ('s \<Rightarrow> 'r \<Rightarrow> bool \<times> 's) \<Rightarrow> nat \<Rightarrow> 'c \<Rightarrow> 's \<Rightarrow> 'c \<times> 's" where
  "Consumer_Run poll commit handle 0 c s = (c, s)"
| "Consumer_Run poll commit handle (Suc n) c s =
     (case poll c of
        (ClientClosed rs, c) \<Rightarrow> (c, s)
      | (FetchErrors cancelled rs, c) \<Rightarrow> if cancelled then (c, s) else Consumer_Run poll commit handle n c s
      | (Fetched rs, c) \<Rightarrow>
          (case handleAll handle False rs s of
             (failed, s) \<Rightarrow> Consumer_Run poll commit handle n (if failed then c else snd (commit c)) s))"

section \<open>Broker lists\<close>

text \<open>The loop over the characters, with the part read so far.\<close>

definition trimBlank :: "string \<Rightarrow> string" where
  "trimBlank s =
     (let blank = (\<lambda>c. c = CHR '' '' \<or> c = CHR 0x09) in rev (dropWhile blank (rev (dropWhile blank s))))"

fun splitLoop :: "string \<Rightarrow> string \<Rightarrow> string list \<Rightarrow> string list" where
  "splitLoop part [] out = (if trimBlank part \<noteq> '''' then out @ [trimBlank part] else out)"
| "splitLoop part (c # cs) out =
     (if c = CHR '','' then splitLoop '''' cs (if trimBlank part \<noteq> '''' then out @ [trimBlank part] else out)
      else splitLoop (part @ [c]) cs out)"

definition splitBrokers :: "string \<Rightarrow> string list" where
  "splitBrokers s = splitLoop '''' s []"

section \<open>Topics\<close>

definition TopicGameFinished :: string where "TopicGameFinished = ''game-finished''"
definition TopicAnalysisRequested :: string where "TopicAnalysisRequested = ''analysis-requested''"
definition TopicAnalysisCompleted :: string where "TopicAnalysisCompleted = ''analysis-completed''"
definition defaultPartitions :: int where "defaultPartitions = 6"

text \<open>
  The reply to one topic of a request, and the errors.  \<open>connect\<close> makes a client for a list of
  brokers, and \<open>createTopics\<close> sends the request (partitions, replicas, topics).
\<close>

datatype TopicReply = TopicCreated | TopicAlreadyExists | TopicRefused

datatype TopicError = AdminFailed | CreateFailed | CreateTopicFailed string

fun checkTopics :: "(string \<times> TopicReply) list \<Rightarrow> TopicError + unit" where
  "checkTopics [] = Inr ()"
| "checkTopics ((t, TopicRefused) # resp) = Inl (CreateTopicFailed t)"
| "checkTopics ((t, _) # resp) = checkTopics resp"

definition EnsureTopics :: "(string list \<Rightarrow> 'c option) \<Rightarrow> ('c \<Rightarrow> int \<Rightarrow> int \<Rightarrow> string list \<Rightarrow> (string \<times> TopicReply) list option) \<Rightarrow>
    string \<Rightarrow> TopicError + unit" where
  "EnsureTopics connect createTopics brokers =
     (if brokers = '''' then Inr ()
      else case connect (splitBrokers brokers) of
          None \<Rightarrow> Inl AdminFailed
        | Some client \<Rightarrow>
            (case createTopics client defaultPartitions 1 [TopicGameFinished, TopicAnalysisRequested, TopicAnalysisCompleted] of
               None \<Rightarrow> Inl CreateFailed
             | Some resp \<Rightarrow> checkTopics resp))"

lemma checkTopics_ok: "checkTopics resp = Inr () \<longleftrightarrow> (\<forall>t r. (t, r) \<in> set resp \<longrightarrow> r \<noteq> TopicRefused)"
  by (induction resp rule: checkTopics.induct) auto

text \<open>Starting again, with every topic in place, succeeds.\<close>

lemma EnsureTopics_idempotent:
  assumes "connect (splitBrokers brokers) = Some c" "createTopics c defaultPartitions 1 [TopicGameFinished, TopicAnalysisRequested, TopicAnalysisCompleted] = Some resp"
    and "\<forall>t r. (t, r) \<in> set resp \<longrightarrow> r = TopicAlreadyExists"
  shows "EnsureTopics connect createTopics brokers = Inr ()"
  using assms by (auto simp: EnsureTopics_def checkTopics_ok)

lemma splitLoop_spec:
  "splitLoop part s out = out @ filter (\<lambda>p. p \<noteq> '''') (map trimBlank ((part @ hd (Split s (CHR '',''))) # tl (Split s (CHR '',''))))"
  by (induction part s out rule: splitLoop.induct) (auto split: list.splits)

lemma splitBrokers_spec: "splitBrokers s = filter (\<lambda>p. p \<noteq> '''') (map trimBlank (Split s (CHR '','')))"
  using splitLoop_spec [of "''''" s "[]"] by (cases "Split s (CHR '','')") (simp_all add: splitBrokers_def)

section \<open>Delivery\<close>

text \<open>\<open>polled\<close>: the records handed out so far; \<open>committed\<close>: how many of them a restart would skip.\<close>

definition client_laws :: "('c \<Rightarrow> 'r PollReply \<times> 'c) \<Rightarrow> ('c \<Rightarrow> bool \<times> 'c) \<Rightarrow> ('c \<Rightarrow> 'r list) \<Rightarrow> ('c \<Rightarrow> nat) \<Rightarrow> bool" where
  "client_laws poll commit polled committed \<longleftrightarrow>
     (\<forall>c. polled (snd (poll c)) = polled c @ recordsOf (fst (poll c)) \<and> committed (snd (poll c)) = committed c) \<and>
     (\<forall>c. polled (snd (commit c)) = polled c \<and> committed (snd (commit c)) = (if fst (commit c) then length (polled c) else committed c))"

text \<open>The handler with a journal of what it was given and whether it succeeded.\<close>

definition journal :: "('s \<Rightarrow> 'r \<Rightarrow> bool \<times> 's) \<Rightarrow> ('r \<times> bool) list \<times> 's \<Rightarrow> 'r \<Rightarrow> bool \<times> ('r \<times> bool) list \<times> 's" where
  "journal handle j r = (case handle (snd j) r of (ok, s) \<Rightarrow> (ok, fst j @ [(r, ok)], s))"

lemma journal_step: "journal handle (j, s) r = (case handle s r of (ok, t) \<Rightarrow> (ok, j @ [(r, ok)], t))"
  by (simp add: journal_def)

lemma handleAll_journal:
  assumes "handleAll (journal handle) failed rs (j, s) = (failed', j', s')"
  shows "\<exists>new. j' = j @ new \<and> map fst new = rs \<and> (failed' \<longleftrightarrow> failed \<or> (\<exists>x \<in> set new. \<not> snd x))"
  using assms
proof (induction rs arbitrary: failed j s)
  case (Cons r rs)
  obtain ok t where h: "handle s r = (ok, t)" by fastforce
  have "handleAll (journal handle) (failed \<or> \<not> ok) rs (j @ [(r, ok)], t) = (failed', j', s')"
    using Cons.prems by (simp add: journal_step h)
  from Cons.IH [OF this] obtain new where "j' = (j @ [(r, ok)]) @ new" "map fst new = rs"
    "failed' \<longleftrightarrow> (failed \<or> \<not> ok) \<or> (\<exists>x \<in> set new. \<not> snd x)" by blast
  then show ?case by (intro exI [of _ "(r, ok) # new"]) auto
qed simp

definition clean_polls :: "('c \<Rightarrow> 'r PollReply \<times> 'c) \<Rightarrow> bool" where
  "clean_polls poll \<longleftrightarrow> (\<forall>c. droppedBy (fst (poll c)) = [])"

text \<open>The journal against what was handed out: nothing else, in order, and everything when no reply drops records.\<close>

definition given :: "('c \<Rightarrow> 'r PollReply \<times> 'c) \<Rightarrow> ('r \<times> bool) list \<Rightarrow> 'r list \<Rightarrow> bool" where
  "given poll j rs \<longleftrightarrow> subseq (map fst j) rs \<and> (clean_polls poll \<longrightarrow> map fst j = rs)"

lemma given_dropped:
  assumes "given poll j rs" and "droppedBy (fst (poll c)) = recordsOf (fst (poll c))"
  shows "given poll j (rs @ recordsOf (fst (poll c)))"
proof -
  have "subseq (map fst j @ []) (rs @ recordsOf (fst (poll c)))" by (rule list_emb_append_mono) (use assms in \<open>simp_all add: given_def\<close>)
  then show ?thesis using assms by (auto simp: given_def clean_polls_def)
qed

lemma given_handled: "given poll j rs \<Longrightarrow> given poll (j @ new) (rs @ map fst new)"
  by (auto simp: given_def intro: list_emb_append_mono)

lemma Run_journal:
  assumes "client_laws poll commit polled committed"
    and "Consumer_Run poll commit (journal handle) n c (j, s) = (c', j', s')"
    and "given poll j (polled c)" and "committed c \<le> length (polled c)"
  shows "given poll j' (polled c') \<and> committed c' \<le> length (polled c')"
  using assms(2-4)
proof (induction n arbitrary: c j s)
  case (Suc n)
  obtain p c1 where p: "poll c = (p, c1)" by fastforce
  have law: "polled c1 = polled c @ recordsOf p" "committed c1 = committed c"
    using assms(1) p unfolding client_laws_def by (metis fst_conv snd_conv)+
  have skip: "given poll j (polled c1)" if "droppedBy p = recordsOf p"
    using given_dropped [OF Suc.prems(2), of c] that law(1) by (simp add: p)
  show ?case
  proof (cases p)
    case (Fetched rs)
    obtain failed j1 s1 where h: "handleAll (journal handle) False rs (j, s) = (failed, j1, s1)" by (metis prod_cases3)
    let ?c2 = "if failed then c1 else snd (commit c1)"
    have run: "Consumer_Run poll commit (journal handle) n ?c2 (j1, s1) = (c', j', s')" using Suc.prems(1) by (simp add: p Fetched h)
    have c2: "polled ?c2 = polled c1" "committed ?c2 \<le> length (polled c1)"
      using assms(1) law Suc.prems(3) unfolding client_laws_def by (auto split: if_splits)
    obtain new where "j1 = j @ new" "map fst new = rs" using handleAll_journal [OF h] by blast
    then have "given poll j1 (polled ?c2)" using c2(1) law(1) given_handled [OF Suc.prems(2), of new] Fetched by simp
    from Suc.IH [OF run this] show ?thesis using c2 by simp
  next
    case (ClientClosed rs)
    then show ?thesis using Suc.prems law skip by (simp add: p)
  next
    case (FetchErrors cancelled rs)
    then show ?thesis using Suc.prems law Suc.IH [of c1 j s] skip by (cases cancelled) (simp_all add: p)
  qed
qed simp

lemma fresh_given [simp]: "given poll [] []"
  by (simp add: given_def)

lemma given_length: "given poll j rs \<Longrightarrow> length j \<le> length rs"
  unfolding given_def by (metis length_map list_emb_length)

text \<open>What every call of the handler keeps, the loop keeps.\<close>

lemma handleAll_keeps:
  assumes "\<And>s r. I s \<Longrightarrow> I (snd (handle s r))"
  shows "I s \<Longrightarrow> I (snd (handleAll handle failed rs s))"
proof (induction rs arbitrary: failed s)
  case (Cons r rs)
  obtain ok t where h: "handle s r = (ok, t)" by fastforce
  then have "I t" using assms [OF Cons.prems, of r] by simp
  then show ?case using Cons.IH by (simp add: h)
qed simp

lemma Run_keeps:
  assumes "\<And>s r. I s \<Longrightarrow> I (snd (handle s r))"
  shows "I s \<Longrightarrow> I (snd (Consumer_Run poll commit handle n c s))"
proof (induction n arbitrary: c s)
  case (Suc n)
  obtain p c1 where p: "poll c = (p, c1)" by fastforce
  show ?case
  proof (cases p)
    case (Fetched rs)
    obtain failed t where h: "handleAll handle False rs s = (failed, t)" by fastforce
    then have "I t" using handleAll_keeps [of I handle s False rs, OF assms Suc.prems] by simp
    then show ?thesis using Suc.IH by (simp add: p Fetched h)
  qed (use Suc p in auto)
qed simp

section \<open>Properties\<close>

text \<open>
  The consumer delivers in order, and at least once as long as nothing fails: from a fresh client, after any number of turns and
  whatever fails, the handler has been given records that were handed out, each once and in order, and no more are
  committed than were handed out.  If no poll returned records together with errors, these are all of them; and if no handler
  call failed either, every committed record was processed.
\<close>

theorem commits_only_what_was_handled:
  assumes "client_laws poll commit polled committed" and "polled c = []" and "committed c = 0"
    and "Consumer_Run poll commit (journal handle) n c ([], s) = (c', j, s')"
  shows "subseq (map fst j) (polled c') \<and> committed c' \<le> length (polled c') \<and> (clean_polls poll \<longrightarrow> map fst j = polled c') \<and>
    (clean_polls poll \<and> (\<forall>x \<in> set j. snd x) \<longrightarrow> (\<forall>i < committed c'. (polled c' ! i, True) \<in> set j))"
proof -
  have m: "given poll j (polled c')" "committed c' \<le> length (polled c')" using Run_journal [OF assms(1,4)] assms(2,3) by simp_all
  have "(polled c' ! i, True) \<in> set j" if "map fst j = polled c'" "\<forall>x \<in> set j. snd x" "i < committed c'" for i
  proof -
    have "i < length j" using that(1,3) m(2) by (metis le_trans length_map less_le_not_le nat_less_le not_le)
    then have "j ! i \<in> set j" "fst (j ! i) = polled c' ! i" using nth_map [of i j fst] that(1) by simp_all
    then show ?thesis using that(2) by (metis (full_types) prod.collapse)
  qed
  then show ?thesis using m by (auto simp: given_def)
qed

text \<open>
  A failed record is lost when the next batch is clean: with one batch whose record the handler
  refuses and a later batch that it accepts, the commit after the second covers the first, which
  is never delivered again although its handler failed.
\<close>

theorem failed_record_is_committed:
  assumes "client_laws poll commit polled committed" and "polled c = []"
    and "poll c = (Fetched [r1], c1)" and "poll c1 = (Fetched [r2], c2)" and "fst (commit c2)"
    and "\<And>s. fst (handle s r1) = False" and "\<And>s. fst (handle s r2) = True"
  shows "committed (fst (Consumer_Run poll commit handle 2 c s)) = 2 \<and> polled (fst (Consumer_Run poll commit handle 2 c s)) = [r1, r2]"
proof -
  obtain s1 where h1: "handle s r1 = (False, s1)" using assms(6) [of s] by (cases "handle s r1") auto
  obtain s2 where h2: "handle s1 r2 = (True, s2)" using assms(7) [of s1] by (cases "handle s1 r2") auto
  have law: "polled (snd (poll x)) = polled x @ recordsOf (fst (poll x))" for x
    using assms(1) unfolding client_laws_def by blast
  have "polled c2 = [r1, r2]" using law [of c] law [of c1] assms(2-4) by simp
  moreover have "fst (Consumer_Run poll commit handle 2 c s) = snd (commit c2)"
    by (simp add: numeral_2_eq_2 assms(3,4) h1 h2)
  ultimately show ?thesis using assms(1,5) unfolding client_laws_def by simp
qed

text \<open>
  Records are lost with the errors of another partition: when a fetch holds the records of one
  partition and the error of another, the loop passes over the records, and the commit after the next clean batch
  covers them: they were never given to the handler and are never delivered again.
\<close>

theorem fetch_error_loses_records:
  assumes "client_laws poll commit polled committed" and "polled c = []"
    and "poll c = (FetchErrors False lost, c1)" and "poll c1 = (Fetched [r], c2)" and "fst (commit c2)"
    and "\<And>s. fst (handle s r) = True"
  shows "\<exists>c' s'. Consumer_Run poll commit (journal handle) 2 c ([], s) = (c', [(r, True)], s') \<and>
    polled c' = lost @ [r] \<and> committed c' = length lost + 1"
proof -
  obtain t where h: "handle s r = (True, t)" using assms(6) [of s] by (cases "handle s r") auto
  have law: "polled (snd (poll x)) = polled x @ recordsOf (fst (poll x))" for x
    using assms(1) unfolding client_laws_def by blast
  have "polled c2 = lost @ [r]" using law [of c] law [of c1] assms(2-4) by simp
  moreover have "Consumer_Run poll commit (journal handle) 2 c ([], s) = (snd (commit c2), [(r, True)], t)"
    by (simp add: numeral_2_eq_2 assms(3,4) journal_step h)
  ultimately show ?thesis using assms(1,5) unfolding client_laws_def by simp
qed

section \<open>Instances\<close>

text \<open>A client of one partition that hands out one record per poll.\<close>

definition onePoll :: "string list \<Rightarrow> nat \<times> nat \<Rightarrow> string PollReply \<times> nat \<times> nat" where
  "onePoll log c = (if fst c < length log then (Fetched [log ! fst c], (Suc (fst c), snd c)) else (Fetched [], c))"

definition oneCommit :: "nat \<times> nat \<Rightarrow> bool \<times> nat \<times> nat" where
  "oneCommit c = (True, (fst c, fst c))"

lemma one_laws: "client_laws (onePoll log) oneCommit (\<lambda>c. take (fst c) log) (\<lambda>c. min (snd c) (length log))"
  by (auto simp: client_laws_def onePoll_def oneCommit_def take_Suc_conv_app_nth)

lemma one_clean: "clean_polls (onePoll log)"
  by (simp add: clean_polls_def onePoll_def)

text \<open>The same client, whose first fetch also reports an error.\<close>

definition errPoll :: "string list \<Rightarrow> nat \<times> nat \<Rightarrow> string PollReply \<times> nat \<times> nat" where
  "errPoll log c = (case onePoll log c of (Fetched rs, c') \<Rightarrow> (if fst c = 0 then FetchErrors False rs else Fetched rs, c') | r \<Rightarrow> r)"

lemma err_laws: "client_laws (errPoll log) oneCommit (\<lambda>c. take (fst c) log) (\<lambda>c. min (snd c) (length log))"
  by (auto simp: client_laws_def errPoll_def onePoll_def oneCommit_def take_Suc_conv_app_nth)

theorem commits_only_what_was_handled_witness:
  "\<exists>j c' s'. Consumer_Run (onePoll [''a'', ''b'']) oneCommit (journal (\<lambda>s r. (r \<noteq> ''a'', s))) 2 (0, 0) ([], ()) = (c', j, s') \<and>
     map fst j = [''a'', ''b'']"
proof -
  obtain c' j s' where r: "Consumer_Run (onePoll [''a'', ''b'']) oneCommit (journal (\<lambda>s r. (r \<noteq> ''a'', s))) 2 (0, 0) ([], ()) = (c', j, s')"
    by (metis prod_cases3)
  have "c' = (2, 2)" using r by (simp add: numeral_2_eq_2 onePoll_def oneCommit_def journal_step)
  then show ?thesis using r commits_only_what_was_handled [OF one_laws _ _ r] one_clean by simp
qed

theorem failed_record_is_committed_witness:
  "min (snd (fst (Consumer_Run (onePoll [''a'', ''b'']) oneCommit (\<lambda>s r. (r \<noteq> ''a'', s)) 2 (0, 0) ()))) 2 = 2"
proof -
  have "min (snd (fst (Consumer_Run (onePoll [''a'', ''b'']) oneCommit (\<lambda>s r. (r \<noteq> ''a'', s)) 2 (0, 0) ()))) (length [''a'', ''b'']) = 2"
    using failed_record_is_committed [OF one_laws, of "(0, 0)" "[''a'', ''b'']" "''a''" "(1, 0)" "''b''" "(2, 0)" "\<lambda>s r. (r \<noteq> ''a'', s)" "()"]
    by (simp add: onePoll_def oneCommit_def)
  then show ?thesis by simp
qed

theorem fetch_error_loses_records_witness:
  "\<exists>c' s'. Consumer_Run (errPoll [''a'', ''b'']) oneCommit (journal (\<lambda>s r. (True, s))) 2 (0, 0) ([], ()) = (c', [(''b'', True)], s') \<and>
     min (snd c') 2 = 2"
  using fetch_error_loses_records [OF err_laws, of "(0, 0)" "[''a'', ''b'']" "[''a'']" "(1, 0)" "''b''" "(2, 0)" "\<lambda>s r. (True, s)" "()"]
  by (auto simp: errPoll_def onePoll_def oneCommit_def)

end
