(* ===== verification/Analysis_Pipeline.thy ===== *)
theory Analysis_Pipeline
  imports Game_History Kafka
begin

text \<open>
  The analysis queue end to end (\<open>services/analysis-worker/main.go\<close>): a request is taken from Kafka,
  analysed by the worker, stored, archived and announced.  The state is what a delivery can change:
  the report tables, the keys added to the novelty filter, the points of the fair-play series, the
  archive and the announcements.  A delivery's circumstances (the clock, the engine, which of the
  stores answer) are an argument.  \<open>bloom\<close> is the filter's answer for a key given the added keys;
  what is relied on is that it has no false negatives.
\<close>

section \<open>Handling one request\<close>

record PipelineState =
  pp_reports :: Reports
  pp_filter :: "string list"
  pp_series :: "(string \<times> int \<times> real) list"
  pp_archive :: "(string \<times> AnalysisCompleted) list"
  pp_announced :: "(string \<times> string \<times> string) list"

record Delivery =
  dv_now :: int
  dv_engine :: engine
  dv_filterUp :: bool
  dv_addFails :: bool
  dv_seriesUp :: bool
  dv_saveUp :: bool
  dv_objects :: "bool option"
  dv_produce :: "(string \<times> string \<times> string \<Rightarrow> bool) option"

text \<open>The formats: requests and completions in protobuf, the report as JSON.\<close>

record Formats =
  fm_request :: "string \<Rightarrow> AnalysisRequested option"
  fm_completed :: "AnalysisCompleted \<Rightarrow> string option"
  fm_json :: "AnalysisCompleted \<Rightarrow> string option"
  fm_real :: "real \<Rightarrow> real"

text \<open>What the worker's Redis commands change, when the filter and the series take them.\<close>

fun redisEffect :: "bool \<Rightarrow> bool \<Rightarrow> RedisCmd \<Rightarrow> PipelineState \<Rightarrow> PipelineState" where
  "redisEffect addFails seriesUp (BfMAdd f keys) st = (if addFails then st else st\<lparr>pp_filter := pp_filter st @ keys\<rparr>)"
| "redisEffect addFails seriesUp (TsAdd key t v) st = (if seriesUp then st\<lparr>pp_series := pp_series st @ [(key, t, v)]\<rparr> else st)"
| "redisEffect addFails seriesUp _ st = st"

definition archiveAnalysis :: "bool option \<Rightarrow> (AnalysisCompleted \<Rightarrow> string option) \<Rightarrow> AnalysisCompleted \<Rightarrow> PipelineState \<Rightarrow> PipelineState" where
  "archiveAnalysis objects json report st =
     (case objects of
        None \<Rightarrow> st
      | Some putOk \<Rightarrow>
          (case json report of
             None \<Rightarrow> st
           | Some blob \<Rightarrow> if putOk then st\<lparr>pp_archive := pp_archive st @ [(ac_GameId report @ ''.json'', report)]\<rparr> else st))"

definition announce :: "(string \<times> string \<times> string \<Rightarrow> bool) option \<Rightarrow> (AnalysisCompleted \<Rightarrow> string option) \<Rightarrow> AnalysisCompleted \<Rightarrow>
    PipelineState \<Rightarrow> PipelineState" where
  "announce producer marshal report st =
     (case Publish producer marshal TopicAnalysisCompleted (ac_GameId report) report of
        (None, Some rec) \<Rightarrow> st\<lparr>pp_announced := pp_announced st @ [rec]\<rparr>
      | _ \<Rightarrow> st)"

text \<open>The worker's analysis in the circumstances of a delivery.\<close>

definition runWorker :: "Worker \<Rightarrow> (string list \<Rightarrow> string \<Rightarrow> bool) \<Rightarrow> Delivery \<Rightarrow> PipelineState \<Rightarrow> AnalysisRequested \<Rightarrow>
    WorkerError + (AnalysisCompleted \<times> RedisCmd list)" where
  "runWorker w bloom dv st req =
     Analyze w (dv_engine dv) (\<lambda>keys. if dv_filterUp dv then Some (map (\<lambda>k. RBool (bloom (pp_filter st) k)) keys) else None)
       (dv_addFails dv) (dv_now dv) req"

text \<open>The handler: whether it returns without an error, and the state.\<close>

definition handleRequest :: "Worker \<Rightarrow> Formats \<Rightarrow> (string list \<Rightarrow> string \<Rightarrow> bool) \<Rightarrow> DB \<Rightarrow> Delivery \<Rightarrow> PipelineState \<Rightarrow> string \<Rightarrow> bool \<times> PipelineState" where
  "handleRequest w fm bloom db dv st record =
     (case fm_request fm record of
        None \<Rightarrow> (True, st)
      | Some req \<Rightarrow>
          (case runWorker w bloom dv st req of
             Inl e \<Rightarrow> (False, st)
           | Inr (report, cmds) \<Rightarrow>
               let st = fold (redisEffect (dv_addFails dv) (dv_seriesUp dv)) cmds st in
               (case SaveAnalysis (fm_real fm) (dv_saveUp dv) (dv_now dv) report db (pp_reports st) of
                  (Inl e, rs) \<Rightarrow> (False, st\<lparr>pp_reports := rs\<rparr>)
                | (Inr _, rs) \<Rightarrow>
                    (True, announce (dv_produce dv) (fm_completed fm) report
                             (archiveAnalysis (dv_objects dv) (fm_json fm) report (st\<lparr>pp_reports := rs\<rparr>))))))"

text \<open>The handler over a run: the \<open>n\<close>-th delivery has the circumstances \<open>world n\<close>.\<close>

definition deliver_next :: "Worker \<Rightarrow> Formats \<Rightarrow> (string list \<Rightarrow> string \<Rightarrow> bool) \<Rightarrow> DB \<Rightarrow> (nat \<Rightarrow> Delivery) \<Rightarrow>
    nat \<times> PipelineState \<Rightarrow> string \<Rightarrow> bool \<times> nat \<times> PipelineState" where
  "deliver_next w fm bloom db world s record =
     (case handleRequest w fm bloom db (world (fst s)) (snd s) record of (ok, st) \<Rightarrow> (ok, fst s + 1, st))"

section \<open>Reports are kept\<close>

definition reported :: "string \<Rightarrow> PipelineState \<Rightarrow> bool" where
  "reported gid st \<longleftrightarrow> map_of (game_analysis (pp_reports st)) gid \<noteq> None"

lemma redisEffect_reports [simp]: "pp_reports (redisEffect a b c st) = pp_reports st"
  by (cases c) simp_all

lemma fold_redis_reports [simp]: "pp_reports (fold (redisEffect a b) cmds st) = pp_reports st"
  by (induction cmds arbitrary: st) simp_all

lemma archive_reports [simp]: "pp_reports (archiveAnalysis ob js r st) = pp_reports st"
  by (simp add: archiveAnalysis_def split: option.splits)

lemma announce_reports [simp]: "pp_reports (announce p m r st) = pp_reports st"
  by (simp add: announce_def split: option.splits prod.splits)

lemma SaveAnalysis_reported:
  assumes "SaveAnalysis f up now r db rs = (res, rs')"
  shows "map_of (game_analysis rs) gid \<noteq> None \<Longrightarrow> map_of (game_analysis rs') gid \<noteq> None"
    and "res = Inr () \<Longrightarrow> map_of (game_analysis rs') (ac_GameId r) \<noteq> None"
    and "res \<noteq> Inr () \<Longrightarrow> rs' = rs"
  using assms by (auto simp: SaveAnalysis_def map_of_upsert split: if_splits)


lemma handleRequest_reports:
  assumes "handleRequest w fm bloom db dv st record = (ok, st')"
  shows "reported gid st \<Longrightarrow> reported gid st'"
    and "ok \<Longrightarrow> fm_request fm record = Some req \<Longrightarrow> reported (req_GameId req) st'"
    and "\<not> ok \<Longrightarrow> pp_reports st' = pp_reports st"
proof -
  have "(reported gid st \<longrightarrow> reported gid st') \<and> (ok \<and> fm_request fm record = Some req \<longrightarrow> reported (req_GameId req) st') \<and>
      (\<not> ok \<longrightarrow> pp_reports st' = pp_reports st)"
  proof (cases "fm_request fm record")
    case None
    then show ?thesis using assms by (simp add: handleRequest_def)
  next
    case (Some q)
    show ?thesis
    proof (cases "runWorker w bloom dv st q")
      case (Inl e)
      then show ?thesis using assms Some by (simp add: handleRequest_def)
    next
      case (Inr p)
      obtain report cmds where p: "p = (report, cmds)" by fastforce
      obtain res rs where sv: "SaveAnalysis (fm_real fm) (dv_saveUp dv) (dv_now dv) report db (pp_reports st) = (res, rs)" by fastforce
      note s = SaveAnalysis_reported [OF sv] and g = Analyze_report(3) [OF Inr [unfolded p runWorker_def]]
      have eq: "pp_reports st' = rs" "ok \<longleftrightarrow> res = Inr ()"
        using assms by (auto simp: handleRequest_def Some Inr p sv Let_def split: sum.splits)
      show ?thesis unfolding reported_def eq using s g Some by auto
    qed
  qed
  then show "reported gid st \<Longrightarrow> reported gid st'" "ok \<Longrightarrow> fm_request fm record = Some req \<Longrightarrow> reported (req_GameId req) st'"
    "\<not> ok \<Longrightarrow> pp_reports st' = pp_reports st" by blast+
qed

text \<open>Every acknowledged request in the journal has its report.\<close>

definition journal_ok :: "Formats \<Rightarrow> (string \<times> bool) list \<times> nat \<times> PipelineState \<Rightarrow> bool" where
  "journal_ok fm s \<longleftrightarrow> (\<forall>(record, ok) \<in> set (fst s). ok \<longrightarrow> (\<forall>req. fm_request fm record = Some req \<longrightarrow> reported (req_GameId req) (snd (snd s))))"

lemma journal_ok_step:
  assumes "journal_ok fm s"
  shows "journal_ok fm (snd (journal (deliver_next w fm bloom db world) s record))"
proof -
  obtain j k st where s: "s = (j, k, st)" by (metis prod_cases3)
  obtain ok st' where h: "handleRequest w fm bloom db (world k) st record = (ok, st')" by fastforce
  note r = handleRequest_reports [OF h]
  have "snd (journal (deliver_next w fm bloom db world) s record) = (j @ [(record, ok)], k + 1, st')"
    by (simp add: s journal_step deliver_next_def h)
  then show ?thesis using assms r(1,2) by (auto simp: journal_ok_def s)
qed

section \<open>Retrying\<close>

text \<open>The report before the novelty is attached.\<close>

definition draft :: "Worker \<Rightarrow> AnalysisRequested \<Rightarrow> MoveReport list \<Rightarrow> AnalysisCompleted" where
  "draft w req reports =
     \<lparr>ac_GameId = req_GameId req, ac_Depth = uwrap32 (if req_Depth req \<le> 0 then wk_depth w else req_Depth req),
      ac_Moves = toProtoMoves reports, ac_White = toProtoReport (req_WhiteId req) (Summarise reports True),
      ac_Black = toProtoReport (req_BlackId req) (Summarise reports False), ac_NoveltyFen = '''', ac_NoveltyPly = 0\<rparr>"

definition analysable :: "Worker \<Rightarrow> engine \<Rightarrow> AnalysisRequested \<Rightarrow> MoveReport list \<Rightarrow> bool" where
  "analysable w eng req reports \<longleftrightarrow>
     \<not> length (req_FenHistory req) < 2 \<and> req_Uci req \<noteq> [] \<and> length (req_FenHistory req) = length (req_Uci req) + 1 \<and>
     (\<exists>evals. evaluateAll eng (if req_Depth req \<le> 0 then wk_depth w else req_Depth req) 0 (req_FenHistory req) = Inr evals \<and>
        moveReports 0 (req_Uci req) (req_FenHistory req) evals = Inr reports)"

lemma Analyze_iff:
  "Analyze w eng mex fails now req = Inr (out, cmds) \<longleftrightarrow>
     (\<exists>reports. analysable w eng req reports \<and> out = fst (attachNovelty w mex fails (draft w req reports) (req_FenHistory req)) \<and>
        cmds = snd (attachNovelty w mex fails (draft w req reports) (req_FenHistory req)) @
               recordFairPlay w now req (Summarise reports True) (Summarise reports False))"
proof -
  let ?d = "if req_Depth req \<le> 0 then wk_depth w else req_Depth req" and ?fens = "req_FenHistory req"
  have "Analyze w eng mex fails now req = Inr (out, cmds) \<longleftrightarrow> \<not> length ?fens < 2 \<and> req_Uci req \<noteq> [] \<and> length ?fens = length (req_Uci req) + 1 \<and>
      andThen (evaluateAll eng ?d 0 ?fens) (\<lambda>evals. andThen (moveReports 0 (req_Uci req) ?fens evals)
        (\<lambda>reports. Inr (fst (attachNovelty w mex fails (draft w req reports) ?fens),
           snd (attachNovelty w mex fails (draft w req reports) ?fens) @ recordFairPlay w now req (Summarise reports True) (Summarise reports False)))) =
      Inr (out, cmds)"
    by (auto simp: Analyze_def Let_def draft_def case_prod_beta)
  then show ?thesis by (auto simp: analysable_def andThen_Inr)
qed

text \<open>Whether a game can be analysed does not depend on the filter, and with every key known there is no novelty.\<close>

lemma Analyze_again:
  assumes "Analyze w eng mex fails now req = Inr (out, cmds)"
  shows "\<exists>out' cmds'. Analyze w eng mex' fails' now' req = Inr (out', cmds')"
  using assms unfolding Analyze_iff by blast

lemma Analyze_known:
  assumes "Analyze w eng (\<lambda>keys. Some (map (\<lambda>k. RBool (known k)) keys)) fails now req = Inr (out, cmds)"
    and "\<And>f. f \<in> set (req_FenHistory req) \<Longrightarrow> known (positionKey f)"
  shows "ac_NoveltyFen out = ''''"
proof -
  let ?fens = "req_FenHistory req"
  have "fst (FirstNovelty e (\<lambda>keys. Some (map (\<lambda>k. RBool (known k)) keys)) ?fens) = None" for e
    using assms(2) by (auto simp: FirstNovelty_def Let_def firstAbsent_None list_all_iff)
  then have "fst (attachNovelty w (\<lambda>keys. Some (map (\<lambda>k. RBool (known k)) keys)) fails o1 ?fens) = o1" for o1
    by (simp add: attachNovelty_def case_prod_beta)
  then show ?thesis using assms(1) by (auto simp: Analyze_iff draft_def)
qed

lemma redis_filter:
  "set (pp_filter st) \<subseteq> set (pp_filter (fold (redisEffect False b) cmds st))"
  "BfMAdd f keys \<in> set cmds \<Longrightarrow> set keys \<subseteq> set (pp_filter (fold (redisEffect False b) cmds st))"
proof -
  have mono: "set (pp_filter st) \<subseteq> set (pp_filter (fold (redisEffect False b) cmds st))" for st cmds
  proof (induction cmds arbitrary: st)
    case (Cons c cmds)
    have "set (pp_filter st) \<subseteq> set (pp_filter (redisEffect False b c st))" by (cases c) auto
    then show ?case using Cons.IH [of "redisEffect False b c st"] by auto
  qed simp
  then show "set (pp_filter st) \<subseteq> set (pp_filter (fold (redisEffect False b) cmds st))" .
  show "BfMAdd f keys \<in> set cmds \<Longrightarrow> set keys \<subseteq> set (pp_filter (fold (redisEffect False b) cmds st))"
  proof (induction cmds arbitrary: st)
    case (Cons c cmds)
    show ?case
    proof (cases "c = BfMAdd f keys")
      case True
      then show ?thesis using mono [of "redisEffect False b c st" cmds] by auto
    next
      case False
      then show ?thesis using Cons by simp
    qed
  qed simp
qed

lemma Analyze_records:
  assumes "Analyze w eng mex fails now req = Inr (out, cmds)" and "wk_novelty w"
  shows "BfMAdd positionsFilter (map positionKey (req_FenHistory req)) \<in> set cmds"
  using assms by (auto simp: Analyze_iff analysable_def attachNovelty_def Novelty_Record_def case_prod_beta)

text \<open>A delivery whose analysis and storing succeed.\<close>

lemma handleRequest_stores:
  assumes "fm_request fm msg = Some req" and "runWorker w bloom dv st req = Inr (report, cmds)" and "dv_saveUp dv"
    and "find_game db (req_GameId req) \<noteq> None"
  obtains st' where "handleRequest w fm bloom db dv st msg = (True, st')"
    "map_of (game_analysis (pp_reports st')) (req_GameId req) = Some (analysisRow (fm_real fm) (dv_now dv) report)"
proof -
  have g: "ac_GameId report = req_GameId req" by (rule Analyze_report(3) [OF assms(2) [unfolded runWorker_def]])
  let ?st = "fold (redisEffect (dv_addFails dv) (dv_seriesUp dv)) cmds st"
  obtain rs where sv: "SaveAnalysis (fm_real fm) (dv_saveUp dv) (dv_now dv) report db (pp_reports ?st) = (Inr (), rs)"
    and row: "map_of (game_analysis rs) (req_GameId req) = Some (analysisRow (fm_real fm) (dv_now dv) report)"
    using assms(3,4) g by (simp add: SaveAnalysis_def map_of_upsert)
  show ?thesis using that sv row by (simp add: handleRequest_def assms(1,2) Let_def del: fold_redis_reports)
qed

section \<open>Properties\<close>

text \<open>
  C13. What the worker accepts, it has reported: however the consumer's run goes (batches, fetch and
  commit errors, engine failures, stores that do not answer), the handler has been given records that were
  handed out, each once and in order, and at the end every parseable request whose handling
  returned without an error has a report in the store that can be read.  So, as long as no poll returned records
  together with errors and no handling failed, every committed parseable request has its report.
  (Without these two conditions a committed request can be lost: \<open>fetch_error_loses_records\<close>, \<open>failed_record_is_committed\<close>.)
\<close>

theorem acknowledged_requests_are_reported:
  assumes "client_laws poll commit polled committed" and "polled c = []" and "committed c = 0"
    and "Consumer_Run poll commit (journal (deliver_next w fm bloom db world)) n c ([], k, st) = (c', j, k', st')"
  shows "subseq (map fst j) (polled c') \<and> committed c' \<le> length (polled c') \<and>
    (\<forall>record req. (record, True) \<in> set j \<and> fm_request fm record = Some req \<longrightarrow>
       (\<exists>r. Store_GetAnalysis True True (req_GameId req) (pp_reports st') = Inr r)) \<and>
    (clean_polls poll \<and> (\<forall>x \<in> set j. snd x) \<longrightarrow>
       (\<forall>i req. i < committed c' \<and> fm_request fm (polled c' ! i) = Some req \<longrightarrow>
          (\<exists>r. Store_GetAnalysis True True (req_GameId req) (pp_reports st') = Inr r)))"
proof -
  have j: "given poll j (polled c')" "committed c' \<le> length (polled c')"
    using Run_journal [OF assms(1,4)] assms(2,3) by simp_all
  have "journal_ok fm ([], k, st)" by (simp add: journal_ok_def)
  then have "journal_ok fm (snd (Consumer_Run poll commit (journal (deliver_next w fm bloom db world)) n c ([], k, st)))"
    by (intro Run_keeps [where I = "journal_ok fm" and handle = "journal (deliver_next w fm bloom db world)"] journal_ok_step)
  then have "journal_ok fm (j, k', st')" by (simp add: assms(4))
  then have "reported (req_GameId req) st'" if "(msg, True) \<in> set j" "fm_request fm msg = Some req" for msg req
    using that by (auto simp: journal_ok_def)
  then have rep: "\<exists>r. Store_GetAnalysis True True (req_GameId req) (pp_reports st') = Inr r"
    if "(msg, True) \<in> set j" "fm_request fm msg = Some req" for msg req
    using that by (force simp: reported_def Store_GetAnalysis_def)
  have "(polled c' ! i, True) \<in> set j" if "clean_polls poll" "\<forall>x \<in> set j. snd x" "i < committed c'" for i
    using commits_only_what_was_handled [OF assms] that by blast
  then show ?thesis using j rep by (auto simp: given_def)
qed

text \<open>
  A retry loses the novelty.  The worker records a game's positions in the filter before its report
  is stored; when storing fails, the request is delivered again, and the second report of the same
  game never has a novelty, whatever the first had found: every position is known by then.
\<close>

theorem retry_loses_novelty:
  assumes "\<And>S key. key \<in> set S \<Longrightarrow> bloom S key" and "wk_novelty w" and "fm_request fm record = Some req"
    and "find_game db (req_GameId req) \<noteq> None" and "runWorker w bloom dv st req = Inr (report, cmds)"
    and "\<not> dv_saveUp dv" and "\<not> dv_addFails dv" and "dv_engine dv' = dv_engine dv" and "dv_filterUp dv'" and "dv_saveUp dv'"
  shows "\<exists>st1 st2 row. handleRequest w fm bloom db dv st record = (False, st1) \<and> pp_reports st1 = pp_reports st \<and>
    handleRequest w fm bloom db dv' st1 record = (True, st2) \<and>
    map_of (game_analysis (pp_reports st2)) (req_GameId req) = Some row \<and> ar_novelty row = None"
proof -
  define st1 where "st1 = fold (redisEffect (dv_addFails dv) (dv_seriesUp dv)) cmds st"
  have 1: "handleRequest w fm bloom db dv st record = (False, st1)"
    using assms(3,5,6) by (simp add: handleRequest_def SaveAnalysis_def st1_def)
  have "BfMAdd positionsFilter (map positionKey (req_FenHistory req)) \<in> set cmds"
    using Analyze_records [OF assms(5) [unfolded runWorker_def] assms(2)] .
  then have "positionKey ` set (req_FenHistory req) \<subseteq> set (pp_filter st1)"
    using redis_filter(2) [of positionsFilter _ cmds] assms(7) by (fastforce simp: st1_def)
  then have known: "bloom (pp_filter st1) (positionKey f)" if "f \<in> set (req_FenHistory req)" for f using assms(1) that by blast
  obtain report' cmds' where r: "runWorker w bloom dv' st1 req = Inr (report', cmds')"
    using Analyze_again [OF assms(5) [unfolded runWorker_def]] assms(8) unfolding runWorker_def by metis
  have nov: "ac_NoveltyFen report' = ''''"
    using Analyze_known [where known = "bloom (pp_filter st1)"] r assms(9) known by (simp add: runWorker_def)
  obtain st2 where "handleRequest w fm bloom db dv' st1 record = (True, st2)"
      "map_of (game_analysis (pp_reports st2)) (req_GameId req) = Some (analysisRow (fm_real fm) (dv_now dv') report')"
    by (rule handleRequest_stores [OF assms(3) r assms(10,4)])
  then show ?thesis using 1 nov by (simp add: st1_def analysisRow_def)
qed

section \<open>Instances\<close>

definition demoRequest :: AnalysisRequested where
  "demoRequest = exampleRequest\<lparr>req_GameId := ''g1''\<rparr>"

definition demoFormats :: Formats where
  "demoFormats = \<lparr>fm_request = (\<lambda>r. if r = ''req'' then Some demoRequest else None), fm_completed = (\<lambda>_. Some ''done''),
     fm_json = (\<lambda>_. Some ''{}''), fm_real = id\<rparr>"

definition demoDelivery :: "bool \<Rightarrow> Delivery" where
  "demoDelivery save = \<lparr>dv_now = 7, dv_engine = exampleEngine, dv_filterUp = True, dv_addFails = False, dv_seriesUp = True,
     dv_saveUp = save, dv_objects = Some True, dv_produce = Some (\<lambda>_. True)\<rparr>"

definition demoState :: PipelineState where
  "demoState = \<lparr>pp_reports = noReports, pp_filter = [], pp_series = [], pp_archive = [], pp_announced = []\<rparr>"

definition exactFilter :: "string list \<Rightarrow> string \<Rightarrow> bool" where
  "exactFilter S key \<longleftrightarrow> key \<in> set S"

lemma demo_analysable: "\<exists>reports. analysable (New_Worker True True 0) exampleEngine demoRequest reports"
  by (simp add: analysable_def demoRequest_def exampleRequest_def exampleEngine_def ParseFEN_FEN [OF fen_ok_startBoard])

lemma demo_runWorker: "\<exists>report cmds. runWorker (New_Worker True True 0) exactFilter (demoDelivery save) st demoRequest = Inr (report, cmds)"
  using demo_analysable unfolding runWorker_def Analyze_iff by (auto simp: demoDelivery_def)

lemma demo_found: "find_game demoGame (req_GameId demoRequest) \<noteq> None"
  by (simp add: find_game_def demoGame_def demoRow_def demoRequest_def)

lemma demo_handled:
  "\<exists>st'. handleRequest (New_Worker True True 0) demoFormats exactFilter demoGame (demoDelivery True) st ''req'' = (True, st')"
proof -
  obtain report cmds where r: "runWorker (New_Worker True True 0) exactFilter (demoDelivery True) st demoRequest = Inr (report, cmds)"
    using demo_runWorker by blast
  have "fm_request demoFormats ''req'' = Some demoRequest" "dv_saveUp (demoDelivery True)" by (simp_all add: demoFormats_def demoDelivery_def)
  from handleRequest_stores [OF this(1) r this(2) demo_found] show ?thesis by blast
qed

theorem acknowledged_requests_are_reported_witness:
  "\<exists>c' j k' st' r. Consumer_Run (onePoll [''junk'', ''req'']) oneCommit
       (journal (deliver_next (New_Worker True True 0) demoFormats exactFilter demoGame (\<lambda>_. demoDelivery True))) 2 (0, 0) ([], 0, demoState) = (c', j, k', st') \<and>
     map fst j = [''junk'', ''req''] \<and> Store_GetAnalysis True True ''g1'' (pp_reports st') = Inr r"
proof -
  let ?h = "deliver_next (New_Worker True True 0) demoFormats exactFilter demoGame (\<lambda>_. demoDelivery True)"
  obtain c' j k' st' where run: "Consumer_Run (onePoll [''junk'', ''req'']) oneCommit (journal ?h) 2 (0, 0) ([], 0, demoState) = (c', j, k', st')"
    by (metis prod_cases4)
  obtain st2 where h: "handleRequest (New_Worker True True 0) demoFormats exactFilter demoGame (demoDelivery True) demoState ''req'' = (True, st2)"
    using demo_handled by blast
  have "?h (0, demoState) ''junk'' = (True, 1, demoState)" "?h (1, demoState) ''req'' = (True, 2, st2)"
    by (simp_all add: deliver_next_def h) (simp add: handleRequest_def demoFormats_def)
  then have j: "j = [(''junk'', True), (''req'', True)]"
    using run by (simp add: numeral_2_eq_2 onePoll_def oneCommit_def journal_step)
  have fm: "fm_request demoFormats ''req'' = Some demoRequest" "req_GameId demoRequest = ''g1''"
    by (simp_all add: demoFormats_def demoRequest_def)
  have "take (fst (0, 0)) [''junk'', ''req''] = []" "min (snd (0 :: nat, 0 :: nat)) (length [''junk'', ''req'']) = 0" by simp_all
  from acknowledged_requests_are_reported [OF one_laws this run] fm
  have "\<exists>r. Store_GetAnalysis True True ''g1'' (pp_reports st') = Inr r" unfolding j by (metis list.set_intros)
  moreover have "map fst j = [''junk'', ''req'']" by (simp add: j)
  ultimately show ?thesis using run by (metis (no_types, lifting))
qed

theorem retry_loses_novelty_witness:
  "\<exists>st1 st2 row. handleRequest (New_Worker True True 0) demoFormats exactFilter demoGame (demoDelivery False) demoState ''req'' = (False, st1) \<and>
    handleRequest (New_Worker True True 0) demoFormats exactFilter demoGame (demoDelivery True) st1 ''req'' = (True, st2) \<and>
    map_of (game_analysis (pp_reports st2)) ''g1'' = Some row \<and> ar_novelty row = None"
proof -
  obtain report cmds where r: "runWorker (New_Worker True True 0) exactFilter (demoDelivery False) demoState demoRequest = Inr (report, cmds)"
    using demo_runWorker by blast
  have "wk_novelty (New_Worker True True 0)" "fm_request demoFormats ''req'' = Some demoRequest" "req_GameId demoRequest = ''g1''"
    by (simp_all add: New_Worker_def demoFormats_def demoRequest_def)
  moreover have "\<not> dv_saveUp (demoDelivery False)" "\<not> dv_addFails (demoDelivery False)"
      "dv_engine (demoDelivery True) = dv_engine (demoDelivery False)" "dv_filterUp (demoDelivery True)" "dv_saveUp (demoDelivery True)"
    by (simp_all add: demoDelivery_def)
  moreover have "key \<in> set S \<Longrightarrow> exactFilter S key" for S key by (simp add: exactFilter_def)
  ultimately show ?thesis using retry_loses_novelty [OF _ _ _ demo_found r] by metis
qed

end
