(* ===== verification/Auth_Server.thy ===== *)
theory Auth_Server
  imports Store_Once
begin

text \<open>
  The authentication service (\<open>services/game-service/internal/server/auth.go\<close>) over the accounts of
  the store: guests, registration and the upgrade of a guest, password login, single-use sign-in
  tokens, public profiles.

  \<open>AuthEnv\<close> collects what comes from outside: the answers of the database, the clock, fresh
  identifiers and random tokens, SQL's \<open>lower\<close>, the SHA-256 of a token, the bcrypt package
  (\<open>ae_generate\<close> with the salt of this call, \<open>ae_compare\<close>) and the tables of the \<open>unicode\<close>
  package beyond ASCII (\<open>ae_letter\<close>: letters and digits).  Log lines and texts of errors are left
  out, so \<open>domainOf\<close>, which only feeds a log line, is too.

  The lemmas show that accounts stay well formed under every handler, hence that an identifier
  names one account; the properties are about signing up, signing in and what the answers of the
  sign-in endpoints give away.
\<close>

section \<open>Runes\<close>

text \<open>A code point and its width, or U+FFFD and one byte where the bytes are not valid UTF-8.\<close>

definition byte_in :: "char \<Rightarrow> int \<Rightarrow> int \<Rightarrow> bool" where
  "byte_in c lo hi \<longleftrightarrow> lo \<le> of_char c \<and> of_char c \<le> hi"

definition low6 :: "char \<Rightarrow> int" where
  "low6 c = of_char c mod 64"

definition runeError :: "int \<times> nat" where
  "runeError = (0xFFFD, 1)"

text \<open>The size of the sequence a byte begins, and the range of the second byte.\<close>

definition leadByte :: "char \<Rightarrow> (nat \<times> int \<times> int) option" where
  "leadByte a =
     (if byte_in a 0xC2 0xDF then Some (2, 0x80, 0xBF)
      else if byte_in a 0xE0 0xEF then
        Some (3, if of_char a = (0xE0 :: int) then 0xA0 else 0x80, if of_char a = (0xED :: int) then 0x9F else 0xBF)
      else if byte_in a 0xF0 0xF4 then
        Some (4, if of_char a = (0xF0 :: int) then 0x90 else 0x80, if of_char a = (0xF4 :: int) then 0x8F else 0xBF)
      else None)"

fun decodeRune :: "string \<Rightarrow> int \<times> nat" where
  "decodeRune [] = runeError"
| "decodeRune (a # s) =
     (if of_char a < (0x80 :: int) then (of_char a, 1)
      else case leadByte a of
          None \<Rightarrow> runeError
        | Some (sz, lo, hi) \<Rightarrow>
            let t = take (sz - 1) s in
            if length t < sz - 1 \<or> \<not> byte_in (hd t) lo hi \<or> \<not> list_all (\<lambda>c. byte_in c 0x80 0xBF) (tl t) then runeError
            else (foldl (\<lambda>r c. r * 64 + low6 c) (of_char a mod 2 ^ (7 - sz)) t, sz))"

lemma leadByte_range: "leadByte a = Some (sz, lo, hi) \<Longrightarrow> 2 \<le> sz \<and> 0x80 \<le> lo"
  by (auto simp: leadByte_def split: if_splits)

lemma decodeRune_width: "0 < snd (decodeRune s)"
  by (cases s) (auto simp: runeError_def Let_def dest: leadByte_range split: option.split)

text \<open>The runes that \<open>for _, r := range s\<close> visits.\<close>

function runes :: "string \<Rightarrow> int list" where
  "runes s = (if s = [] then [] else fst (decodeRune s) # runes (drop (snd (decodeRune s)) s))"
  by pat_completeness auto
termination by (relation "measure length") (use decodeRune_width in auto)

declare runes.simps [simp del]

section \<open>Validation\<close>

definition minPasswordLen :: nat where "minPasswordLen = 8"
definition maxPasswordLen :: nat where "maxPasswordLen = 128"
definition minUsernameLen :: nat where "minUsernameLen = 3"
definition maxUsernameLen :: nat where "maxUsernameLen = 32"

definition ascii_alnum :: "int \<Rightarrow> bool" where
  "ascii_alnum r \<longleftrightarrow> 48 \<le> r \<and> r \<le> 57 \<or> 65 \<le> r \<and> r \<le> 90 \<or> 97 \<le> r \<and> r \<le> 122"

text \<open>\<open>unicode.IsLetter(r) || unicode.IsDigit(r) || r == '_' || r == '-'\<close>\<close>

definition nameRune :: "(int \<Rightarrow> bool) \<Rightarrow> int \<Rightarrow> bool" where
  "nameRune letter r \<longleftrightarrow> (if r < 128 then ascii_alnum r else letter r) \<or> r = 95 \<or> r = 45"

definition lowerByte :: "char \<Rightarrow> char" where
  "lowerByte c = (if byte_in c 65 90 then char_of (of_char c + 32 :: nat) else c)"

text \<open>
  \<open>strings.HasPrefix(strings.ToLower(name), "guest-")\<close>: no code point outside ASCII has one of
  these letters as its lower case, so the bytes of the prefix decide.
\<close>

definition guestPrefix :: "string \<Rightarrow> bool" where
  "guestPrefix name \<longleftrightarrow> map lowerByte (take 6 name) = ''guest-''"

text \<open>\<open>None\<close> is success.\<close>

definition validateUsername :: "(int \<Rightarrow> bool) \<Rightarrow> string \<Rightarrow> Code option" where
  "validateUsername letter name =
     (if length name < minUsernameLen \<or> length name > maxUsernameLen then Some InvalidArgument
      else if \<not> list_all (nameRune letter) (runes name) then Some InvalidArgument
      else if guestPrefix name then Some InvalidArgument
      else None)"

definition validatePassword :: "string \<Rightarrow> Code option" where
  "validatePassword pw =
     (if length pw < minPasswordLen then Some InvalidArgument
      else if length pw > maxPasswordLen then Some InvalidArgument
      else None)"

definition looksLikeEmail :: "string \<Rightarrow> bool" where
  "looksLikeEmail s =
     (let i = length (takeWhile (\<lambda>c. c \<noteq> CHR ''@'') s) in
      CHR ''@'' \<in> set s \<and> 0 < i \<and> i < length s - 1 \<and>
      \<not> list_ex (\<lambda>c. c = CHR '' '' \<or> c = CHR 0x09 \<or> c = CHR 0x0A) s)"

section \<open>Handlers\<close>

record AuthEnv =
  ae_up :: "nat \<Rightarrow> bool"
  ae_now :: int
  ae_newUser :: string
  ae_lower :: "string \<Rightarrow> string"
  ae_letter :: "int \<Rightarrow> bool"
  ae_hashToken :: "string \<Rightarrow> string"
  ae_token :: string
  ae_decoy :: "string option"
  ae_generate :: "string \<Rightarrow> string option"
  ae_compare :: "string \<Rightarrow> string \<Rightarrow> bool"
  ae_deliverTokens :: bool

record ProtoUser =
  pu_Id :: string
  pu_Username :: string
  pu_Email :: string
  pu_Elo :: int
  pu_IsGuest :: bool
  pu_GamesPlayed :: int
  pu_CreatedAt :: int

definition toProtoUser :: "User \<Rightarrow> bool \<Rightarrow> ProtoUser" where
  "toProtoUser u self =
     \<lparr>pu_Id = usr_ID u, pu_Username = usr_Username u, pu_Email = (if self then usr_Email u else ''''),
      pu_Elo = wrap32 (usr_Elo u), pu_IsGuest = usr_IsGuest u, pu_GamesPlayed = wrap32 (usr_GamesPlayed u),
      pu_CreatedAt = usr_CreatedAt u\<rparr>"

definition userResponse :: "bool \<Rightarrow> string \<Rightarrow> bool \<Rightarrow> DB \<Rightarrow> Code + ProtoUser" where
  "userResponse up uid self db =
     (case Store_GetUser up uid db of
        Inl ErrNotFound \<Rightarrow> Inl NotFound
      | Inl e \<Rightarrow> Inl Internal
      | Inr u \<Rightarrow> Inr (toProtoUser u self))"

definition CreateGuest :: "AuthEnv \<Rightarrow> DB \<Rightarrow> (Code + ProtoUser) \<times> DB" where
  "CreateGuest env db =
     (case CreateGuestUser (ae_lower env) (ae_up env 0) (ae_newUser env) (ae_now env) db of
        (Inl e, db) \<Rightarrow> (Inl Internal, db)
      | (Inr uid, db) \<Rightarrow> (userResponse (ae_up env 1) uid True db, db))"

record RegisterRequest =
  rr_Username :: string
  rr_Password :: string
  rr_Email :: string
  rr_UpgradeUserId :: string

definition registerParams :: "RegisterRequest \<Rightarrow> string \<Rightarrow> RegisterParams" where
  "registerParams req hash =
     \<lparr>rp_Username = TrimSpace (rr_Username req), rp_PasswordHash = hash, rp_Email = TrimSpace (rr_Email req),
      rp_UpgradeUserID = rr_UpgradeUserId req\<rparr>"

definition Register :: "AuthEnv \<Rightarrow> RegisterRequest \<Rightarrow> DB \<Rightarrow> (Code + ProtoUser) \<times> DB" where
  "Register env req db =
     (let username = TrimSpace (rr_Username req); email = TrimSpace (rr_Email req) in
      case validateUsername (ae_letter env) username of
        Some c \<Rightarrow> (Inl c, db)
      | None \<Rightarrow>
      (case validatePassword (rr_Password req) of
         Some c \<Rightarrow> (Inl c, db)
       | None \<Rightarrow>
         if email \<noteq> '''' \<and> \<not> looksLikeEmail email then (Inl InvalidArgument, db)
         else (case ae_generate env (rr_Password req) of
             None \<Rightarrow> (Inl Internal, db)
           | Some hash \<Rightarrow>
               (case Store_Register (ae_lower env) (ae_up env 0) (ae_up env 1) (ae_newUser env) (ae_now env) (registerParams req hash) db of
                  (Inl ErrUserExists, db) \<Rightarrow> (Inl AlreadyExists, db)
                | (Inl ErrNotUpgradable, db) \<Rightarrow> (Inl FailedPrecondition, db)
                | (Inl e, db) \<Rightarrow> (Inl Internal, db)
                | (Inr u, db) \<Rightarrow> (Inr (toProtoUser u True), db)))))"

definition dummyHash :: string where
  "dummyHash = ''$2a$12$N9qo8uLOickgx2ZMRZoMyeIjZAgcfl7p92ldGxad68LJZdL17lhWy''"

definition Login :: "AuthEnv \<Rightarrow> string \<Rightarrow> string \<Rightarrow> DB \<Rightarrow> Code + ProtoUser" where
  "Login env ident password db =
     (let identifier = TrimSpace ident in
      if identifier = '''' \<or> password = '''' then Inl InvalidArgument
      else
        let check = (\<lambda>u.
              let hash = (case u of Some u \<Rightarrow> if usr_PasswordHash u \<noteq> '''' then usr_PasswordHash u else dummyHash | None \<Rightarrow> dummyHash);
                  ok = ae_compare env hash password
              in (case u of
                    None \<Rightarrow> Inl Unauthenticated
                  | Some u \<Rightarrow> if usr_PasswordHash u = '''' \<or> \<not> ok then Inl Unauthenticated else Inr (toProtoUser u True)))
        in (case FindUserByIdentifier (ae_lower env) (ae_up env 0) identifier db of
              Inr u \<Rightarrow> check (Some u)
            | Inl ErrNotFound \<Rightarrow> check None
            | Inl e \<Rightarrow> Inl Internal))"

record TokenResponse =
  tr_Token :: string
  tr_ExpiresAt :: "int option"
  tr_DeliveredInBand :: bool

definition decoyTokenResponse :: "AuthEnv \<Rightarrow> TokenResponse" where
  "decoyTokenResponse env =
     (let expiresAt = ae_now env + 15 * 60 * 1000 in
      if ae_deliverTokens env then \<lparr>tr_Token = '''', tr_ExpiresAt = Some expiresAt, tr_DeliveredInBand = False\<rparr>
      else case ae_decoy env of
          None \<Rightarrow> \<lparr>tr_Token = '''', tr_ExpiresAt = None, tr_DeliveredInBand = False\<rparr>
        | Some token \<Rightarrow> \<lparr>tr_Token = token, tr_ExpiresAt = Some expiresAt, tr_DeliveredInBand = True\<rparr>)"

definition RequestLoginToken :: "AuthEnv \<Rightarrow> string \<Rightarrow> DB \<Rightarrow> (Code + TokenResponse) \<times> DB" where
  "RequestLoginToken env address db =
     (let email = TrimSpace address in
      if email = '''' then (Inl InvalidArgument, db)
      else case NewLoginToken (ae_lower env) (ae_hashToken env) (ae_up env 0) (ae_up env 1) (ae_token env) (ae_now env) email db of
          (Inl ErrNotFound, db) \<Rightarrow> (Inr (decoyTokenResponse env), db)
        | (Inl ErrNoEmail, db) \<Rightarrow> (Inr (decoyTokenResponse env), db)
        | (Inl e, db) \<Rightarrow> (Inl Internal, db)
        | (Inr (token, _, expiresAt), db) \<Rightarrow>
            (Inr (if ae_deliverTokens env then \<lparr>tr_Token = '''', tr_ExpiresAt = Some expiresAt, tr_DeliveredInBand = False\<rparr>
                  else \<lparr>tr_Token = token, tr_ExpiresAt = Some expiresAt, tr_DeliveredInBand = True\<rparr>), db))"

definition RedeemLoginToken :: "AuthEnv \<Rightarrow> string \<Rightarrow> DB \<Rightarrow> (Code + ProtoUser) \<times> DB" where
  "RedeemLoginToken env token db =
     (if token = '''' then (Inl InvalidArgument, db)
      else case Store_RedeemLoginToken (ae_hashToken env) (ae_up env 0) (ae_up env 1) (ae_now env) token db of
          (Inl ErrTokenInvalid, db) \<Rightarrow> (Inl Unauthenticated, db)
        | (Inl e, db) \<Rightarrow> (Inl Internal, db)
        | (Inr u, db) \<Rightarrow> (Inr (toProtoUser u True), db))"

definition GetUser :: "AuthEnv \<Rightarrow> string \<Rightarrow> DB \<Rightarrow> Code + ProtoUser" where
  "GetUser env uid db =
     (if uid = '''' then Inl InvalidArgument else userResponse (ae_up env 0) uid False db)"

section \<open>Names and addresses\<close>

lemma decodeRune_high:
  assumes "\<not> of_char a < (0x80 :: int)"
  shows "\<forall>c \<in> set (take (snd (decodeRune (a # s))) (a # s)). \<not> of_char c < (0x80 :: int)"
proof (cases "snd (decodeRune (a # s)) = 1")
  case False
  then obtain sz lo hi where l: "leadByte a = Some (sz, lo, hi)" "snd (decodeRune (a # s)) = sz" "length (take (sz - 1) s) = sz - 1"
    "byte_in (hd (take (sz - 1) s)) lo hi" "list_all (\<lambda>c. byte_in c 0x80 0xBF) (tl (take (sz - 1) s))"
    using assms by (auto simp: runeError_def Let_def split: option.splits if_splits)
  have sz: "2 \<le> sz" "0x80 \<le> lo" using leadByte_range [OF l(1)] by simp_all
  then obtain b t where t: "take (sz - 1) s = b # t" using l(3) by (cases "take (sz - 1) s") auto
  have "take sz (a # s) = a # b # t" using sz(1) t by (simp add: take_Cons' flip: t)
  then show ?thesis using assms l(2,4,5) sz(2) t by (auto simp: byte_in_def list_all_iff simp del: decodeRune.simps)
qed (use assms in simp)

lemma decodeRune_ascii:
  assumes "c \<in> set (take (snd (decodeRune s)) s)" and "of_char c < (0x80 :: int)"
  shows "fst (decodeRune s) = of_char c"
proof (cases s)
  case (Cons a t)
  then have "of_char a < (0x80 :: int)" using decodeRune_high [of a t] assms by blast
  then show ?thesis using assms(1) Cons by simp
qed (use assms in simp)

lemma runes_ascii: "c \<in> set s \<Longrightarrow> of_char c < (0x80 :: int) \<Longrightarrow> of_char c \<in> set (runes s)"
proof (induction s rule: runes.induct)
  case (1 s)
  have "c \<in> set (take (snd (decodeRune s)) s) \<or> c \<in> set (drop (snd (decodeRune s)) s)"
    using "1.prems"(1) by (metis Un_iff append_take_drop_id set_append)
  then show ?case using decodeRune_ascii [of c s] "1.IH" "1.prems" by (subst runes.simps) auto
qed

lemma valid_name_no_at:
  assumes "validateUsername letter name = None"
  shows "CHR ''@'' \<notin> set name" and "\<not> guestPrefix name" and "name \<noteq> ''''"
proof -
  have v: "list_all (nameRune letter) (runes name)" "\<not> guestPrefix name" "3 \<le> length name"
    using assms by (auto simp: validateUsername_def minUsernameLen_def split: if_splits)
  then show "\<not> guestPrefix name" and "name \<noteq> ''''" by auto
  have "\<not> nameRune letter 64" by (simp add: nameRune_def ascii_alnum_def)
  then show "CHR ''@'' \<notin> set name" using v(1) runes_ascii [of "CHR ''@''" name] by (auto simp: list_all_iff)
qed

lemma guest_name: "guestPrefix (''guest-'' @ s)"
  by (simp add: guestPrefix_def lowerByte_def byte_in_def)

lemma email_at: "looksLikeEmail s \<Longrightarrow> CHR ''@'' \<in> set s"
  by (simp add: looksLikeEmail_def Let_def)

section \<open>Well-formed accounts\<close>

definition matches :: "(string \<Rightarrow> string) \<Rightarrow> string \<Rightarrow> UserRow \<Rightarrow> bool" where
  "matches lower ident u \<longleftrightarrow> lower (u_username u) = lower ident \<or> map_option lower (u_email u) = Some (lower ident)"

definition row_ok :: "UserRow \<Rightarrow> bool" where
  "row_ok u \<longleftrightarrow> CHR ''@'' \<notin> set (u_username u) \<and> (\<forall>e. u_email u = Some e \<longrightarrow> CHR ''@'' \<in> set e) \<and>
     (u_is_guest u \<longleftrightarrow> guestPrefix (u_username u)) \<and> (u_is_guest u \<longleftrightarrow> u_password_hash u = None)"

text \<open>Two rows that the unique indexes allow together.\<close>

definition rows_apart :: "(string \<Rightarrow> string) \<Rightarrow> UserRow \<Rightarrow> UserRow \<Rightarrow> bool" where
  "rows_apart lower u v \<longleftrightarrow> lower (u_username u) \<noteq> lower (u_username v) \<and>
     (\<forall>e e'. u_email u = Some e \<longrightarrow> u_email v = Some e' \<longrightarrow> lower e \<noteq> lower e')"

definition accounts_ok :: "(string \<Rightarrow> string) \<Rightarrow> DB \<Rightarrow> bool" where
  "accounts_ok lower db \<longleftrightarrow> distinct (map u_id (users db)) \<and> (\<forall>u \<in> set (users db). row_ok u) \<and>
     (\<forall>u \<in> set (users db). \<forall>v \<in> set (users db). u_id u \<noteq> u_id v \<longrightarrow> rows_apart lower u v)"

lemma rows_apart_sym: "rows_apart lower u v \<Longrightarrow> rows_apart lower v u"
  unfolding rows_apart_def by metis

lemma same_id:
  "accounts_ok lower db \<Longrightarrow> u \<in> set (users db) \<Longrightarrow> v \<in> set (users db) \<Longrightarrow> u_id u = u_id v \<Longrightarrow> u = v"
  unfolding accounts_ok_def by (metis distinct_map inj_onD)

lemma not_taken:
  "\<not> name_taken lower db uid username email \<longleftrightarrow>
   (\<forall>u \<in> set (users db). u_id u \<noteq> uid \<longrightarrow> u_username u \<noteq> username \<and> lower (u_username u) \<noteq> lower username \<and>
      (email \<noteq> None \<longrightarrow> map_option lower (u_email u) \<noteq> map_option lower email))"
  by (auto simp: name_taken_def list_ex_iff)

lemma accounts_ok_insert:
  assumes "accounts_ok lower db" and "row_ok r" and "\<not> has_user db (u_id r)"
    and "\<not> name_taken lower db (u_id r) (u_username r) (u_email r)"
  shows "accounts_ok lower (db\<lparr>users := users db @ [r]\<rparr>)"
proof -
  have ids: "\<forall>u \<in> set (users db). u_id u \<noteq> u_id r" using assms(3) by (auto simp: has_user_def list_ex_iff)
  then have "\<forall>u \<in> set (users db). rows_apart lower r u" using assms(4) by (auto simp: not_taken rows_apart_def)
  then show ?thesis using assms(1,2) ids rows_apart_sym by (auto simp: accounts_ok_def image_iff)
qed

lemma accounts_ok_update:
  assumes "accounts_ok lower db" and "\<And>u. u \<in> set (users db) \<Longrightarrow> P u \<Longrightarrow> row_ok (f u)" and "\<And>u. u_id (f u) = u_id u"
    and "\<And>u v. u \<in> set (users db) \<Longrightarrow> v \<in> set (users db) \<Longrightarrow> u_id u \<noteq> u_id v \<Longrightarrow>
      rows_apart lower (if P u then f u else u) (if P v then f v else v)"
  shows "accounts_ok lower (db\<lparr>users := update_where P f (users db)\<rparr>)"
proof -
  have ids: "map u_id (update_where P f (users db)) = map u_id (users db)" using assms(3) by (simp add: update_where_def)
  have id: "u_id (if P u then f u else u) = u_id u" for u using assms(3) by simp
  have ok: "row_ok (if P u then f u else u)" if "u \<in> set (users db)" for u
    using assms(1,2) that by (simp add: accounts_ok_def)
  have "\<forall>x \<in> set (update_where P f (users db)). row_ok x" unfolding ball_update_where using ok by blast
  moreover have "\<forall>x \<in> set (update_where P f (users db)). \<forall>y \<in> set (update_where P f (users db)). u_id x \<noteq> u_id y \<longrightarrow> rows_apart lower x y"
    unfolding ball_update_where id using assms(4) by blast
  ultimately show ?thesis using ids assms(1) by (simp add: accounts_ok_def)
qed

lemma accounts_ok_cong: "users db' = users db \<Longrightarrow> accounts_ok lower db' = accounts_ok lower db"
  by (simp add: accounts_ok_def)

lemma accounts_ok_games: "accounts_ok lower (db\<lparr>games := gs\<rparr>) = accounts_ok lower db"
  by (rule accounts_ok_cong) simp

lemma accounts_ok_addElo: "accounts_ok lower db \<Longrightarrow> accounts_ok lower (addElo uid d db)"
  unfolding addElo_def
  by (rule accounts_ok_update) (auto simp: accounts_ok_def row_ok_def rows_apart_def)

lemma accounts_ok_ApplyRatings: "accounts_ok lower db \<Longrightarrow> accounts_ok lower (snd (ApplyRatings up up' gid oc db))"
  by (simp add: ApplyRatings_def Let_def case_prod_beta accounts_ok_addElo accounts_ok_games split: option.split)

lemma accounts_ok_guest:
  assumes "accounts_ok lower db" and "CHR ''@'' \<notin> set nid"
  shows "accounts_ok lower (snd (CreateGuestUser lower up nid now db))"
proof -
  have "row_ok \<lparr>u_id = nid, u_username = ''guest-'' @ nid, u_email = None, u_password_hash = None,
      u_elo = DefaultRating, u_is_guest = True, u_created_at = now\<rparr>"
    using guest_name [of nid] assms(2) by (simp add: row_ok_def)
  then show ?thesis using accounts_ok_insert [OF assms(1)] assms(1) by (auto simp: CreateGuestUser_def Let_def)
qed

section \<open>Registration\<close>

lemma find_unique: "x \<in> set xs \<Longrightarrow> P x \<Longrightarrow> (\<And>y. y \<in> set xs \<Longrightarrow> P y \<Longrightarrow> y = x) \<Longrightarrow> find P xs = Some x"
  by (induction xs) (simp, metis find.simps(2) list.set_intros set_ConsD)

lemma GetUser_row:
  "accounts_ok lower db \<Longrightarrow> r \<in> set (users db) \<Longrightarrow> Store_GetUser True (u_id r) db = Inr (scanUser db r)"
  using find_unique [of r "users db" "\<lambda>u. u_id u = u_id r"] same_id [of lower db _ r] by (simp add: Store_GetUser_def)

text \<open>The row that a registration leaves.\<close>

definition registered :: "RegisterRequest \<Rightarrow> string \<Rightarrow> UserRow \<Rightarrow> bool" where
  "registered req hash r \<longleftrightarrow> u_username r = TrimSpace (rr_Username req) \<and> u_email r = nullIfEmpty (TrimSpace (rr_Email req)) \<and>
     u_password_hash r = Some hash \<and> \<not> u_is_guest r"

definition checked :: "AuthEnv \<Rightarrow> RegisterRequest \<Rightarrow> bool" where
  "checked env req \<longleftrightarrow> validateUsername (ae_letter env) (TrimSpace (rr_Username req)) = None \<and> validatePassword (rr_Password req) = None \<and>
     (TrimSpace (rr_Email req) = '''' \<or> looksLikeEmail (TrimSpace (rr_Email req)))"

lemma TrimSpace_Nil: "TrimSpace '''' = ''''"
  unfolding TrimSpace_def by (subst trimLeft.simps, subst trimEnd.simps) simp

lemma registered_ok:
  assumes "checked env req" and "registered req hash r"
  shows "row_ok r"
proof -
  note v = valid_name_no_at [of "ae_letter env" "TrimSpace (rr_Username req)"]
  have "CHR ''@'' \<in> set e" if "u_email r = Some e" for e
    using that assms email_at [of e] by (auto simp: checked_def registered_def nullIfEmpty_def TrimSpace_Nil split: if_splits)
  then show ?thesis using assms v by (simp add: row_ok_def registered_def checked_def)
qed

lemma Store_Register_cases:
  assumes "accounts_ok lower db"
  obtains (refused) e where "Store_Register lower up up' nid now p db = (Inl e, db)"
  | (created) r where "rp_UpgradeUserID p = ''''" "u_id r = nid" "u_username r = rp_Username p" "u_email r = nullIfEmpty (rp_Email p)"
      "u_password_hash r = Some (rp_PasswordHash p)" "\<not> u_is_guest r" "u_elo r = DefaultRating" "\<not> has_user db nid"
      "\<not> name_taken lower db nid (u_username r) (u_email r)"
      "Store_Register lower up up' nid now p db = (Store_GetUser up' nid (db\<lparr>users := users db @ [r]\<rparr>), db\<lparr>users := users db @ [r]\<rparr>)"
  | (upgraded) u f where "rp_UpgradeUserID p \<noteq> ''''" "u \<in> set (users db)" "u_id u = rp_UpgradeUserID p" "u_is_guest u"
      "f = (\<lambda>u. u\<lparr>u_username := rp_Username p, u_email := nullIfEmpty (rp_Email p), u_password_hash := Some (rp_PasswordHash p), u_is_guest := False\<rparr>)"
      "\<not> name_taken lower db (u_id u) (rp_Username p) (nullIfEmpty (rp_Email p))"
      "Store_Register lower up up' nid now p db =
         (Store_GetUser up' (u_id u) (db\<lparr>users := update_where (\<lambda>v. v = u) f (users db)\<rparr>), db\<lparr>users := update_where (\<lambda>v. v = u) f (users db)\<rparr>)"
proof (cases "rp_UpgradeUserID p = ''''")
  case True
  show ?thesis
  proof (cases "\<not> up \<or> has_user db nid \<or> name_taken lower db nid (rp_Username p) (nullIfEmpty (rp_Email p))")
    case True
    then show ?thesis using \<open>rp_UpgradeUserID p = ''''\<close> refused by (cases up) (auto simp: Store_Register_def Let_def)
  next
    case False
    let ?r = "\<lparr>u_id = nid, u_username = rp_Username p, u_email = nullIfEmpty (rp_Email p),
                     u_password_hash = Some (rp_PasswordHash p), u_elo = DefaultRating, u_is_guest = False, u_created_at = now\<rparr>"
    show ?thesis using False True created [of ?r] by (simp add: Store_Register_def Let_def)
  qed
next
  case False
  let ?P = "\<lambda>u. u_id u = rp_UpgradeUserID p \<and> u_is_guest u"
  show ?thesis
  proof (cases "\<not> up \<or> \<not> list_ex ?P (users db) \<or> name_taken lower db (rp_UpgradeUserID p) (rp_Username p) (nullIfEmpty (rp_Email p))")
    case True
    then show ?thesis using False refused by (cases up; cases "list_ex ?P (users db)") (auto simp: Store_Register_def upgradeGuest_def Let_def)
  next
    case free: False
    then obtain u where u: "u \<in> set (users db)" "u_id u = rp_UpgradeUserID p" "u_is_guest u" by (auto simp: list_ex_iff)
    have "update_where ?P f (users db) = update_where (\<lambda>v. v = u) f (users db)" for f
    proof -
      have "?P v \<longleftrightarrow> v = u" if "v \<in> set (users db)" for v using same_id [OF assms that u(1)] u(2,3) by metis
      then show ?thesis unfolding update_where_def by (intro map_cong refl) presburger
    qed
    then have "Store_Register lower up up' nid now p db = (let db = db\<lparr>users := update_where (\<lambda>v. v = u) (\<lambda>u. u\<lparr>u_username := rp_Username p,
        u_email := nullIfEmpty (rp_Email p), u_password_hash := Some (rp_PasswordHash p), u_is_guest := False\<rparr>) (users db)\<rparr>
      in (Store_GetUser up' (u_id u) db, db))"
      using free False unfolding Store_Register_def upgradeGuest_def Let_def u(2) by presburger
    then show ?thesis using free u(2) by (intro upgraded [OF False u refl]) (simp_all add: Let_def)
  qed
qed

lemma Register_inv:
  assumes "accounts_ok (ae_lower env) db" and "Register env req db = (res, db')"
  obtains (unchanged) c where "res = Inl c" "db' = db"
  | (stored) hash r where "checked env req" "ae_generate env (rr_Password req) = Some hash" "registered req hash r" "r \<in> set (users db')"
      "accounts_ok (ae_lower env) db'" "games db' = games db" "moves db' = moves db" "tokens db' = tokens db"
      "res = (if ae_up env 1 then Inr (toProtoUser (scanUser db' r) True) else Inl Internal)"
      "if rr_UpgradeUserId req = '''' then u_id r = ae_newUser env \<and> u_elo r = DefaultRating
       else u_id r = rr_UpgradeUserId req \<and> (\<exists>u \<in> set (users db). u_id u = u_id r \<and> u_is_guest u \<and> u_elo u = u_elo r \<and> u_created_at u = u_created_at r)"
proof (cases "checked env req \<and> ae_generate env (rr_Password req) \<noteq> None")
  case False
  then show ?thesis using assms(2) unchanged
    by (auto simp: Register_def checked_def Let_def split: option.splits if_splits)
next
  case True
  then obtain hash where g: "checked env req" "ae_generate env (rr_Password req) = Some hash" by auto
  let ?p = "registerParams req hash"
  let ?reg = "Store_Register (ae_lower env) (ae_up env 0) (ae_up env 1) (ae_newUser env) (ae_now env) ?p db"
  have R: "Register env req db = (case ?reg of
        (Inl ErrUserExists, db) \<Rightarrow> (Inl AlreadyExists, db) | (Inl ErrNotUpgradable, db) \<Rightarrow> (Inl FailedPrecondition, db)
      | (Inl e, db) \<Rightarrow> (Inl Internal, db) | (Inr u, db) \<Rightarrow> (Inr (toProtoUser u True), db))"
    using g by (auto simp: Register_def checked_def Let_def)
  have finish: thesis if "registered req hash r" "r \<in> set (users db')" "accounts_ok (ae_lower env) db'"
      "games db' = games db" "moves db' = moves db" "tokens db' = tokens db" "?reg = (Store_GetUser (ae_up env 1) (u_id r) db', db')"
      "if rr_UpgradeUserId req = '''' then u_id r = ae_newUser env \<and> u_elo r = DefaultRating
       else u_id r = rr_UpgradeUserId req \<and> (\<exists>u \<in> set (users db). u_id u = u_id r \<and> u_is_guest u \<and> u_elo u = u_elo r \<and> u_created_at u = u_created_at r)"
      for r
  proof (rule stored [OF g that(1-6) _ that(8)])
    show "res = (if ae_up env 1 then Inr (toProtoUser (scanUser db' r) True) else Inl Internal)"
      using assms(2) R that(7) GetUser_row [OF that(3,2)] by (cases "ae_up env 1") (auto simp: Store_GetUser_def)
  qed
  show ?thesis using assms(1)
  proof (cases rule: Store_Register_cases [where up = "ae_up env 0" and up' = "ae_up env 1" and nid = "ae_newUser env" and now = "ae_now env" and p = ?p])
    case (refused e)
    then show ?thesis using assms(2) R unchanged by (cases e) auto
  next
    case (created r)
    have db': "db' = db\<lparr>users := users db @ [r]\<rparr>" using created(10) assms(2) R by (auto split: sum.splits StoreError.splits)
    have reg: "registered req hash r" using created by (simp add: registered_def registerParams_def)
    show ?thesis using created db' reg accounts_ok_insert [OF assms(1) registered_ok [OF g(1) reg]]
      by (intro finish [of r]) (simp_all add: registerParams_def)
  next
    case (upgraded u f)
    have db': "db' = db\<lparr>users := update_where (\<lambda>v. v = u) f (users db)\<rparr>" using upgraded(7) assms(2) R by (auto split: sum.splits StoreError.splits)
    have reg: "registered req hash (f u)" using upgraded(5) by (simp add: registered_def registerParams_def)
    have "accounts_ok (ae_lower env) db'" unfolding db'
    proof (rule accounts_ok_update [OF assms(1)])
      show "row_ok (f v)" if "v = u" for v using that registered_ok [OF g(1) reg] by simp
      show "u_id (f v) = u_id v" for v using upgraded(5) by simp
      have *: "rows_apart (ae_lower env) v (f u)" if "v \<in> set (users db)" "u_id v \<noteq> u_id u" for v
        using upgraded(5,6) that by (auto simp: not_taken rows_apart_def)
      show "rows_apart (ae_lower env) (if v = u then f v else v) (if w = u then f w else w)"
        if "v \<in> set (users db)" "w \<in> set (users db)" "u_id v \<noteq> u_id w" for v w
        using that * [of v] rows_apart_sym [OF * [of w]] assms(1) by (auto simp: accounts_ok_def)
    qed
    moreover have "f u \<in> set (users db')" using upgraded(2) unfolding db' by (auto simp: update_where_def)
    moreover have "u_id (f u) = u_id u" "u_elo (f u) = u_elo u" "u_created_at (f u) = u_created_at u" using upgraded(5) by simp_all
    ultimately show ?thesis using upgraded db' reg
      by (intro finish [of "f u"]) (auto simp: registerParams_def)
  qed
qed

section \<open>The accounts over time\<close>

text \<open>
  Every handler that writes the accounts table, in any order: guests (also those that creating a
  game makes), registrations, ratings; and anything that leaves the table alone.  A fresh
  identifier is the text of a UUID, which holds no \<open>@\<close>.
\<close>

inductive acct_step :: "(string \<Rightarrow> string) \<Rightarrow> DB \<Rightarrow> DB \<Rightarrow> bool" for lower where
  as_guest: "CHR ''@'' \<notin> set nid \<Longrightarrow> acct_step lower db (snd (CreateGuestUser lower up nid now db))"
| as_register: "ae_lower env = lower \<Longrightarrow> acct_step lower db (snd (Register env req db))"
| as_rate: "acct_step lower db (snd (ApplyRatings up up' gid oc db))"
| as_other: "users db' = users db \<Longrightarrow> acct_step lower db db'"

inductive acct_reach :: "(string \<Rightarrow> string) \<Rightarrow> DB \<Rightarrow> bool" for lower where
  ar_init: "users db = [] \<Longrightarrow> acct_reach lower db"
| ar_step: "acct_reach lower db \<Longrightarrow> acct_step lower db db' \<Longrightarrow> acct_reach lower db'"

lemma acct_step_ok: "acct_step lower db db' \<Longrightarrow> accounts_ok lower db \<Longrightarrow> accounts_ok lower db'"
proof (induction rule: acct_step.induct)
  case (as_register env db req)
  then have ok: "accounts_ok (ae_lower env) db" by simp
  obtain res db' where R: "Register env req db = (res, db')" by fastforce
  from ok R have "accounts_ok (ae_lower env) db'" using ok by (cases rule: Register_inv) simp_all
  then show ?case using R as_register by simp
next
  case (as_other db' db)
  then show ?case using accounts_ok_cong by blast
qed (auto intro: accounts_ok_guest accounts_ok_ApplyRatings)

lemma acct_reach_ok: "acct_reach lower db \<Longrightarrow> accounts_ok lower db"
  by (induction rule: acct_reach.induct) (simp add: accounts_ok_def, blast intro: acct_step_ok)

lemma handlers_acct_step:
  "CHR ''@'' \<notin> set (ae_newUser env) \<Longrightarrow> acct_step (ae_lower env) db (snd (CreateGuest env db))"
  "acct_step lower db (snd (RequestLoginToken env addr db))" "acct_step lower db (snd (RedeemLoginToken env tok db))"
proof -
  assume "CHR ''@'' \<notin> set (ae_newUser env)"
  then show "acct_step (ae_lower env) db (snd (CreateGuest env db))"
    using as_guest [of "ae_newUser env" "ae_lower env" db "ae_up env 0" "ae_now env"]
    by (auto simp: CreateGuest_def split: prod.splits sum.splits)
next
  have "users (snd (NewLoginToken l h up up' tk now em db)) = users db" for l h up up' tk now em
    by (auto simp: NewLoginToken_def split: sum.splits)
  then show "acct_step lower db (snd (RequestLoginToken env addr db))"
    by (intro as_other) (auto simp: RequestLoginToken_def Let_def split: prod.splits sum.splits StoreError.splits, (metis snd_conv)+)
next
  have "users (snd (Store_RedeemLoginToken h up up' now tk db)) = users db" for h up up' now tk
    by (auto simp: Store_RedeemLoginToken_def Let_def split: option.splits)
  then show "acct_step lower db (snd (RedeemLoginToken env tok db))"
    by (intro as_other) (auto simp: RedeemLoginToken_def split: prod.splits sum.splits StoreError.splits, (metis snd_conv)+)
qed

lemma matches_unique:
  assumes "accounts_ok lower db" and "\<And>s. CHR ''@'' \<in> set (lower s) \<longleftrightarrow> CHR ''@'' \<in> set s"
    and "u \<in> set (users db)" "v \<in> set (users db)" and "matches lower ident u" "matches lower ident v"
  shows "u = v"
proof (rule ccontr)
  assume "u \<noteq> v"
  then have "rows_apart lower u v" using assms(1,3,4) same_id [OF assms(1,3,4)] unfolding accounts_ok_def by blast
  moreover have "row_ok u" "row_ok v" using assms(1,3,4) by (auto simp: accounts_ok_def)
  moreover have no: "lower (u_username x) \<noteq> lower e" if "row_ok x" "row_ok y" "u_email y = Some e" for x y e
  proof
    assume "lower (u_username x) = lower e"
    then have "CHR ''@'' \<in> set (u_username x) \<longleftrightarrow> CHR ''@'' \<in> set e" using assms(2) by metis
    then show False using that unfolding row_ok_def by blast
  qed
  ultimately show False using assms(5,6) no [of u v] no [of v u] unfolding matches_def rows_apart_def
    by (elim disjE) (force simp: eq_commute [of "lower ident"])+
qed

section \<open>Properties\<close>

text \<open>
  Accounts stay well formed, whatever the order of sign-ups, upgrades and rating changes: at most
  one account answers to an identifier, although it may be given as a username or as an email
  address in any capitalisation, no two accounts share an id, and exactly the accounts named
  \<open>guest-\<dots>\<close> are guests, which are exactly the accounts without a password.
  SQL's \<open>lower\<close> is assumed to neither add nor remove an \<open>@\<close>.
\<close>

theorem identifier_names_one_account:
  assumes "acct_reach lower db" and "\<And>s. CHR ''@'' \<in> set (lower s) \<longleftrightarrow> CHR ''@'' \<in> set s" and "u \<in> set (users db)"
  shows "(\<forall>v \<in> set (users db). matches lower ident u \<and> matches lower ident v \<longrightarrow> u = v) \<and>
    (\<forall>v \<in> set (users db). u_id u = u_id v \<longrightarrow> u = v) \<and>
    (u_is_guest u \<longleftrightarrow> guestPrefix (u_username u)) \<and> (u_is_guest u \<longleftrightarrow> u_password_hash u = None)"
proof -
  have ok: "accounts_ok lower db" using assms(1) by (rule acct_reach_ok)
  then have "row_ok u" using assms(3) by (simp add: accounts_ok_def)
  then show ?thesis using matches_unique [OF ok assms(2,3)] same_id [OF ok assms(3)] unfolding row_ok_def by metis
qed

text \<open>
  Signing up works: after a successful registration the account is no guest, its username and,
  when one was given, its email address sign in with the password and return this account, and
  no game, move or token changed; upgrading a guest keeps the account's id, rating and games.
  Bcrypt is assumed to accept the password a hash was generated from.
\<close>

theorem register_then_login:
  assumes "acct_reach (ae_lower env) db" and "\<And>s. CHR ''@'' \<in> set (ae_lower env s) \<longleftrightarrow> CHR ''@'' \<in> set s"
    and "Register env req db = (Inr pu, db')"
    and "ae_lower env' = ae_lower env" and "ae_up env' 0"
    and "\<And>h. ae_generate env (rr_Password req) = Some h \<Longrightarrow> h \<noteq> '''' \<and> ae_compare env' h (rr_Password req)"
  shows "Login env' (rr_Username req) (rr_Password req) db' = Inr pu \<and>
    (TrimSpace (TrimSpace (rr_Email req)) \<noteq> '''' \<longrightarrow> Login env' (rr_Email req) (rr_Password req) db' = Inr pu) \<and>
    \<not> pu_IsGuest pu \<and> games db' = games db \<and> moves db' = moves db \<and> tokens db' = tokens db \<and>
    (rr_UpgradeUserId req \<noteq> '''' \<longrightarrow> (\<exists>u \<in> set (users db). u_is_guest u \<and> u_id u = rr_UpgradeUserId req \<and>
       pu_Id pu = u_id u \<and> pu_Elo pu = wrap32 (u_elo u)))"
  using acct_reach_ok [OF assms(1)] assms(3)
proof (cases rule: Register_inv)
  case (stored hash r)
  have pu: "pu = toProtoUser (scanUser db' r) True" using stored(9) by (simp split: if_splits)
  have h: "hash \<noteq> ''''" "ae_compare env' hash (rr_Password req)" using assms(6) stored(2) by auto
  have log: "Login env' ident (rr_Password req) db' = Inr pu"
    if "TrimSpace ident \<noteq> ''''" "matches (ae_lower env) (TrimSpace ident) r" for ident
  proof -
    have "find (matches (ae_lower env) (TrimSpace ident)) (users db') = Some r"
    proof (rule find_unique)
      show "y = r" if "y \<in> set (users db')" "matches (ae_lower env) (TrimSpace ident) y" for y
        by (rule matches_unique [OF stored(5) assms(2) that(1) stored(4) that(2)]) (rule \<open>matches (ae_lower env) (TrimSpace ident) r\<close>)
    qed (use stored(4) that(2) in simp_all)
    then have "FindUserByIdentifier (ae_lower env) True (TrimSpace ident) db' = Inr (scanUser db' r)"
      by (simp add: FindUserByIdentifier_def matches_def [abs_def])
    moreover have "rr_Password req \<noteq> ''''" using stored(1) by (auto simp: checked_def validatePassword_def minPasswordLen_def)
    ultimately show ?thesis using that(1) assms(4,5) stored(3) h
      by (simp add: Login_def Let_def pu scanUser_def registered_def)
  qed
  have "Login env' (rr_Username req) (rr_Password req) db' = Inr pu"
    using stored(1,3) valid_name_no_at(3) by (intro log) (auto simp: checked_def registered_def matches_def)
  moreover have "Login env' (rr_Email req) (rr_Password req) db' = Inr pu" if "TrimSpace (TrimSpace (rr_Email req)) \<noteq> ''''"
    using that stored(3) by (intro log) (auto simp: registered_def matches_def nullIfEmpty_def TrimSpace_Nil)
  moreover have "\<not> pu_IsGuest pu" "pu_Id pu = u_id r" "pu_Elo pu = wrap32 (u_elo r)"
    using stored(3) by (simp_all add: pu toProtoUser_def scanUser_def registered_def)
  moreover have "\<exists>u \<in> set (users db). u_is_guest u \<and> u_id u = rr_UpgradeUserId req \<and> u_id r = u_id u \<and> u_elo r = u_elo u"
    if "rr_UpgradeUserId req \<noteq> ''''" using stored(10) that by (metis (full_types))
  ultimately show ?thesis using stored(6,7,8) by metis
qed simp

text \<open>
  C38. The sign-in endpoints do not tell whether an account exists.  As long as the database answers
  and random bytes are to be had, asking for a sign-in link gives, for every address and whatever
  accounts there are, an answer with the same expiry, the same flag and a token exactly when no
  mail is sent; a failed login always has the same code; and the decoy token of an unknown
  address redeems like an expired one.
\<close>

theorem sign_in_reveals_nothing:
  assumes "\<And>n. ae_up env n" and "TrimSpace address \<noteq> ''''" and "ae_decoy env = Some decoy" and "decoy \<noteq> ''''" and "ae_token env \<noteq> ''''"
    and "\<forall>t \<in> set (tokens db). t_hash t \<noteq> ae_hashToken env (ae_token env) \<and> t_hash t \<noteq> ae_hashToken env decoy"
  shows "(\<exists>r. fst (RequestLoginToken env address db) = Inr r \<and> tr_ExpiresAt r = Some (ae_now env + loginTokenTTL) \<and>
      tr_DeliveredInBand r = (\<not> ae_deliverTokens env) \<and> (tr_Token r = '''' \<longleftrightarrow> ae_deliverTokens env)) \<and>
    (TrimSpace ident \<noteq> '''' \<and> pw \<noteq> '''' \<longrightarrow> Login env ident pw db \<in> insert (Inl Unauthenticated) (range Inr)) \<and>
    RedeemLoginToken env decoy db = (Inl Unauthenticated, db)"
proof (intro conjI)
  have fresh: "\<not> list_ex (\<lambda>t. t_hash t = ae_hashToken env (ae_token env)) (tokens db)" using assms(6) by (auto simp: list_ex_iff)
  have decoy: "decoyTokenResponse env = (if ae_deliverTokens env
      then \<lparr>tr_Token = '''', tr_ExpiresAt = Some (ae_now env + loginTokenTTL), tr_DeliveredInBand = False\<rparr>
      else \<lparr>tr_Token = decoy, tr_ExpiresAt = Some (ae_now env + loginTokenTTL), tr_DeliveredInBand = True\<rparr>)"
    using assms(3) by (simp add: decoyTokenResponse_def loginTokenTTL_def)
  show "\<exists>r. fst (RequestLoginToken env address db) = Inr r \<and> tr_ExpiresAt r = Some (ae_now env + loginTokenTTL) \<and>
      tr_DeliveredInBand r = (\<not> ae_deliverTokens env) \<and> (tr_Token r = '''' \<longleftrightarrow> ae_deliverTokens env)"
  proof (cases "FindUserByIdentifier (ae_lower env) True (TrimSpace address) db")
    case (Inl e)
    then have "e = ErrNotFound" by (simp add: FindUserByIdentifier_def split: option.splits)
    then show ?thesis using Inl assms(1,2,4) decoy by (simp add: RequestLoginToken_def NewLoginToken_def)
  next
    case (Inr u)
    then show ?thesis using assms(1,2,4,5) decoy fresh by (cases "usr_Email u = ''''") (simp_all add: RequestLoginToken_def NewLoginToken_def)
  qed
  show "TrimSpace ident \<noteq> '''' \<and> pw \<noteq> '''' \<longrightarrow> Login env ident pw db \<in> insert (Inl Unauthenticated) (range Inr)"
    using assms(1) by (auto simp: Login_def FindUserByIdentifier_def Let_def split: option.splits)
  have "find (redeemable (ae_hashToken env decoy) now) (tokens db) = None" for now
    using assms(6) by (auto simp: find_None_iff redeemable_def)
  then show "RedeemLoginToken env decoy db = (Inl Unauthenticated, db)"
    using assms(1,4) by (simp add: RedeemLoginToken_def Store_RedeemLoginToken_def)
qed

section \<open>Instances\<close>

definition demoAuth :: AuthEnv where
  "demoAuth = \<lparr>ae_up = (\<lambda>_. True), ae_now = 9, ae_newUser = ''u'', ae_lower = map lowerByte, ae_letter = (\<lambda>_. False),
     ae_hashToken = (\<lambda>t. t), ae_token = ''tok'', ae_decoy = Some ''dec'', ae_generate = (\<lambda>pw. Some (''#'' @ pw)),
     ae_compare = (\<lambda>h pw. h = ''#'' @ pw), ae_deliverTokens = False\<rparr>"

definition demoSignup :: RegisterRequest where
  "demoSignup = \<lparr>rr_Username = '' Ann '', rr_Password = ''longpass'', rr_Email = ''a@b'', rr_UpgradeUserId = ''g''\<rparr>"

definition demoGuest :: DB where
  "demoGuest = snd (CreateGuestUser (map lowerByte) True ''g'' 1 (demoUsers\<lparr>users := []\<rparr>))"

lemma of_char_Char_64: "of_char (CHR ''@'') = (64 :: nat)"
  by simp

lemma lowerByte_at: "CHR ''@'' \<in> set (map lowerByte s) \<longleftrightarrow> CHR ''@'' \<in> set s"
proof -
  have "lowerByte c = CHR ''@'' \<longleftrightarrow> c = CHR ''@''" for c
  proof (cases "byte_in c 65 90")
    case True
    moreover have "(of_char c :: int) = int (of_char c)" by (rule of_nat_of_char [symmetric])
    ultimately have r: "65 \<le> (of_char c :: nat)" "(of_char c :: nat) \<le> 90" unfolding byte_in_def by linarith+
    then have "of_char (lowerByte c) = (of_char c + 32 :: nat)" using True by (simp add: lowerByte_def)
    then have "of_char (lowerByte c) \<noteq> (64 :: nat)" using r by simp
    moreover have "c \<noteq> CHR ''@''" using r by auto
    ultimately show ?thesis by (metis of_char_Char_64)
  qed (simp add: lowerByte_def)
  then show ?thesis unfolding set_map image_iff by metis
qed

lemma demo_guest: "acct_reach (map lowerByte) demoGuest"
proof -
  have "acct_reach (map lowerByte) (demoUsers\<lparr>users := []\<rparr>)" by (rule ar_init) simp
  moreover have "CHR ''@'' \<notin> set ''g''" by simp
  ultimately show ?thesis unfolding demoGuest_def using ar_step as_guest by blast
qed

theorem identifier_names_one_account_witness:
  "list_all (\<lambda>v. u_is_guest v \<longleftrightarrow> guestPrefix (u_username v)) (users demoGuest)"
  using identifier_names_one_account [OF demo_guest lowerByte_at] unfolding list_all_iff by blast

lemma demo_signup: "\<exists>pu db'. Register demoAuth demoSignup demoGuest = (Inr pu, db')"
proof -
  have "isl (fst (Register demoAuth demoSignup demoGuest)) = False" by code_simp
  then show ?thesis by (cases "Register demoAuth demoSignup demoGuest"; cases "fst (Register demoAuth demoSignup demoGuest)") auto
qed

theorem register_then_login_witness:
  "\<exists>pu. Login demoAuth '' Ann '' ''longpass'' (snd (Register demoAuth demoSignup demoGuest)) = Inr pu \<and> pu_Id pu = ''g''"
proof -
  obtain pu db' where R: "Register demoAuth demoSignup demoGuest = (Inr pu, db')" using demo_signup by blast
  have "acct_reach (ae_lower demoAuth) demoGuest" using demo_guest by (simp add: demoAuth_def)
  from register_then_login [OF this _ R, of demoAuth] show ?thesis
    using lowerByte_at R by (auto simp: demoAuth_def demoSignup_def)
qed

theorem sign_in_reveals_nothing_witness:
  "\<exists>r. fst (RequestLoginToken demoAuth ''no@body'' demoGuest) = Inr r \<and> tr_Token r \<noteq> '''' \<and> tr_DeliveredInBand r"
proof -
  have t: "tokens demoGuest = []" by (simp add: demoGuest_def CreateGuestUser_def demoUsers_def Let_def)
  have s: "TrimSpace ''no@body'' \<noteq> ''''" by code_simp
  show ?thesis using sign_in_reveals_nothing [of demoAuth "''no@body''" "''dec''" demoGuest] t s by (auto simp: demoAuth_def)
qed

end
