(* ===== verification/Gateway.thy ===== *)
theory Gateway
  imports Auth_Server Game_History
begin

text \<open>
  The edge of the platform (\<open>services/gateway\<close>): session tokens
  (\<open>internal/auth/auth.go\<close>), the mapping to the public types (\<open>graph/mapping.go\<close>, \<open>graph/auth.go\<close>) and the
  GraphQL resolvers (\<open>graph/schema.resolvers.go\<close>), each composed with the handler of the
  service that it calls, so that a resolver is a function of the tables.

  The JWT library is a parameter: \<open>jwt_sign\<close> signs claims with HS256, and \<open>jwt_parse\<close> returns the
  claims of a token that is signed with the secret and HS256, names the issuer and has not
  expired.  What is relied on is \<open>jwt_law\<close>: a signed token is parsed back until it expires.  Times
  are in seconds.  Transport errors between the services are not modelled beyond the codes of the
  handlers; subscriptions are not modelled here.
\<close>

section \<open>Session tokens\<close>

definition issuer :: string where "issuer = ''alekhine-gateway''"
definition DefaultTTL :: int where "DefaultTTL = 30 * 24 * 60 * 60"

record Identity =
  id_UserID :: string
  id_Username :: string
  id_IsGuest :: bool

record Claims =
  clm_Subject :: string
  clm_Issuer :: string
  clm_IssuedAt :: int
  clm_ExpiresAt :: int
  clm_Username :: string
  clm_IsGuest :: bool

record Signer =
  sg_secret :: string
  sg_ttl :: int
  sg_secure :: bool

definition NewSigner :: "string \<Rightarrow> int \<Rightarrow> bool \<Rightarrow> Signer option" where
  "NewSigner secret ttl secure =
     (if length secret < 32 then None
      else Some \<lparr>sg_secret = secret, sg_ttl = (if ttl \<le> 0 then DefaultTTL else ttl), sg_secure = secure\<rparr>)"

record Jwt =
  jwt_sign :: "string \<Rightarrow> Claims \<Rightarrow> string option"
  jwt_parse :: "string \<Rightarrow> string \<Rightarrow> int \<Rightarrow> string \<Rightarrow> Claims option"

definition Mint :: "Jwt \<Rightarrow> int \<Rightarrow> Signer \<Rightarrow> Identity \<Rightarrow> (string \<times> int) option" where
  "Mint jwt now s i =
     (let expiresAt = now + sg_ttl s;
          claims = \<lparr>clm_Subject = id_UserID i, clm_Issuer = issuer, clm_IssuedAt = now, clm_ExpiresAt = expiresAt,
                    clm_Username = id_Username i, clm_IsGuest = id_IsGuest i\<rparr>
      in case jwt_sign jwt (sg_secret s) claims of None \<Rightarrow> None | Some token \<Rightarrow> Some (token, expiresAt))"

definition Verify :: "Jwt \<Rightarrow> int \<Rightarrow> Signer \<Rightarrow> string \<Rightarrow> Identity option" where
  "Verify jwt now s token =
     (case jwt_parse jwt (sg_secret s) issuer now token of
        None \<Rightarrow> None
      | Some c \<Rightarrow>
          if clm_Subject c = '''' then None
          else Some \<lparr>id_UserID = clm_Subject c, id_Username = clm_Username c, id_IsGuest = clm_IsGuest c\<rparr>)"

definition CookieName :: string where "CookieName = ''acg_session''"

datatype SameSite = LaxMode

record Cookie =
  ck_Name :: string
  ck_Value :: string
  ck_Path :: string
  ck_Expires :: "int option"
  ck_MaxAge :: int
  ck_HttpOnly :: bool
  ck_Secure :: bool
  ck_SameSite :: SameSite

definition SetCookie :: "Signer \<Rightarrow> string \<Rightarrow> int \<Rightarrow> Cookie" where
  "SetCookie s token expiresAt =
     \<lparr>ck_Name = CookieName, ck_Value = token, ck_Path = ''/'', ck_Expires = Some expiresAt, ck_MaxAge = 0, ck_HttpOnly = True,
      ck_Secure = sg_secure s, ck_SameSite = LaxMode\<rparr>"

definition ClearCookie :: "Signer \<Rightarrow> Cookie" where
  "ClearCookie s =
     \<lparr>ck_Name = CookieName, ck_Value = '''', ck_Path = ''/'', ck_Expires = None, ck_MaxAge = -1, ck_HttpOnly = True,
      ck_Secure = sg_secure s, ck_SameSite = LaxMode\<rparr>"

definition bearer :: string where "bearer = ''Bearer ''"

definition hasBearer :: "string \<Rightarrow> bool" where
  "hasBearer h \<longleftrightarrow> take (length bearer) h = bearer"

definition trimBearer :: "string \<Rightarrow> string" where
  "trimBearer h = (if hasBearer h then drop (length bearer) h else h)"

text \<open>A request: the value of the session cookie, and the header.\<close>

record Request =
  rq_cookie :: "string option"
  rq_Authorization :: string

definition tokenFrom :: "Request \<Rightarrow> string" where
  "tokenFrom r =
     (case rq_cookie r of
        Some v \<Rightarrow> if v \<noteq> '''' then v else if hasBearer (rq_Authorization r) then trimBearer (rq_Authorization r) else ''''
      | None \<Rightarrow> if hasBearer (rq_Authorization r) then trimBearer (rq_Authorization r) else '''')"

text \<open>The context of a request: who makes it, and whether there is a response to put a cookie on.\<close>

record Ctx =
  cx_identity :: "Identity option"
  cx_writer :: bool

definition Middleware :: "Jwt \<Rightarrow> int \<Rightarrow> Signer \<Rightarrow> Request \<Rightarrow> Ctx" where
  "Middleware jwt now s r =
     \<lparr>cx_identity = (if tokenFrom r \<noteq> '''' then Verify jwt now s (tokenFrom r) else None), cx_writer = True\<rparr>"

definition WithIdentity :: "Ctx \<Rightarrow> Identity \<Rightarrow> Ctx" where
  "WithIdentity ctx i = ctx\<lparr>cx_identity := Some i\<rparr>"

text \<open>\<open>payload\<close> gives the entries of the connection's first message that are strings.\<close>

definition VerifyInitPayload :: "Jwt \<Rightarrow> int \<Rightarrow> Signer \<Rightarrow> (string \<Rightarrow> string option) \<Rightarrow> Ctx \<Rightarrow> Ctx" where
  "VerifyInitPayload jwt now s payload ctx =
     (let entry = (\<lambda>k. case payload k of Some v \<Rightarrow> v | None \<Rightarrow> '''');
          raw = (if entry ''Authorization'' = '''' then entry ''authorization'' else entry ''Authorization'');
          token = trimBearer raw
      in if token = '''' \<or> token = raw \<and> \<not> hasBearer raw then ctx
         else case Verify jwt now s token of None \<Rightarrow> ctx | Some i \<Rightarrow> WithIdentity ctx i)"

datatype GqlError = NotSignedIn | MintFailed | Upstream Code

definition FromContext :: "Ctx \<Rightarrow> Identity option" where
  "FromContext ctx = cx_identity ctx"

definition requireIdentity :: "Ctx \<Rightarrow> GqlError + Identity" where
  "requireIdentity ctx = (case FromContext ctx of None \<Rightarrow> Inl NotSignedIn | Some i \<Rightarrow> Inr i)"

section \<open>Public types\<close>

datatype ModelStatus = WHITE_WON | BLACK_WON | DRAW_GAME | IN_PROGRESS

fun toModelStatus :: "ProtoStatus \<Rightarrow> ModelStatus" where
  "toModelStatus STATUS_WHITE_WON = WHITE_WON"
| "toModelStatus STATUS_BLACK_WON = BLACK_WON"
| "toModelStatus STATUS_DRAW = DRAW_GAME"
| "toModelStatus _ = IN_PROGRESS"

definition toModelEndReason :: "ProtoEndReason \<Rightarrow> ProtoEndReason option" where
  "toModelEndReason r = (if r = END_REASON_UNSPECIFIED then None else Some r)"

definition unlessEmpty :: "string \<Rightarrow> string option" where
  "unlessEmpty s = (if s \<noteq> '''' then Some s else None)"

record ModelGame =
  mg_ID :: string
  mg_Fen :: string
  mg_Status :: ModelStatus
  mg_VsEngine :: bool
  mg_AwaitingOpponent :: bool
  mg_Rated :: bool
  mg_WhiteID :: string
  mg_BlackID :: "string option"
  mg_EndReason :: "ProtoEndReason option"
  mg_StartedAt :: int
  mg_EndedAt :: "int option"
  mg_Moves :: "StoredMove list"

definition toModelGame :: "ProtoGame \<Rightarrow> ModelGame" where
  "toModelGame g =
     \<lparr>mg_ID = pg_Id g, mg_Fen = pg_Fen g, mg_Status = toModelStatus (pg_Status g), mg_VsEngine = pg_VsEngine g,
      mg_AwaitingOpponent = pg_AwaitingOpponent g, mg_Rated = pg_Rated g, mg_WhiteID = pg_WhiteId g,
      mg_BlackID = unlessEmpty (pg_BlackId g), mg_EndReason = toModelEndReason (pg_EndReason g), mg_StartedAt = pg_StartedAt g,
      mg_EndedAt = pg_EndedAt g, mg_Moves = pg_Moves g\<rparr>"

record ModelSummary =
  ms_ID :: string
  ms_WhiteID :: string
  ms_WhiteName :: string
  ms_BlackID :: "string option"
  ms_BlackName :: string
  ms_VsEngine :: bool
  ms_Rated :: bool
  ms_Status :: ModelStatus
  ms_EndReason :: "ProtoEndReason option"
  ms_MoveCount :: int
  ms_StartedAt :: int
  ms_EloDelta :: "int option"
  ms_EndedAt :: "int option"

definition toModelSummary :: "GameSummary \<Rightarrow> ModelSummary" where
  "toModelSummary g =
     \<lparr>ms_ID = gs_Id g, ms_WhiteID = gs_WhiteId g, ms_WhiteName = gs_WhiteName g, ms_BlackID = unlessEmpty (gs_BlackId g),
      ms_BlackName = gs_BlackName g, ms_VsEngine = gs_VsEngine g, ms_Rated = gs_Rated g, ms_Status = toModelStatus (gs_Status g),
      ms_EndReason = toModelEndReason (gs_EndReason g), ms_MoveCount = gs_MoveCount g, ms_StartedAt = gs_StartedAt g,
      ms_EloDelta = (if gs_HasEloDelta g then Some (gs_EloDelta g) else None), ms_EndedAt = gs_EndedAt g\<rparr>"

record ModelUser =
  mu_ID :: string
  mu_Username :: string
  mu_Email :: "string option"
  mu_Elo :: int
  mu_IsGuest :: bool
  mu_GamesPlayed :: int
  mu_CreatedAt :: int

definition toModelUser :: "ProtoUser \<Rightarrow> ModelUser" where
  "toModelUser u =
     \<lparr>mu_ID = pu_Id u, mu_Username = pu_Username u, mu_Email = unlessEmpty (pu_Email u), mu_Elo = pu_Elo u,
      mu_IsGuest = pu_IsGuest u, mu_GamesPlayed = pu_GamesPlayed u, mu_CreatedAt = pu_CreatedAt u\<rparr>"

record ModelAnalysis =
  man_GameID :: string
  man_Depth :: int
  man_White :: SideReport
  man_Black :: SideReport
  man_Moves :: "ProtoVerdict list"
  man_Novelty :: "(string \<times> int) option"
  man_AnalyzedAt :: int

definition toModelAnalysis :: "GetAnalysisResponse \<Rightarrow> ModelAnalysis" where
  "toModelAnalysis r =
     \<lparr>man_GameID = ga_GameId r, man_Depth = ga_Depth r, man_White = ga_White r, man_Black = ga_Black r, man_Moves = ga_Moves r,
      man_Novelty = (if ga_HasNovelty r then Some (ga_NoveltyFen r, ga_NoveltyPly r) else None), man_AnalyzedAt = ga_AnalyzedAt r\<rparr>"

section \<open>Signing in\<close>

record Session =
  ses_User :: ModelUser
  ses_Token :: string
  ses_ExpiresAt :: int

text \<open>The gateway: its signer, the JWT library and the clock; the session and the cookie that is set.\<close>

record Gw =
  gw_jwt :: Jwt
  gw_signer :: Signer
  gw_now :: int

definition startSession :: "Gw \<Rightarrow> Ctx \<Rightarrow> ProtoUser \<Rightarrow> (GqlError + Session) \<times> Cookie option" where
  "startSession gw ctx u =
     (case Mint (gw_jwt gw) (gw_now gw) (gw_signer gw) \<lparr>id_UserID = pu_Id u, id_Username = pu_Username u, id_IsGuest = pu_IsGuest u\<rparr> of
        None \<Rightarrow> (Inl MintFailed, None)
      | Some (token, expiresAt) \<Rightarrow>
          (Inr \<lparr>ses_User = toModelUser u, ses_Token = token, ses_ExpiresAt = expiresAt\<rparr>,
           if cx_writer ctx then Some (SetCookie (gw_signer gw) token expiresAt) else None))"

text \<open>What every sign-in does with the answer of the identity service.\<close>

definition signedIn :: "Gw \<Rightarrow> Ctx \<Rightarrow> Code + ProtoUser \<Rightarrow> (GqlError + Session) \<times> Cookie option" where
  "signedIn gw ctx resp = (case resp of Inl c \<Rightarrow> (Inl (Upstream c), None) | Inr u \<Rightarrow> startSession gw ctx u)"

definition LoginAsGuest :: "Gw \<Rightarrow> AuthEnv \<Rightarrow> Ctx \<Rightarrow> DB \<Rightarrow> ((GqlError + Session) \<times> Cookie option) \<times> DB" where
  "LoginAsGuest gw ae ctx db = (case CreateGuest ae db of (resp, db) \<Rightarrow> (signedIn gw ctx resp, db))"

record RegisterInput =
  ri_Username :: string
  ri_Password :: string
  ri_Email :: "string option"
  ri_UpgradeCurrentGuest :: "bool option"

definition deref :: "string option \<Rightarrow> string" where
  "deref s = (case s of None \<Rightarrow> '''' | Some v \<Rightarrow> v)"

definition derefInt :: "int option \<Rightarrow> int" where
  "derefInt i = (case i of None \<Rightarrow> 0 | Some v \<Rightarrow> v)"

definition registerRequest :: "Ctx \<Rightarrow> RegisterInput \<Rightarrow> RegisterRequest" where
  "registerRequest ctx input =
     \<lparr>rr_Username = ri_Username input, rr_Password = ri_Password input, rr_Email = deref (ri_Email input),
      rr_UpgradeUserId =
        (if ri_UpgradeCurrentGuest input = Some True
         then (case FromContext ctx of Some i \<Rightarrow> if id_IsGuest i then id_UserID i else '''' | None \<Rightarrow> '''') else '''')\<rparr>"

definition Gw_Register :: "Gw \<Rightarrow> AuthEnv \<Rightarrow> Ctx \<Rightarrow> RegisterInput \<Rightarrow> DB \<Rightarrow> ((GqlError + Session) \<times> Cookie option) \<times> DB" where
  "Gw_Register gw ae ctx input db = (case Register ae (registerRequest ctx input) db of (resp, db) \<Rightarrow> (signedIn gw ctx resp, db))"

definition Gw_Login :: "Gw \<Rightarrow> AuthEnv \<Rightarrow> Ctx \<Rightarrow> string \<Rightarrow> string \<Rightarrow> DB \<Rightarrow> (GqlError + Session) \<times> Cookie option" where
  "Gw_Login gw ae ctx identifier password db = signedIn gw ctx (Login ae identifier password db)"

record LoginTokenRequest =
  ltr_Token :: "string option"
  ltr_ExpiresAt :: "int option"
  ltr_DeliveredInBand :: bool

definition Gw_RequestLoginToken :: "AuthEnv \<Rightarrow> string \<Rightarrow> DB \<Rightarrow> (GqlError + LoginTokenRequest) \<times> DB" where
  "Gw_RequestLoginToken ae email db =
     (case RequestLoginToken ae email db of
        (Inl c, db) \<Rightarrow> (Inl (Upstream c), db)
      | (Inr r, db) \<Rightarrow> (Inr \<lparr>ltr_Token = unlessEmpty (tr_Token r), ltr_ExpiresAt = tr_ExpiresAt r,
                            ltr_DeliveredInBand = tr_DeliveredInBand r\<rparr>, db))"

definition Gw_RedeemLoginToken :: "Gw \<Rightarrow> AuthEnv \<Rightarrow> Ctx \<Rightarrow> string \<Rightarrow> DB \<Rightarrow> ((GqlError + Session) \<times> Cookie option) \<times> DB" where
  "Gw_RedeemLoginToken gw ae ctx token db = (case RedeemLoginToken ae token db of (resp, db) \<Rightarrow> (signedIn gw ctx resp, db))"

definition Logout :: "Gw \<Rightarrow> Ctx \<Rightarrow> bool \<times> Cookie option" where
  "Logout gw ctx = (True, if cx_writer ctx then Some (ClearCookie (gw_signer gw)) else None)"

section \<open>Playing\<close>

text \<open>The result, the tables, the effects of the service and the game published to subscribers.\<close>

type_synonym 'a resolved = "(GqlError + 'a) \<times> DB \<times> Effect list \<times> ModelGame option"

record CreateGameInput =
  cg_BlackID :: "string option"
  cg_EngineDepth :: "int option"
  cg_InitialMs :: "int option"
  cg_IncrementMs :: "int option"
  cg_Rated :: "bool option"
  cg_VsEngine :: "bool option"

definition asSelf :: "Ctx \<Rightarrow> DB \<Rightarrow> (Identity \<Rightarrow> ProtoGame handled) \<Rightarrow> bool \<Rightarrow> ModelGame resolved" where
  "asSelf ctx db call announce =
     (case requireIdentity ctx of
        Inl e \<Rightarrow> (Inl e, db, [], None)
      | Inr i \<Rightarrow>
          (case call i of
             (Inl c, db, fx) \<Rightarrow> (Inl (Upstream c), db, fx, None)
           | (Inr g, db, fx) \<Rightarrow> (Inr (toModelGame g), db, fx, if announce then Some (toModelGame g) else None)))"

definition Gw_CreateGame :: "Srv \<Rightarrow> Env \<Rightarrow> Ctx \<Rightarrow> CreateGameInput \<Rightarrow> DB \<Rightarrow> ModelGame resolved" where
  "Gw_CreateGame srv env ctx input db =
     asSelf ctx db (\<lambda>i. CreateGame srv env
       \<lparr>cr_WhiteId = id_UserID i, cr_BlackId = deref (cg_BlackID input), cr_VsEngine = (cg_VsEngine input = Some True),
        cr_EngineDepth = uwrap32 (derefInt (cg_EngineDepth input)), cr_Rated = (cg_Rated input = Some True),
        cr_InitialMs = derefInt (cg_InitialMs input), cr_IncrementMs = derefInt (cg_IncrementMs input)\<rparr> db) False"

definition Gw_Move :: "Srv \<Rightarrow> Env \<Rightarrow> Ctx \<Rightarrow> string \<Rightarrow> string \<Rightarrow> DB \<Rightarrow> ModelGame resolved" where
  "Gw_Move srv env ctx gameID uci db = asSelf ctx db (\<lambda>i. SubmitMove srv env gameID uci (id_UserID i) db) True"

definition Gw_Resign :: "Srv \<Rightarrow> Env \<Rightarrow> Ctx \<Rightarrow> string \<Rightarrow> DB \<Rightarrow> ModelGame resolved" where
  "Gw_Resign srv env ctx gameID db = asSelf ctx db (\<lambda>i. Resign srv env gameID (id_UserID i) db) True"

definition Gw_JoinGame :: "Srv \<Rightarrow> Env \<Rightarrow> Ctx \<Rightarrow> string \<Rightarrow> DB \<Rightarrow> ModelGame resolved" where
  "Gw_JoinGame srv env ctx gameID db = asSelf ctx db (\<lambda>i. JoinGame srv env gameID (id_UserID i) db) True"

section \<open>Reading\<close>

text \<open>A missing object is null, not an error.\<close>

definition nullable :: "('a \<Rightarrow> 'b) \<Rightarrow> Code + 'a \<Rightarrow> GqlError + 'b option" where
  "nullable f resp =
     (case resp of Inl NotFound \<Rightarrow> Inr None | Inl c \<Rightarrow> Inl (Upstream c) | Inr x \<Rightarrow> Inr (Some (f x)))"

definition Me :: "AuthEnv \<Rightarrow> Ctx \<Rightarrow> DB \<Rightarrow> GqlError + ModelUser option" where
  "Me ae ctx db = (case FromContext ctx of None \<Rightarrow> Inr None | Some i \<Rightarrow> nullable toModelUser (GetUser ae (id_UserID i) db))"

definition Gw_User :: "AuthEnv \<Rightarrow> string \<Rightarrow> DB \<Rightarrow> GqlError + ModelUser option" where
  "Gw_User ae uid db = nullable toModelUser (GetUser ae uid db)"

definition GameHistory :: "Env \<Rightarrow> Ctx \<Rightarrow> string option \<Rightarrow> int option \<Rightarrow> int option \<Rightarrow> DB \<Rightarrow> GqlError + (ModelSummary list \<times> int)" where
  "GameHistory env ctx userID limit offset db =
     (let list = (\<lambda>target. case ListGames env target (wrap32 (derefInt limit)) (wrap32 (derefInt offset)) db of
            Inl c \<Rightarrow> Inl (Upstream c) | Inr (gs, n) \<Rightarrow> Inr (map toModelSummary gs, n))
      in if deref userID \<noteq> '''' then list (deref userID)
         else case requireIdentity ctx of Inl e \<Rightarrow> Inl e | Inr i \<Rightarrow> list (id_UserID i))"

definition Gw_Leaderboard :: "(string \<Rightarrow> 'k :: linorder) \<Rightarrow> Env \<Rightarrow> int option \<Rightarrow> DB \<Rightarrow> GqlError + RankEntry list" where
  "Gw_Leaderboard byName env limit db =
     (case Leaderboard byName env (wrap32 (derefInt limit)) db of Inl c \<Rightarrow> Inl (Upstream c) | Inr es \<Rightarrow> Inr es)"

definition Gw_Game :: "Env \<Rightarrow> string \<Rightarrow> DB \<Rightarrow> GqlError + ModelGame option" where
  "Gw_Game env gid db = nullable toModelGame (Server_GetGame env gid db)"

definition Gw_OpeningExplorer :: "(string \<Rightarrow> 'k :: linorder) \<Rightarrow> Env \<Rightarrow> string option \<Rightarrow> int option \<Rightarrow> DB \<Rightarrow> GqlError + (OpeningMove list \<times> int)" where
  "Gw_OpeningExplorer byUci env fen limit db =
     (case OpeningExplorer byUci env (deref fen) (wrap32 (derefInt limit)) db of Inl c \<Rightarrow> Inl (Upstream c) | Inr r \<Rightarrow> Inr r)"

definition GamePgnURL :: "Srv \<Rightarrow> (string \<Rightarrow> bool option) \<Rightarrow> (string \<Rightarrow> string option) \<Rightarrow> string \<Rightarrow> GqlError + string option" where
  "GamePgnURL srv exists presigned gid =
     (case GamePgnUrl srv exists presigned gid of Inl c \<Rightarrow> Inl (Upstream c) | Inr url \<Rightarrow> Inr (unlessEmpty url))"

definition GameAnalysis :: "Env \<Rightarrow> string \<Rightarrow> Reports \<Rightarrow> GqlError + ModelAnalysis option" where
  "GameAnalysis env gid rs = nullable toModelAnalysis (GetAnalysis env gid rs)"

definition Gw_LegalMoves :: "Env \<Rightarrow> string \<Rightarrow> DB \<Rightarrow> GqlError + string list" where
  "Gw_LegalMoves env gid db = (case Server_LegalMoves env gid db of Inl c \<Rightarrow> Inl (Upstream c) | Inr ms \<Rightarrow> Inr ms)"

section \<open>Lemmas\<close>

definition jwt_law :: "Jwt \<Rightarrow> bool" where
  "jwt_law jwt \<longleftrightarrow> (\<forall>secret c t now. jwt_sign jwt secret c = Some t \<longrightarrow> t \<noteq> '''' \<and>
     (now < clm_ExpiresAt c \<longrightarrow> jwt_parse jwt secret (clm_Issuer c) now t = Some c))"

text \<open>The two ways in which a client sends its token.\<close>

definition carries :: "Request \<Rightarrow> string \<Rightarrow> bool" where
  "carries r token \<longleftrightarrow> rq_cookie r = Some token \<or> rq_cookie r = None \<and> rq_Authorization r = bearer @ token"

lemma carries_token: "carries r token \<Longrightarrow> token \<noteq> '''' \<Longrightarrow> tokenFrom r = token"
  by (auto simp: carries_def tokenFrom_def hasBearer_def trimBearer_def)

lemma minted_verifies:
  assumes "jwt_law jwt" and "Mint jwt now s i = Some (token, ex)" and "id_UserID i \<noteq> ''''" and "now' < now + sg_ttl s" and "carries r token"
  shows "cx_identity (Middleware jwt now' s r) = Some i"
proof -
  let ?c = "\<lparr>clm_Subject = id_UserID i, clm_Issuer = issuer, clm_IssuedAt = now, clm_ExpiresAt = now + sg_ttl s,
                    clm_Username = id_Username i, clm_IsGuest = id_IsGuest i\<rparr>"
  have "jwt_sign jwt (sg_secret s) ?c = Some token" using assms(2) by (auto simp: Mint_def Let_def split: option.splits)
  then have "token \<noteq> ''''" "jwt_parse jwt (sg_secret s) issuer now' token = Some ?c"
    using assms(1,4) unfolding jwt_law_def by fastforce+
  then show ?thesis using carries_token [OF assms(5)] assms(3) by (simp add: Middleware_def Verify_def)
qed

lemma Login_user:
  assumes "Login ae ident pw db = Inr pu"
  obtains u h where "u \<in> set (users db)" "matches (ae_lower ae) (TrimSpace ident) u" "u_password_hash u = Some h" "ae_compare ae h pw"
    "pu = toProtoUser (scanUser db u) True"
proof -
  obtain u where u: "find (matches (ae_lower ae) (TrimSpace ident)) (users db) = Some u" "usr_PasswordHash (scanUser db u) \<noteq> ''''"
      "ae_compare ae (usr_PasswordHash (scanUser db u)) pw" "pu = toProtoUser (scanUser db u) True"
    using assms by (auto simp: Login_def FindUserByIdentifier_def matches_def [abs_def] Let_def split: if_splits option.splits)
  then have "u \<in> set (users db)" "matches (ae_lower ae) (TrimSpace ident) u" by (auto simp: find_Some_iff)
  moreover obtain h where "u_password_hash u = Some h" "usr_PasswordHash (scanUser db u) = h"
    using u(2) by (auto simp: scanUser_def split: option.splits)
  ultimately show ?thesis using that u by simp
qed

lemma SubmitMove_needs_plan:
  assumes "SubmitMove srv env gid uci p db = (res, db', fx)" and "db' \<noteq> db"
  obtains g ms pl where "Store_GetGame (env_up env 0) gid db = Inr (g, ms)" "planMove g ms uci p = Inr pl"
proof -
  obtain g ms where get: "Store_GetGame (env_up env 0) gid db = Inr (g, ms)"
    using assms by (auto simp: SubmitMove_def split: if_splits sum.splits StoreError.splits)
  moreover obtain pl where "planMove g ms uci p = Inr pl"
    using assms by (auto simp: SubmitMove_def get split: if_splits sum.splits)
  ultimately show ?thesis by (rule that)
qed

text \<open>A game is only ended while it is in progress.\<close>

lemma EndGame_needs_progress:
  assumes "EndGame up gid st er now db = (r, db1)" and "r = Inr () \<or> db1 \<noteq> db"
  shows "\<exists>row \<in> set (games db). g_id row = gid \<and> g_status row = ''IN_PROGRESS''"
  using assms by (auto simp: EndGame_def Let_def list_ex_iff split: if_splits)

lemma resignAs_needs_progress:
  assumes "resignAs srv env g p w db = (res, db', fx)" and "db' \<noteq> db"
  shows "\<exists>row \<in> set (games db). g_id row = ID g \<and> g_status row = ''IN_PROGRESS''"
proof -
  obtain r db1 where e: "EndGame (env_up env 1) (ID g) (resultToDB w) ''RESIGNATION'' (env_now env) db = (r, db1)" by fastforce
  have "r = Inr () \<or> db1 \<noteq> db" using assms unfolding resignAs_def e by (cases r) (auto split: StoreError.splits)
  then show ?thesis by (rule EndGame_needs_progress [OF e])
qed

lemma find_game_unique:
  "distinct (map g_id (games db)) \<Longrightarrow> find_game db gid = Some row \<Longrightarrow> row' \<in> set (games db) \<Longrightarrow> g_id row' = gid \<Longrightarrow> row' = row"
  using find_game_in [of db gid row] by (auto simp: distinct_map dest: inj_onD)

lemma Resign_needs_player:
  assumes "Resign srv env gid p db = (res, db', fx)" and "db' \<noteq> db"
  obtains g ms where "Store_GetGame (env_up env 0) gid db = Inr (g, ms)" "p \<noteq> ''''" "p = WhiteID g \<or> p = BlackID g"
    "\<exists>row \<in> set (games db). g_id row = gid \<and> g_status row = ''IN_PROGRESS''"
    "distinct (map g_id (games db)) \<Longrightarrow> Status g = ''IN_PROGRESS''"
proof -
  obtain g ms w where g: "Store_GetGame (env_up env 0) gid db = Inr (g, ms)" "p \<noteq> ''''" "p = WhiteID g \<or> p = BlackID g"
    "resignAs srv env g p w db = (res, db', fx)"
    using assms by (auto simp: Resign_def split: if_splits sum.splits StoreError.splits)
  have row: "\<exists>row \<in> set (games db). g_id row = gid \<and> g_status row = ''IN_PROGRESS''"
    using resignAs_needs_progress [OF g(4) assms(2)] GetGame_ID [OF g(1)] by simp
  obtain row' where row': "find_game db gid = Some row'" "g = rowToGame row'"
    using g(1) by (auto simp: Store_GetGame_eq split: if_splits option.splits)
  have "Status g = ''IN_PROGRESS''" if "distinct (map g_id (games db))"
    using row find_game_unique [OF that row'(1)] row'(2) by (auto simp: rowToGame_def)
  then show ?thesis using that g(1-3) row by blast
qed

section \<open>Properties\<close>

text \<open>
  C12. Who signs in acts as themselves: after a login with a password, the cookie that is set, or the
  returned token in a header, identifies every later request, until it expires, as an account that
  answers to the identifier and whose stored hash accepts the password.
\<close>

theorem login_identifies_requests:
  assumes "jwt_law (gw_jwt gw)" and "Gw_Login gw ae ctx ident pw db = (Inr ses, cookie)"
    and "\<forall>u \<in> set (users db). u_id u \<noteq> ''''" and "now' < gw_now gw + sg_ttl (gw_signer gw)"
    and "carries r (ses_Token ses)"
  shows "\<exists>u \<in> set (users db). \<exists>h i. matches (ae_lower ae) (TrimSpace ident) u \<and> u_password_hash u = Some h \<and> ae_compare ae h pw \<and>
    cx_identity (Middleware (gw_jwt gw) now' (gw_signer gw) r) = Some i \<and> id_UserID i = u_id u \<and> mu_ID (ses_User ses) = u_id u \<and>
    (cx_writer ctx \<longrightarrow> map_option ck_Value cookie = Some (ses_Token ses))"
proof -
  obtain pu where pu: "Login ae ident pw db = Inr pu" "startSession gw ctx pu = (Inr ses, cookie)"
    using assms(2) by (auto simp: Gw_Login_def signedIn_def split: sum.splits)
  obtain u h where u: "u \<in> set (users db)" "matches (ae_lower ae) (TrimSpace ident) u" "u_password_hash u = Some h" "ae_compare ae h pw"
      "pu = toProtoUser (scanUser db u) True" by (rule Login_user [OF pu(1)])
  let ?i = "\<lparr>id_UserID = pu_Id pu, id_Username = pu_Username pu, id_IsGuest = pu_IsGuest pu\<rparr>"
  obtain t ex where m: "Mint (gw_jwt gw) (gw_now gw) (gw_signer gw) ?i = Some (t, ex)" "ses_Token ses = t" "ses_User ses = toModelUser pu"
      "cookie = (if cx_writer ctx then Some (SetCookie (gw_signer gw) t ex) else None)"
    using pu(2) by (auto simp: startSession_def split: option.splits)
  have uid: "pu_Id pu = u_id u" using u(5) by (simp add: toProtoUser_def scanUser_def)
  have "cx_identity (Middleware (gw_jwt gw) now' (gw_signer gw) r) = Some ?i"
    using minted_verifies [OF assms(1) m(1) _ assms(4)] assms(3,5) u(1) uid m(2) by simp
  then show ?thesis using u uid m by (intro bexI [of _ u] exI [of _ h] exI [of _ ?i]) (simp_all add: toModelUser_def SetCookie_def)
qed

text \<open>A concrete token format: the secret and the claims, written so that they can be read back.\<close>

fun packText :: "string \<Rightarrow> string" where
  "packText [] = ''.''"
| "packText (c # cs) = CHR ''-'' # c # packText cs"

fun unpackText :: "string \<Rightarrow> string \<times> string" where
  "unpackText (CHR ''-'' # c # s) = (case unpackText s of (cs, rest) \<Rightarrow> (c # cs, rest))"
| "unpackText (_ # s) = ([], s)"
| "unpackText [] = ([], [])"

definition packInt :: "int \<Rightarrow> string" where
  "packInt i = packText (replicate (nat \<bar>i\<bar>) (if i < 0 then CHR ''-'' else CHR ''+''))"

definition unpackInt :: "string \<Rightarrow> int \<times> string" where
  "unpackInt s = (case unpackText s of (cs, rest) \<Rightarrow> (if cs \<noteq> [] \<and> hd cs = CHR ''-'' then - int (length cs) else int (length cs), rest))"

lemma unpackText_pack [simp]: "unpackText (packText s @ rest) = (s, rest)"
  by (induction s) simp_all

lemma unpackInt_pack [simp]: "unpackInt (packInt i @ rest) = (i, rest)"
  by (cases "nat i") (auto simp: unpackInt_def packInt_def)

definition demoJwt :: Jwt where
  "demoJwt = \<lparr>
     jwt_sign = (\<lambda>secret c. Some (packText secret @ packText (clm_Subject c) @ packText (clm_Issuer c) @ packInt (clm_IssuedAt c) @
        packInt (clm_ExpiresAt c) @ packText (clm_Username c) @ (if clm_IsGuest c then ''1'' else ''0''))),
     jwt_parse = (\<lambda>secret iss now t.
        case unpackText t of (key, t) \<Rightarrow> case unpackText t of (sub, t) \<Rightarrow> case unpackText t of (iss', t) \<Rightarrow>
        case unpackInt t of (iat, t) \<Rightarrow> case unpackInt t of (ex, t) \<Rightarrow> case unpackText t of (name, t) \<Rightarrow>
          if key = secret \<and> iss' = iss \<and> now < ex
          then Some \<lparr>clm_Subject = sub, clm_Issuer = iss', clm_IssuedAt = iat, clm_ExpiresAt = ex, clm_Username = name,
                     clm_IsGuest = (t = ''1'')\<rparr>
          else None)\<rparr>"

lemma demo_jwt: "jwt_law demoJwt"
  by (auto simp: jwt_law_def demoJwt_def split: if_splits)

definition demoGw :: Gw where
  "demoGw = \<lparr>gw_jwt = demoJwt, gw_signer = \<lparr>sg_secret = ''k'', sg_ttl = DefaultTTL, sg_secure = True\<rparr>, gw_now = 100\<rparr>"

definition demoMember :: DB where
  "demoMember = demoUsers\<lparr>users := [(demoUser ''ann'')\<lparr>u_password_hash := ae_generate demoAuth ''longpass'', u_is_guest := False\<rparr>]\<rparr>"

theorem login_identifies_requests_witness:
  "\<exists>ses i. fst (Gw_Login demoGw demoAuth \<lparr>cx_identity = None, cx_writer = True\<rparr> ''ann'' ''longpass'' demoMember) = Inr ses \<and>
     cx_identity (Middleware demoJwt 5000 (gw_signer demoGw) \<lparr>rq_cookie = Some (ses_Token ses), rq_Authorization = ''''\<rparr>) = Some i \<and>
     id_UserID i = ''ann''"
proof -
  let ?ctx = "\<lparr>cx_identity = None, cx_writer = True\<rparr>"
  have "\<not> isl (Login demoAuth ''ann'' ''longpass'' demoMember)" by code_simp
  then obtain pu where "Login demoAuth ''ann'' ''longpass'' demoMember = Inr pu" by (cases "Login demoAuth ''ann'' ''longpass'' demoMember") auto
  then obtain ses cookie where L: "Gw_Login demoGw demoAuth ?ctx ''ann'' ''longpass'' demoMember = (Inr ses, cookie)"
    by (simp add: Gw_Login_def signedIn_def startSession_def Mint_def demoGw_def demoJwt_def Let_def)
  have J: "jwt_law (gw_jwt demoGw)" "(5000 :: int) < gw_now demoGw + sg_ttl (gw_signer demoGw)" "gw_jwt demoGw = demoJwt"
    by (simp_all add: demo_jwt demoGw_def DefaultTTL_def)
  have U: "\<forall>u \<in> set (users demoMember). u_id u = ''ann''" by (simp add: demoMember_def demoUsers_def demoUser_def)
  show ?thesis using login_identifies_requests [OF J(1) L _ J(2), of "\<lparr>rq_cookie = Some (ses_Token ses), rq_Authorization = ''''\<rparr>"] L U J(3)
    by (auto simp: carries_def)
qed

text \<open>
  C7. Only a player changes a game, and only while it lasts: a move or a resignation through the gateway that changes anything
  in the tables was made by a signed-in user on a game that was in progress (so a finished game keeps its result); to move, the user is the one
  whose turn it is, unless the game is played against the engine; to resign, one of the two players.
  (For a resignation, the row in progress is the one that was read because identifiers of games are a primary key.)
\<close>

theorem only_players_change_games:
  shows "(Gw_Move srv env ctx gid uci db = (res, db', fx, pub) \<and> db' \<noteq> db \<longrightarrow>
      (\<exists>i g ms b. FromContext ctx = Some i \<and> Store_GetGame (env_up env 0) gid db = Inr (g, ms) \<and> Status g = ''IN_PROGRESS'' \<and>
         ParseFEN (Game_FEN g) = Inr b \<and> (VsEngine g \<or> id_UserID i \<noteq> '''' \<and> id_UserID i = (if Turn b = Black then BlackID g else WhiteID g)))) \<and>
    (Gw_Resign srv env ctx gid db = (res, db', fx, pub) \<and> db' \<noteq> db \<longrightarrow>
      (\<exists>i g ms. FromContext ctx = Some i \<and> Store_GetGame (env_up env 0) gid db = Inr (g, ms) \<and>
         id_UserID i \<noteq> '''' \<and> (id_UserID i = WhiteID g \<or> id_UserID i = BlackID g) \<and>
         (\<exists>row \<in> set (games db). g_id row = gid \<and> g_status row = ''IN_PROGRESS'') \<and>
         (distinct (map g_id (games db)) \<longrightarrow> Status g = ''IN_PROGRESS'')))"
proof (intro conjI impI)
  assume m: "Gw_Move srv env ctx gid uci db = (res, db', fx, pub) \<and> db' \<noteq> db"
  then obtain i r where i: "FromContext ctx = Some i" "SubmitMove srv env gid uci (id_UserID i) db = (r, db', fx)"
    by (auto simp: Gw_Move_def asSelf_def requireIdentity_def split: option.splits prod.splits sum.splits)
  obtain g ms pl where g: "Store_GetGame (env_up env 0) gid db = Inr (g, ms)" "planMove g ms uci (id_UserID i) = Inr pl"
    using SubmitMove_needs_plan [OF i(2)] m by blast
  have "Status g = ''IN_PROGRESS''" "\<exists>b. ParseFEN (Game_FEN g) = Inr b \<and> (VsEngine g \<or> authorizeMover g (Turn b) (id_UserID i) = None)"
    using g(2) by (auto simp: planMove_def split: if_splits sum.splits option.splits)
  then show "\<exists>i g ms b. FromContext ctx = Some i \<and> Store_GetGame (env_up env 0) gid db = Inr (g, ms) \<and> Status g = ''IN_PROGRESS'' \<and>
         ParseFEN (Game_FEN g) = Inr b \<and> (VsEngine g \<or> id_UserID i \<noteq> '''' \<and> id_UserID i = (if Turn b = Black then BlackID g else WhiteID g))"
    using i(1) g(1) by (auto simp: authorizeMover_def Let_def split: if_splits)
next
  assume m: "Gw_Resign srv env ctx gid db = (res, db', fx, pub) \<and> db' \<noteq> db"
  then obtain i r where i: "FromContext ctx = Some i" "Resign srv env gid (id_UserID i) db = (r, db', fx)"
    by (auto simp: Gw_Resign_def asSelf_def requireIdentity_def split: option.splits prod.splits sum.splits)
  show "\<exists>i g ms. FromContext ctx = Some i \<and> Store_GetGame (env_up env 0) gid db = Inr (g, ms) \<and>
         id_UserID i \<noteq> '''' \<and> (id_UserID i = WhiteID g \<or> id_UserID i = BlackID g) \<and>
         (\<exists>row \<in> set (games db). g_id row = gid \<and> g_status row = ''IN_PROGRESS'') \<and>
         (distinct (map g_id (games db)) \<longrightarrow> Status g = ''IN_PROGRESS'')"
  proof -
    obtain g ms where g: "Store_GetGame (env_up env 0) gid db = Inr (g, ms)" "id_UserID i \<noteq> ''''" "id_UserID i = WhiteID g \<or> id_UserID i = BlackID g"
      "\<exists>row \<in> set (games db). g_id row = gid \<and> g_status row = ''IN_PROGRESS''"
      "distinct (map g_id (games db)) \<longrightarrow> Status g = ''IN_PROGRESS''"
      by (rule Resign_needs_player [OF i(2) conjunct2 [OF m]]) (blast intro: that)
    then show ?thesis using i(1) by (intro exI [of _ i] exI [of _ g] exI [of _ ms]) (simp only: simp_thms)
  qed
qed

theorem only_players_change_games_witness:
  "\<exists>db' fx pub res. Gw_Resign demoSrv demoEnv \<lparr>cx_identity = Some \<lparr>id_UserID = ''ann'', id_Username = ''ann'', id_IsGuest = True\<rparr>, cx_writer = True\<rparr>
       ''g1'' demoGame = (res, db', fx, pub) \<and> db' \<noteq> demoGame \<and>
     (\<exists>g ms. Store_GetGame True ''g1'' demoGame = Inr (g, ms) \<and> (WhiteID g = ''ann'' \<or> BlackID g = ''ann'') \<and> Status g = ''IN_PROGRESS'')"
proof -
  let ?ctx = "\<lparr>cx_identity = Some \<lparr>id_UserID = ''ann'', id_Username = ''ann'', id_IsGuest = True\<rparr>, cx_writer = True\<rparr>"
  obtain pg db' fx where r: "Resign demoSrv demoEnv ''g1'' ''ann'' demoGame = (Inr pg, db', fx)" using demo_Resign by blast
  have m: "Gw_Resign demoSrv demoEnv ?ctx ''g1'' demoGame = (Inr (toModelGame pg), db', fx, Some (toModelGame pg))"
    by (simp add: Gw_Resign_def asSelf_def requireIdentity_def FromContext_def r)
  have "\<not> finished demoGame ''g1''" by (simp add: finished_def demoGame_def demoRow_def)
  then have ne: "db' \<noteq> demoGame" using resigned(1) [OF r] by metis
  obtain i g ms where "FromContext ?ctx = Some i" "Store_GetGame (env_up demoEnv 0) ''g1'' demoGame = Inr (g, ms)"
      "id_UserID i = WhiteID g \<or> id_UserID i = BlackID g" "distinct (map g_id (games demoGame)) \<longrightarrow> Status g = ''IN_PROGRESS''"
    using only_players_change_games [of demoSrv demoEnv ?ctx "''g1''" "''e2e4''" demoGame _ db' fx] m ne by blast
  moreover have "distinct (map g_id (games demoGame))" by (simp add: demoGame_def)
  ultimately show ?thesis using m ne by (fastforce simp: demoEnv_def FromContext_def)
qed

end
