(* ===== verification/Live_Updates.thy ===== *)
theory Live_Updates
  imports Gateway "HOL-Library.Sublist"
begin

text \<open>
  How a game reaches the sockets that watch it: the two buses of the gateway
  (\<open>services/gateway/internal/pubsub\<close>), the subscription resolvers (\<open>graph/schema.resolvers.go\<close>,
  \<open>graph/matchmaking.go\<close>), and the client of the session manager with the clock that is read through
  it (\<open>services/game-service/internal/session/client.go\<close>, \<open>internal/upstream/upstream.go\<close>).

  A channel is its queue and whether it is closed; sending on a closed channel and closing one
  twice panic, which is the result \<open>None\<close>.  The in-process bus is a step relation in which the write
  lock excludes publishers, publishers interleave, and each subscriber's clean-up runs some time
  after its context ends.  The two-level map of subscribers, whose empty inner maps the code deletes,
  is the list of its entries.  Redis and the session manager are parameters.
\<close>

section \<open>Channels and the in-process bus\<close>

definition subscriberBuffer :: nat where "subscriberBuffer = 8"

record Chan =
  ch_queue :: "ModelGame list"
  ch_closed :: bool

record Memory =
  mem_subs :: "(string \<times> int \<times> nat) list"
  mem_nextID :: int
  mem_chans :: "Chan list"

definition NewMemory :: Memory where
  "NewMemory = \<lparr>mem_subs = [], mem_nextID = 0, mem_chans = []\<rparr>"

definition closeChan :: "nat \<Rightarrow> Memory \<Rightarrow> Memory option" where
  "closeChan c m =
     (if ch_closed (mem_chans m ! c) then None
      else Some (m\<lparr>mem_chans := (mem_chans m)[c := (mem_chans m ! c)\<lparr>ch_closed := True\<rparr>]\<rparr>))"

text \<open>A send that does not wait: what it makes of a queue, and of the bus.\<close>

definition offer :: "ModelGame \<Rightarrow> ModelGame list \<Rightarrow> ModelGame list" where
  "offer g q = (if length q < subscriberBuffer then q @ [g] else q)"

definition trySend :: "nat \<Rightarrow> ModelGame \<Rightarrow> Memory \<Rightarrow> Memory option" where
  "trySend c g m =
     (if ch_closed (mem_chans m ! c) then None
      else Some (m\<lparr>mem_chans := (mem_chans m)[c := (mem_chans m ! c)\<lparr>ch_queue := offer g (ch_queue (mem_chans m ! c))\<rparr>]\<rparr>))"

text \<open>\<open>Subscribe\<close> returns the channel; the subscriber's number is for its clean-up.\<close>

definition Memory_Subscribe :: "string \<Rightarrow> Memory \<Rightarrow> nat \<times> int \<times> Memory" where
  "Memory_Subscribe gameID m =
     (let c = length (mem_chans m); i = mem_nextID m in
      (c, i, \<lparr>mem_subs = (gameID, i, c) # mem_subs m, mem_nextID = i + 1,
              mem_chans = mem_chans m @ [\<lparr>ch_queue = [], ch_closed = False\<rparr>]\<rparr>))"

definition teardown :: "string \<Rightarrow> int \<Rightarrow> Memory \<Rightarrow> Memory option" where
  "teardown gameID i m =
     (case find (\<lambda>(g, j, _). g = gameID \<and> j = i) (mem_subs m) of
        None \<Rightarrow> Some m
      | Some (_, _, c) \<Rightarrow> closeChan c (m\<lparr>mem_subs := filter (\<lambda>(g, j, _). \<not> (g = gameID \<and> j = i)) (mem_subs m)\<rparr>))"

definition listeners :: "string \<Rightarrow> Memory \<Rightarrow> nat list" where
  "listeners gameID m = map (snd \<circ> snd) (filter (\<lambda>(g, _). g = gameID) (mem_subs m))"

fun sendAll :: "nat list \<Rightarrow> ModelGame \<Rightarrow> Memory \<Rightarrow> Memory option" where
  "sendAll [] g m = Some m"
| "sendAll (c # cs) g m = (case trySend c g m of None \<Rightarrow> None | Some m \<Rightarrow> sendAll cs g m)"

definition Memory_Publish :: "string \<Rightarrow> ModelGame \<Rightarrow> Memory \<Rightarrow> Memory option" where
  "Memory_Publish gameID g m = sendAll (listeners gameID m) g m"

fun closeAll :: "nat list \<Rightarrow> Memory \<Rightarrow> Memory option" where
  "closeAll [] m = Some m"
| "closeAll (c # cs) m = (case closeChan c m of None \<Rightarrow> None | Some m \<Rightarrow> closeAll cs m)"

definition Memory_Close :: "Memory \<Rightarrow> Memory option" where
  "Memory_Close m = map_option (\<lambda>m. m\<lparr>mem_subs := []\<rparr>) (closeAll (map (snd \<circ> snd) (mem_subs m)) m)"

definition SubscriberCount :: "string \<Rightarrow> Memory \<Rightarrow> nat" where
  "SubscriberCount gameID m = length (listeners gameID m)"

section \<open>The Redis bus\<close>

definition channel :: "string \<Rightarrow> string" where
  "channel gameID = ''game:'' @ gameID"

datatype BusError = MarshalError | PublishError | SubscribeError

text \<open>\<open>marshal\<close> is the JSON encoding and \<open>send\<close> the broker, which takes a channel and a payload.\<close>

definition Redis_Publish :: "(ModelGame \<Rightarrow> string option) \<Rightarrow> (string \<Rightarrow> string \<Rightarrow> bool) \<Rightarrow> string \<Rightarrow> ModelGame \<Rightarrow> BusError + (string \<times> string)" where
  "Redis_Publish marshal send gameID g =
     (case marshal g of
        None \<Rightarrow> Inl MarshalError
      | Some payload \<Rightarrow> if send (channel gameID) payload then Inr (channel gameID, payload) else Inl PublishError)"

text \<open>What one message does to the queue of a subscriber: a turn of the subscription's loop.\<close>

definition relayMessage :: "(string \<Rightarrow> ModelGame option) \<Rightarrow> string \<Rightarrow> ModelGame list \<Rightarrow> ModelGame list" where
  "relayMessage unmarshal payload q =
     (case unmarshal payload of None \<Rightarrow> q | Some g \<Rightarrow> if length q < subscriberBuffer then q @ [g] else q)"

section \<open>Subscriptions\<close>

text \<open>\<open>publish\<close>: a failure is logged and the mutation goes on; without a bus nothing happens.\<close>

definition publish :: "(string \<Rightarrow> ModelGame \<Rightarrow> 'b \<Rightarrow> bool \<times> 'b) option \<Rightarrow> ModelGame option \<Rightarrow> 'b \<Rightarrow> 'b" where
  "publish bus g b =
     (case g of
        None \<Rightarrow> b
      | Some g \<Rightarrow> (case bus of None \<Rightarrow> b | Some send \<Rightarrow> snd (send (mg_ID g) g b)))"

datatype StreamError = BusFailed | ReadFailed Code

text \<open>
  The stream of \<open>gameUpdated\<close>: the game as it is read after subscribing, then what the bus
  delivers.  \<open>subscribed\<close> is the channel's content over time, unless subscribing failed.
\<close>

definition GameUpdated :: "ModelGame list option \<Rightarrow> (Code + ProtoGame) \<Rightarrow> StreamError + ModelGame list" where
  "GameUpdated subscribed current =
     (case subscribed of
        None \<Rightarrow> Inl BusFailed
      | Some updates \<Rightarrow> (case current of Inl c \<Rightarrow> Inl (ReadFailed c) | Inr g \<Rightarrow> Inr (toModelGame g # updates)))"

text \<open>The stream of \<open>matchFound\<close>: the games whose ids arrive, without those that cannot be read.\<close>

fun matchStream :: "(string \<Rightarrow> Code + ProtoGame) \<Rightarrow> string list \<Rightarrow> ModelGame list" where
  "matchStream getGame [] = []"
| "matchStream getGame (gid # ids) =
     (case getGame gid of Inl c \<Rightarrow> matchStream getGame ids | Inr g \<Rightarrow> toModelGame g # matchStream getGame ids)"

definition matchFound :: "Ctx \<Rightarrow> bool \<Rightarrow> (string \<Rightarrow> string list option) \<Rightarrow> (string \<Rightarrow> Code + ProtoGame) \<Rightarrow> (GqlError option) + ModelGame list" where
  "matchFound ctx enabled WatchMatches getGame =
     (case requireIdentity ctx of
        Inl e \<Rightarrow> Inl (Some e)
      | Inr i \<Rightarrow>
          if \<not> enabled then Inl None
          else case WatchMatches (id_UserID i) of None \<Rightarrow> Inl None | Some ids \<Rightarrow> Inr (matchStream getGame ids))"

section \<open>The session manager's client and the clock\<close>

datatype Side = SIDE_UNSPECIFIED | SIDE_WHITE | SIDE_BLACK

datatype SessionStatus = SESSION_IN_PROGRESS | SESSION_OTHER

record Snapshot =
  sn_WhiteMs :: int
  sn_BlackMs :: int
  sn_Turn :: Side
  sn_Status :: SessionStatus

record CreateParams =
  sp_GameID :: string
  sp_WhiteID :: string
  sp_BlackID :: string
  sp_InitialMs :: int
  sp_IncrementMs :: int
  sp_GraceMs :: int

text \<open>The service: a reply, or the error's code.  A client without an address is \<open>None\<close>.\<close>

record SessionService =
  rpc_CreateSession :: "CreateParams \<Rightarrow> Code + unit"
  rpc_MoveMade :: "string \<Rightarrow> string \<Rightarrow> Code + Snapshot"
  rpc_GetSnapshot :: "string \<Rightarrow> Code + Snapshot"
  rpc_EndSession :: "string \<Rightarrow> Side \<Rightarrow> string \<Rightarrow> Code + unit"
  rpc_Resign :: "string \<Rightarrow> string \<Rightarrow> Code + Snapshot"

type_synonym SessionClient = "SessionService option"

definition Session_Create :: "SessionClient \<Rightarrow> CreateParams \<Rightarrow> Code + unit" where
  "Session_Create client p = (case client of None \<Rightarrow> Inr () | Some svc \<Rightarrow> rpc_CreateSession svc p)"

definition Session_MoveMade :: "SessionClient \<Rightarrow> string \<Rightarrow> string \<Rightarrow> Code + Snapshot option" where
  "Session_MoveMade client gameID playerID =
     (case client of None \<Rightarrow> Inr None | Some svc \<Rightarrow> map_sum id Some (rpc_MoveMade svc gameID playerID))"

definition Session_Snapshot :: "SessionClient \<Rightarrow> string \<Rightarrow> Code + Snapshot option" where
  "Session_Snapshot client gameID =
     (case client of None \<Rightarrow> Inr None | Some svc \<Rightarrow> map_sum id Some (rpc_GetSnapshot svc gameID))"

definition winnerSide :: "Winner \<Rightarrow> Side" where
  "winnerSide w = (case w of WinnerWhite \<Rightarrow> SIDE_WHITE | WinnerBlack \<Rightarrow> SIDE_BLACK | WinnerNone \<Rightarrow> SIDE_UNSPECIFIED)"

definition Session_End :: "SessionClient \<Rightarrow> string \<Rightarrow> Winner \<Rightarrow> string \<Rightarrow> Code + unit" where
  "Session_End client gameID winner reason =
     (case client of None \<Rightarrow> Inr () | Some svc \<Rightarrow> rpc_EndSession svc gameID (winnerSide winner) reason)"

definition Session_Resign :: "SessionClient \<Rightarrow> string \<Rightarrow> string \<Rightarrow> Code + Snapshot option" where
  "Session_Resign client gameID playerID =
     (case client of None \<Rightarrow> Inr None | Some svc \<Rightarrow> map_sum id Some (rpc_Resign svc gameID playerID))"

text \<open>The gateway's own client asks the same service.\<close>

definition Upstream_Snapshot :: "SessionClient \<Rightarrow> string \<Rightarrow> Code + Snapshot option" where
  "Upstream_Snapshot client gameID =
     (case client of None \<Rightarrow> Inr None | Some svc \<Rightarrow> map_sum id Some (rpc_GetSnapshot svc gameID))"

datatype ModelSide = SideWhite | SideBlack

definition toModelSide :: "Side \<Rightarrow> ModelSide" where
  "toModelSide s = (if s = SIDE_BLACK then SideBlack else SideWhite)"

record ModelClock =
  mc_WhiteMs :: int
  mc_BlackMs :: int
  mc_Turn :: ModelSide
  mc_Running :: bool

definition toModelClock :: "Snapshot option \<Rightarrow> ModelClock option" where
  "toModelClock s =
     (case s of
        None \<Rightarrow> None
      | Some s \<Rightarrow> Some \<lparr>mc_WhiteMs = sn_WhiteMs s, mc_BlackMs = sn_BlackMs s, mc_Turn = toModelSide (sn_Turn s),
                        mc_Running = (sn_Status s = SESSION_IN_PROGRESS)\<rparr>)"

text \<open>The \<open>clock\<close> field: no error is shown to the client.\<close>

definition Clock :: "SessionClient \<Rightarrow> ModelGame \<Rightarrow> ModelClock option" where
  "Clock client g =
     (if mg_VsEngine g \<or> client = None then None
      else case Upstream_Snapshot client (mg_ID g) of Inl c \<Rightarrow> None | Inr s \<Rightarrow> toModelClock s)"

section \<open>What a slow subscriber sees\<close>

text \<open>One subscriber's queue over time: messages arrive, and the reader takes games from it.\<close>

datatype 'm QueueEvent = Arrive 'm | Take

fun queueStep :: "('m \<Rightarrow> 'g list \<Rightarrow> 'g list) \<Rightarrow> 'm QueueEvent \<Rightarrow> 'g list \<times> 'g list \<Rightarrow> 'g list \<times> 'g list" where
  "queueStep push (Arrive m) (q, got) = (push m q, got)"
| "queueStep push Take ([], got) = ([], got)"
| "queueStep push Take (g # q, got) = (q, got @ [g])"

definition queueRun :: "('m \<Rightarrow> 'g list \<Rightarrow> 'g list) \<Rightarrow> 'm QueueEvent list \<Rightarrow> 'g list \<times> 'g list" where
  "queueRun push es = fold (queueStep push) es ([], [])"

lemma queueRun_snoc [simp]: "queueRun push (es @ [e]) = queueStep push e (queueRun push es)"
  by (simp add: queueRun_def)

lemma queueRun_Nil [simp]: "queueRun push [] = ([], [])"
  by (simp add: queueRun_def)

fun arrivals :: "'m QueueEvent list \<Rightarrow> 'm list" where
  "arrivals [] = []"
| "arrivals (Arrive m # es) = m # arrivals es"
| "arrivals (Take # es) = arrivals es"

lemma arrivals_append [simp]: "arrivals (es @ es') = arrivals es @ arrivals es'"
  by (induction es rule: arrivals.induct) simp_all

text \<open>
  The contract of a bounded queue that drops: a message that carries a value is put at the end when
  there is room and lost otherwise, and a message without a value changes nothing.
\<close>

locale dropping_queue =
  fixes push :: "'m \<Rightarrow> 'g list \<Rightarrow> 'g list"
    and val :: "'m \<Rightarrow> 'g option"
    and cap :: nat
  assumes push_room: "val m = Some g \<Longrightarrow> length q < cap \<Longrightarrow> push m q = q @ [g]"
    and push_full: "cap \<le> length q \<Longrightarrow> push m q = q"
    and push_nothing: "val m = None \<Longrightarrow> push m q = q"
begin

lemma push_cases: "push m q = q \<or> (\<exists>g. val m = Some g \<and> length q < cap \<and> push m q = q @ [g])"
  using push_room push_full push_nothing by (cases "val m") (metis not_le)+

text \<open>Nothing is invented, repeated or reordered, and the queue stays within its bound.\<close>

lemma run_subseq:
  "case queueRun push es of (q, got) \<Rightarrow> subseq (got @ q) (List.map_filter val (arrivals es)) \<and> length q \<le> cap"
proof (induction es rule: rev_induct)
  case (snoc e es)
  obtain q got where r: "queueRun push es = (q, got)" by fastforce
  then have IH: "subseq (got @ q) (List.map_filter val (arrivals es))" "length q \<le> cap" using snoc.IH by simp_all
  show ?case
  proof (cases e)
    case (Arrive m)
    have "subseq (got @ push m q) (List.map_filter val (arrivals es) @ List.map_filter val [m])"
      using push_cases [of m q] IH(1)
      by (auto simp: List.map_filter_def list_emb_append_mono simp flip: append_assoc intro: list_emb_append2 subseq_order.trans)
    moreover have "length (push m q) \<le> cap" using push_cases [of m q] IH(2) by auto
    ultimately show ?thesis using r Arrive by (simp add: List.map_filter_def)
  next
    case Take
    then show ?thesis using r IH by (cases q) simp_all
  qed
qed (simp add: List.map_filter_def)

text \<open>A subscriber whose queue had room at every arrival gets everything.\<close>

lemma run_complete:
  assumes "\<And>es1 m es2. es = es1 @ Arrive m # es2 \<Longrightarrow> length (fst (queueRun push es1)) < cap"
  shows "case queueRun push es of (q, got) \<Rightarrow> got @ q = List.map_filter val (arrivals es)"
  using assms
proof (induction es rule: rev_induct)
  case (snoc e es)
  obtain q got where r: "queueRun push es = (q, got)" by fastforce
  have IH: "got @ q = List.map_filter val (arrivals es)" using snoc.IH snoc.prems r by fastforce
  show ?case
  proof (cases e)
    case (Arrive m)
    then have "length q < cap" using snoc.prems [of es m "[]"] r by simp
    then have "push m q = q @ List.map_filter val [m]"
      using push_room push_nothing by (cases "val m") (simp_all add: List.map_filter_def)
    then show ?thesis using r Arrive IH by (simp add: List.map_filter_def)
  next
    case Take
    then show ?thesis using r IH by (cases q) simp_all
  qed
qed (simp add: List.map_filter_def)

end

interpretation mq: dropping_queue offer Some subscriberBuffer
  by unfold_locales (simp_all add: offer_def)

interpretation rq: dropping_queue "relayMessage unmarshal" unmarshal subscriberBuffer
  for unmarshal
  by unfold_locales (simp_all add: relayMessage_def split: option.splits)

section \<open>The bus under concurrency\<close>

text \<open>
  The state of a run: the bus, the publishers that hold the read lock with the channels they have
  still to send to, the subscribers whose clean-up has not run, and for the record what happened to
  the queue of every channel (\<open>sy_log\<close>), which game and subscriber a channel was made for, from its
  subscription until its clean-up or the shutdown of the bus (\<open>sy_topic\<close>), and what was published in that time to
  that game (\<open>sy_due\<close>).  The last two are kept from the calls alone, without a look at the bus.
\<close>

record Sys =
  sy_bus :: Memory
  sy_pubs :: "(ModelGame \<times> nat list) list"
  sy_live :: "(string \<times> int) list"
  sy_log :: "nat \<Rightarrow> ModelGame QueueEvent list"
  sy_topic :: "nat \<Rightarrow> (string \<times> int) option"
  sy_due :: "nat \<Rightarrow> ModelGame multiset"

definition startSys :: Sys where
  "startSys = \<lparr>sy_bus = NewMemory, sy_pubs = [], sy_live = [], sy_log = (\<lambda>_. []), sy_topic = (\<lambda>_. None), sy_due = (\<lambda>_. {#})\<rparr>"

definition takeFirst :: "nat \<Rightarrow> Memory \<Rightarrow> Memory" where
  "takeFirst c m = m\<lparr>mem_chans := (mem_chans m)[c := (mem_chans m ! c)\<lparr>ch_queue := tl (ch_queue (mem_chans m ! c))\<rparr>]\<rparr>"

definition logged :: "nat \<Rightarrow> ModelGame QueueEvent \<Rightarrow> Sys \<Rightarrow> Sys" where
  "logged c e s = s\<lparr>sy_log := (sy_log s)(c := sy_log s c @ [e])\<rparr>"

definition follows_game :: "string \<Rightarrow> nat \<Rightarrow> Sys \<Rightarrow> bool" where
  "follows_game gid c s \<longleftrightarrow> (case sy_topic s c of None \<Rightarrow> False | Some (g, i) \<Rightarrow> g = gid)"

inductive bus_step :: "Sys \<Rightarrow> Sys option \<Rightarrow> bool" where
  bs_subscribe: "sy_pubs s = [] \<Longrightarrow> Memory_Subscribe gid (sy_bus s) = (c, i, m) \<Longrightarrow>
    bus_step s (Some (s\<lparr>sy_bus := m, sy_live := (gid, i) # sy_live s, sy_topic := (sy_topic s)(c \<mapsto> (gid, i))\<rparr>))"
| bs_cleanup: "sy_pubs s = [] \<Longrightarrow> (gid, i) \<in> set (sy_live s) \<Longrightarrow>
    bus_step s (map_option (\<lambda>m. s\<lparr>sy_bus := m, sy_live := remove1 (gid, i) (sy_live s),
      sy_topic := (\<lambda>c. if sy_topic s c = Some (gid, i) then None else sy_topic s c)\<rparr>) (teardown gid i (sy_bus s)))"
| bs_close: "sy_pubs s = [] \<Longrightarrow> bus_step s (map_option (\<lambda>m. s\<lparr>sy_bus := m, sy_topic := (\<lambda>_. None)\<rparr>) (Memory_Close (sy_bus s)))"
| bs_publish: "bus_step s (Some (s\<lparr>sy_pubs := (g, listeners gid (sy_bus s)) # sy_pubs s,
    sy_due := (\<lambda>c. if follows_game gid c s then add_mset g (sy_due s c) else sy_due s c)\<rparr>))"
| bs_send: "sy_pubs s = ps @ (g, cs @ c # cs') # ps' \<Longrightarrow>
    bus_step s (map_option (\<lambda>m. logged c (Arrive g) (s\<lparr>sy_bus := m, sy_pubs := ps @ (g, cs @ cs') # ps'\<rparr>)) (trySend c g (sy_bus s)))"
| bs_done: "sy_pubs s = ps @ (g, []) # ps' \<Longrightarrow> bus_step s (Some (s\<lparr>sy_pubs := ps @ ps'\<rparr>))"
| bs_receive: "c < length (mem_chans (sy_bus s)) \<Longrightarrow> ch_queue (mem_chans (sy_bus s) ! c) \<noteq> [] \<Longrightarrow>
    bus_step s (Some (logged c Take (s\<lparr>sy_bus := takeFirst c (sy_bus s)\<rparr>)))"

inductive bus_reach :: "Sys \<Rightarrow> bool" where
  br_start: "bus_reach startSys"
| br_step: "bus_reach s \<Longrightarrow> bus_step s (Some s') \<Longrightarrow> bus_reach s'"

definition chans_of :: "Memory \<Rightarrow> nat list" where
  "chans_of m = map (snd \<circ> snd) (mem_subs m)"

definition pending :: "(ModelGame \<times> nat list) list \<Rightarrow> nat \<Rightarrow> ModelGame multiset" where
  "pending ps c = mset (map fst (filter (\<lambda>p. c \<in> set (snd p)) ps))"

definition open_chans :: "Memory \<Rightarrow> bool" where
  "open_chans m \<longleftrightarrow> distinct (chans_of m) \<and> (\<forall>c \<in> set (chans_of m). c < length (mem_chans m) \<and> \<not> ch_closed (mem_chans m ! c))"

definition pubs_ok :: "Memory \<Rightarrow> (ModelGame \<times> nat list) list \<Rightarrow> bool" where
  "pubs_ok m ps \<longleftrightarrow> (\<forall>(g, cs) \<in> set ps. distinct cs \<and> set cs \<subseteq> set (chans_of m))"

definition queues_ok :: "Sys \<Rightarrow> bool" where
  "queues_ok s \<longleftrightarrow>
     (\<forall>c < length (mem_chans (sy_bus s)). ch_queue (mem_chans (sy_bus s) ! c) = fst (queueRun offer (sy_log s c))) \<and>
     (\<forall>c \<ge> length (mem_chans (sy_bus s)). sy_log s c = [] \<and> sy_due s c = {#})"

definition due_ok :: "Sys \<Rightarrow> bool" where
  "due_ok s \<longleftrightarrow> (\<forall>c. mset (arrivals (sy_log s c)) + pending (sy_pubs s) c = sy_due s c)"

definition topics_ok :: "Memory \<Rightarrow> (nat \<Rightarrow> (string \<times> int) option) \<Rightarrow> bool" where
  "topics_ok m topic \<longleftrightarrow> (\<forall>c g i. topic c = Some (g, i) \<longleftrightarrow> (g, i, c) \<in> set (mem_subs m))"

definition bus_inv :: "Sys \<Rightarrow> bool" where
  "bus_inv s \<longleftrightarrow> open_chans (sy_bus s) \<and> pubs_ok (sy_bus s) (sy_pubs s) \<and> queues_ok s \<and> due_ok s \<and> topics_ok (sy_bus s) (sy_topic s)"

lemma listeners_chans: "set (listeners gid m) \<subseteq> set (chans_of m)"
  by (auto simp: listeners_def chans_of_def)

text \<open>The listeners of a game are the channels that were made for it.\<close>

lemma listeners_topics: "topics_ok (sy_bus s) (sy_topic s) \<Longrightarrow> c \<in> set (listeners gid (sy_bus s)) \<longleftrightarrow> follows_game gid c s"
  by (cases "sy_topic s c") (force simp: topics_ok_def listeners_def follows_game_def)+

lemma listeners_distinct: "open_chans m \<Longrightarrow> distinct (listeners gid m)"
  unfolding open_chans_def listeners_def chans_of_def by (auto simp: distinct_map intro: inj_on_subset)

lemma map_list_update_same: "f y = f (xs ! c) \<Longrightarrow> map f (xs[c := y]) = map f xs"
  by (metis list_update_id map_update)

lemma closeChan_Some:
  assumes "closeChan c m = Some m'" and "c < length (mem_chans m)"
  shows "mem_subs m' = mem_subs m" "length (mem_chans m') = length (mem_chans m)"
    "map ch_queue (mem_chans m') = map ch_queue (mem_chans m)"
    "\<And>d. d \<noteq> c \<Longrightarrow> mem_chans m' ! d = mem_chans m ! d"
  using assms by (auto simp: closeChan_def map_list_update_same split: if_splits)

lemma closeAll_open:
  assumes "distinct cs" and "\<forall>c \<in> set cs. c < length (mem_chans m) \<and> \<not> ch_closed (mem_chans m ! c)"
  shows "\<exists>m'. closeAll cs m = Some m' \<and> length (mem_chans m') = length (mem_chans m) \<and> map ch_queue (mem_chans m') = map ch_queue (mem_chans m)"
  using assms
proof (induction cs arbitrary: m)
  case (Cons c cs)
  then obtain m1 where m1: "closeChan c m = Some m1" by (auto simp: closeChan_def)
  note f = closeChan_Some [OF m1]
  have "\<forall>d \<in> set cs. d < length (mem_chans m1) \<and> \<not> ch_closed (mem_chans m1 ! d)" using Cons.prems f by (metis distinct.simps(2) list.set_intros)
  then show ?case using Cons.IH [of m1] Cons.prems f m1 by auto
qed simp

lemma trySend_open:
  assumes "c < length (mem_chans m)" and "\<not> ch_closed (mem_chans m ! c)"
  obtains m' where "trySend c g m = Some m'" "mem_subs m' = mem_subs m" "map ch_closed (mem_chans m') = map ch_closed (mem_chans m)"
    "map ch_queue (mem_chans m') = (map ch_queue (mem_chans m))[c := offer g (ch_queue (mem_chans m ! c))]"
proof -
  let ?x = "mem_chans m ! c"
  have "map ch_closed ((mem_chans m)[c := ?x\<lparr>ch_queue := offer g (ch_queue ?x)\<rparr>]) = map ch_closed (mem_chans m)"
    by (rule map_list_update_same) simp
  then show ?thesis using that assms by (simp add: trySend_def map_update)
qed

text \<open>The invariant depends on the flags and the queues only.\<close>

lemma open_chans_cong:
  "mem_subs m' = mem_subs m \<Longrightarrow> map ch_closed (mem_chans m') = map ch_closed (mem_chans m) \<Longrightarrow> open_chans m' = open_chans m"
  unfolding open_chans_def chans_of_def by (metis (mono_tags, lifting) length_map nth_map)

lemma pubs_ok_cong: "mem_subs m' = mem_subs m \<Longrightarrow> pubs_ok m' ps = pubs_ok m ps"
  by (simp add: pubs_ok_def chans_of_def)

lemma queues_ok_map:
  "queues_ok s \<longleftrightarrow> (let qs = map ch_queue (mem_chans (sy_bus s)) in
     (\<forall>c < length qs. qs ! c = fst (queueRun offer (sy_log s c))) \<and> (\<forall>c \<ge> length qs. sy_log s c = [] \<and> sy_due s c = {#}))"
  by (simp add: queues_ok_def)

lemma teardown_ok:
  assumes "open_chans m"
  obtains m' where "teardown gid i m = Some m'" "open_chans m'" "map ch_queue (mem_chans m') = map ch_queue (mem_chans m)"
    "length (mem_chans m') = length (mem_chans m)" "mem_subs m' = filter (\<lambda>(g, j, _). \<not> (g = gid \<and> j = i)) (mem_subs m)"
proof (cases "find (\<lambda>(g, j, _). g = gid \<and> j = i) (mem_subs m)")
  case None
  then have "filter (\<lambda>(g, j, _). \<not> (g = gid \<and> j = i)) (mem_subs m) = mem_subs m" by (auto simp: find_None_iff filter_id_conv)
  then show ?thesis using that [of m] None assms by (simp add: teardown_def)
next
  case (Some e)
  then have "e \<in> set (mem_subs m)" "case e of (g, j, _) \<Rightarrow> g = gid \<and> j = i"
    unfolding find_Some_iff by (metis nth_mem)+
  then obtain c where e: "e = (gid, i, c)" "(gid, i, c) \<in> set (mem_subs m)" by (cases e) auto
  let ?subs = "filter (\<lambda>(g, j, _). \<not> (g = gid \<and> j = i)) (mem_subs m)"
  let ?m = "m\<lparr>mem_subs := ?subs\<rparr>"
  have c: "c < length (mem_chans m)" "\<not> ch_closed (mem_chans m ! c)" using assms e by (force simp: open_chans_def chans_of_def)+
  then obtain m' where m': "closeChan c ?m = Some m'" by (auto simp: closeChan_def)
  note f = closeChan_Some [OF m']
  have inj: "inj_on (snd \<circ> snd) (set (mem_subs m))" using assms by (simp add: open_chans_def chans_of_def distinct_map)
  have "c \<notin> set (map (snd \<circ> snd) ?subs)" using inj_onD [OF inj _ e(2)] by auto
  moreover have "distinct (map (snd \<circ> snd) ?subs)"
    using assms by (auto simp: open_chans_def chans_of_def distinct_map intro: inj_on_subset)
  moreover have "d < length (mem_chans m) \<and> \<not> ch_closed (mem_chans m ! d)" if "d \<in> set (map (snd \<circ> snd) ?subs)" for d
    using that assms by (auto simp: open_chans_def chans_of_def)
  moreover have "mem_subs m' = ?subs" "length (mem_chans m') = length (mem_chans m)" "\<And>d. d \<noteq> c \<Longrightarrow> mem_chans m' ! d = mem_chans m ! d"
    using f c(1) by simp_all
  ultimately have "open_chans m'" unfolding open_chans_def chans_of_def by metis
  then show ?thesis using that [of m'] m' f c(1) Some e(1) by (simp add: teardown_def)
qed

lemma pending_Cons: "pending ((g, cs) # ps) c = (if c \<in> set cs then add_mset g (pending ps c) else pending ps c)"
  by (simp add: pending_def)

lemma pending_append: "pending (ps @ ps') c = pending ps c + pending ps' c"
  by (simp add: pending_def)

lemma send_inv:
  assumes "bus_inv s" and "sy_pubs s = ps @ (g, cs @ c # cs') # ps'"
  obtains m where "trySend c g (sy_bus s) = Some m" "bus_inv (logged c (Arrive g) (s\<lparr>sy_bus := m, sy_pubs := ps @ (g, cs @ cs') # ps'\<rparr>))"
proof -
  have cs: "distinct (cs @ c # cs')" "set (cs @ c # cs') \<subseteq> set (chans_of (sy_bus s))"
    using assms unfolding bus_inv_def pubs_ok_def by auto
  then have c: "c < length (mem_chans (sy_bus s))" "\<not> ch_closed (mem_chans (sy_bus s) ! c)"
    using assms(1) unfolding bus_inv_def open_chans_def by auto
  obtain m where m: "trySend c g (sy_bus s) = Some m" "mem_subs m = mem_subs (sy_bus s)" "map ch_closed (mem_chans m) = map ch_closed (mem_chans (sy_bus s))"
      "map ch_queue (mem_chans m) = (map ch_queue (mem_chans (sy_bus s)))[c := offer g (ch_queue (mem_chans (sy_bus s) ! c))]"
    by (rule trySend_open [OF c])
  let ?s = "logged c (Arrive g) (s\<lparr>sy_bus := m, sy_pubs := ps @ (g, cs @ cs') # ps'\<rparr>)"
  have "open_chans m" using assms(1) m open_chans_cong unfolding bus_inv_def by blast
  moreover have "pubs_ok m (ps @ (g, cs @ cs') # ps')"
    using assms unfolding bus_inv_def pubs_ok_cong [OF m(2)] by (auto simp: pubs_ok_def)
  moreover have "queues_ok ?s"
    using assms(1) c unfolding bus_inv_def queues_ok_map Let_def
    by (simp add: logged_def m(4) nth_list_update) (metis fst_conv queueStep.simps(1) surj_pair)
  moreover have "due_ok ?s"
    using assms cs unfolding bus_inv_def due_ok_def by (auto simp: logged_def pending_append pending_Cons split: if_splits)
  moreover have "topics_ok m (sy_topic s)" using assms(1) by (simp add: bus_inv_def topics_ok_def m(2))
  ultimately show ?thesis using that m(1) by (simp add: bus_inv_def logged_def)
qed

lemma subscribe_inv:
  assumes "bus_inv s" and "sy_pubs s = []" and "Memory_Subscribe gid (sy_bus s) = (c, i, m)"
  shows "bus_inv (s\<lparr>sy_bus := m, sy_live := l, sy_topic := (sy_topic s)(c \<mapsto> (gid, i))\<rparr>)"
proof -
  let ?n = "length (mem_chans (sy_bus s))"
  have m: "c = ?n" "mem_subs m = (gid, i, ?n) # mem_subs (sy_bus s)" "mem_chans m = mem_chans (sy_bus s) @ [\<lparr>ch_queue = [], ch_closed = False\<rparr>]"
    using assms(3) by (auto simp: Memory_Subscribe_def Let_def)
  have "open_chans m" using assms(1) unfolding bus_inv_def open_chans_def chans_of_def m by (auto simp: nth_append)
  moreover have "queues_ok (s\<lparr>sy_bus := m, sy_live := l, sy_topic := t\<rparr>)" for t
    using assms(1) unfolding bus_inv_def queues_ok_def by (auto simp: m nth_append less_Suc_eq)
  moreover have "topics_ok m ((sy_topic s)(c \<mapsto> (gid, i)))"
  proof -
    have "(g, j, ?n) \<notin> set (mem_subs (sy_bus s))" for g j
      using assms(1) by (force simp: bus_inv_def open_chans_def chans_of_def)
    then show ?thesis using assms(1) by (auto simp: bus_inv_def topics_ok_def m)
  qed
  ultimately show ?thesis using assms(1,2) by (simp add: bus_inv_def pubs_ok_def due_ok_def)
qed

lemma quiet_inv:
  assumes "bus_inv s" and "sy_pubs s = []" and "open_chans m" and "map ch_queue (mem_chans m) = map ch_queue (mem_chans (sy_bus s))"
    and "topics_ok m t"
  shows "bus_inv (s\<lparr>sy_bus := m, sy_live := l, sy_topic := t\<rparr>)"
  using assms by (simp add: bus_inv_def pubs_ok_def due_ok_def queues_ok_map)

lemma close_open:
  assumes "open_chans m"
  obtains m' where "Memory_Close m = Some m'" "open_chans m'" "map ch_queue (mem_chans m') = map ch_queue (mem_chans m)" "mem_subs m' = []"
proof -
  obtain m1 where "closeAll (chans_of m) m = Some m1" "map ch_queue (mem_chans m1) = map ch_queue (mem_chans m)"
    using closeAll_open [of "chans_of m" m] assms by (auto simp: open_chans_def)
  then show ?thesis using that by (simp add: Memory_Close_def chans_of_def open_chans_def)
qed

lemma publish_inv:
  assumes "bus_inv s"
  shows "bus_inv (s\<lparr>sy_pubs := (g, listeners gid (sy_bus s)) # sy_pubs s,
    sy_due := (\<lambda>c. if follows_game gid c s then add_mset g (sy_due s c) else sy_due s c)\<rparr>)"
proof -
  have topics: "follows_game gid c s \<longleftrightarrow> c \<in> set (listeners gid (sy_bus s))" for c
    using assms listeners_topics [of s c gid] by (simp add: bus_inv_def)
  have "set (listeners gid (sy_bus s)) \<subseteq> {..<length (mem_chans (sy_bus s))}"
    using assms listeners_chans [of gid "sy_bus s"] by (auto simp: bus_inv_def open_chans_def)
  then show ?thesis using assms listeners_chans [of gid "sy_bus s"] listeners_distinct [of "sy_bus s" gid]
    unfolding topics by (auto simp: bus_inv_def pubs_ok_def queues_ok_def due_ok_def pending_Cons)
qed

lemma receive_inv:
  assumes "bus_inv s" and "c < length (mem_chans (sy_bus s))"
  shows "bus_inv (logged c Take (s\<lparr>sy_bus := takeFirst c (sy_bus s)\<rparr>))"
proof -
  let ?m = "takeFirst c (sy_bus s)"
  have m: "mem_subs ?m = mem_subs (sy_bus s)" "map ch_closed (mem_chans ?m) = map ch_closed (mem_chans (sy_bus s))"
      "map ch_queue (mem_chans ?m) = (map ch_queue (mem_chans (sy_bus s)))[c := tl (ch_queue (mem_chans (sy_bus s) ! c))]"
    by (simp add: takeFirst_def) (simp add: takeFirst_def map_list_update_same, simp add: takeFirst_def map_update)
  have t: "fst (queueStep offer Take (q, got)) = tl q" for q got by (cases q) simp_all
  have "queues_ok (logged c Take (s\<lparr>sy_bus := ?m\<rparr>))"
    using assms unfolding bus_inv_def queues_ok_map Let_def
    by (simp add: logged_def m(3) nth_list_update) (metis fst_conv surj_pair t)
  moreover have "open_chans ?m" "pubs_ok ?m (sy_pubs s)"
    using assms(1) open_chans_cong [OF m(1,2)] pubs_ok_cong [OF m(1)] by (simp_all add: bus_inv_def)
  moreover have "due_ok (logged c Take (s\<lparr>sy_bus := ?m\<rparr>))"
    using assms(1) by (simp add: bus_inv_def due_ok_def logged_def)
  moreover have "topics_ok ?m (sy_topic s)" using assms(1) by (simp add: bus_inv_def topics_ok_def m(1))
  ultimately show ?thesis by (simp add: bus_inv_def logged_def)
qed

lemma step_inv:
  assumes "bus_step s r" and "bus_inv s"
  shows "\<exists>s'. r = Some s' \<and> bus_inv s'"
  using assms
proof cases
  case (bs_cleanup gid i)
  obtain m' where m': "teardown gid i (sy_bus s) = Some m'" "open_chans m'" "map ch_queue (mem_chans m') = map ch_queue (mem_chans (sy_bus s))"
    "mem_subs m' = filter (\<lambda>(g, j, _). \<not> (g = gid \<and> j = i)) (mem_subs (sy_bus s))"
    using assms(2) teardown_ok [of "sy_bus s" gid i] unfolding bus_inv_def by metis
  have t: "(g, j, c) \<in> set (mem_subs (sy_bus s)) \<longleftrightarrow> sy_topic s c = Some (g, j)" for g j c
    using assms(2) by (simp add: bus_inv_def topics_ok_def)
  have "topics_ok m' (\<lambda>c. if sy_topic s c = Some (gid, i) then None else sy_topic s c)"
    unfolding topics_ok_def m'(4) set_filter by (auto simp: t)
  then show ?thesis using bs_cleanup quiet_inv [OF assms(2)] m' by simp
next
  case bs_close
  obtain m' where "Memory_Close (sy_bus s) = Some m'" "open_chans m'" "map ch_queue (mem_chans m') = map ch_queue (mem_chans (sy_bus s))"
      "mem_subs m' = []"
    using assms(2) close_open [of "sy_bus s"] unfolding bus_inv_def by metis
  then show ?thesis using bs_close quiet_inv [OF assms(2), of m' "\<lambda>_. None" "sy_live s"] by (simp add: topics_ok_def)
next
  case (bs_send ps g cs c cs' ps')
  then show ?thesis using send_inv [OF assms(2) bs_send(2)] by (metis option.simps(9))
next
  case (bs_done ps g ps')
  then show ?thesis using assms(2)
    by (auto simp: bus_inv_def pubs_ok_def queues_ok_def due_ok_def pending_append pending_Cons)
qed (use assms(2) subscribe_inv publish_inv receive_inv in \<open>blast+\<close>)

lemma reach_inv: "bus_reach s \<Longrightarrow> bus_inv s"
proof (induction rule: bus_reach.induct)
  case br_start
  show ?case
    by (simp add: bus_inv_def startSys_def NewMemory_def open_chans_def chans_of_def pubs_ok_def queues_ok_def due_ok_def pending_def topics_ok_def)
next
  case (br_step s s')
  then show ?case using step_inv by blast
qed

section \<open>Properties\<close>

text \<open>
  C39. The in-process bus never panics: whatever order subscriptions, publications by any number of
  concurrent movers, reads, clean-ups of disconnected clients and shutdowns come in, no step sends
  on a closed channel or closes a channel twice.
\<close>

theorem bus_never_panics:
  assumes "bus_reach s" and "bus_step s r"
  shows "r \<noteq> None"
  using step_inv [OF assms(2) reach_inv [OF assms(1)]] by blast

text \<open>
  C11. What a subscriber of the in-process bus sees: what it has read and what is queued for it is a
  subsequence of the games that were sent to it, at most eight of them queued, and it is all of them
  when there was room at every arrival; when no publication is under way, what was sent to it is
  exactly what was published to the game it subscribed to, from its subscription until it was cleaned up or the bus closed,
  each publication once and nothing published to another game.
\<close>

theorem subscriber_sees_what_was_published:
  assumes "bus_reach s" and "c < length (mem_chans (sy_bus s))" and "queueRun offer (sy_log s c) = (q, got)"
  shows "ch_queue (mem_chans (sy_bus s) ! c) = q \<and> subseq (got @ q) (arrivals (sy_log s c)) \<and> length q \<le> subscriberBuffer \<and>
    ((\<forall>es1 g es2. sy_log s c = es1 @ Arrive g # es2 \<longrightarrow> length (fst (queueRun offer es1)) < subscriberBuffer) \<longrightarrow>
       got @ q = arrivals (sy_log s c)) \<and>
    (sy_pubs s = [] \<longrightarrow> mset (arrivals (sy_log s c)) = sy_due s c)"
proof -
  have i: "queues_ok s" "due_ok s" using reach_inv [OF assms(1)] by (simp_all add: bus_inv_def)
  have v: "List.map_filter Some xs = xs" for xs :: "ModelGame list" by (simp add: List.map_filter_def)
  have "sy_pubs s = [] \<longrightarrow> mset (arrivals (sy_log s c)) = sy_due s c"
    using spec [OF i(2) [unfolded due_ok_def], of c] by (auto simp: pending_def)
  then show ?thesis using i(1) assms(2,3) mq.run_subseq [of "sy_log s c"] mq.run_complete [of "sy_log s c"]
    by (simp add: queues_ok_def v)
qed

text \<open>
  Subscribing before reading leaves no gap: let \<open>hist\<close> be the successive states of a game, \<open>p\<close> of
  which were published before the subscription and \<open>r \<ge> p\<close> of which were stored when the game is read;
  a subscriber with room at every arrival then streams the state that was read and every state
  published from \<open>p\<close> on, and ends with the newest one.
\<close>

theorem joiner_ends_up_to_date:
  assumes "p \<le> r" and "0 < r" and "r \<le> length hist" and "toModelGame current = hist ! (r - 1)"
    and "arrivals es = drop p hist" and "queueRun offer es = ([], got)"
    and "\<forall>es1 g es2. es = es1 @ Arrive g # es2 \<longrightarrow> length (fst (queueRun offer es1)) < subscriberBuffer"
  shows "GameUpdated (Some got) (Inr current) = Inr (hist ! (r - 1) # drop p hist) \<and> last (hist ! (r - 1) # drop p hist) = last hist"
proof -
  have v: "List.map_filter Some xs = xs" for xs :: "ModelGame list" by (simp add: List.map_filter_def)
  have "got = drop p hist" using mq.run_complete [of es] assms(5-7) by (simp add: v)
  moreover have "last (hist ! (r - 1) # drop p hist) = last hist"
  proof (cases "p < length hist")
    case True
    then show ?thesis by (simp add: last_drop)
  next
    case False
    then have "r = length hist" using assms by simp
    then show ?thesis using False assms(2) by (cases hist rule: rev_cases) simp_all
  qed
  ultimately show ?thesis using assms(4) by (simp add: GameUpdated_def)
qed

text \<open>
  The reader is not always corrected by a later message: when eight updates are queued, the last
  update of a game is lost for good, because nothing follows it.
\<close>

lemma last_update_can_be_lost:
  assumes "length gs = 8"
  shows "queueRun offer (map Arrive gs @ [Arrive final] @ replicate 8 Take) = ([], gs)"
proof -
  have fill: "length gs \<le> 8 \<Longrightarrow> queueRun offer (map Arrive gs) = (gs, [])" for gs :: "ModelGame list"
    by (induction gs rule: rev_induct) (simp_all add: offer_def subscriberBuffer_def)
  have take_all: "fold (queueStep offer) (replicate n Take) (q, got) = (drop n q, got @ take n q)" for n q got
    by (induction n arbitrary: q got) (simp, case_tac q, simp_all)
  show ?thesis using assms fill [of gs] take_all [of 8 gs "[]"]
    by (simp add: queueRun_def offer_def subscriberBuffer_def)
qed

section \<open>Instances\<close>

definition demoModel :: "string \<Rightarrow> ModelGame" where
  "demoModel fen = \<lparr>mg_ID = ''g1'', mg_Fen = fen, mg_Status = IN_PROGRESS, mg_VsEngine = False, mg_AwaitingOpponent = False, mg_Rated = False,
     mg_WhiteID = ''ann'', mg_BlackID = Some ''bob'', mg_EndReason = None, mg_StartedAt = 0, mg_EndedAt = None, mg_Moves = []\<rparr>"

text \<open>A watcher of \<open>g1\<close>, with one game published and sent.\<close>

definition watched :: Sys where
  "watched = startSys\<lparr>sy_bus := snd (snd (Memory_Subscribe ''g1'' NewMemory)), sy_live := [(''g1'', 0)],
     sy_topic := (\<lambda>_. None)(0 \<mapsto> (''g1'', 0))\<rparr>"

definition published :: Sys where
  "published = watched\<lparr>sy_pubs := [(demoModel ''a'', [0])], sy_due := (\<lambda>c. if c = 0 then {#demoModel ''a''#} else {#})\<rparr>"

definition delivered :: Sys where
  "delivered = (logged 0 (Arrive (demoModel ''a''))
     (published\<lparr>sy_bus := (sy_bus published)\<lparr>mem_chans := [\<lparr>ch_queue = [demoModel ''a''], ch_closed = False\<rparr>]\<rparr>\<rparr>))\<lparr>sy_pubs := []\<rparr>"

lemma watched_reach: "bus_reach watched"
proof -
  have "bus_step startSys (Some watched)"
    using bs_subscribe [of startSys "''g1''" 0 0 "snd (snd (Memory_Subscribe ''g1'' NewMemory))"]
    by (simp add: watched_def startSys_def Memory_Subscribe_def NewMemory_def Let_def)
  then show ?thesis by (rule br_step [OF br_start])
qed

lemma delivered_reach: "bus_reach delivered"
proof -
  have "listeners ''g1'' (sy_bus watched) = [0]" "sy_pubs watched = []" "sy_due watched = (\<lambda>_. {#})" "follows_game ''g1'' c watched \<longleftrightarrow> c = 0" for c
    by (simp_all add: watched_def startSys_def Memory_Subscribe_def NewMemory_def listeners_def follows_game_def Let_def)
  then have p: "bus_step watched (Some published)"
    using bs_publish [where s = watched and g = "demoModel ''a''" and gid = "''g1''"] by (simp add: published_def cong: if_cong)
  have s: "bus_step published (map_option (\<lambda>m. logged 0 (Arrive (demoModel ''a'')) (published\<lparr>sy_bus := m, sy_pubs := [(demoModel ''a'', [])]\<rparr>))
      (trySend 0 (demoModel ''a'') (sy_bus published)))"
    using bs_send [where s = published and ps = "[]" and g = "demoModel ''a''" and cs = "[]" and c = 0 and cs' = "[]" and ps' = "[]"]
    by (simp add: published_def)
  have "bus_reach (logged 0 (Arrive (demoModel ''a'')) (published\<lparr>sy_bus := (sy_bus published)\<lparr>mem_chans := [\<lparr>ch_queue = [demoModel ''a''], ch_closed = False\<rparr>]\<rparr>,
      sy_pubs := [(demoModel ''a'', [])]\<rparr>))"
    using br_step [OF br_step [OF watched_reach p]] s
    by (simp add: trySend_def offer_def subscriberBuffer_def published_def watched_def startSys_def Memory_Subscribe_def NewMemory_def Let_def)
  from br_step [OF this bs_done [where ps = "[]" and g = "demoModel ''a''" and ps' = "[]"]] show ?thesis by (simp add: delivered_def logged_def)
qed

theorem bus_never_panics_witness:
  "\<exists>r. bus_step watched r \<and> (\<exists>s'. r = Some s' \<and> sy_live s' = [])"
proof -
  have st: "bus_step watched (map_option (\<lambda>m. watched\<lparr>sy_bus := m, sy_live := [], sy_topic := (\<lambda>_. None)\<rparr>) (teardown ''g1'' 0 (sy_bus watched)))"
    using bs_cleanup [of watched "''g1''" 0] by (simp add: watched_def startSys_def fun_upd_def if_distrib cong: if_cong)
  show ?thesis using bus_never_panics [OF watched_reach st] st by (cases "teardown ''g1'' 0 (sy_bus watched)") auto
qed

theorem subscriber_sees_what_was_published_witness:
  "ch_queue (mem_chans (sy_bus delivered) ! 0) = [demoModel ''a''] \<and> sy_due delivered 0 = {#demoModel ''a''#}"
proof -
  have l: "sy_log delivered 0 = [Arrive (demoModel ''a'')]" "sy_pubs delivered = []" "0 < length (mem_chans (sy_bus delivered))"
    by (simp_all add: delivered_def logged_def published_def watched_def startSys_def)
  have "queueRun offer (sy_log delivered 0) = ([demoModel ''a''], [])"
    by (simp add: l queueRun_def offer_def subscriberBuffer_def)
  then show ?thesis using subscriber_sees_what_was_published [OF delivered_reach l(3)] l by force
qed

theorem joiner_ends_up_to_date_witness:
  "GameUpdated (Some [demoModel ''b'']) (Inr (toProtoGame (rowToGame demoRow) [])) =
     Inr [toModelGame (toProtoGame (rowToGame demoRow) []), demoModel ''b'']"
proof -
  let ?cur = "toProtoGame (rowToGame demoRow) []"
  have "\<forall>es1 g es2. [Arrive (demoModel ''b''), Take] = es1 @ Arrive g # es2 \<longrightarrow> length (fst (queueRun offer es1)) < subscriberBuffer"
    by (auto simp: Cons_eq_append_conv subscriberBuffer_def)
  then show ?thesis using joiner_ends_up_to_date [of 1 1 "[toModelGame ?cur, demoModel ''b'']" ?cur "[Arrive (demoModel ''b''), Take]" "[demoModel ''b'']"]
    by (simp add: queueRun_def offer_def subscriberBuffer_def)
qed

end
