(* ===== verification/Go_Json.thy ===== *)
theory Go_Json
  imports Go_Strings
begin

text \<open>
  What the sources use of Go's \<open>encoding/json\<close>: documents as trees, the indented writer
  (\<open>MarshalIndent\<close> with an empty prefix and two blanks) and the reader behind \<open>Unmarshal\<close>, with its
  limit of 10000 nested values.  A string is its bytes; bytes above 0x7f are copied, which is what Go
  does for valid UTF-8 text, except that the writer also escapes the line separators U+2028 and U+2029.
  The main lemma is \<open>parse_document\<close>: what the writer writes is read back.
\<close>

datatype json = JNull | JBool bool | JNum string | JStr string | JArr "json list" | JObj "(string \<times> json) list"

section \<open>Writing\<close>

definition hex_digit :: "nat \<Rightarrow> char" where
  "hex_digit n = (if n < 10 then digit_char n else char_of (87 + n))"

definition escape :: "char \<Rightarrow> string" where
  "escape c =
     (if c = CHR 0x22 \<or> c = CHR 0x5C then [CHR 0x5C, c]
      else if c = CHR 0x08 then [CHR 0x5C, CHR ''b'']
      else if c = CHR 0x0C then [CHR 0x5C, CHR ''f'']
      else if c = CHR 0x0A then [CHR 0x5C, CHR ''n'']
      else if c = CHR 0x0D then [CHR 0x5C, CHR ''r'']
      else if c = CHR 0x09 then [CHR 0x5C, CHR ''t'']
      else if of_char c < (32 :: nat) \<or> c \<in> {CHR ''<'', CHR ''>'', CHR ''&''}
      then [CHR 0x5C, CHR ''u'', CHR ''0'', CHR ''0'', hex_digit (of_char c div 16), hex_digit (of_char c mod 16)]
      else [c])"

definition json_quote :: "string \<Rightarrow> string" where
  "json_quote s = CHR 0x22 # concat (map escape s) @ [CHR 0x22]"

definition new_line :: "nat \<Rightarrow> string" where
  "new_line d = CHR 0x0A # replicate (2 * d) (CHR '' '')"

fun indented :: "nat \<Rightarrow> json \<Rightarrow> string"
  and indented_elems :: "nat \<Rightarrow> json list \<Rightarrow> string"
  and indented_members :: "nat \<Rightarrow> (string \<times> json) list \<Rightarrow> string" where
  "indented d JNull = ''null''"
| "indented d (JBool b) = (if b then ''true'' else ''false'')"
| "indented d (JNum n) = n"
| "indented d (JStr s) = json_quote s"
| "indented d (JArr []) = ''[]''"
| "indented d (JArr (v # vs)) = ''['' @ indented_elems (d + 1) (v # vs) @ new_line d @ '']''"
| "indented d (JObj []) = ''{}''"
| "indented d (JObj (m # ms)) = ''{'' @ indented_members (d + 1) (m # ms) @ new_line d @ ''}''"
| "indented_elems d [] = ''''"
| "indented_elems d (v # vs) = new_line d @ indented d v @ (if vs = [] then '''' else '','' @ indented_elems d vs)"
| "indented_members d [] = ''''"
| "indented_members d ((k, v) # ms) =
     new_line d @ json_quote k @ '': '' @ indented d v @ (if ms = [] then '''' else '','' @ indented_members d ms)"

section \<open>Reading\<close>

fun skip_ws :: "string \<Rightarrow> string" where
  "skip_ws [] = []"
| "skip_ws (c # cs) = (if c \<in> {CHR '' '', CHR 0x09, CHR 0x0A, CHR 0x0D} then skip_ws cs else c # cs)"

definition hex_val :: "char \<Rightarrow> nat option" where
  "hex_val c =
     (let n = of_char c :: nat in
      if is_digit c then Some (n - 48)
      else if 97 \<le> n \<and> n \<le> 102 then Some (n - 87)
      else if 65 \<le> n \<and> n \<le> 70 then Some (n - 55) else None)"

text \<open>The code unit of the four hexadecimal digits at the front.\<close>

fun hex4 :: "string \<Rightarrow> nat option" where
  "hex4 (a # b # c # d # r) =
     (case (hex_val a, hex_val b, hex_val c, hex_val d) of
        (Some a, Some b, Some c, Some d) \<Rightarrow> Some (((a * 16 + b) * 16 + c) * 16 + d)
      | _ \<Rightarrow> None)"
| "hex4 _ = None"

definition utf8 :: "nat \<Rightarrow> string" where
  "utf8 n = map char_of
     (if n < 0x80 then [n]
      else if n < 0x800 then [0xC0 + n div 64, 0x80 + n mod 64]
      else if n < 0x10000 then [0xE0 + n div 4096, 0x80 + n div 64 mod 64, 0x80 + n mod 64]
      else [0xF0 + n div 262144, 0x80 + n div 4096 mod 64, 0x80 + n div 64 mod 64, 0x80 + n mod 64])"

text \<open>
  The digits after \<open>\u\<close>: the bytes they stand for, and how many characters they take.  Two halves of
  a surrogate pair make one code point; a lone half is the replacement character.
\<close>

definition unicode_escape :: "string \<Rightarrow> (string \<times> nat) option" where
  "unicode_escape cs =
     (case hex4 cs of
        None \<Rightarrow> None
      | Some u \<Rightarrow>
          if u < 0xD800 \<or> 0xDFFF < u then Some (utf8 u, 4)
          else if u < 0xDC00 \<and> take 2 (drop 4 cs) = [CHR 0x5C, CHR ''u''] then
            (case hex4 (drop 6 cs) of
               Some l \<Rightarrow> if 0xDC00 \<le> l \<and> l \<le> 0xDFFF then Some (utf8 (0x10000 + (u - 0xD800) * 0x400 + (l - 0xDC00)), 10)
                          else Some (utf8 0xFFFD, 4)
             | None \<Rightarrow> Some (utf8 0xFFFD, 4))
          else Some (utf8 0xFFFD, 4))"

definition simple_escape :: "char \<Rightarrow> char option" where
  "simple_escape e =
     (if e = CHR 0x22 \<or> e = CHR 0x5C \<or> e = CHR ''/'' then Some e
      else if e = CHR ''b'' then Some (CHR 0x08) else if e = CHR ''f'' then Some (CHR 0x0C)
      else if e = CHR ''n'' then Some (CHR 0x0A) else if e = CHR ''r'' then Some (CHR 0x0D)
      else if e = CHR ''t'' then Some (CHR 0x09) else None)"

text \<open>From behind the opening quote: the string and what follows the closing quote.\<close>

function lex_string :: "string \<Rightarrow> (string \<times> string) option" where
  "lex_string [] = None"
| "lex_string (c # cs) =
     (if c = CHR 0x22 then Some ([], cs)
      else if of_char c < (32 :: nat) then None
      else if c = CHR 0x5C then
        (if cs = [] then None
         else if hd cs = CHR ''u'' then
           (case unicode_escape (tl cs) of
              None \<Rightarrow> None
            | Some (bytes, n) \<Rightarrow> map_option (\<lambda>(w, r). (bytes @ w, r)) (lex_string (drop n (tl cs))))
         else
           (case simple_escape (hd cs) of
              None \<Rightarrow> None
            | Some b \<Rightarrow> map_option (\<lambda>(w, r). (b # w, r)) (lex_string (tl cs))))
      else map_option (\<lambda>(w, r). (c # w, r)) (lex_string cs))"
  by pat_completeness auto
termination by (relation "measure length") auto

declare lex_string.simps(2) [simp del]

text \<open>Numbers: an integer part without superfluous zeros, a fraction, an exponent.\<close>

definition digits_first :: "string \<Rightarrow> bool" where
  "digits_first s \<longleftrightarrow> s \<noteq> [] \<and> is_digit (hd s)"

definition exponent_ok :: "string \<Rightarrow> bool" where
  "exponent_ok s \<longleftrightarrow> s = [] \<or>
     (hd s \<in> {CHR ''e'', CHR ''E''} \<and>
      (let ds = (if tl s \<noteq> [] \<and> hd (tl s) \<in> {CHR ''+'', CHR ''-''} then tl (tl s) else tl s) in ds \<noteq> [] \<and> list_all is_digit ds))"

definition fraction_ok :: "string \<Rightarrow> bool" where
  "fraction_ok s \<longleftrightarrow>
     (if s \<noteq> [] \<and> hd s = CHR ''.'' then digits_first (tl s) \<and> exponent_ok (dropWhile is_digit (tl s)) else exponent_ok s)"

definition number_ok :: "string \<Rightarrow> bool" where
  "number_ok s \<longleftrightarrow>
     (let s = (if s \<noteq> [] \<and> hd s = CHR ''-'' then tl s else s) in
      digits_first s \<and> fraction_ok (if hd s = CHR ''0'' then tl s else dropWhile is_digit s))"

definition number_char :: "char \<Rightarrow> bool" where
  "number_char c \<longleftrightarrow> is_digit c \<or> c \<in> {CHR ''+'', CHR ''-'', CHR ''.'', CHR ''e'', CHR ''E''}"

definition lex_scalar :: "string \<Rightarrow> (json \<times> string) option" where
  "lex_scalar s =
     (if take 4 s = ''null'' then Some (JNull, drop 4 s)
      else if take 4 s = ''true'' then Some (JBool True, drop 4 s)
      else if take 5 s = ''false'' then Some (JBool False, drop 5 s)
      else let n = takeWhile number_char s in if number_ok n then Some (JNum n, dropWhile number_char s) else None)"

text \<open>\<open>n\<close> bounds the number of calls, \<open>d\<close> the nesting that is still allowed.\<close>

fun parse_value :: "nat \<Rightarrow> nat \<Rightarrow> string \<Rightarrow> (json \<times> string) option"
  and parse_elems :: "nat \<Rightarrow> nat \<Rightarrow> string \<Rightarrow> (json list \<times> string) option"
  and parse_members :: "nat \<Rightarrow> nat \<Rightarrow> string \<Rightarrow> ((string \<times> json) list \<times> string) option" where
  "parse_value 0 d s = None"
| "parse_value (Suc n) d s =
     (case skip_ws s of
        [] \<Rightarrow> None
      | c # cs \<Rightarrow>
          if c = CHR 0x22 then map_option (\<lambda>(w, r). (JStr w, r)) (lex_string cs)
          else if c = CHR ''['' then
            (if d = 0 then None
             else if skip_ws cs \<noteq> [] \<and> hd (skip_ws cs) = CHR '']'' then Some (JArr [], tl (skip_ws cs))
             else map_option (\<lambda>(vs, r). (JArr vs, r)) (parse_elems n (d - 1) cs))
          else if c = CHR ''{'' then
            (if d = 0 then None
             else if skip_ws cs \<noteq> [] \<and> hd (skip_ws cs) = CHR ''}'' then Some (JObj [], tl (skip_ws cs))
             else map_option (\<lambda>(ms, r). (JObj ms, r)) (parse_members n (d - 1) cs))
          else lex_scalar (c # cs))"
| "parse_elems 0 d s = None"
| "parse_elems (Suc n) d s =
     (case parse_value n d s of
        None \<Rightarrow> None
      | Some (v, r) \<Rightarrow>
          (case skip_ws r of
             [] \<Rightarrow> None
           | c # cs \<Rightarrow>
               if c = CHR '','' then map_option (\<lambda>(vs, r). (v # vs, r)) (parse_elems n d cs)
               else if c = CHR '']'' then Some ([v], cs)
               else None))"
| "parse_members 0 d s = None"
| "parse_members (Suc n) d s =
     (case skip_ws s of
        [] \<Rightarrow> None
      | q # cs \<Rightarrow>
          if q \<noteq> CHR 0x22 then None
          else
            (case lex_string cs of
               None \<Rightarrow> None
             | Some (k, r) \<Rightarrow>
                 if skip_ws r = [] \<or> hd (skip_ws r) \<noteq> CHR '':'' then None
                 else
                   (case parse_value n d (tl (skip_ws r)) of
                      None \<Rightarrow> None
                    | Some (v, r) \<Rightarrow>
                        (case skip_ws r of
                           [] \<Rightarrow> None
                         | c # cs \<Rightarrow>
                             if c = CHR '','' then map_option (\<lambda>(ms, r). ((k, v) # ms, r)) (parse_members n d cs)
                             else if c = CHR ''}'' then Some ([(k, v)], cs)
                             else None))))"

definition parse_json :: "string \<Rightarrow> json option" where
  "parse_json s =
     (case parse_value (2 * length s + 2) 10000 s of
        None \<Rightarrow> None
      | Some (v, r) \<Rightarrow> if skip_ws r = [] then Some v else None)"

section \<open>Reading what was written\<close>

lemma new_line_skip [simp]: "skip_ws (new_line d @ s) = skip_ws s"
proof -
  have "skip_ws (replicate k (CHR '' '') @ s) = skip_ws s" for k by (induction k) simp_all
  then show ?thesis by (simp add: new_line_def)
qed

lemma parse_skip: "skip_ws s = skip_ws s' \<Longrightarrow> parse_value n d s = parse_value n d s'"
  by (cases n) simp_all

lemma parse_new_line [simp]: "parse_value n d (new_line k @ s) = parse_value n d s"
  by (rule parse_skip) simp

lemma parse_blank [simp]: "parse_value n d (CHR '' '' # s) = parse_value n d s"
  by (rule parse_skip) simp

lemma hex_val_digit: "n < 16 \<Longrightarrow> hex_val (hex_digit n) = Some n"
  by (auto simp: hex_val_def hex_digit_def is_digit_def Let_def)

lemma unicode_escape_byte:
  assumes "n < 128"
  shows "unicode_escape (CHR ''0'' # CHR ''0'' # hex_digit (n div 16) # hex_digit (n mod 16) # r) = Some ([char_of n], 4)"
proof -
  have "hex_val (CHR ''0'') = Some 0" by (simp add: hex_val_def is_digit_def)
  then show ?thesis using assms by (simp add: unicode_escape_def hex_val_digit utf8_def)
qed

lemma lex_escape: "lex_string (escape c @ t) = map_option (\<lambda>(w, r). (c # w, r)) (lex_string t)"
proof -
  consider "c = CHR 0x22 \<or> c = CHR 0x5C" | "c \<in> {CHR 0x08, CHR 0x0C, CHR 0x0A, CHR 0x0D, CHR 0x09}"
    | "of_char c < (32 :: nat) \<or> c \<in> {CHR ''<'', CHR ''>'', CHR ''&''}" "c \<noteq> CHR 0x22 \<and> c \<noteq> CHR 0x5C"
      "c \<notin> {CHR 0x08, CHR 0x0C, CHR 0x0A, CHR 0x0D, CHR 0x09}"
    | "\<not> of_char c < (32 :: nat)" "c \<notin> {CHR ''<'', CHR ''>'', CHR ''&''}" "c \<noteq> CHR 0x22 \<and> c \<noteq> CHR 0x5C"
    by blast
  then show ?thesis
  proof cases
    case 3
    have "of_char c < (128 :: nat)" using 3(1) by auto
    moreover have "escape c = [CHR 0x5C, CHR ''u'', CHR ''0'', CHR ''0'', hex_digit (of_char c div 16), hex_digit (of_char c mod 16)]"
      using 3 by (simp only: escape_def insert_iff empty_iff simp_thms if_False if_True de_Morgan_disj)
    ultimately show ?thesis by (simp add: lex_string.simps(2) unicode_escape_byte)
  next
    case 4
    moreover have "c \<notin> {CHR 0x08, CHR 0x0C, CHR 0x0A, CHR 0x0D, CHR 0x09}" using 4(1) by auto
    then have "escape c = [c]" using 4 by (simp only: escape_def insert_iff empty_iff simp_thms if_False if_True de_Morgan_disj)
    ultimately show ?thesis by (simp add: lex_string.simps(2))
  qed (auto simp: escape_def lex_string.simps(2) simple_escape_def)
qed

lemma lex_quoted: "lex_string (concat (map escape s) @ CHR 0x22 # r) = Some (s, r)"
  by (induction s) (simp_all add: lex_string.simps(2) [of "CHR 0x22"] lex_escape)

text \<open>Documents whose numbers are well formed and whose nesting is at most \<open>e\<close>.\<close>

fun json_ok :: "nat \<Rightarrow> json \<Rightarrow> bool" and elems_ok :: "nat \<Rightarrow> json list \<Rightarrow> bool" and members_ok :: "nat \<Rightarrow> (string \<times> json) list \<Rightarrow> bool" where
  "json_ok e JNull = True"
| "json_ok e (JBool b) = True"
| "json_ok e (JNum n) = (number_ok n \<and> list_all number_char n)"
| "json_ok e (JStr s) = True"
| "json_ok e (JArr vs) = (0 < e \<and> elems_ok (e - 1) vs)"
| "json_ok e (JObj ms) = (0 < e \<and> members_ok (e - 1) ms)"
| "elems_ok e [] = True"
| "elems_ok e (v # vs) = (json_ok e v \<and> elems_ok e vs)"
| "members_ok e [] = True"
| "members_ok e ((k, v) # ms) = (json_ok e v \<and> members_ok e ms)"

fun cost :: "json \<Rightarrow> nat" and elems_cost :: "json list \<Rightarrow> nat" and members_cost :: "(string \<times> json) list \<Rightarrow> nat" where
  "cost (JArr vs) = 1 + elems_cost vs"
| "cost (JObj ms) = 1 + members_cost ms"
| "cost _ = 1"
| "elems_cost [] = 0"
| "elems_cost (v # vs) = 1 + cost v + elems_cost vs"
| "members_cost [] = 0"
| "members_cost ((k, v) # ms) = 1 + cost v + members_cost ms"

lemma number_nonempty: "number_ok n \<Longrightarrow> n \<noteq> []"
  by (auto simp: number_ok_def digits_first_def)

lemma cost_le:
  "json_ok e v \<Longrightarrow> cost v \<le> 2 * length (indented d v)"
  "elems_ok e vs \<Longrightarrow> elems_cost vs \<le> 2 * length (indented_elems d vs)"
  "members_ok e ms \<Longrightarrow> members_cost ms \<le> 2 * length (indented_members d ms)"
proof (induction d v and d vs and d ms arbitrary: e and e and e rule: indented_indented_elems_indented_members.induct)
  case (3 d n)
  then show ?case using number_nonempty [of n] by (cases n) simp_all
next
  case (6 d v vs)
  then show ?case using "6.IH" [of "e - 1"] by simp
next
  case (8 d m ms)
  then show ?case using "8.IH" [of "e - 1"] by (cases m) simp
next
  case (10 d v vs)
  then have "cost v \<le> 2 * length (indented d v)" "elems_cost vs \<le> 2 * length (indented_elems d vs)" by (auto, cases vs, auto)
  then show ?case by (simp add: new_line_def)
next
  case (12 d k v ms)
  then have "cost v \<le> 2 * length (indented d v)" "members_cost ms \<le> 2 * length (indented_members d ms)" by (auto, cases ms, auto)
  then show ?case by (simp add: new_line_def)
qed (simp_all add: json_quote_def)

definition stops :: "string \<Rightarrow> bool" where
  "stops r \<longleftrightarrow> r = [] \<or> \<not> number_char (hd r)"

lemma stops_new_line [simp]: "stops (new_line d @ r)"
  by (simp add: stops_def new_line_def number_char_def is_digit_def)

lemma stops_comma [simp]: "stops (CHR '','' # r)"
  by (simp add: stops_def number_char_def is_digit_def)

lemma lex_number:
  assumes "number_ok n" and "list_all number_char n" and "stops r"
  shows "lex_scalar (n @ r) = Some (JNum n, r)"
proof -
  obtain c cs where n: "n = c # cs" "number_char c" using number_nonempty [OF assms(1)] assms(2) by (cases n) auto
  have "c \<noteq> CHR ''n''" "c \<noteq> CHR ''t''" "c \<noteq> CHR ''f''" using n(2) by (auto simp: number_char_def is_digit_def)
  moreover have "takeWhile number_char (n @ r) = n" "dropWhile number_char (n @ r) = r"
    using assms(2,3) by (cases r, auto simp: stops_def list_all_iff)+
  ultimately show ?thesis using assms(1) n(1) by (simp add: lex_scalar_def)
qed

lemma number_start:
  assumes "number_ok n" and "list_all number_char n"
  obtains c cs where "n = c # cs" "skip_ws (n @ r) = n @ r" "c \<noteq> CHR 0x22" "c \<noteq> CHR ''[''" "c \<noteq> CHR ''{''"
  using number_nonempty [OF assms(1)] assms(2) proof (cases n)
  case (Cons c cs)
  then have "c \<notin> {CHR '' '', CHR 0x09, CHR 0x0A, CHR 0x0D}" "c \<noteq> CHR 0x22" "c \<noteq> CHR ''[''" "c \<noteq> CHR ''{''"
    using assms(2) by (auto simp: number_char_def is_digit_def)
  then show ?thesis using that Cons by simp
qed simp

lemma skip_new_line_char [simp]: "skip_ws (new_line d @ c # r) = skip_ws (c # r)"
  by (rule new_line_skip)

lemma indented_start:
  assumes "json_ok e v"
  obtains c cs where "indented d v = c # cs" "c \<noteq> CHR '']''" "c \<notin> {CHR '' '', CHR 0x09, CHR 0x0A, CHR 0x0D}"
proof (cases v)
  case (JNum n)
  then obtain c cs where "n = c # cs" "number_char c" using assms number_nonempty [of n] by (cases n) auto
  moreover from this have "c \<notin> {CHR '' '', CHR 0x09, CHR 0x0A, CHR 0x0D}" "c \<noteq> CHR '']''"
    by (auto simp: number_char_def is_digit_def)
  ultimately show ?thesis using that JNum by simp
next
  case (JArr vs)
  then show ?thesis using that by (cases vs) auto
next
  case (JObj ms)
  then show ?thesis using that by (cases ms) auto
next
  case (JBool b)
  then show ?thesis using that by (cases b) auto
qed (use that in \<open>auto simp: json_quote_def\<close>)

lemma parse_printed:
  "json_ok e v \<Longrightarrow> cost v \<le> n \<Longrightarrow> stops r \<Longrightarrow> parse_value n e (indented d v @ r) = Some (v, r)"
  "elems_ok e vs \<Longrightarrow> vs \<noteq> [] \<Longrightarrow> elems_cost vs \<le> n \<Longrightarrow>
     parse_elems n e (indented_elems d vs @ new_line k @ CHR '']'' # r) = Some (vs, r)"
  "members_ok e ms \<Longrightarrow> ms \<noteq> [] \<Longrightarrow> members_cost ms \<le> n \<Longrightarrow>
     parse_members n e (indented_members d ms @ new_line k @ CHR ''}'' # r) = Some (ms, r)"
proof (induction d v and d vs and d ms arbitrary: e n r and e n r k and e n r k rule: indented_indented_elems_indented_members.induct)
  case (1 d)
  then show ?case by (cases n) (simp_all add: lex_scalar_def)
next
  case (2 d b)
  then show ?case by (cases n) (simp_all add: lex_scalar_def)
next
  case (3 d num)
  then obtain m where m: "n = Suc m" by (cases n) auto
  have ok: "number_ok num" "list_all number_char num" using 3 by simp_all
  obtain c cs where "num = c # cs" "skip_ws (num @ r) = num @ r" "c \<noteq> CHR 0x22" "c \<noteq> CHR ''[''" "c \<noteq> CHR ''{''"
    by (rule number_start [OF ok])
  then show ?case using lex_number [OF ok 3(3)] m by simp
next
  case (4 d s)
  then show ?case by (cases n) (simp_all add: json_quote_def lex_quoted)
next
  case (5 d)
  then show ?case by (cases n) simp_all
next
  case (6 d v vs)
  then obtain m where m: "n = Suc m" by (cases n) auto
  have "json_ok (e - 1) v" using "6.prems" by simp
  then obtain c cs where c: "indented (Suc d) v = c # cs" "c \<noteq> CHR '']''" "c \<notin> {CHR '' '', CHR 0x09, CHR 0x0A, CHR 0x0D}"
    by (rule indented_start)
  show ?case using "6.IH" [of "e - 1" m d r] "6.prems" m c by simp
next
  case (7 d)
  then show ?case by (cases n) simp_all
next
  case (8 d mm ms)
  then obtain m where m: "n = Suc m" by (cases n) auto
  obtain k v where mm: "mm = (k, v)" by (cases mm)
  show ?case using "8.IH" [of "e - 1" m d r] "8.prems" m mm by (simp add: json_quote_def)
next
  case (10 d v vs)
  then obtain m where m: "n = Suc m" by (cases n) auto
  show ?case
  proof (cases "vs = []")
    case True
    then show ?thesis using "10.IH"(1) [of e m "new_line k @ CHR '']'' # r"] "10.prems" m by simp
  next
    case False
    then show ?thesis using "10.IH"(1) [of e m "CHR '','' # indented_elems d vs @ new_line k @ CHR '']'' # r"]
        "10.IH"(2) [of e m k r] "10.prems" m by simp
  qed
next
  case (12 d key v ms)
  then obtain m where m: "n = Suc m" by (cases n) auto
  show ?case
  proof (cases "ms = []")
    case True
    then show ?thesis using "12.IH"(1) [of e m "new_line k @ CHR ''}'' # r"] "12.prems" m by (simp add: json_quote_def lex_quoted)
  next
    case False
    then show ?thesis using "12.IH"(1) [of e m "CHR '','' # indented_members d ms @ new_line k @ CHR ''}'' # r"]
        "12.IH"(2) [of e m k r] "12.prems" m by (simp add: json_quote_def lex_quoted)
  qed
qed simp_all

lemma parse_document: "json_ok 10000 v \<Longrightarrow> parse_json (indented d v) = Some v"
  using parse_printed(1) [of 10000 v "2 * length (indented d v) + 2" "[]" d] cost_le(1) [of 10000 v d]
  by (simp add: parse_json_def stops_def)

lemma number_Itoa: "number_ok (Itoa i) \<and> list_all number_char (Itoa i)"
proof -
  have dig: "list_all is_digit (nat_digits n)" "nat_digits n \<noteq> []" for n by (simp_all add: nat_digits_digits)
  have "hd (nat_digits n) = CHR ''0'' \<Longrightarrow> tl (nat_digits n) = []" for n
  proof (induction n rule: nat_digits.induct)
    case (1 n)
    show ?case
    proof (cases "n < 10")
      case True
      then show ?thesis by (subst nat_digits.simps) simp
    next
      case False
      then have eq: "nat_digits n = nat_digits (n div 10) @ [digit_char (n mod 10)]" by (subst nat_digits.simps) simp
      then have "hd (nat_digits (n div 10)) = CHR ''0''" using "1.prems" by simp
      then have "tl (nat_digits (n div 10)) = []" "hd (nat_digits (n div 10)) = CHR ''0''" using "1.IH" [OF False] by simp_all
      then have "nat_digits (n div 10) = ''0''" using dig(2) [of "n div 10"] by (cases "nat_digits (n div 10)") simp_all
      then have "digits_val (nat_digits (n div 10)) = 0" by (simp add: digits_val_def digit_val_def)
      then show ?thesis using False by (simp add: digits_val_nat_digits)
    qed
  qed
  moreover have "dropWhile is_digit (nat_digits n) = []" for n using dig(1) [of n] by (auto simp: list_all_iff dropWhile_eq_Nil_conv)
  moreover have "fraction_ok []" by (simp add: fraction_ok_def exponent_ok_def)
  moreover have "digits_first (nat_digits n)" for n using dig [of n] by (cases "nat_digits n") (simp_all add: digits_first_def)
  ultimately have num: "digits_first (nat_digits n) \<and>
      fraction_ok (if hd (nat_digits n) = CHR ''0'' then tl (nat_digits n) else dropWhile is_digit (nat_digits n))" for n
    by metis
  have "list_all number_char (nat_digits n)" for n using dig(1) [of n] by (auto simp: list_all_iff number_char_def)
  then show ?thesis using hd_nat_digits num by (cases "i < 0") (simp_all add: number_ok_def Itoa_def Let_def number_char_def del: if_split)
qed

end
