(* ===== verification/Book_File.thy ===== *)
theory Book_File
  imports Opening_Book Go_Json "HOL-Library.AList"
begin

text \<open>
  The opening book as a file (\<open>Load\<close> and \<open>Marshal\<close> of \<open>pkg/openingbook/book.go\<close>): the JSON document
  of a book, and how \<open>Unmarshal\<close> fills the structure \<open>wireBook\<close> from a document.  Field names are
  matched without regard to case, unknown fields are skipped, \<open>null\<close> leaves a number or a string as it
  is and empties a slice or a map, and a value of another type is an error.  A nil slice is the
  empty list: only books that \<open>Build\<close> made are written, and their entries are not empty.
\<close>

section \<open>Writing\<close>

definition json_move :: "BookMove \<Rightarrow> json" where
  "json_move m = JObj [(''uci'', JStr (bm_UCI m)), (''weight'', JNum (Itoa (bm_Weight m)))]"

text \<open>The keys of a map are written in ascending order.\<close>

definition json_book :: "Book \<Rightarrow> json" where
  "json_book b = JObj [(''positions'', JObj (map (\<lambda>(key, ms). (key, JArr (map json_move ms))) (sort_key fst b)))]"

definition Marshal :: "Book \<Rightarrow> string" where
  "Marshal b = indented 0 (json_book b)"

section \<open>Reading\<close>

definition upper_ascii :: "char \<Rightarrow> char" where
  "upper_ascii c = (let n = of_char c :: nat in if 97 \<le> n \<and> n \<le> 122 then char_of (n - 32) else c)"

text \<open>Case folding of a field name: ASCII letters, and the long s (U+017F), which folds to S.\<close>

fun fold_name :: "string \<Rightarrow> string" where
  "fold_name [] = []"
| "fold_name [c] = [upper_ascii c]"
| "fold_name (c # d # cs) = (if c = CHR 0xC5 \<and> d = CHR 0xBF then CHR ''S'' # fold_name cs else upper_ascii c # fold_name (d # cs))"

definition is_field :: "string \<Rightarrow> string \<Rightarrow> bool" where
  "is_field name key \<longleftrightarrow> fold_name key = fold_name name"

definition decode_string :: "string \<Rightarrow> json \<Rightarrow> string option" where
  "decode_string old v = (case v of JStr s \<Rightarrow> Some s | JNull \<Rightarrow> Some old | _ \<Rightarrow> None)"

text \<open>A number must be an integer literal in the range of \<open>int\<close>.\<close>

definition decode_int :: "int \<Rightarrow> json \<Rightarrow> int option" where
  "decode_int old v = (case v of JNum n \<Rightarrow> Atoi n | JNull \<Rightarrow> Some old | _ \<Rightarrow> None)"

definition decode_field :: "BookMove \<Rightarrow> string \<times> json \<Rightarrow> BookMove option" where
  "decode_field m kv =
     (if is_field ''uci'' (fst kv) then map_option (\<lambda>s. m\<lparr>bm_UCI := s\<rparr>) (decode_string (bm_UCI m) (snd kv))
      else if is_field ''weight'' (fst kv) then map_option (\<lambda>w. m\<lparr>bm_Weight := w\<rparr>) (decode_int (bm_Weight m) (snd kv))
      else Some m)"

fun decode_fields :: "BookMove \<Rightarrow> (string \<times> json) list \<Rightarrow> BookMove option" where
  "decode_fields m [] = Some m"
| "decode_fields m (kv # kvs) = (case decode_field m kv of None \<Rightarrow> None | Some m \<Rightarrow> decode_fields m kvs)"

definition zeroMove :: BookMove where
  "zeroMove = \<lparr>bm_UCI = '''', bm_Weight = 0\<rparr>"

definition decode_move :: "json \<Rightarrow> BookMove option" where
  "decode_move v = (case v of JObj kvs \<Rightarrow> decode_fields zeroMove kvs | JNull \<Rightarrow> Some zeroMove | _ \<Rightarrow> None)"

fun decode_all :: "json list \<Rightarrow> BookMove list option" where
  "decode_all [] = Some []"
| "decode_all (v # vs) =
     (case decode_move v of None \<Rightarrow> None | Some m \<Rightarrow> (case decode_all vs of None \<Rightarrow> None | Some ms \<Rightarrow> Some (m # ms)))"

definition decode_moves :: "json \<Rightarrow> BookMove list option" where
  "decode_moves v = (case v of JArr vs \<Rightarrow> decode_all vs | JNull \<Rightarrow> Some [] | _ \<Rightarrow> None)"

text \<open>A key that comes again replaces the entry.\<close>

fun decode_entries :: "Book \<Rightarrow> (string \<times> json) list \<Rightarrow> Book option" where
  "decode_entries b [] = Some b"
| "decode_entries b ((key, v) # kvs) =
     (case decode_moves v of None \<Rightarrow> None | Some ms \<Rightarrow> decode_entries (AList.update key ms b) kvs)"

definition decode_positions :: "Book \<Rightarrow> json \<Rightarrow> Book option" where
  "decode_positions b v = (case v of JObj kvs \<Rightarrow> decode_entries b kvs | JNull \<Rightarrow> Some [] | _ \<Rightarrow> None)"

fun decode_wire :: "Book \<Rightarrow> (string \<times> json) list \<Rightarrow> Book option" where
  "decode_wire b [] = Some b"
| "decode_wire b ((key, v) # kvs) =
     (case (if is_field ''positions'' key then decode_positions b v else Some b) of
        None \<Rightarrow> None
      | Some b \<Rightarrow> decode_wire b kvs)"

text \<open>A document without positions, or \<open>null\<close>, is an empty book; \<open>None\<close> is the error.\<close>

definition Load :: "string \<Rightarrow> Book option" where
  "Load data =
     (case parse_json data of
        None \<Rightarrow> None
      | Some v \<Rightarrow> (case v of JObj kvs \<Rightarrow> decode_wire [] kvs | JNull \<Rightarrow> Some [] | _ \<Rightarrow> None))"

section \<open>Reading what was written\<close>

definition writable :: "Book \<Rightarrow> bool" where
  "writable b \<longleftrightarrow> distinct (map fst b) \<and> (\<forall>(key, ms) \<in> set b. \<forall>m \<in> set ms. int64_range (bm_Weight m))"

lemma decode_move_json: "int64_range (bm_Weight m) \<Longrightarrow> decode_move (json_move m) = Some m"
  by (simp add: decode_move_def json_move_def decode_field_def is_field_def upper_ascii_def Let_def decode_string_def decode_int_def
      Atoi_Itoa zeroMove_def)

lemma decode_all_json: "\<forall>m \<in> set ms. int64_range (bm_Weight m) \<Longrightarrow> decode_all (map json_move ms) = Some ms"
  by (induction ms) (simp_all add: decode_move_json)

lemma update_new: "key \<notin> fst ` set b \<Longrightarrow> AList.update key ms b = b @ [(key, ms)]"
  by (induction b) auto

lemma decode_entries_json:
  assumes "\<forall>(key, ms) \<in> set b. \<forall>m \<in> set ms. int64_range (bm_Weight m)" and "distinct (map fst (b0 @ b))"
  shows "decode_entries b0 (map (\<lambda>(key, ms). (key, JArr (map json_move ms))) b) = Some (b0 @ b)"
  using assms
proof (induction b arbitrary: b0)
  case (Cons e b)
  obtain key ms where e: "e = (key, ms)" by (cases e)
  have "AList.update key ms b0 = b0 @ [(key, ms)]" using Cons.prems(2) e by (intro update_new) auto
  then show ?case using Cons.IH [of "b0 @ [(key, ms)]"] Cons.prems e by (simp add: decode_moves_def decode_all_json)
qed simp

lemma Load_indented:
  assumes "writable b"
  shows "Load (Marshal b) = Some (sort_key fst b)"
proof -
  let ?b = "sort_key fst b"
  have d: "distinct (map fst ?b)" "\<forall>(key, ms) \<in> set ?b. \<forall>m \<in> set ms. int64_range (bm_Weight m)"
    using assms by (auto simp: writable_def distinct_map)
  have "elems_ok 9997 (map json_move ms)" for ms
    by (induction ms) (simp_all add: json_move_def number_Itoa)
  then have "members_ok 9998 (map (\<lambda>(key, ms). (key, JArr (map json_move ms))) b')" for b'
    by (induction b') auto
  then have "json_ok 10000 (json_book b)" by (simp add: json_book_def)
  then have "parse_json (Marshal b) = Some (json_book b)" unfolding Marshal_def by (rule parse_document)
  then show ?thesis using decode_entries_json [OF d(2), of "[]"] d(1)
    by (simp add: Load_def json_book_def is_field_def decode_positions_def)
qed

text \<open>Two books that answer alike.\<close>

definition plays_like :: "Book option \<Rightarrow> Book option \<Rightarrow> bool" where
  "plays_like b b' \<longleftrightarrow> (\<forall>rng fen. Book_Move rng b fen = Book_Move rng b' fen) \<and> Book_Len b = Book_Len b'"

lemma plays_like_refl [simp]: "plays_like b b"
  by (simp add: plays_like_def)

lemma plays_like_sorted:
  assumes "distinct (map fst b)"
  shows "plays_like (Some (sort_key fst b)) (Some b)"
proof -
  have "distinct (map fst (sort_key fst b))" using assms by (auto simp: distinct_map)
  then have "map_of (sort_key fst b) = map_of b" using assms by (intro ext) (metis map_of_eq_Some_iff not_Some_eq set_sort)
  then show ?thesis by (simp add: plays_like_def Book_Move_def Book_Len_def)
qed

lemma member_le_sum_list_int: "\<forall>x \<in> set xs. 0 \<le> (x :: int) \<Longrightarrow> y \<in> set xs \<Longrightarrow> y \<le> sum_list xs"
proof (induction xs)
  case (Cons x xs)
  then have "0 \<le> sum_list xs" by (intro sum_list_nonneg) simp
  then show ?case using Cons by force
qed simp

lemma Build_writable:
  assumes "Build lines = Inr book" and "sum_list (map length lines) < 2 ^ 62"
  shows "writable book"
proof -
  obtain cs where cs: "walkLines [] lines = Inr cs" "book = map (\<lambda>key. (key, movesAt cs key)) (remdups (map (fst \<circ> fst) cs))"
    using assms(1) by (auto simp: Build_def split: sum.splits)
  have "\<forall>line \<in> set lines. length line < 2 ^ 62" using assms(2) member_le_sum_list [of _ "map length lines"] by fastforce
  then have "list_all entry_ok cs" using walkLines_ok [OF cs(1)] by simp
  then have pos: "\<forall>c \<in> set cs. 0 < snd c" unfolding list_all_iff entry_ok_def by blast
  have "countSum cs < 2 ^ 62" using countSum_walkLines [OF cs(1)] assms(2) by (simp add: countSum_def)
  moreover have "snd c \<le> countSum cs" if "c \<in> set cs" for c
  proof -
    have "\<forall>x \<in> set (map snd cs). 0 \<le> x" using pos by fastforce
    then show ?thesis using member_le_sum_list_int [of "map snd cs" "snd c"] that by (simp add: countSum_def case_prod_beta')
  qed
  ultimately have "int64_range (bm_Weight m)" if "m \<in> set (movesAt cs key)" for m key
    using that pos by (fastforce simp: set_movesAt int64_range_def)
  then show ?thesis by (auto simp: writable_def cs(2) comp_def)
qed

section \<open>Properties\<close>

text \<open>
  A book survives its file: a book built from opening lines (fewer than 2^62 moves in all), written
  by \<open>Marshal\<close> and read by \<open>Load\<close>, is read without an error and plays as before: for every position
  and every number drawn it gives the same answer, and it covers as many positions.
\<close>

theorem book_survives_its_file:
  assumes "Build lines = Inr book" and "sum_list (map length lines) < 2 ^ 62"
  shows "\<exists>book'. Load (Marshal book) = Some book' \<and> plays_like (Some book') (Some book)"
  using Load_indented plays_like_sorted Build_writable [OF assms] by (auto simp: writable_def)

theorem book_survives_its_file_witness:
  "\<exists>book book'. Seed = Some book \<and> Load (Marshal book) = Some book' \<and> plays_like (Some book') (Some book)"
proof -
  obtain book ms where b: "Build seedLines = Inr book" "Seed = Some book" "map_of book (bookKey (FEN startBoard)) = Some ms" "ms \<noteq> []"
    by (rule seed_book)
  have "sum_list (map length seedLines) < 2 ^ 62" by (simp add: seedLines_def)
  then show ?thesis using book_survives_its_file [OF b(1)] b(2) by blast
qed

text \<open>
  The file is trusted: \<open>Load\<close> accepts a book with any text for a move, and the book plays it.
\<close>

theorem Load_takes_any_move:
  "\<exists>data book. Load data = Some book \<and> Book_Move rng (Some book) StartFEN = Some u"
proof -
  let ?b = "[(bookKey StartFEN, [\<lparr>bm_UCI = u, bm_Weight = 1\<rparr>])]"
  have "writable ?b" by (simp add: writable_def int64_range_def)
  from Load_indented [OF this] have "Load (Marshal ?b) = Some ?b" by simp
  moreover have "Book_Move rng (Some ?b) StartFEN = Some u" by (simp add: Book_Move_def totalWeight_def wrap64_def)
  ultimately show ?thesis by blast
qed

end
