(* ===== verification/Config.thy ===== *)
theory Config
  imports Go_Strings
begin

text \<open>
  Configuration from the environment (\<open>pkg/config\<close>): \<open>env key\<close> is \<open>os.Getenv\<close>, the empty string when
  the variable is not set.
\<close>

definition Getenv :: "(string \<Rightarrow> string) \<Rightarrow> string \<Rightarrow> string \<Rightarrow> string" where
  "Getenv env key def = (if env key \<noteq> '''' then env key else def)"

definition GetenvInt :: "(string \<Rightarrow> string) \<Rightarrow> string \<Rightarrow> int \<Rightarrow> int" where
  "GetenvInt env key def =
     (if env key \<noteq> '''' then (case Atoi (env key) of Some n \<Rightarrow> n | None \<Rightarrow> def) else def)"

lemma GetenvInt_Itoa: "env key = Itoa n \<Longrightarrow> int64_range n \<Longrightarrow> GetenvInt env key def = n"
  using Itoa_word [of n] by (simp add: GetenvInt_def Atoi_Itoa word_def)

section \<open>Waiting for the database\<close>

text \<open>
  The services that need Postgres try up to thirty times before they give up; \<open>migrate n\<close> and
  \<open>connect n\<close> are the outcomes of the \<open>n\<close>-th attempt, \<open>cancelled n\<close> whether the process is told to stop
  while it waits after it.
\<close>

fun migrate_from :: "(nat \<Rightarrow> 'e option) \<Rightarrow> nat \<Rightarrow> nat \<Rightarrow> 'e option \<Rightarrow> 'e option" where
  "migrate_from migrate 0 attempt err = err"
| "migrate_from migrate (Suc left) attempt err =
     (case migrate attempt of None \<Rightarrow> None | Some e \<Rightarrow> migrate_from migrate left (attempt + 1) (Some e))"

definition migrateWithRetry :: "(nat \<Rightarrow> 'e option) \<Rightarrow> 'e option" where
  "migrateWithRetry migrate = migrate_from migrate 30 1 None"

datatype 'e ConnectError = Cancelled | NotConnected "'e option"

fun connect_from :: "(nat \<Rightarrow> 'e + 'a) \<Rightarrow> (nat \<Rightarrow> bool) \<Rightarrow> nat \<Rightarrow> nat \<Rightarrow> 'e option \<Rightarrow> 'e ConnectError + 'a" where
  "connect_from connect cancelled 0 attempt lastErr = Inl (NotConnected lastErr)"
| "connect_from connect cancelled (Suc left) attempt lastErr =
     (case connect attempt of
        Inr st \<Rightarrow> Inr st
      | Inl e \<Rightarrow> if cancelled attempt then Inl Cancelled else connect_from connect cancelled left (attempt + 1) (Some e))"

definition connectStore :: "(nat \<Rightarrow> 'e + 'a) \<Rightarrow> (nat \<Rightarrow> bool) \<Rightarrow> 'e ConnectError + 'a" where
  "connectStore connect cancelled = connect_from connect cancelled 30 1 None"

text \<open>A service starts exactly when one of the thirty attempts succeeds.\<close>

lemma migrate_from_iff:
  "migrate_from migrate k a (Some e) = None \<longleftrightarrow> (\<exists>n. a \<le> n \<and> n < a + k \<and> migrate n = None)"
proof (induction k arbitrary: a e)
  case (Suc k)
  show ?case
  proof (cases "migrate a")
    case (Some x)
    then have "(\<exists>n. a \<le> n \<and> n < a + Suc k \<and> migrate n = None) \<longleftrightarrow> (\<exists>n. a + 1 \<le> n \<and> n < a + 1 + k \<and> migrate n = None)"
      by (metis Suc_eq_plus1 add_Suc_right add_Suc_shift le_eq_less_or_eq not_Some_eq Suc_le_eq)
    then show ?thesis using Suc.IH [of "a + 1" x] Some by simp
  qed auto
qed simp

lemma migrateWithRetry_iff: "migrateWithRetry migrate = None \<longleftrightarrow> (\<exists>n. 1 \<le> n \<and> n < 31 \<and> migrate n = None)"
proof -
  have "migrateWithRetry migrate = migrate_from migrate 30 1 (Some e)" for e
    by (simp add: migrateWithRetry_def numeral_eq_Suc split: option.splits)
  then show ?thesis using migrate_from_iff [of migrate 30 1] by simp
qed

end
