(* ===== verification/Object_Store.thy ===== *)
theory Object_Store
  imports Book_File Config Game_Play Game_History
begin

text \<open>
  Object storage (\<open>pkg/objstore\<close>) and what is kept there: the opening book that the engine workers load
  when they start (\<open>loadBook\<close> in \<open>services/engine-worker/main.go\<close>) and the archived games.  The client
  of the storage service is a parameter, a record of its calls over a state that only it knows;
  \<open>s3_laws\<close> says what the code relies on, through the objects \<open>obj s\<close> that a state holds.
\<close>

section \<open>The client of the storage service\<close>

datatype GetFailure = OpenFailed | ReadFailed

datatype StatReply = Present | ErrorCode string

text \<open>A client is identified by its endpoint and by whether it uses TLS.\<close>

type_synonym ClientId = "string \<times> bool"

record 's S3 =
  s3_New :: "ClientId \<Rightarrow> bool"
  s3_BucketExists :: "string \<Rightarrow> 's \<Rightarrow> bool option \<times> 's"
  s3_MakeBucket :: "string \<Rightarrow> 's \<Rightarrow> bool \<times> 's"
  s3_PutObject :: "string \<Rightarrow> string \<Rightarrow> string \<Rightarrow> string \<Rightarrow> 's \<Rightarrow> bool \<times> 's"
  s3_GetObject :: "string \<Rightarrow> string \<Rightarrow> 's \<Rightarrow> (GetFailure + string) \<times> 's"
  s3_StatObject :: "string \<Rightarrow> string \<Rightarrow> 's \<Rightarrow> StatReply \<times> 's"
  s3_Presign :: "ClientId \<Rightarrow> string \<Rightarrow> string \<Rightarrow> int \<Rightarrow> (string \<times> string) list \<Rightarrow> string option"

type_synonym Objects = "string \<times> string \<Rightarrow> string option"

text \<open>A write that fails may have been carried out all the same.\<close>

definition s3_laws :: "'s S3 \<Rightarrow> ('s \<Rightarrow> Objects) \<Rightarrow> bool" where
  "s3_laws c obj \<longleftrightarrow>
     (\<forall>b s. obj (snd (s3_BucketExists c b s)) = obj s) \<and>
     (\<forall>b s. obj (snd (s3_MakeBucket c b s)) = obj s) \<and>
     (\<forall>b k d t s ok s'. s3_PutObject c b k d t s = (ok, s') \<longrightarrow>
        obj s' = (obj s)((b, k) \<mapsto> d) \<or> (\<not> ok \<and> obj s' = obj s)) \<and>
     (\<forall>b k s r s'. s3_GetObject c b k s = (r, s') \<longrightarrow> obj s' = obj s \<and> (\<forall>d. r = Inr d \<longrightarrow> obj s (b, k) = Some d)) \<and>
     (\<forall>b k s r s'. s3_StatObject c b k s = (r, s') \<longrightarrow>
        obj s' = obj s \<and> (r = Present \<longrightarrow> obj s (b, k) \<noteq> None) \<and> (r = ErrorCode ''NoSuchKey'' \<longrightarrow> obj s (b, k) = None))"

section \<open>The store\<close>

definition BucketPGN :: string where "BucketPGN = ''pgn''"
definition BucketAnalysis :: string where "BucketAnalysis = ''analysis''"
definition BucketBooks :: string where "BucketBooks = ''books''"

record ObjStore =
  os_client :: ClientId
  os_presignClient :: ClientId
  os_prefix :: string

record ObjConfig =
  oc_Endpoint :: string
  oc_AccessKey :: string
  oc_SecretKey :: string
  oc_UseSSL :: bool
  oc_PublicEndpoint :: string
  oc_PublicSSL :: bool
  oc_Region :: string
  oc_BucketPrefix :: string

datatype ObjError =
    ObjDisabled | ClientError | PublicClientError | CheckBucketError string | CreateBucketError string
  | PutError | GetError | ReadError | PresignError | StatError

text \<open>A nil store is \<open>None\<close>.\<close>

definition Obj_Enabled :: "ObjStore option \<Rightarrow> bool" where
  "Obj_Enabled s \<longleftrightarrow> s \<noteq> None"

definition qualify :: "ObjStore \<Rightarrow> string \<Rightarrow> string" where
  "qualify st bucket = os_prefix st @ bucket"

text \<open>\<open>None\<close> is success; the second look is for a replica that created the bucket in between.\<close>

definition ensureBucket :: "'s S3 \<Rightarrow> ObjStore \<Rightarrow> string \<Rightarrow> 's \<Rightarrow> ObjError option \<times> 's" where
  "ensureBucket c st bucket s =
     (let name = qualify st bucket in
      case s3_BucketExists c name s of
        (None, s) \<Rightarrow> (Some (CheckBucketError name), s)
      | (Some True, s) \<Rightarrow> (None, s)
      | (Some False, s) \<Rightarrow>
          (case s3_MakeBucket c name s of
             (True, s) \<Rightarrow> (None, s)
           | (False, s) \<Rightarrow>
               (case s3_BucketExists c name s of
                  (Some True, s) \<Rightarrow> (None, s)
                | (_, s) \<Rightarrow> (Some (CreateBucketError name), s))))"

fun ensureBuckets :: "'s S3 \<Rightarrow> ObjStore \<Rightarrow> string list \<Rightarrow> 's \<Rightarrow> ObjError option \<times> 's" where
  "ensureBuckets c st [] s = (None, s)"
| "ensureBuckets c st (b # bs) s =
     (case ensureBucket c st b s of (Some e, s) \<Rightarrow> (Some e, s) | (None, s) \<Rightarrow> ensureBuckets c st bs s)"

definition Obj_Dial :: "'s S3 \<Rightarrow> ObjConfig \<Rightarrow> 's \<Rightarrow> (ObjError + ObjStore option) \<times> 's" where
  "Obj_Dial c cfg s =
     (if oc_Endpoint cfg = '''' then (Inr None, s)
      else
        let client = (oc_Endpoint cfg, oc_UseSSL cfg);
            split = (oc_PublicEndpoint cfg \<noteq> '''' \<and> oc_PublicEndpoint cfg \<noteq> oc_Endpoint cfg);
            pub = (if split then (oc_PublicEndpoint cfg, oc_PublicSSL cfg) else client);
            st = \<lparr>os_client = client, os_presignClient = pub, os_prefix = oc_BucketPrefix cfg\<rparr>
        in if \<not> s3_New c client then (Inl ClientError, s)
           else if split \<and> \<not> s3_New c pub then (Inl PublicClientError, s)
           else (case ensureBuckets c st [BucketPGN, BucketAnalysis, BucketBooks] s of
                   (Some e, s) \<Rightarrow> (Inl e, s)
                 | (None, s) \<Rightarrow> (Inr (Some st), s)))"

definition Obj_Put :: "'s S3 \<Rightarrow> ObjStore option \<Rightarrow> string \<Rightarrow> string \<Rightarrow> string \<Rightarrow> string \<Rightarrow> 's \<Rightarrow> ObjError option \<times> 's" where
  "Obj_Put c os bucket k data contentType s =
     (case os of
        None \<Rightarrow> (None, s)
      | Some st \<Rightarrow>
          (case s3_PutObject c (qualify st bucket) k data contentType s of
             (True, s) \<Rightarrow> (None, s)
           | (False, s) \<Rightarrow> (Some PutError, s)))"

definition Obj_Get :: "'s S3 \<Rightarrow> ObjStore option \<Rightarrow> string \<Rightarrow> string \<Rightarrow> 's \<Rightarrow> (ObjError + string) \<times> 's" where
  "Obj_Get c os bucket k s =
     (case os of
        None \<Rightarrow> (Inl ObjDisabled, s)
      | Some st \<Rightarrow>
          (case s3_GetObject c (qualify st bucket) k s of
             (Inl OpenFailed, s) \<Rightarrow> (Inl GetError, s)
           | (Inl ReadFailed, s) \<Rightarrow> (Inl ReadError, s)
           | (Inr data, s) \<Rightarrow> (Inr data, s)))"

text \<open>\<open>quote\<close> is the verb \<open>%q\<close>.\<close>

definition Obj_PresignedGet :: "'s S3 \<Rightarrow> (string \<Rightarrow> string) \<Rightarrow> ObjStore option \<Rightarrow> string \<Rightarrow> string \<Rightarrow> int \<Rightarrow> string \<Rightarrow> ObjError + string" where
  "Obj_PresignedGet c quote os bucket k ttl downloadName =
     (case os of
        None \<Rightarrow> Inl ObjDisabled
      | Some st \<Rightarrow>
          let params = (if downloadName \<noteq> '''' then [(''response-content-disposition'', ''attachment; filename='' @ quote downloadName)] else [])
          in (case s3_Presign c (os_presignClient st) (qualify st bucket) k ttl params of
                None \<Rightarrow> Inl PresignError
              | Some url \<Rightarrow> Inr url))"

definition Obj_Exists :: "'s S3 \<Rightarrow> ObjStore option \<Rightarrow> string \<Rightarrow> string \<Rightarrow> 's \<Rightarrow> (ObjError + bool) \<times> 's" where
  "Obj_Exists c os bucket k s =
     (case os of
        None \<Rightarrow> (Inr False, s)
      | Some st \<Rightarrow>
          (case s3_StatObject c (qualify st bucket) k s of
             (Present, s) \<Rightarrow> (Inr True, s)
           | (ErrorCode ec, s) \<Rightarrow> (if ec = ''NoSuchKey'' then Inr False else Inl StatError, s)))"

section \<open>Loading the opening book\<close>

definition bookFile :: string where
  "bookFile = ''mainline.json''"

definition dialObjectStore :: "'s S3 \<Rightarrow> (string \<Rightarrow> string) \<Rightarrow> 's \<Rightarrow> ObjStore option \<times> 's" where
  "dialObjectStore c env s =
     (case Obj_Dial c
             \<lparr>oc_Endpoint = Getenv env ''ACG_S3_ENDPOINT'' '''', oc_AccessKey = Getenv env ''ACG_S3_ACCESS_KEY'' '''',
              oc_SecretKey = Getenv env ''ACG_S3_SECRET_KEY'' '''', oc_UseSSL = (Getenv env ''ACG_S3_SSL'' ''false'' = ''true''),
              oc_PublicEndpoint = '''', oc_PublicSSL = False, oc_Region = Getenv env ''ACG_S3_REGION'' ''us-east-1'',
              oc_BucketPrefix = Getenv env ''ACG_S3_BUCKET_PREFIX'' ''''\<rparr> s of
        (Inl e, s) \<Rightarrow> (None, s)
      | (Inr os, s) \<Rightarrow> (os, s))"

text \<open>Reading the book: \<open>None\<close> when it is absent, cannot be read or is not a book.\<close>

definition readBook :: "'s S3 \<Rightarrow> ObjStore option \<Rightarrow> 's \<Rightarrow> Book option \<times> 's" where
  "readBook c os s =
     (case Obj_Get c os BucketBooks bookFile s of
        (Inl e, s) \<Rightarrow> (None, s)
      | (Inr data, s) \<Rightarrow> (Load data, s))"

text \<open>Falling back on the built-in book, and uploading it.  \<open>None\<close> is the panic of \<open>Seed\<close>.\<close>

definition seedBook :: "'s S3 \<Rightarrow> ObjStore option \<Rightarrow> 's \<Rightarrow> Book option \<times> 's" where
  "seedBook c os s =
     (case Seed of
        None \<Rightarrow> (None, s)
      | Some book \<Rightarrow> (Some book, snd (Obj_Put c os BucketBooks bookFile (Marshal book) ''application/json'' s)))"

definition loadBook :: "'s S3 \<Rightarrow> ObjStore option \<Rightarrow> 's \<Rightarrow> Book option \<times> 's" where
  "loadBook c os s =
     (if \<not> Obj_Enabled os then (Seed, s)
      else case readBook c os s of (Some book, s) \<Rightarrow> (Some book, s) | (None, s) \<Rightarrow> seedBook c os s)"

section \<open>Objects\<close>

lemma Put_objects:
  assumes "s3_laws c obj"
  shows "obj (snd (Obj_Put c (Some st) b k d t s)) = (obj s)((qualify st b, k) \<mapsto> d) \<or>
    (fst (Obj_Put c (Some st) b k d t s) \<noteq> None \<and> obj (snd (Obj_Put c (Some st) b k d t s)) = obj s)"
proof -
  obtain ok s' where p: "s3_PutObject c (qualify st b) k d t s = (ok, s')" by (metis prod.collapse)
  then have "obj s' = (obj s)((qualify st b, k) \<mapsto> d) \<or> (\<not> ok \<and> obj s' = obj s)"
    by (rule assms [unfolded s3_laws_def, THEN conjunct2, THEN conjunct2, THEN conjunct1, rule_format])
  then show ?thesis using p by (cases ok) (simp_all add: Obj_Put_def)
qed

lemma Get_objects:
  assumes "s3_laws c obj" and "Obj_Get c (Some st) b k s = (r, s')"
  shows "obj s' = obj s" and "r = Inr d \<Longrightarrow> obj s (qualify st b, k) = Some d"
proof -
  obtain g s1 where g: "s3_GetObject c (qualify st b) k s = (g, s1)" by (metis prod.collapse)
  then have "obj s1 = obj s \<and> (\<forall>d. g = Inr d \<longrightarrow> obj s (qualify st b, k) = Some d)"
    using assms(1) unfolding s3_laws_def by blast
  then show "obj s' = obj s" and "r = Inr d \<Longrightarrow> obj s (qualify st b, k) = Some d"
    using g assms(2) by (auto simp: Obj_Get_def split: sum.splits GetFailure.splits)
qed

lemma readBook_objects:
  assumes "s3_laws c obj" and "readBook c (Some st) s = (r, s')"
  shows "obj s' = obj s" and "r = Some book \<Longrightarrow> \<exists>data. obj s (qualify st BucketBooks, bookFile) = Some data \<and> Load data = Some book"
  using assms(2) Get_objects [OF assms(1), of st BucketBooks bookFile s]
  by (auto simp: readBook_def split: sum.splits prod.splits)

text \<open>The built-in book and its file.\<close>

lemma seed_file:
  obtains book book' where "Seed = Some book" "Load (Marshal book) = Some book'" "plays_like (Some book') Seed"
proof -
  obtain book ms where b: "Build seedLines = Inr book" "Seed = Some book" by (rule seed_book)
  have "sum_list (map length seedLines) < 2 ^ 62" by (simp add: seedLines_def)
  from Build_writable [OF b(1) this] have "writable book" .
  then have "Load (Marshal book) = Some (sort_key fst book)" "plays_like (Some (sort_key fst book)) Seed"
    unfolding b(2) using Load_indented plays_like_sorted by (simp_all add: writable_def)
  then show ?thesis using that b(2) by blast
qed

definition seedFile :: string where
  "seedFile = (case Seed of Some book \<Rightarrow> Marshal book | None \<Rightarrow> '''')"

lemma seedBook_objects:
  assumes "s3_laws c obj" and "seedBook c (Some st) s = (r, s')"
  shows "r = Seed" and "obj s' = (obj s)((qualify st BucketBooks, bookFile) \<mapsto> seedFile) \<or> obj s' = obj s"
proof -
  obtain book where seed: "Seed = Some book" by (rule seed_file)
  have "seedFile = Marshal book" unfolding seedFile_def seed by simp
  then show "r = Seed" and "obj s' = (obj s)((qualify st BucketBooks, bookFile) \<mapsto> seedFile) \<or> obj s' = obj s"
    using assms(2) Put_objects [OF assms(1), of st BucketBooks bookFile seedFile "''application/json''" s]
    unfolding seedBook_def seed by auto
qed

section \<open>Replicas that start together\<close>

text \<open>
  Each replica reads the book and, when it has none, uploads the built-in one; the two parts of
  \<open>loadBook\<close> are separate calls of the storage service, between which other replicas act.  A replica
  may be restarted at any time.
\<close>

datatype Replica = Booting | Reseeding | Serving "Book option"

inductive boot_step :: "'s S3 \<Rightarrow> ObjStore \<Rightarrow> 's \<times> (nat \<Rightarrow> Replica) \<Rightarrow> 's \<times> (nat \<Rightarrow> Replica) \<Rightarrow> bool" for c st where
  found: "r i = Booting \<Longrightarrow> readBook c (Some st) s = (Some book, s') \<Longrightarrow> boot_step c st (s, r) (s', r(i := Serving (Some book)))"
| missed: "r i = Booting \<Longrightarrow> readBook c (Some st) s = (None, s') \<Longrightarrow> boot_step c st (s, r) (s', r(i := Reseeding))"
| reseeded: "r i = Reseeding \<Longrightarrow> seedBook c (Some st) s = (b, s') \<Longrightarrow> boot_step c st (s, r) (s', r(i := Serving b))"
| restarted: "boot_step c st (s, r) (s, r(i := Booting))"

text \<open>One replica alone does what \<open>loadBook\<close> does.\<close>

lemma loadBook_steps:
  assumes "r i = Booting" and "loadBook c (Some st) s = (b, s')"
  shows "(boot_step c st)\<^sup>*\<^sup>* (s, r) (s', r(i := Serving b))"
proof (cases "readBook c (Some st) s")
  case (Pair found s1)
  show ?thesis
  proof (cases found)
    case None
    then have "boot_step c st (s, r) (s1, r(i := Reseeding))" using boot_step.missed [of r i c st s s1] assms(1) Pair by simp
    moreover have "boot_step c st (s1, r(i := Reseeding)) (s', r(i := Serving b))"
      using boot_step.reseeded [of "r(i := Reseeding)" i c st s1 b s'] assms(2) None Pair by (simp add: loadBook_def Obj_Enabled_def)
    ultimately show ?thesis by (rule converse_rtranclp_into_rtranclp [OF _ r_into_rtranclp])
  next
    case (Some book)
    then show ?thesis using boot_step.found [of r i c st s book s1] assms Pair by (auto simp: loadBook_def Obj_Enabled_def)
  qed
qed

definition book_file_ok :: "('s \<Rightarrow> Objects) \<Rightarrow> ObjStore \<Rightarrow> 's \<Rightarrow> bool" where
  "book_file_ok obj st s \<longleftrightarrow> obj s (qualify st BucketBooks, bookFile) \<in> {None, Some seedFile}"

definition boot_ok :: "('s \<Rightarrow> Objects) \<Rightarrow> ObjStore \<Rightarrow> 's \<times> (nat \<Rightarrow> Replica) \<Rightarrow> bool" where
  "boot_ok obj st sr \<longleftrightarrow> book_file_ok obj st (fst sr) \<and> (\<forall>i b. snd sr i = Serving b \<longrightarrow> plays_like b Seed)"

lemma seedFile_loads: "Load seedFile = Some book \<Longrightarrow> plays_like (Some book) Seed"
  using seed_file by (metis seedFile_def option.inject option.simps(5))

lemma boot_step_ok:
  assumes "boot_step c st sr sr'" and "s3_laws c obj" and "boot_ok obj st sr"
  shows "boot_ok obj st sr'"
  using assms
proof (induction rule: boot_step.induct)
  case (found r i s book s')
  then show ?case using readBook_objects [OF found.prems(1) found.hyps(2)] seedFile_loads
    by (auto simp: boot_ok_def book_file_ok_def)
next
  case (missed r i s s')
  then show ?case using readBook_objects [OF missed.prems(1) missed.hyps(2)] by (auto simp: boot_ok_def book_file_ok_def)
next
  case (reseeded r i s b s')
  then show ?case using seedBook_objects [OF reseeded.prems(1) reseeded.hyps(2)] by (auto simp: boot_ok_def book_file_ok_def)
next
  case (restarted s r i)
  then show ?case by (auto simp: boot_ok_def)
qed

lemma boot_steps_ok:
  "(boot_step c st)\<^sup>*\<^sup>* sr sr' \<Longrightarrow> s3_laws c obj \<Longrightarrow> boot_ok obj st sr \<Longrightarrow> boot_ok obj st sr'"
  by (induction rule: rtranclp_induct) (auto intro: boot_step_ok)

section \<open>Properties\<close>

text \<open>
  C26. Every replica serves the same book.  When the bucket holds no book at first, or the built-in one, then
  however many engine workers start, restart, read and upload in whatever order, and whatever
  calls of the storage service fail (a failed upload may still have been carried out), every worker
  that has started answers every position as the built-in book does.
\<close>

theorem replicas_serve_one_book:
  assumes "s3_laws c obj" and "obj s (qualify st BucketBooks, bookFile) \<in> {None, Some seedFile}"
    and "(boot_step c st)\<^sup>*\<^sup>* (s, \<lambda>_. Booting) (s', r)" and "r i = Serving b"
  shows "\<forall>rng fen. Book_Move rng b fen = Book_Move rng Seed fen"
proof -
  have "boot_ok obj st (s, \<lambda>_. Booting)" using assms(2) by (simp add: boot_ok_def book_file_ok_def)
  then have "boot_ok obj st (s', r)" by (rule boot_steps_ok [OF assms(3,1)])
  then show ?thesis using assms(4) by (simp add: boot_ok_def plays_like_def)
qed

text \<open>
  C27. One failed read replaces the operator's book.  Whatever book the bucket holds, when a worker
  that starts cannot read it (a time-out, say) and its upload succeeds, the file is the built-in
  book from then on, and every worker that starts later and reads it plays that.
\<close>

theorem failed_read_replaces_the_book:
  assumes "s3_laws c obj" and "obj s (qualify st BucketBooks, bookFile) = Some custom"
    and "Obj_Get c (Some st) BucketBooks bookFile s = (Inl e, s1)"
    and "fst (Obj_Put c (Some st) BucketBooks bookFile seedFile ''application/json'' s1) = None"
    and "loadBook c (Some st) s = (b, s2)" and "obj s3 = obj s2" and "readBook c (Some st) s3 = (Some later, s4)"
  shows "obj s2 (qualify st BucketBooks, bookFile) = Some seedFile \<and> plays_like (Some later) Seed"
proof -
  obtain book where seed: "Seed = Some book" by (rule seed_file)
  have "seedFile = Marshal book" unfolding seedFile_def seed by simp
  then have "s2 = snd (Obj_Put c (Some st) BucketBooks bookFile seedFile ''application/json'' s1)"
    using assms(3,5) by (auto simp: loadBook_def Obj_Enabled_def readBook_def seedBook_def seed split: option.splits)
  then have "obj s2 = (obj s1)((qualify st BucketBooks, bookFile) \<mapsto> seedFile)"
    using Put_objects [OF assms(1), of st BucketBooks bookFile seedFile "''application/json''" s1] assms(4) by simp
  then show ?thesis using readBook_objects(2) [OF assms(1,7)] assms(6) seedFile_loads by auto
qed

text \<open>A storage service in memory, whose first \<open>n\<close> reads fail.\<close>

definition demoS3 :: "(nat \<times> Objects) S3" where
  "demoS3 =
     \<lparr>s3_New = (\<lambda>_. True), s3_BucketExists = (\<lambda>b s. (Some True, s)), s3_MakeBucket = (\<lambda>b s. (True, s)),
      s3_PutObject = (\<lambda>b k d t (n, m). (True, (n, m((b, k) \<mapsto> d)))),
      s3_GetObject = (\<lambda>b k (n, m). if 0 < n then (Inl ReadFailed, (n - 1, m))
         else case m (b, k) of None \<Rightarrow> (Inl ReadFailed, (n, m)) | Some d \<Rightarrow> (Inr d, (n, m))),
      s3_StatObject = (\<lambda>b k (n, m). (case m (b, k) of None \<Rightarrow> ErrorCode ''NoSuchKey'' | Some d \<Rightarrow> Present, (n, m))),
      s3_Presign = (\<lambda>cl b k ttl ps. Some (fst cl @ ''/'' @ b @ ''/'' @ k))\<rparr>"

definition demoStore :: ObjStore where
  "demoStore = \<lparr>os_client = (''minio:9000'', False), os_presignClient = (''localhost:9000'', False), os_prefix = ''''\<rparr>"

lemma demo_laws: "s3_laws demoS3 snd"
  unfolding s3_laws_def demoS3_def by (auto split: if_splits option.splits)

lemma demo_read: "readBook demoS3 (Some demoStore) (n, m) =
    (if 0 < n then (None, (n - 1, m))
     else case m (''books'', bookFile) of None \<Rightarrow> (None, (n, m)) | Some d \<Rightarrow> (Load d, (n, m)))"
  by (simp add: readBook_def Obj_Get_def demoS3_def demoStore_def qualify_def BucketBooks_def split: option.splits)

lemma demo_seed: "seedBook demoS3 (Some demoStore) (n, m) = (Seed, (n, m((''books'', bookFile) \<mapsto> seedFile)))"
proof -
  obtain book where seed: "Seed = Some book" by (rule seed_file)
  show ?thesis unfolding seedBook_def seedFile_def seed
    by (simp add: Obj_Put_def demoS3_def demoStore_def qualify_def BucketBooks_def)
qed

theorem replicas_serve_one_book_witness:
  "\<exists>book. Load seedFile = Some book \<and> (\<forall>rng fen. Book_Move rng (Some book) fen = Book_Move rng Seed fen)"
proof -
  obtain b0 book where "Seed = Some b0" "Load (Marshal b0) = Some book" by (rule seed_file)
  then have book: "Load seedFile = Some book" by (metis seedFile_def option.simps(5))
  let ?m = "Map.empty((''books'', bookFile) \<mapsto> seedFile)" and ?r = "(\<lambda>_. Booting)(0 := Serving Seed)"
  have "(boot_step demoS3 demoStore)\<^sup>*\<^sup>* ((0, Map.empty), \<lambda>_. Booting) ((0, ?m), ?r)"
    by (rule loadBook_steps) (simp_all add: loadBook_def Obj_Enabled_def demo_read demo_seed)
  moreover have "boot_step demoS3 demoStore ((0, ?m), ?r) ((0, ?m), ?r(1 := Serving (Some book)))"
    by (rule boot_step.found) (simp_all add: demo_read book)
  ultimately have "(boot_step demoS3 demoStore)\<^sup>*\<^sup>* ((0, Map.empty), \<lambda>_. Booting) ((0, ?m), ?r(1 := Serving (Some book)))"
    by (rule rtranclp.rtrancl_into_rtrancl)
  then show ?thesis using replicas_serve_one_book [OF demo_laws, of "(0, Map.empty)" demoStore "(0, ?m)" _ 1] book by simp
qed

theorem failed_read_replaces_the_book_witness:
  "\<exists>s2 book. loadBook demoS3 (Some demoStore) (1, Map.empty((''books'', bookFile) \<mapsto> ''{}'')) = (Seed, s2) \<and>
    snd s2 (''books'', bookFile) = Some seedFile \<and> plays_like (Some book) Seed"
proof -
  obtain b0 book where "Seed = Some b0" "Load (Marshal b0) = Some book" by (rule seed_file)
  then have book: "Load seedFile = Some book" by (metis seedFile_def option.simps(5))
  let ?m = "Map.empty((''books'', bookFile) \<mapsto> ''{}'')"
  have ld: "loadBook demoS3 (Some demoStore) (1, ?m) = (Seed, (0, ?m((''books'', bookFile) \<mapsto> seedFile)))"
    by (simp add: loadBook_def Obj_Enabled_def demo_read demo_seed)
  have q: "qualify demoStore BucketBooks = ''books''" by (simp add: qualify_def demoStore_def BucketBooks_def)
  have "snd (0 :: nat, ?m((''books'', bookFile) \<mapsto> seedFile)) (qualify demoStore BucketBooks, bookFile) = Some seedFile \<and> plays_like (Some book) Seed"
  proof (rule failed_read_replaces_the_book [OF demo_laws _ _ _ ld refl])
    show "snd (1, ?m) (qualify demoStore BucketBooks, bookFile) = Some ''{}''" by (simp add: q)
    show "Obj_Get demoS3 (Some demoStore) BucketBooks bookFile (1, ?m) = (Inl ReadError, (0, ?m))"
      by (simp add: Obj_Get_def demoS3_def)
    show "fst (Obj_Put demoS3 (Some demoStore) BucketBooks bookFile seedFile ''application/json'' (0, ?m)) = None"
      by (simp add: Obj_Put_def demoS3_def)
    show "readBook demoS3 (Some demoStore) (0, ?m((''books'', bookFile) \<mapsto> seedFile)) = (Some book, (0, ?m((''books'', bookFile) \<mapsto> seedFile)))"
      by (simp add: demo_read book)
  qed
  then show ?thesis using ld by (auto simp: q)
qed

section \<open>Archived games\<close>

text \<open>\<open>GamePgnUrl\<close> over the store: the link lives fifteen minutes and names the download.\<close>

definition gamePgnLink :: "'s S3 \<Rightarrow> (string \<Rightarrow> string) \<Rightarrow> Srv \<Rightarrow> ObjStore option \<Rightarrow> string \<Rightarrow> 's \<Rightarrow> Code + string" where
  "gamePgnLink c quote srv os gid s =
     GamePgnUrl (srv\<lparr>srv_objects := Obj_Enabled os\<rparr>)
       (\<lambda>k. case fst (Obj_Exists c os BucketPGN k s) of Inr b \<Rightarrow> Some b | Inl e \<Rightarrow> None)
       (\<lambda>k. case Obj_PresignedGet c quote os BucketPGN k (15 * 60) k of Inr url \<Rightarrow> Some url | Inl e \<Rightarrow> None) gid"

text \<open>A link is only handed out for a game that is archived, and it is signed for the endpoint that clients reach.\<close>

theorem links_lead_to_archived_games:
  assumes "s3_laws c obj" and "gamePgnLink c quote srv os gid s = Inr url" and "url \<noteq> ''''"
  shows "\<exists>st params. os = Some st \<and> obj s (qualify st BucketPGN, gid @ ''.pgn'') \<noteq> None \<and>
    s3_Presign c (os_presignClient st) (qualify st BucketPGN) (gid @ ''.pgn'') (15 * 60) params = Some url"
proof -
  obtain st where st: "os = Some st" using assms(2,3) by (auto simp: gamePgnLink_def GamePgnUrl_def Obj_Enabled_def split: if_splits)
  let ?k = "gid @ ''.pgn''"
  have ex: "fst (Obj_Exists c os BucketPGN ?k s) = Inr True"
    and pre: "Obj_PresignedGet c quote os BucketPGN ?k (15 * 60) ?k = Inr url"
    using assms(2,3) by (auto simp: gamePgnLink_def GamePgnUrl_def Obj_Enabled_def Let_def st split: if_splits option.splits sum.splits)
  obtain r s' where r: "s3_StatObject c (qualify st BucketPGN) ?k s = (r, s')" by (metis prod.collapse)
  then have "r = Present" using ex by (cases r) (simp_all add: Obj_Exists_def st split: if_splits)
  moreover have "r = Present \<longrightarrow> obj s (qualify st BucketPGN, ?k) \<noteq> None"
    using assms(1) [unfolded s3_laws_def, THEN conjunct2, THEN conjunct2, THEN conjunct2, THEN conjunct2, rule_format, OF r] by blast
  ultimately show ?thesis using pre st by (auto simp: Obj_PresignedGet_def Let_def split: option.splits)
qed

theorem links_lead_to_archived_games_witness:
  "\<exists>url. gamePgnLink demoS3 (\<lambda>x. x) demoSrv (Some demoStore) ''g1'' (0, Map.empty((''pgn'', ''g1.pgn'') \<mapsto> ''1. e4'')) = Inr url \<and>
    s3_Presign demoS3 (''localhost:9000'', False) ''pgn'' ''g1.pgn'' (15 * 60) [] = Some url"
proof -
  have "gamePgnLink demoS3 (\<lambda>x. x) demoSrv (Some demoStore) ''g1'' (0, Map.empty((''pgn'', ''g1.pgn'') \<mapsto> ''1. e4'')) =
      Inr ''localhost:9000/pgn/g1.pgn''"
    by (simp add: gamePgnLink_def GamePgnUrl_def Obj_Exists_def Obj_Enabled_def Obj_PresignedGet_def demoS3_def demoStore_def
        qualify_def BucketPGN_def)
  from links_lead_to_archived_games [OF demo_laws this] this show ?thesis by (simp add: demoS3_def)
qed

end
