(* ===== verification/Engine_Play.thy ===== *)
theory Engine_Play
  imports Config Game_Play
begin

text \<open>
  Playing against the engine: the terminal client \<open>cmd/play\<close>, composed with the handlers it calls, and
  what a game against the engine is left with when the engine does not answer.
\<close>

section \<open>The terminal client\<close>

definition pieceRune :: "Piece \<Rightarrow> string" where
  "pieceRune p =
     (if IsEmpty p then ''.''
      else
        let s = (case Piece_Type p of Pawn \<Rightarrow> ''p'' | Knight \<Rightarrow> ''n'' | Bishop \<Rightarrow> ''b'' | Rook \<Rightarrow> ''r''
                 | Queen \<Rightarrow> ''q'' | King \<Rightarrow> ''k'' | _ \<Rightarrow> '''')
        in if Piece_Color p = White then map (\<lambda>c. char_of (of_char c - (32 :: nat))) s else s)"

text \<open>The lines that are printed, or why the board cannot be shown.\<close>

definition printBoard :: "string \<Rightarrow> FENError + string list" where
  "printBoard fen =
     (case ParseFEN fen of
        Inl e \<Rightarrow> Inl e
      | Inr b \<Rightarrow>
          Inr ([''''] @
               map (\<lambda>rank. '' '' @ Itoa (rank + 1) @ '' '' @ concat (map (\<lambda>f. '' '' @ pieceRune (sqAt b (rank * 8 + f))) [0..7]))
                 [7, 6, 5, 4, 3, 2, 1, 0] @
               [''    a b c d e f g h'', '''']))"

definition lastEngineMove :: "ProtoGame \<Rightarrow> string" where
  "lastEngineMove g =
     (let ms = pg_Moves g in
      if ms = [] then '''' else if Ply (last ms) mod 2 = 0 then UCI (last ms) else '''')"

datatype Shown =
    CreateFailed Code
  | NewGame string int
  | Board "FENError + string list"
  | Refused Code
  | EnginePlays string
  | GameOver ProtoStatus ProtoEndReason
  | Bye

text \<open>The loop over the lines of the input; the \<open>n\<close>-th request meets the circumstances \<open>world n\<close>.\<close>

fun play :: "Srv \<Rightarrow> (nat \<Rightarrow> Env) \<Rightarrow> nat \<Rightarrow> ProtoGame \<Rightarrow> string list \<Rightarrow> DB \<Rightarrow> Shown list \<times> DB" where
  "play srv world n game [] db = ([], db)"
| "play srv world n game (line # lines) db =
     (let move = TrimSpace line in
      if move = '''' then play srv world n game lines db
      else if move = ''quit'' \<or> move = ''exit'' then ([Bye], db)
      else
        (case SubmitMove srv (world n) (pg_Id game) move '''' db of
           (Inl c, db, _) \<Rightarrow> (let (out, db) = play srv world (n + 1) game lines db in (Refused c # out, db))
         | (Inr game, db, _) \<Rightarrow>
             let reply = lastEngineMove game;
                 out = (if reply \<noteq> '''' then [EnginePlays reply] else []) @ [Board (printBoard (pg_Fen game))]
             in if pg_Status game \<noteq> STATUS_IN_PROGRESS then (out @ [GameOver (pg_Status game) (pg_EndReason game)], db)
                else (let (more, db) = play srv world (n + 1) game lines db in (out @ more, db))))"

definition play_main :: "Srv \<Rightarrow> (string \<Rightarrow> string) \<Rightarrow> (nat \<Rightarrow> Env) \<Rightarrow> string list \<Rightarrow> DB \<Rightarrow> Shown list \<times> DB" where
  "play_main srv env world lines db =
     (let depth = GetenvInt env ''ACG_ENGINE_DEPTH'' 10 in
      case CreateGame srv (world 0)
             \<lparr>cr_WhiteId = '''', cr_BlackId = '''', cr_VsEngine = False, cr_EngineDepth = uwrap32 depth, cr_Rated = False,
              cr_InitialMs = 0, cr_IncrementMs = 0\<rparr> db of
        (Inl c, db, _) \<Rightarrow> ([CreateFailed c], db)
      | (Inr game, db, _) \<Rightarrow>
          let (out, db) = play srv world 1 game lines db
          in ([NewGame (pg_Id game) depth, Board (printBoard (pg_Fen game))] @ out, db))"

section \<open>The client never gets to move\<close>

text \<open>What the client shows when nothing was played.\<close>

fun idle :: "Shown \<Rightarrow> bool" where
  "idle (EnginePlays u) = False"
| "idle (GameOver st er) = False"
| "idle _ = True"

lemma anonymous_refused:
  assumes "find_game db gid = Some row" and "\<not> g_vs_engine row"
  shows "\<exists>c. SubmitMove srv env gid uci '''' db = (Inl c, db, [])"
proof -
  have "\<exists>c. planMove (rowToGame row) ms uci '''' = Inl c" for ms
    using assms(2) by (auto simp: planMove_def rowToGame_def authorizeMover_def split: sum.splits)
  then obtain c where "planMove (rowToGame row) (gameMoves db gid) uci '''' = Inl c" by blast
  then show ?thesis using assms(1) by (simp add: SubmitMove_def Store_GetGame_eq)
qed

lemma play_refused:
  assumes "find_game db (pg_Id game) = Some row" and "\<not> g_vs_engine row"
  shows "snd (play srv world n game lines db) = db \<and> list_all idle (fst (play srv world n game lines db))"
proof (induction lines arbitrary: n)
  case (Cons line lines)
  obtain c where c: "SubmitMove srv (world n) (pg_Id game) (TrimSpace line) '''' db = (Inl c, db, [])"
    using anonymous_refused [OF assms] by blast
  then show ?case using Cons [of n] Cons [of "n + 1"] by (auto simp: Let_def split: prod.splits)
qed simp

lemma find_append: "find P (xs @ ys) = (case find P xs of None \<Rightarrow> find P ys | Some x \<Rightarrow> Some x)"
  by (induction xs) simp_all

lemma guest_moves: "CreateGuestUser lw up nu now db = (r, db1) \<Longrightarrow> moves db1 = moves db"
  using core_moves [OF core_CreateGuestUser] by (metis snd_conv)

lemma createFor_moves: "createFor srv env req w db = (r, db1, fx) \<Longrightarrow> moves db1 = moves db"
  by (auto simp: createFor_def Store_CreateGame_def Let_def split: if_splits option.splits)

lemma CreateGame_moves: "CreateGame srv env req db = (r, db1, fx) \<Longrightarrow> moves db1 = moves db"
  unfolding CreateGame_def by (auto dest!: guest_moves createFor_moves split: if_splits sum.splits prod.splits)

lemma createFor_open:
  assumes "createFor srv env req w db = (Inr game, db', fx)" and "\<not> cr_VsEngine req"
  shows "\<exists>row. find_game db' (pg_Id game) = Some row \<and> \<not> g_vs_engine row"
proof -
  obtain g d1 where s: "Store_CreateGame (env_up env 1) (env_newGame env) (env_now env)
      \<lparr>cp_WhiteID = w, cp_BlackID = cr_BlackId req, cp_VsEngine = cr_VsEngine req, cp_EngineDepth = cr_EngineDepth req,
       cp_StartFEN = StartFEN, cp_Rated = cr_Rated req, cp_InitialMs = cr_InitialMs req, cp_IncrementMs = cr_IncrementMs req\<rparr> db = (Inr g, d1)"
    using assms(1) by (auto simp: createFor_def split: sum.splits prod.splits)
  then have "db' = d1" "pg_Id game = ID g"
    using assms(1) by (auto simp: createFor_def toProtoGame_def Let_def split: if_splits)
  then show ?thesis using s assms(2)
    by (auto simp: Store_CreateGame_def find_game_def find_append Let_def split: if_splits option.splits)
qed

lemma created_open:
  assumes "CreateGame srv env req db = (Inr game, db', fx)" and "\<not> cr_VsEngine req"
  obtains row where "find_game db' (pg_Id game) = Some row" and "\<not> g_vs_engine row"
proof -
  obtain w d where "createFor srv env req w d = (Inr game, db', fx)"
    using assms(1) by (auto simp: CreateGame_def split: if_splits sum.splits prod.splits)
  from createFor_open [OF this assms(2)] that show ?thesis by blast
qed

section \<open>Properties\<close>

text \<open>
  The terminal client cannot play.  It asks for a game that is not against the engine and sends no
  player with its moves, so that whatever is typed and whatever the database and the engine
  do, no move is ever stored, the engine never answers and no game is ever finished: every move is refused.
\<close>

theorem terminal_client_never_moves:
  "moves (snd (play_main srv env world lines db)) = moves db \<and> list_all idle (fst (play_main srv env world lines db))"
proof -
  let ?req = "\<lparr>cr_WhiteId = '''', cr_BlackId = '''', cr_VsEngine = False, cr_EngineDepth = uwrap32 (GetenvInt env ''ACG_ENGINE_DEPTH'' 10),
    cr_Rated = False, cr_InitialMs = 0, cr_IncrementMs = 0\<rparr>"
  obtain r db1 fx where c: "CreateGame srv (world 0) ?req db = (r, db1, fx)" by (metis prod_cases3)
  show ?thesis
  proof (cases r)
    case (Inl e)
    have "moves db1 = moves db" by (rule CreateGame_moves [OF c])
    then show ?thesis using c Inl by (simp add: play_main_def Let_def)
  next
    case (Inr game)
    obtain row where row: "find_game db1 (pg_Id game) = Some row" "\<not> g_vs_engine row"
      by (rule created_open [OF c [unfolded Inr]]) simp
    obtain out db2 where p: "play srv world 1 game lines db1 = (out, db2)" by fastforce
    show ?thesis using play_refused [OF row(1,2), of srv world 1 lines] CreateGame_moves [OF c] c Inr p by (auto simp: play_main_def Let_def)
  qed
qed

section \<open>When the engine does not answer\<close>

lemma appended_row:
  assumes "appendPlanned up now gid pl db = (Inr (), db')" and "find_game db gid = Some row"
  shows "\<exists>row'. find_game db' gid = Some row' \<and> g_vs_engine row' = g_vs_engine row \<and> g_status row' = resultToDB (pl_result pl)"
proof -
  let ?f = "\<lambda>g. if pl_result pl \<noteq> InProgress
      then g\<lparr>g_fen := FENAfter (pl_move pl), g_status := resultToDB (pl_result pl), g_end_reason := Some (reasonToDB (pl_reason pl)), g_ended_at := Some now\<rparr>
      else g\<lparr>g_fen := FENAfter (pl_move pl), g_status := resultToDB (pl_result pl)\<rparr>"
  have "games db' = update_where (\<lambda>g. g_id g = gid) ?f (games db)"
    using assms(1) unfolding appendPlanned_def by (auto simp: AppendMove_def split: if_splits)
  then have "find_game db' gid = Some (?f row)"
    using assms(2) find_game_in [OF assms(2)] by (simp add: find_game_def find_update_where)
  then show ?thesis by simp
qed

text \<open>In a game against the engine a legal move by anyone is stored.\<close>

lemma engine_game_stores:
  assumes "db_ok db" and "length (moves db) < 2 ^ 62" and "find_game db gid = Some row" and "g_status row = ''IN_PROGRESS''"
    and "g_vs_engine row" and "follows startBoard (moves_of gid (moves db)) b" and "ApplyUCI b uci = Inr b'"
    and "gid \<noteq> ''''" and "uci \<noteq> ''''" and "\<forall>i. env_up env i"
  shows "\<exists>r db' fx rest. SubmitMove srv env gid uci p db = (r, db', fx) \<and>
    moves db' = moves db @ \<lparr>mv_game = gid, mv_ply = int (length (moves_of gid (moves db))) + 1, mv_uci = uci, mv_fen_after = FEN b'\<rparr> # rest"
proof -
  have get: "Store_GetGame True gid db = Inr (rowToGame row, gameMoves db gid)" using assms(3) by (simp add: Store_GetGame_eq)
  have g: "Status (rowToGame row) = ''IN_PROGRESS''" "VsEngine (rowToGame row)" using assms(4,5) by (simp_all add: rowToGame_def)
  obtain b1 where r: "length (gameMoves db gid) = length (moves_of gid (moves db))"
    "follows startBoard (moves_of gid (moves db)) b1" "Game_FEN (rowToGame row) = FEN b1" "ID (rowToGame row) = gid"
    by (rule GetGame_record [OF assms(1) get])
  have "b1 = b" using follows_unique [OF r(2) assms(6)] .
  have "length (moves_of gid (moves db)) \<le> length (moves db)" by (simp add: moves_of_def)
  then have parse: "ParseFEN (Game_FEN (rowToGame row)) = Inr b"
    using follows_parse [OF r(2)] assms(2) unfolding r(3) \<open>b1 = b\<close> by simp
  obtain pl where pl: "planMove (rowToGame row) (gameMoves db gid) uci p = Inr pl" "pl_after pl = b'"
    "Ply (pl_move pl) = int (length (gameMoves db gid)) + 1"
    by (rule planMove_legal [OF g(1) parse disjI1 [OF g(2)] assms(7)])
  obtain db1 where a: "appendPlanned True (env_now env) gid pl db = (Inr (), db1)"
    using append_succeeds [OF assms(1,3) pl(3) [unfolded r(1)], of "resultToDB (pl_result pl)" "reasonToDB (pl_reason pl)"
        "pl_result pl \<noteq> InProgress" "env_now env"] by (auto simp: appendPlanned_def)
  have row: "newRow gid (pl_move pl) = \<lparr>mv_game = gid, mv_ply = int (length (moves_of gid (moves db))) + 1, mv_uci = uci, mv_fen_after = FEN b'\<rparr>"
    using planMove_inv(4) [OF pl(1) parse] pl(2) r(1) by (simp add: newRow_def)
  have m1: "moves db1 = moves db @ [newRow gid (pl_move pl)]" by (rule appended [OF assms(1) a])
  obtain re fx0 where e: "afterEnd srv env gid (pl_result pl) db1 = (re, fx0)" by fastforce
  have me: "moves re = moves db1" using moves_afterEnd [of srv env gid "pl_result pl" db1] e by simp
  obtain c db2 where pe: "playEngineReply env (rowToGame row) (pl_after pl) (pl_history pl) (Ply (pl_move pl) + 1) db1 = (c, db2)" by fastforce
  have "\<exists>rest. moves db2 = moves db1 @ rest"
  proof (cases c)
    case (Some x)
    then have "db2 = db1" using pe append_fails by (auto simp: playEngineReply_def split: sum.splits prod.splits)
    then show ?thesis by simp
  next
    case None
    have "pending_ok db gid pl" using planMove_pending(1) [OF assms(1) get pl(1) assms(2)] .
    note ok = append_ok [OF assms(1) this a [unfolded appendPlanned_def]]
    have "Ply (pl_move pl) + 1 = int (length (moves_of gid (moves db1))) + 1" using ok(2,4) by simp
    then show ?thesis using reply_moves(2) [OF ok(1,3) _ r(4)] pe None by fastforce
  qed
  then show ?thesis using e me pe m1 g(2) assms(8-10)
    by (cases "pl_result pl = InProgress"; cases c) (auto simp: SubmitMove_def get pl(1) a r(4) row Let_def)
qed

text \<open>
  C25. When the engine fails, its turn is anyone's.  In a game against the engine, a legal move that does not
  end the game is stored before the engine is asked; when the engine then gives no answer the request
  fails, the move stays, and the engine is not asked for this turn again: the next request by whatever caller, with any move
  that is legal for the engine's side, is stored as the engine's move.
\<close>

theorem unanswered_move_gives_away_the_engines_turn:
  assumes "db_ok db" and "length (moves db) + 1 < 2 ^ 62" and "Store_GetGame True gid db = Inr (g, ms)" and "VsEngine g"
    and "planMove g ms uci p = Inr pl" and "pl_result pl = InProgress"
    and "env_engine env (FEN (pl_after pl)) (EngineDepth g) = Inl e" and "\<forall>i. env_up env i" and "\<forall>i. env_up env2 i"
    and "ApplyUCI (pl_after pl) uci2 = Inr b2" and "gid \<noteq> ''''" and "uci \<noteq> ''''" and "uci2 \<noteq> ''''"
  shows "\<exists>db1 fx r db2 fx2 rest. SubmitMove srv env gid uci p db = (Inl Internal, db1, fx) \<and>
    map mv_uci (moves db1) = map mv_uci (moves db) @ [uci] \<and>
    SubmitMove srv env2 gid uci2 q db1 = (r, db2, fx2) \<and>
    moves db2 = moves db1 @ \<lparr>mv_game = gid, mv_ply = int (length (moves_of gid (moves db))) + 2, mv_uci = uci2, mv_fen_after = FEN b2\<rparr> # rest"
proof -
  have up: "env_up env i" for i using assms(8) by blast
  have len: "length (moves db) < 2 ^ 62" using assms(2) by simp
  obtain row b where r: "find_game db gid = Some row" "g = rowToGame row" "ParseFEN (Game_FEN g) = Inr b"
      "newRow gid (pl_move pl) = \<lparr>mv_game = gid, mv_ply = int (length (moves_of gid (moves db))) + 1, mv_uci = uci, mv_fen_after = FEN (pl_after pl)\<rparr>"
    by (rule planned_row [OF assms(1) len assms(3,5)])
  have pend: "pending_ok db gid pl" and id: "ID g = gid" using planMove_pending [OF assms(1,3,5) len] by simp_all
  have "Ply (pl_move pl) = int (length (moves_of gid (moves db))) + 1" using r(4) by (simp add: newRow_def)
  from append_succeeds [OF assms(1) r(1) this, of "resultToDB (pl_result pl)" "reasonToDB (pl_reason pl)" "pl_result pl \<noteq> InProgress" "env_now env"]
  obtain db1 where a: "appendPlanned True (env_now env) gid pl db = (Inr (), db1)" by (auto simp: appendPlanned_def)
  note ok = append_ok [OF assms(1) pend a [unfolded appendPlanned_def]]
  have m1: "moves db1 = moves db @ [newRow gid (pl_move pl)]" by (rule appended [OF assms(1) a])
  obtain row1 where row1: "find_game db1 gid = Some row1" "g_vs_engine row1" "g_status row1 = ''IN_PROGRESS''"
    using appended_row [OF a r(1)] assms(4,6) r(2) by (auto simp: rowToGame_def)
  have "\<exists>fx. SubmitMove srv env gid uci p db = (Inl Internal, db1, fx)"
    using assms(4,6,7,11,12) by (simp add: SubmitMove_def up assms(3,5) id a Let_def playEngineReply_def)
  then obtain fx where s1: "SubmitMove srv env gid uci p db = (Inl Internal, db1, fx)" by blast
  have "length (moves db1) < 2 ^ 62" using m1 assms(2) by simp
  from engine_game_stores [OF ok(1) this row1(1,3,2) ok(3) assms(10,11,13,9), of srv q]
  obtain r2 db2 fx2 rest where s2: "SubmitMove srv env2 gid uci2 q db1 = (r2, db2, fx2)"
    "moves db2 = moves db1 @ \<lparr>mv_game = gid, mv_ply = int (length (moves_of gid (moves db1))) + 1, mv_uci = uci2, mv_fen_after = FEN b2\<rparr> # rest"
    by blast
  have n: "int (length (moves_of gid (moves db1))) + 1 = int (length (moves_of gid (moves db))) + 2" using ok(2) by simp
  show ?thesis using s1 s2(1) s2(2) [unfolded n] m1 r(4) by (intro exI conjI) (assumption, simp)+
qed

text \<open>The instance: 1. e4 while the engine is down, and then somebody plays 1... e5 for it.\<close>

definition engineRow :: GameRow where
  "engineRow = demoRow\<lparr>g_black := None, g_vs_engine := True, g_engine_depth := 10\<rparr>"

definition engineGame :: DB where
  "engineGame = demoUsers\<lparr>games := [engineRow]\<rparr>"

definition afterE5 :: Board where
  "afterE5 = applyMoveUnchecked afterE4 \<lparr>From = 52, To = 36, Promotion = NoPieceType\<rparr>"

lemma ApplyUCI_e7e5: "ApplyUCI afterE4 ''e7e5'' = Inr afterE5"
  by code_simp

theorem unanswered_move_gives_away_the_engines_turn_witness:
  "\<exists>db1 fx r db2 fx2 rest. SubmitMove demoSrv demoEnv ''g1'' ''e2e4'' ''ann'' engineGame = (Inl Internal, db1, fx) \<and>
    map mv_uci (moves db1) = [''e2e4''] \<and> SubmitMove demoSrv demoEnv ''g1'' ''e7e5'' ''eve'' db1 = (r, db2, fx2) \<and>
    moves db2 = moves db1 @ \<lparr>mv_game = ''g1'', mv_ply = 2, mv_uci = ''e7e5'', mv_fen_after = FEN afterE5\<rparr> # rest"
proof -
  have find: "find_game engineGame ''g1'' = Some engineRow"
    by (simp add: find_game_def engineGame_def engineRow_def demoRow_def)
  then have get: "Store_GetGame True ''g1'' engineGame = Inr (rowToGame engineRow, [])"
    by (simp add: Store_GetGame_eq gameMoves_def engineGame_def demoUsers_def)
  have "core engineGame = core demoGame" by (simp add: core_def engineGame_def demoGame_def engineRow_def demoUsers_def demoRow_def)
  then have ok: "db_ok engineGame" using demo_ok by simp
  have "ParseFEN (Game_FEN (rowToGame engineRow)) = Inr startBoard"
    using ParseFEN_FEN [OF fen_ok_startBoard] FEN_startBoard by (simp add: rowToGame_def engineRow_def demoRow_def)
  moreover have "OutcomeWithHistory afterE4 (buildHistory [] @ [FEN afterE4]) = (InProgress, Ongoing)"
    using short_history [of "buildHistory [] @ [FEN afterE4]"] by (simp add: OutcomeWithHistory_def Outcome_afterE4 buildHistory_def)
  moreover have "Status (rowToGame engineRow) = ''IN_PROGRESS''" "VsEngine (rowToGame engineRow)"
    by (simp_all add: rowToGame_def engineRow_def demoRow_def)
  ultimately obtain pl where pl: "planMove (rowToGame engineRow) [] ''e2e4'' ''ann'' = Inr pl" "pl_result pl = InProgress" "pl_after pl = afterE4"
    by (simp add: planMove_def ApplyUCI_e2e4)
  have none: "moves engineGame = []" by (simp add: engineGame_def demoUsers_def)
  have "VsEngine (rowToGame engineRow)" by (simp add: rowToGame_def engineRow_def)
  from unanswered_move_gives_away_the_engines_turn [OF ok _ get this pl(1,2), of demoEnv "''no engine''" demoEnv "''e7e5''" afterE5 demoSrv "''eve''"]
  show ?thesis using ApplyUCI_e7e5 by (simp add: none moves_of_def demoEnv_def pl(3))
qed

section \<open>When the engine wins\<close>

lemma appended_finished:
  assumes "appendPlanned up now gid pl db = (Inr (), db')" and "find_game db gid = Some row" and "pl_result pl \<noteq> InProgress"
  shows "finished db' gid"
proof -
  have st: "resultToDB (pl_result pl) \<noteq> ''IN_PROGRESS''" using assms(3) by (cases "pl_result pl") simp_all
  have "\<forall>r \<in> set (games db'). g_id r = gid \<longrightarrow> g_status r \<noteq> ''IN_PROGRESS''"
  proof -
    have "games db' = update_where (\<lambda>g. g_id g = gid) (\<lambda>g. g\<lparr>g_fen := FENAfter (pl_move pl), g_status := resultToDB (pl_result pl),
        g_end_reason := Some (reasonToDB (pl_reason pl)), g_ended_at := Some now\<rparr>) (games db)"
      using assms(1,3) unfolding appendPlanned_def by (auto simp: AppendMove_def split: if_splits)
    moreover have "list_all (\<lambda>r. g_id r = gid \<longrightarrow> g_status r \<noteq> ''IN_PROGRESS'') (update_where (\<lambda>g. g_id g = gid) (\<lambda>g. g\<lparr>g_fen := FENAfter (pl_move pl),
        g_status := resultToDB (pl_result pl), g_end_reason := Some (reasonToDB (pl_reason pl)), g_ended_at := Some now\<rparr>) gs)" for gs
      using st by (induction gs) (simp_all add: update_where_def)
    ultimately show ?thesis unfolding list_all_iff by metis
  qed
  moreover have "\<exists>r \<in> set (games db'). g_id r = gid" using appended_row [OF assms(1,2)] find_game_in by blast
  ultimately show ?thesis by (simp add: finished_def)
qed

lemma Resign_over:
  assumes "finished db gid"
  shows "snd (Resign srv env gid p db) = (db, [])"
proof -
  have "\<not> list_ex (\<lambda>g. g_id g = gid \<and> g_status g = ''IN_PROGRESS'') (games db)"
    using assms by (auto simp: finished_def list_ex_iff)
  then have "snd (resignAs srv env g p w db) = (db, [])" if "ID g = gid" for g w
    using that by (auto simp: resignAs_def EndGame_def Let_def)
  then show ?thesis using GetGame_ID [of "env_up env 0" gid db]
    by (auto simp: Resign_def split: sum.splits StoreError.splits prod.splits)
qed

text \<open>
  C28. A game the engine ends is never wound up.  When the engine's reply ends the game, the request has no effect
  but the count of the player's move: no result is counted, no analysis asked for, no file
  archived, no opening recorded and no account touched; and since the game is over, every later move or
  resignation is refused without effects, so none of it ever follows.
\<close>

theorem game_ended_by_the_engine_is_never_wound_up:
  assumes "Store_GetGame True gid db = Inr (g, ms)" and "VsEngine g" and "planMove g ms uci p = Inr pl" and "pl_result pl = InProgress"
    and "appendPlanned True (env_now env) (ID g) pl db = (Inr (), db1)"
    and "env_engine env (FEN (pl_after pl)) (EngineDepth g) = Inr reply"
    and "planReply (pl_after pl) (pl_history pl) (Ply (pl_move pl) + 1) reply = Inr pl'" and "pl_result pl' \<noteq> InProgress"
    and "appendPlanned True (env_now env) (ID g) pl' db1 = (Inr (), db2)"
    and "\<forall>i. env_up env i \<and> env_up env' i" and "gid \<noteq> ''''" and "uci \<noteq> ''''" and "uci' \<noteq> ''''"
  shows "\<exists>r row. SubmitMove srv env gid uci p db = (r, db2, [MetricMove]) \<and> find_game db2 gid = Some row \<and> g_status row = resultToDB (pl_result pl') \<and>
    users db2 = users db \<and> opening_moves db2 = opening_moves db \<and> opening_ingested db2 = opening_ingested db \<and>
    SubmitMove srv' env' gid uci' p' db2 = (Inl FailedPrecondition, db2, []) \<and>
    snd (Resign srv' env' gid p' db2) = (db2, [])"
proof -
  have up: "env_up env i" "env_up env' i" for i using assms(10) by simp_all
  obtain row where row: "find_game db gid = Some row" "g = rowToGame row" using assms(1) by (auto simp: Store_GetGame_eq split: option.splits)
  have id: "ID g = gid" using row find_game_in [OF row(1)] by (simp add: rowToGame_def)
  obtain row1 where row1: "find_game db1 gid = Some row1" using appended_row [OF assms(5) [unfolded id] row(1)] by blast
  obtain row2 where row2: "find_game db2 gid = Some row2" "g_status row2 = resultToDB (pl_result pl')"
    using appended_row [OF assms(9) [unfolded id] row1] by blast
  have over: "g_status row2 \<noteq> ''IN_PROGRESS''" unfolding row2(2) using assms(8) by (cases "pl_result pl'") simp_all
  have fx: "sessionEffects srv g pl p @ moveMetrics pl = [MetricMove]" using assms(2,4) by (simp add: sessionEffects_def moveMetrics_def)
  have "SubmitMove srv env gid uci p db = (reloaded env gid db2, db2, [MetricMove])"
    using assms(2-9,11,12) fx by (simp add: SubmitMove_def up assms(1) id Let_def playEngineReply_def)
  moreover have "users db2 = users db" "opening_moves db2 = opening_moves db" "opening_ingested db2 = opening_ingested db"
    using assms(5,9) by (auto simp: appendPlanned_def AppendMove_def Let_def split: if_splits)
  moreover have "SubmitMove srv' env' gid uci' p' db2 = (Inl FailedPrecondition, db2, [])"
    using row2 over assms(11,13) by (simp add: SubmitMove_def Store_GetGame_eq up planMove_def rowToGame_def)
  moreover have "snd (Resign srv' env' gid p' db2) = (db2, [])"
    by (rule Resign_over [OF appended_finished [OF assms(9) [unfolded id] row1 assms(8)]])
  ultimately show ?thesis using row2 by (intro exI [of _ "reloaded env gid db2"] exI [of _ row2]) simp
qed

text \<open>The instance: the lone white king steps into the corner and the engine mates with the rook.\<close>

definition mateFEN :: string where
  "mateFEN = ''7r/8/8/8/8/1k6/8/1K6 w - - 0 1''"

definition mateIn1 :: Board where
  "mateIn1 = (case ParseFEN mateFEN of Inr b \<Rightarrow> b | Inl _ \<Rightarrow> startBoard)"

definition cornered :: Board where
  "cornered = applyMoveUnchecked mateIn1 \<lparr>From = 1, To = 0, Promotion = NoPieceType\<rparr>"

definition mated :: Board where
  "mated = applyMoveUnchecked cornered \<lparr>From = 63, To = 7, Promotion = NoPieceType\<rparr>"

lemma mate_parses: "ParseFEN mateFEN = Inr mateIn1"
proof -
  have "case ParseFEN mateFEN of Inr b \<Rightarrow> True | Inl _ \<Rightarrow> False" by code_simp
  then show ?thesis by (simp add: mateIn1_def split: sum.splits)
qed

lemma mate_moves: "ApplyUCI mateIn1 ''b1a1'' = Inr cornered" "ApplyUCI cornered ''h8h1'' = Inr mated"
  by code_simp+

lemma mate_outcomes: "Outcome cornered = (InProgress, Ongoing)" "Outcome mated = (BlackWins, Checkmate)"
  by code_simp+

definition mateRow :: GameRow where
  "mateRow = engineRow\<lparr>g_fen := mateFEN\<rparr>"

definition mateEnv :: Env where
  "mateEnv = demoEnv\<lparr>env_engine := \<lambda>_ _. Inr ''h8h1''\<rparr>"

theorem game_ended_by_the_engine_is_never_wound_up_witness:
  "\<exists>r db2 row. SubmitMove demoSrv mateEnv ''g1'' ''b1a1'' ''ann'' (engineGame\<lparr>games := [mateRow]\<rparr>) = (r, db2, [MetricMove]) \<and>
    find_game db2 ''g1'' = Some row \<and> g_status row = ''BLACK_WON'' \<and> users db2 = users engineGame"
proof -
  let ?db = "engineGame\<lparr>games := [mateRow]\<rparr>"
  have get: "Store_GetGame True ''g1'' ?db = Inr (rowToGame mateRow, [])"
    by (simp add: Store_GetGame_eq gameMoves_def find_game_def mateRow_def engineRow_def demoRow_def engineGame_def demoUsers_def)
  have g: "Status (rowToGame mateRow) = ''IN_PROGRESS''" "VsEngine (rowToGame mateRow)" "ParseFEN (Game_FEN (rowToGame mateRow)) = Inr mateIn1"
      "ID (rowToGame mateRow) = ''g1''" "BlackID (rowToGame mateRow) = ''''"
    by (simp_all add: rowToGame_def mateRow_def engineRow_def demoRow_def mate_parses)
  have o1: "OutcomeWithHistory cornered (buildHistory [] @ [FEN cornered]) = (InProgress, Ongoing)"
    using short_history [of "buildHistory [] @ [FEN cornered]"] by (simp add: OutcomeWithHistory_def mate_outcomes buildHistory_def)
  have o2: "OutcomeWithHistory mated h = (BlackWins, Checkmate)" for h by (simp add: OutcomeWithHistory_def mate_outcomes)
  obtain pl where pl: "planMove (rowToGame mateRow) [] ''b1a1'' ''ann'' = Inr pl" "pl_result pl = InProgress" "pl_after pl = cornered"
      "Ply (pl_move pl) = 1"
    using g o1 by (simp add: planMove_def mate_moves)
  obtain pl' where pl': "planReply cornered (pl_history pl) 2 ''h8h1'' = Inr pl'" "pl_result pl' = BlackWins" "Ply (pl_move pl') = 2"
    using o2 by (simp add: planReply_def mate_moves Let_def)
  obtain db1 where a1: "appendPlanned True 9 ''g1'' pl ?db = (Inr (), db1)" and m: "moves db1 = [newRow ''g1'' (pl_move pl)]"
      "outbox db1 \<noteq> [] \<and> list_all (\<lambda>r. ob_ply r = 1) (outbox db1)" "find_game db1 ''g1'' \<noteq> None"
    using pl(4) by (simp add: appendPlanned_def AppendMove_def find_game_def mateRow_def engineRow_def demoRow_def engineGame_def demoUsers_def
        update_where_def newRow_def)
  obtain db2 where a2: "appendPlanned True 9 ''g1'' pl' db1 = (Inr (), db2)"
    using m pl(4) pl'(3) by (auto simp: appendPlanned_def AppendMove_def newRow_def list_all_iff list_ex_iff)
  have f: "appendPlanned True (env_now mateEnv) (ID (rowToGame mateRow)) pl ?db = (Inr (), db1)"
    "env_engine mateEnv (FEN (pl_after pl)) (EngineDepth (rowToGame mateRow)) = Inr ''h8h1''"
    "planReply (pl_after pl) (pl_history pl) (Ply (pl_move pl) + 1) ''h8h1'' = Inr pl'" "pl_result pl' \<noteq> InProgress"
    "appendPlanned True (env_now mateEnv) (ID (rowToGame mateRow)) pl' db1 = (Inr (), db2)"
    "\<forall>i. env_up mateEnv i \<and> env_up demoEnv i"
    using a1 a2 pl pl' g(4) by (simp_all add: mateEnv_def demoEnv_def)
  have "resultToDB (pl_result pl') = ''BLACK_WON''" using pl'(2) by simp
  then show ?thesis
    using game_ended_by_the_engine_is_never_wound_up [OF get g(2) pl(1,2) f, of "''b1a1''" demoSrv] by fastforce
qed

end
