(* ===== verification/Clients.thy ===== *)
theory Clients
  imports Rate_Limit Kafka Engine
begin

text \<open>
  How the processes obtain what they talk to: Redis (\<open>pkg/redisx/redisx.go\<close>), Kafka
  (\<open>pkg/kafkax/kafkax.go\<close>), the other services (\<open>pkg/engine\<close>, \<open>session/client.go\<close>,
  \<open>upstream/upstream.go\<close>), the engine process (\<open>uci/uci.go\<close>) and the collector of traces
  (\<open>pkg/telemetry\<close>).  A client is known by the address it was made for; whether the libraries accept an
  address and whether a server answers are arguments.  An option stands for a Go pointer and
  \<open>None\<close> for nil; a function that may return an error returns a sum, and the pair of both where the
  code uses the value after an error.
\<close>

section \<open>Redis\<close>

datatype RedisError = PingFailed string

definition Redis_Dial :: "(string \<Rightarrow> bool) \<Rightarrow> string \<Rightarrow> string option \<times> RedisError option" where
  "Redis_Dial ping addr =
     (if addr = '''' then (None, None)
      else if \<not> ping addr then (None, Some (PingFailed addr))
      else (Some addr, None))"

definition NewLimiter :: "string option \<Rightarrow> real \<Rightarrow> int \<Rightarrow> Limiter" where
  "NewLimiter client rate capacity = \<lparr>lim_client = (client \<noteq> None), lim_rate = rate, lim_capacity = capacity\<rparr>"

text \<open>The cache, the filters and the queue of a process are on when it has a client.\<close>

definition Redis_Enabled :: "string option \<Rightarrow> bool" where
  "Redis_Enabled client \<longleftrightarrow> client \<noteq> None"

section \<open>Kafka\<close>

record Producer =
  prod_client :: "string list option"

definition NewProducer :: "(string list \<Rightarrow> bool) \<Rightarrow> string \<Rightarrow> Producer option" where
  "NewProducer newClient brokers =
     (if brokers = '''' then Some \<lparr>prod_client = None\<rparr>
      else if \<not> newClient (splitBrokers brokers) then None
      else Some \<lparr>prod_client = Some (splitBrokers brokers)\<rparr>)"

definition Producer_Enabled :: "Producer option \<Rightarrow> bool" where
  "Producer_Enabled p \<longleftrightarrow> (case p of None \<Rightarrow> False | Some p \<Rightarrow> prod_client p \<noteq> None)"

record Consumer =
  cons_brokers :: "string list"
  cons_group :: string
  cons_topics :: "string list"

datatype ConsumerError = BrokersRequired | ConsumerRefused

definition NewConsumer :: "(Consumer \<Rightarrow> bool) \<Rightarrow> string \<Rightarrow> string \<Rightarrow> string list \<Rightarrow> ConsumerError + Consumer" where
  "NewConsumer newClient brokers grp topics =
     (if brokers = '''' then Inl BrokersRequired
      else
        let c = \<lparr>cons_brokers = splitBrokers brokers, cons_group = grp, cons_topics = topics\<rparr>
        in if \<not> newClient c then Inl ConsumerRefused else Inr c)"

section \<open>The other services\<close>

text \<open>\<open>grpc addr\<close>: whether \<open>grpc.NewClient\<close> accepts the address; it does not connect yet.\<close>

record EngineClient =
  ecl_conn :: string
  ecl_cache :: "string option"

definition Engine_Dial :: "(string \<Rightarrow> bool) \<Rightarrow> string \<Rightarrow> string option \<Rightarrow> EngineClient option" where
  "Engine_Dial grpc addr cache = (if \<not> grpc addr then None else Some \<lparr>ecl_conn = addr, ecl_cache = cache\<rparr>)"

definition Session_Dial :: "(string \<Rightarrow> bool) \<Rightarrow> string \<Rightarrow> string option option" where
  "Session_Dial grpc addr =
     (if addr = '''' then Some None
      else if \<not> grpc addr then None
      else Some (Some addr))"

record Clients =
  cl_Game :: string
  cl_Auth :: string
  cl_Session :: "string option"
  cl_conns :: "string list"

datatype DialError = DialGame string | DialSession string

definition Upstream_Dial :: "(string \<Rightarrow> bool) \<Rightarrow> string \<Rightarrow> string \<Rightarrow> DialError + Clients" where
  "Upstream_Dial grpc gameAddr sessionAddr =
     (if \<not> grpc gameAddr then Inl (DialGame gameAddr)
      else
        let c = \<lparr>cl_Game = gameAddr, cl_Auth = gameAddr, cl_Session = None, cl_conns = [gameAddr]\<rparr>
        in if sessionAddr = '''' then Inr c
           else if \<not> grpc sessionAddr then Inl (DialSession sessionAddr)
           else Inr (c\<lparr>cl_conns := cl_conns c @ [sessionAddr], cl_Session := Some sessionAddr\<rparr>))"

definition SessionEnabled :: "Clients option \<Rightarrow> bool" where
  "SessionEnabled c \<longleftrightarrow> (case c of None \<Rightarrow> False | Some c \<Rightarrow> cl_Session c \<noteq> None)"

text \<open>Closing every connection: the first error, and the connections that were closed.\<close>

fun closeConns :: "(string \<Rightarrow> 'e option) \<Rightarrow> string list \<Rightarrow> 'e option \<Rightarrow> 'e option" where
  "closeConns close [] firstErr = firstErr"
| "closeConns close (conn # conns) firstErr =
     closeConns close conns (case close conn of None \<Rightarrow> firstErr | Some e \<Rightarrow> if firstErr = None then Some e else firstErr)"

definition Upstream_Close :: "(string \<Rightarrow> 'e option) \<Rightarrow> Clients \<Rightarrow> 'e option" where
  "Upstream_Close close c = closeConns close (cl_conns c) None"

lemma closeConns_spec:
  "closeConns close conns firstErr =
     (case firstErr of Some e \<Rightarrow> Some e | None \<Rightarrow> map_option (\<lambda>c. the (close c)) (find (\<lambda>c. close c \<noteq> None) conns))"
  by (induction close conns firstErr rule: closeConns.induct) (auto split: option.splits)

section \<open>The engine process\<close>

text \<open>
  \<open>spawn\<close> is the output of the process, as lines, when it can be started; \<open>sendOk k\<close> whether its
  input takes the \<open>k\<close>-th command of the handshake, \<open>quitOk\<close> whether it takes the last one.  The commands sent are part of the outcome: a process whose
  handshake fails is told to quit.
\<close>

datatype UciStart = NotStarted | HandshakeFailed UciError

definition Uci_Close :: "bool \<Rightarrow> bool \<Rightarrow> string list \<times> bool" where
  "Uci_Close sendOk exitsInTime = (if sendOk then [''quit''] else [], \<not> exitsInTime)"

definition Uci_New :: "(string \<Rightarrow> string list option) \<Rightarrow> (nat \<Rightarrow> bool) \<Rightarrow> bool \<Rightarrow> bool \<Rightarrow> string \<Rightarrow> (UciStart + string list) \<times> string list" where
  "Uci_New spawn sendOk quitOk exitsInTime path =
     (case spawn path of
        None \<Rightarrow> (Inl NotStarted, [])
      | Some lines \<Rightarrow>
          (case handshake sendOk lines of
             (Inl e, sent, lines) \<Rightarrow> (Inl (HandshakeFailed e), sent @ fst (Uci_Close quitOk exitsInTime))
           | (Inr _, sent, lines) \<Rightarrow> (Inr lines, sent)))"

lemma waitFor_Inr: "fst (waitFor token lines) = Inr () \<longleftrightarrow> (\<exists>l \<in> set lines. HasPrefix l token)"
  by (induction token lines rule: waitFor.induct) auto

section \<open>Traces\<close>

text \<open>What is to be called at the end; \<open>exporter\<close> and \<open>merged\<close> are the answers of the libraries.\<close>

datatype Shutdown = NothingToFlush | FlushSpans string

datatype TracingError = ExporterFailed | ResourceFailed

definition InitTracing :: "(string \<Rightarrow> bool) \<Rightarrow> bool \<Rightarrow> string \<Rightarrow> Shutdown option \<times> TracingError option" where
  "InitTracing exporter merged endpoint =
     (if endpoint = '''' then (Some NothingToFlush, None)
      else if \<not> exporter endpoint then (None, Some ExporterFailed)
      else if \<not> merged then (None, Some ResourceFailed)
      else (Some (FlushSpans endpoint), None))"

section \<open>Lemmas\<close>

lemma Redis_Dial_up: "fst (Redis_Dial ping addr) = Some a \<longleftrightarrow> addr \<noteq> '''' \<and> ping addr \<and> a = addr"
  by (auto simp: Redis_Dial_def)

lemma Session_Dial_ok: "Session_Dial grpc addr = None \<longleftrightarrow> addr \<noteq> '''' \<and> \<not> grpc addr"
  by (simp add: Session_Dial_def)

lemma NewProducer_ok: "NewProducer newClient brokers = None \<longleftrightarrow> brokers \<noteq> '''' \<and> \<not> newClient (splitBrokers brokers)"
  by (simp add: NewProducer_def)

lemma NewProducer_Enabled: "NewProducer newClient brokers = Some p \<Longrightarrow> Producer_Enabled (Some p) \<longleftrightarrow> brokers \<noteq> ''''"
  by (auto simp: NewProducer_def Producer_Enabled_def split: if_splits)

lemma Upstream_Dial_ok:
  "(\<exists>c. Upstream_Dial grpc gameAddr sessionAddr = Inr c) \<longleftrightarrow> grpc gameAddr \<and> (sessionAddr \<noteq> '''' \<longrightarrow> grpc sessionAddr)"
  by (simp add: Upstream_Dial_def Let_def)

lemma Upstream_Dial_Session: "Upstream_Dial grpc gameAddr sessionAddr = Inr c \<Longrightarrow> SessionEnabled (Some c) \<longleftrightarrow> sessionAddr \<noteq> ''''"
  by (auto simp: Upstream_Dial_def SessionEnabled_def Let_def split: if_splits)

lemma InitTracing_nil: "fst (InitTracing exporter merged endpoint) = None \<longleftrightarrow> endpoint \<noteq> '''' \<and> \<not> (exporter endpoint \<and> merged)"
  by (simp add: InitTracing_def)

end
