(* ===== verification/Game_Requests.thy ===== *)
theory Game_Requests
  imports Game_Play
begin

text \<open>
  The requests that change games (\<open>server.go\<close>) as one handler and as sequences, what of their outcome
  does not depend on the optional parts of the service, and what they keep of the seats.
\<close>

section \<open>Requests to a game service\<close>

datatype GameRequest =
  ReqCreate CreateGameRequest | ReqJoin string string | ReqMove string string string | ReqResign string string

definition handleGame :: "Srv \<Rightarrow> Env \<Rightarrow> GameRequest \<Rightarrow> DB \<Rightarrow> ProtoGame handled" where
  "handleGame srv E r db =
     (case r of
        ReqCreate req \<Rightarrow> CreateGame srv E req db
      | ReqJoin gid p \<Rightarrow> JoinGame srv E gid p db
      | ReqMove gid uci p \<Rightarrow> SubmitMove srv E gid uci p db
      | ReqResign gid p \<Rightarrow> Resign srv E gid p db)"

text \<open>\<open>E i\<close> is the environment of the \<open>i\<close>-th request.\<close>

fun handleGames :: "Srv \<Rightarrow> (nat \<Rightarrow> Env) \<Rightarrow> nat \<Rightarrow> GameRequest list \<Rightarrow> DB \<Rightarrow> (Code + ProtoGame) list \<times> DB \<times> Effect list" where
  "handleGames srv E i [] db = ([], db, [])"
| "handleGames srv E i (r # rs) db =
     (case handleGame srv (E i) r db of
        (reply, db, fx) \<Rightarrow> (case handleGames srv E (i + 1) rs db of (replies, db, fx') \<Rightarrow> (reply # replies, db, fx @ fx')))"

fun enrichment :: "Effect \<Rightarrow> bool" where
  "enrichment (PublishAnalysis r) = True"
| "enrichment (PutPGN k pgn) = True"
| "enrichment e = False"

definition coreOf :: "'r \<times> DB \<times> Effect list \<Rightarrow> 'r \<times> DB \<times> Effect list" where
  "coreOf h = (fst h, fst (snd h), filter (\<lambda>e. \<not> enrichment e) (snd (snd h)))"

lemma coreOf_simp [simp]: "coreOf (r, db, fx) = (r, db, filter (\<lambda>e. \<not> enrichment e) fx)"
  by (simp add: coreOf_def)

lemma requestAnalysis_core: "filter (\<lambda>e. \<not> enrichment e) (requestAnalysis srv E gid db) = []"
  unfolding requestAnalysis_def by (simp split: sum.split)

lemma archivePGN_core: "filter (\<lambda>e. \<not> enrichment e) (archivePGN srv E gid db) = []"
  unfolding archivePGN_def Let_def by (simp split: sum.split)

lemma afterEnd_core:
  "fst (afterEnd srv E gid result db) = fst (afterEnd srv' E gid result db)"
  "filter (\<lambda>e. \<not> enrichment e) (snd (afterEnd srv E gid result db)) = []"
  unfolding afterEnd_def Let_def by (simp_all add: requestAnalysis_core archivePGN_core)

lemma sessionEffects_core: "srv_session srv = srv_session srv' \<Longrightarrow> sessionEffects srv g pl p = sessionEffects srv' g pl p"
  by (simp add: sessionEffects_def)

lemma afterEnd_eq:
  "afterEnd srv E gid result db = (d, fx) \<Longrightarrow> afterEnd srv' E gid result db = (d', fx') \<Longrightarrow>
     d' = d \<and> filter (\<lambda>e. \<not> enrichment e) fx = [] \<and> filter (\<lambda>e. \<not> enrichment e) fx' = []"
  using afterEnd_core [of srv E gid result db] afterEnd_core [of srv' E gid result db] by (metis fst_conv snd_conv)

lemma handleGame_core:
  assumes "srv_session srv = srv_session srv'"
  shows "coreOf (handleGame srv E r db) = coreOf (handleGame srv' E r db)"
proof (cases r)
  case (ReqCreate req)
  have "createFor srv e q w d = createFor srv' e q w d" for e q w d unfolding createFor_def assms by (rule refl)
  then have c: "createFor srv = createFor srv'" by (intro ext)
  show ?thesis unfolding handleGame_def ReqCreate CreateGame_def c by simp
next
  case (ReqJoin gid p)
  have "JoinGame srv e g q d = JoinGame srv' e g q d" for e g q d unfolding JoinGame_def assms by (rule refl)
  then show ?thesis by (simp add: handleGame_def ReqJoin)
next
  case (ReqMove gid uci p)
  show ?thesis unfolding ReqMove
    by (auto simp: handleGame_def SubmitMove_def Let_def sessionEffects_core [OF assms] dest: afterEnd_eq
        split: sum.split StoreError.split prod.split option.split)
next
  case (ReqResign gid p)
  have "coreOf (resignAs srv E g q w db) = coreOf (resignAs srv' E g q w db)" for g q w
    using assms by (auto simp: resignAs_def Let_def dest: afterEnd_eq split: sum.split StoreError.split prod.split)
  then show ?thesis unfolding ReqResign by (simp add: handleGame_def Resign_def split: sum.split StoreError.split prod.split)
qed

lemma handleGames_core:
  assumes "srv_session srv = srv_session srv'"
  shows "coreOf (handleGames srv E i rs db) = coreOf (handleGames srv' E i rs db)"
proof (induction rs arbitrary: i db)
  case (Cons r rs)
  obtain y d fx where h: "handleGame srv (E i) r db = (y, d, fx)" by (metis prod.collapse)
  obtain y' d' fx' where h': "handleGame srv' (E i) r db = (y', d', fx')" by (metis prod.collapse)
  have "coreOf (y, d, fx) = coreOf (y', d', fx')" using handleGame_core [OF assms, of "E i" r db] h h' by metis
  then show ?case using Cons.IH [of "i + 1" d] h h' by (auto split: prod.splits)
qed simp

section \<open>Seats\<close>

text \<open>Who plays in the games; most operations leave it alone.\<close>

definition seats :: "DB \<Rightarrow> (string \<times> string \<times> string option) list" where
  "seats db = map (\<lambda>g. (g_id g, g_white g, g_black g)) (games db)"

definition seated :: "DB \<Rightarrow> string \<Rightarrow> string \<Rightarrow> bool" where
  "seated db gid p \<longleftrightarrow> (case find_game db gid of None \<Rightarrow> False | Some r \<Rightarrow> g_white r = p \<or> g_black r = Some p)"

lemma seats_games:
  assumes "\<And>g. g_id (f g) = g_id g \<and> g_white (f g) = g_white g \<and> g_black (f g) = g_black g"
  shows "seats (db\<lparr>games := update_where P f (games db)\<rparr>) = seats db"
  using assms by (simp add: seats_def update_where_def)

lemma seats_other [simp]:
  "seats (db\<lparr>users := us\<rparr>) = seats db" "seats (db\<lparr>moves := ms\<rparr>) = seats db" "seats (db\<lparr>outbox := ob\<rparr>) = seats db"
  "seats (db\<lparr>opening_ingested := oi\<rparr>) = seats db" "seats (db\<lparr>opening_moves := om\<rparr>) = seats db"
  by (simp_all add: seats_def)

lemma seats_addElo [simp]: "seats (addElo uid d db) = seats db"
  by (simp add: addElo_def)

lemma seats_EndGame [simp]: "seats (snd (EndGame up gid st er now db)) = seats db"
  by (simp add: EndGame_def seats_games Let_def)

lemma seats_AppendMove [simp]: "seats (snd (AppendMove up gid m st er ended now db)) = seats db"
  by (simp add: AppendMove_def seats_def update_where_def)

lemma seats_appendPlanned [simp]: "seats (snd (appendPlanned up now gid pl db)) = seats db"
  by (simp add: appendPlanned_def Let_def)

lemma seats_ApplyRatings [simp]: "seats (snd (ApplyRatings up up' gid oc db)) = seats db"
  by (auto simp: ApplyRatings_def seats_games Let_def split: option.splits prod.splits)

lemma seats_Ingest [simp]: "seats (snd (IngestGameOpening up gid res fens ucis db)) = seats db"
  by (simp add: IngestGameOpening_def Let_def)

lemma seats_CreateGuestUser [simp]: "seats (snd (CreateGuestUser lower up nid now db)) = seats db"
  by (simp add: CreateGuestUser_def Let_def)

lemma seats_afterEnd [simp]: "seats (fst (afterEnd srv env gid r db)) = seats db"
  by (cases r) (auto simp: afterEnd_def applyRatings_def ingestOpening_def Let_def split: sum.splits)

lemma seats_eqs:
  "EndGame up i st er now db = (r, db1) \<Longrightarrow> seats db1 = seats db"
  "appendPlanned up now i pl db = (r', db1) \<Longrightarrow> seats db1 = seats db"
  "afterEnd srv env i w db = (db1, fx) \<Longrightarrow> seats db1 = seats db"
  "CreateGuestUser lower up nid now db = (r'', db1) \<Longrightarrow> seats db1 = seats db"
  using seats_EndGame [of up i st er now db] seats_appendPlanned [of up now i pl db] seats_afterEnd [of srv env i w db]
    seats_CreateGuestUser [of lower up nid now db] by simp_all

lemma seats_Reply: "playEngineReply env g b h n db = (r, db1) \<Longrightarrow> seats db1 = seats db"
  by (auto simp: playEngineReply_def dest!: seats_eqs split: sum.splits prod.splits)

lemma seats_Submit: "seats (fst (snd (SubmitMove srv env gid uci p db))) = seats db"
  by (auto simp: SubmitMove_def Let_def dest!: seats_eqs seats_Reply split: sum.split StoreError.split prod.split option.split)

lemma seats_Resign: "seats (fst (snd (Resign srv env gid p db))) = seats db"
proof -
  have "seats (fst (snd (resignAs srv env g q w db))) = seats db" for g q w
  proof -
    obtain r db1 where e: "EndGame (env_up env 1) (ID g) (resultToDB w) ''RESIGNATION'' (env_now env) db = (r, db1)" by fastforce
    obtain db2 fx where a: "afterEnd srv env (ID g) w db1 = (db2, fx)" by fastforce
    show ?thesis unfolding resignAs_def e using seats_eqs(1) [OF e] seats_eqs(3) [OF a]
      by (cases r) (auto simp: a Let_def split: StoreError.split)
  qed
  then show ?thesis by (simp add: Resign_def split: sum.split StoreError.split prod.split)
qed

lemma seated_seats: "seated db gid p \<longleftrightarrow> (case find (\<lambda>x. fst x = gid) (seats db) of None \<Rightarrow> False | Some (i, w, b) \<Rightarrow> w = p \<or> b = Some p)"
proof -
  have "find (\<lambda>x. fst x = gid) (map (\<lambda>g. (g_id g, g_white g, g_black g)) gs) = map_option (\<lambda>g. (g_id g, g_white g, g_black g)) (find (\<lambda>g. g_id g = gid) gs)" for gs :: "GameRow list"
    by (induction gs) auto
  then show ?thesis by (simp add: seated_def seats_def find_game_def split: option.split)
qed

lemma seated_create: "seated db gid p \<Longrightarrow> seated (snd (Store_CreateGame up nid now ps db)) gid p"
proof -
  have "find P (xs @ ys) = (case find P xs of None \<Rightarrow> find P ys | Some x \<Rightarrow> Some x)" for P :: "GameRow \<Rightarrow> bool" and xs ys
    by (induction xs) auto
  then show "seated db gid p \<Longrightarrow> seated (snd (Store_CreateGame up nid now ps db)) gid p"
    by (auto simp: Store_CreateGame_def seated_def find_game_def Let_def split: option.splits)
qed

lemma seated_join: "seated db gid p \<Longrightarrow> seated (snd (Store_JoinGame up up' g q db)) gid p"
proof -
  have "(case find (\<lambda>r. g_id r = gid) (update_where (joinable g q) (g_black_update (\<lambda>_. Some q)) gs) of None \<Rightarrow> False | Some r \<Rightarrow> g_white r = p \<or> g_black r = Some p)"
    if "case find (\<lambda>r. g_id r = gid) gs of None \<Rightarrow> False | Some r \<Rightarrow> g_white r = p \<or> g_black r = Some p" for gs :: "GameRow list"
    using that by (induction gs) (auto simp: update_where_def joinable_def)
  then show "seated db gid p \<Longrightarrow> seated (snd (Store_JoinGame up up' g q db)) gid p"
    by (auto simp: Store_JoinGame_def seated_def find_game_def Let_def)
qed

definition paramsOf :: "CreateGameRequest \<Rightarrow> string \<Rightarrow> CreateGameParams" where
  "paramsOf req w =
     \<lparr>cp_WhiteID = w, cp_BlackID = cr_BlackId req, cp_VsEngine = cr_VsEngine req, cp_EngineDepth = cr_EngineDepth req,
      cp_StartFEN = StartFEN, cp_Rated = cr_Rated req, cp_InitialMs = cr_InitialMs req, cp_IncrementMs = cr_IncrementMs req\<rparr>"

lemma createFor_db:
  "fst (snd (createFor srv env req w d)) = snd (Store_CreateGame (env_up env 1) (env_newGame env) (env_now env) (paramsOf req w) d)"
  unfolding createFor_def paramsOf_def [symmetric] by (simp add: Let_def split: sum.split prod.split)

lemma seated_handle:
  assumes "seated db gid p"
  shows "seated (fst (snd (handleGame srv env r db))) gid p"
proof (cases r)
  case (ReqCreate req)
  have c: "seated (fst (snd (createFor srv env req w d))) gid p" if "seated d gid p" for w d
    using seated_create [OF that] by (simp add: createFor_db)
  have "seated d gid p" if "CreateGuestUser lower up nid now db = (x, d)" for lower up nid now x d
    using assms seats_eqs(4) [OF that] by (simp add: seated_seats)
  then show ?thesis using c assms by (auto simp: ReqCreate handleGame_def CreateGame_def split: sum.split prod.split)
next
  case (ReqJoin g q)
  have "seated d gid p" if "Store_JoinGame up up' g q db = (x, d)" for up up' x d using seated_join [OF assms, of up up' g q] that by simp
  then show ?thesis using assms by (auto simp: ReqJoin handleGame_def JoinGame_def Let_def split: sum.split StoreError.split prod.split)
next
  case (ReqMove g u q)
  then show ?thesis using assms seats_Submit [of srv env g u q db] by (simp add: handleGame_def seated_seats)
next
  case (ReqResign g q)
  then show ?thesis using assms seats_Resign [of srv env g q db] by (simp add: handleGame_def seated_seats)
qed

end
