(* ===== verification/Processes.thy ===== *)
theory Processes
  imports Startup Game_Requests
begin

text \<open>
  The processes at work after their start (\<open>Startup\<close>): requests to a game service, calls to a gateway,
  watching through a fanout, stopping; and what the outcome of the start means for them.
\<close>

section \<open>Start of the game service\<close>

text \<open>What the game service cannot start without, and nothing else.\<close>

definition hardDeps :: "'s Outside \<Rightarrow> (string \<Rightarrow> string) \<Rightarrow> bool" where
  "hardDeps out env \<longleftrightarrow>
     (Getenv env ''ACG_RUN_MIGRATIONS'' ''true'' = ''true'' \<longrightarrow>
        (\<exists>n \<in> {1..30}. out_migrate out (Getenv env ''ACG_POSTGRES_DSN'' postgresDSN) n = None)) \<and>
     out_connect out (Getenv env ''ACG_POSTGRES_DSN'' postgresDSN) 1 \<and>
     out_grpc out (Getenv env ''ACG_ENGINE_ADDR'' ''localhost:50052'') \<and>
     (env ''ACG_SESSION_ADDR'' \<noteq> '''' \<longrightarrow> out_grpc out (env ''ACG_SESSION_ADDR'')) \<and>
     (env ''ACG_KAFKA_BROKERS'' \<noteq> '''' \<longrightarrow> out_producer out (splitBrokers (env ''ACG_KAFKA_BROKERS''))) \<and>
     out_listen out (Getenv env ''ACG_GAME_ADDR'' '':50051'')"

lemma Getenv_empty [simp]: "Getenv env k '''' = env k"
  by (simp add: Getenv_def)

lemma migrated: "migrateWithRetry m \<noteq> None \<longleftrightarrow> \<not> (\<exists>n \<in> {1..30}. m n = None)"
proof -
  have "(\<exists>n. 1 \<le> n \<and> n < 31 \<and> m n = None) \<longleftrightarrow> (\<exists>n \<in> {1..30}. m n = None)" by (auto simp: Bex_def less_Suc_eq_le)
  then show ?thesis by (simp add: migrateWithRetry_iff)
qed

lemma game_service_starts:
  "(\<exists>p. fst (game_service_main out env s) = Inr p) \<longleftrightarrow> hardDeps out env"
  unfolding game_service_main_def hardDeps_def Let_def migrated
  by (auto simp: Engine_Dial_def Session_Dial_def NewProducer_def split: prod.splits option.splits)

lemma game_service_up:
  assumes "fst (game_service_main out env s) = Inr p"
  obtains sess events where "Session_Dial (out_grpc out) (env ''ACG_SESSION_ADDR'') = Some sess"
    and "NewProducer (out_producer out) (env ''ACG_KAFKA_BROKERS'') = Some events"
    and "gs_srv p = New_Server (sess \<noteq> None) (Producer_Enabled (Some events)) (Obj_Enabled (fst (dialArchive out env s)))
      (atoiValue (Getenv env ''ACG_ANALYSIS_DEPTH'' ''14''))"
    and "gs_tracing p = tracingFrom out env" and "gs_relay p = Redis_Enabled (redisFrom out env)"
  using assms unfolding game_service_main_def Let_def Getenv_empty by (simp split: if_splits option.splits prod.splits) auto

lemma game_service_process:
  assumes "fst (game_service_main out env s) = Inr p"
  shows "srv_session (gs_srv p) \<longleftrightarrow> env ''ACG_SESSION_ADDR'' \<noteq> ''''"
    and "srv_events (gs_srv p) \<longleftrightarrow> env ''ACG_KAFKA_BROKERS'' \<noteq> ''''"
    and "srv_objects (gs_srv p) \<longleftrightarrow> fst (dialArchive out env s) \<noteq> None"
    and "gs_tracing p = tracingFrom out env"
    and "gs_relay p \<longleftrightarrow> redisFrom out env \<noteq> None"
proof -
  obtain sess events where u: "Session_Dial (out_grpc out) (env ''ACG_SESSION_ADDR'') = Some sess"
    "NewProducer (out_producer out) (env ''ACG_KAFKA_BROKERS'') = Some events"
    "gs_srv p = New_Server (sess \<noteq> None) (Producer_Enabled (Some events)) (Obj_Enabled (fst (dialArchive out env s)))
      (atoiValue (Getenv env ''ACG_ANALYSIS_DEPTH'' ''14''))"
    "gs_tracing p = tracingFrom out env" "gs_relay p = Redis_Enabled (redisFrom out env)"
    using assms by (rule game_service_up)
  show "srv_session (gs_srv p) \<longleftrightarrow> env ''ACG_SESSION_ADDR'' \<noteq> ''''"
    using u(1) by (auto simp: u(3) New_Server_def Session_Dial_def split: if_splits)
  show "srv_events (gs_srv p) \<longleftrightarrow> env ''ACG_KAFKA_BROKERS'' \<noteq> ''''"
    by (simp add: u(3) New_Server_def NewProducer_Enabled [OF u(2)])
  show "srv_objects (gs_srv p) \<longleftrightarrow> fst (dialArchive out env s) \<noteq> None" by (simp add: u(3) New_Server_def Obj_Enabled_def)
qed (use game_service_up [OF assms] Redis_Enabled_def in metis)+

text \<open>The other processes.\<close>

lemma gateway_starts:
  "(\<exists>p. gateway_main out env = Inr p) \<longleftrightarrow>
     32 \<le> length (env ''ACG_SESSION_SECRET'') \<and> out_grpc out (Getenv env ''ACG_GAME_ADDR_CLIENT'' ''localhost:50051'') \<and>
     (env ''ACG_SESSION_ADDR'' \<noteq> '''' \<longrightarrow> out_grpc out (env ''ACG_SESSION_ADDR''))"
  unfolding gateway_main_def Let_def Getenv_empty
  by (auto simp: NewSigner_def Upstream_Dial_def Let_def split: option.splits sum.splits)

lemma engine_worker_starts:
  "(\<exists>p. fst (engine_worker_main out env s) = Inr p) \<longleftrightarrow>
     (\<exists>lines sent. Uci_New (out_spawn out) (out_send out) True True (Getenv env ''ACG_STOCKFISH_PATH'' ''stockfish'') = (Inr lines, sent)) \<and>
     out_listen out (Getenv env ''ACG_ENGINE_ADDR'' '':50052'')"
  unfolding engine_worker_main_def Let_def by (auto split: prod.splits sum.splits)

text \<open>A new engine process is in use only after it has answered both commands of the handshake.\<close>

lemma Uci_New_Inr:
  "Uci_New spawn sendOk quitOk inTime path = (Inr lines, sent) \<Longrightarrow> sent = [''uci'', ''isready''] \<and> spawn path \<noteq> None"
  by (auto simp: Uci_New_def handshake_def ready_def split: option.splits prod.splits sum.splits if_splits)

lemma Uci_New_fails:
  "Uci_New spawn sendOk True inTime path = (Inl (HandshakeFailed e), sent) \<Longrightarrow> last sent = ''quit''"
  by (auto simp: Uci_New_def Uci_Close_def split: option.splits prod.splits sum.splits)

section \<open>Calls to a gateway\<close>

lemma gateway_process:
  assumes "gateway_main out env = Inr p"
  shows "gp_limiter p = NewLimiter (redisFrom out env) (real_of_int (atoiValue (Getenv env ''ACG_RATE_LIMIT_RPS'' ''20'')))
      (atoiValue (Getenv env ''ACG_RATE_LIMIT_BURST'' ''60''))"
    and "gp_tracing p = tracingFrom out env"
    and "NewSigner (env ''ACG_SESSION_SECRET'') DefaultTTL (Getenv env ''ACG_COOKIE_SECURE'' ''false'' = ''true'') = Some (gp_signer p)"
  using assms by (auto simp: gateway_main_def Let_def split: if_splits option.splits sum.splits)

text \<open>Who a call is counted for.\<close>

definition callerKey :: "Jwt \<Rightarrow> GatewayProcess \<Rightarrow> int \<Rightarrow> Call \<Rightarrow> string" where
  "callerKey jwt p now c =
     limitKey (map_option id_UserID (cx_identity (Middleware jwt (now div 1000) (gp_signer p) (call_request c)))) (call_ip c)"

text \<open>Calls, with their times and with whether Redis answers: the replies, and the buckets at the end.\<close>

fun gatewayRun :: "Jwt \<Rightarrow> GatewayProcess \<Rightarrow> (bool \<times> int \<times> Call) list \<Rightarrow> (string \<Rightarrow> Bucket) \<Rightarrow> HttpReply list \<times> (string \<Rightarrow> Bucket)" where
  "gatewayRun jwt p [] buckets = ([], buckets)"
| "gatewayRun jwt p ((up, now, c) # calls) buckets =
     (case route jwt p up now c buckets of
        (r, buckets) \<Rightarrow> (case gatewayRun jwt p calls buckets of (rs, buckets) \<Rightarrow> (r # rs, buckets)))"

definition graphqlPath :: "Call \<Rightarrow> bool" where
  "graphqlPath c \<longleftrightarrow> call_path c = ''/graphql'' \<or> call_path c = ''/ws''"

fun isGraphQL :: "HttpReply \<Rightarrow> bool" where
  "isGraphQL (ToGraphQL ctx) = True"
| "isGraphQL r = False"

text \<open>The calls of one caller that reached the resolvers.\<close>

definition admitted :: "Jwt \<Rightarrow> GatewayProcess \<Rightarrow> string \<Rightarrow> (bool \<times> int \<times> Call) list \<Rightarrow> HttpReply list \<Rightarrow> nat" where
  "admitted jwt p k calls rs = length (filter (\<lambda>((up, now, c), r). isGraphQL r \<and> callerKey jwt p now c = k) (zip calls rs))"

lemma route_other: "\<not> graphqlPath c \<Longrightarrow> route jwt p up now c buckets = (r, b) \<Longrightarrow> b = buckets \<and> \<not> isGraphQL r"
  by (auto simp: route_def graphqlPath_def split: if_splits)

lemma route_graphql:
  assumes "graphqlPath c"
  shows "route jwt p up now c buckets =
     (case Allow (Some (gp_limiter p)) up now (buckets (''ratelimit:'' @ callerKey jwt p now c)) of
        (allowed, left, b) \<Rightarrow>
          (if allowed then ToGraphQL (Middleware jwt (now div 1000) (gp_signer p) (call_request c)) else TooMany,
           buckets(''ratelimit:'' @ callerKey jwt p now c := b)))"
  using assms by (auto simp: route_def graphqlPath_def authed_def RateLimitMiddleware_def callerKey_def Let_def split: prod.split)

text \<open>The times of the calls one caller is counted for, and how many of its calls Redis did not answer.\<close>

definition countedTimes :: "Jwt \<Rightarrow> GatewayProcess \<Rightarrow> string \<Rightarrow> (bool \<times> int \<times> Call) list \<Rightarrow> int list" where
  "countedTimes jwt p k calls = map (\<lambda>(up, now, c). now) (filter (\<lambda>(up, now, c). up \<and> graphqlPath c \<and> callerKey jwt p now c = k) calls)"

definition unanswered :: "Jwt \<Rightarrow> GatewayProcess \<Rightarrow> string \<Rightarrow> (bool \<times> int \<times> Call) list \<Rightarrow> nat" where
  "unanswered jwt p k calls = length (filter (\<lambda>(up, now, c). \<not> up \<and> graphqlPath c \<and> callerKey jwt p now c = k) calls)"

lemma gatewayRun_serve:
  assumes "lim_client (gp_limiter p)" and "0 < lim_rate (gp_limiter p)"
  shows "admitted jwt p k calls (fst (gatewayRun jwt p calls buckets)) =
     fst (serve (lim_rate (gp_limiter p)) (real_of_int (lim_capacity (gp_limiter p))) (countedTimes jwt p k calls) (buckets (''ratelimit:'' @ k))) +
     unanswered jwt p k calls"
proof (induction calls arbitrary: buckets)
  case Nil
  then show ?case by (simp add: admitted_def countedTimes_def unanswered_def)
next
  case (Cons x calls)
  obtain up now c where x: "x = (up, now, c)" by (cases x)
  obtain r b where r: "route jwt p up now c buckets = (r, b)" by fastforce
  obtain rs b' where rs: "gatewayRun jwt p calls b = (rs, b')" by fastforce
  note IH = Cons.IH [of b] rs
  have run: "fst (gatewayRun jwt p (x # calls) buckets) = r # rs" by (simp add: x r rs)
  consider "\<not> graphqlPath c" | "graphqlPath c" "\<not> up" | "graphqlPath c" "up" by blast
  then show ?case
  proof cases
    case 1
    then show ?thesis unfolding run using route_other [OF 1 r] IH by (simp add: x admitted_def countedTimes_def unanswered_def)
  next
    case 2
    have "isGraphQL r" "b = buckets" using r route_graphql [OF 2(1), of jwt p up now buckets] 2(2) by (auto simp: Allow_def)
    then show ?thesis unfolding run using IH 2 by (simp add: x admitted_def countedTimes_def unanswered_def)
  next
    case 3
    note True = 3(1)
    have more: "unanswered jwt p k (x # calls) = unanswered jwt p k calls" by (simp add: unanswered_def x 3)
    obtain allowed left b1 ttl where tb: "tokenBucket (lim_rate (gp_limiter p)) (real_of_int (lim_capacity (gp_limiter p))) now 1
        (buckets (''ratelimit:'' @ callerKey jwt p now c)) = (allowed, left, b1, ttl)" by (metis prod_cases4)
    then have rb: "b = buckets(''ratelimit:'' @ callerKey jwt p now c := b1)" "isGraphQL r = allowed"
      using r route_graphql [OF True, of jwt p up now buckets] 3(2) assms(1,2) by (auto simp: Allow_def split: if_splits)
    have IH': "admitted jwt p k calls rs = fst (serve (lim_rate (gp_limiter p)) (real_of_int (lim_capacity (gp_limiter p)))
        (countedTimes jwt p k calls) (b (''ratelimit:'' @ k))) + unanswered jwt p k calls" using IH by simp
    have adm: "admitted jwt p k (x # calls) (r # rs) = (if allowed \<and> callerKey jwt p now c = k then 1 else 0) + admitted jwt p k calls rs"
      by (simp add: admitted_def x rb(2))
    have times: "countedTimes jwt p k (x # calls) = (if callerKey jwt p now c = k then [now] else []) @ countedTimes jwt p k calls"
      by (simp add: countedTimes_def x 3)
    show ?thesis
    proof (cases "callerKey jwt p now c = k")
      case True
      then show ?thesis unfolding run adm times more using tb by (simp add: IH' rb(1) split: prod.split)
    next
      case False
      then show ?thesis unfolding run adm times more by (simp add: IH' rb(1))
    qed
  qed
qed

lemma countedTimes_within:
  assumes "sorted (map (\<lambda>x. fst (snd x)) calls)" and "calls \<noteq> []" and "countedTimes jwt p k calls = t # ts"
  shows "sorted (t # ts)" and "fst (snd (hd calls)) \<le> t" and "last (t # ts) \<le> fst (snd (last calls))"
proof -
  define P where "P = (\<lambda>x :: bool \<times> int \<times> Call. case x of (up, now, c) \<Rightarrow> up \<and> graphqlPath c \<and> callerKey jwt p now c = k)"
  have eq: "t # ts = map (\<lambda>x. fst (snd x)) (filter P calls)" using assms(3) [symmetric] by (simp add: countedTimes_def P_def case_prod_beta')
  show "sorted (t # ts)" unfolding eq by (rule sorted_filter [OF assms(1)])
  have sub: "set (t # ts) \<subseteq> set (map (\<lambda>x. fst (snd x)) calls)" unfolding eq by auto
  have lo: "\<forall>u \<in> set (map (\<lambda>x. fst (snd x)) calls). fst (snd (hd calls)) \<le> u" using assms(1,2) by (cases calls) auto
  have hi: "\<forall>u \<in> set (map (\<lambda>x. fst (snd x)) calls). u \<le> fst (snd (last calls))"
    using assms(1,2) by (induction calls) (auto simp: last_map split: if_splits)
  show "fst (snd (hd calls)) \<le> t" using lo sub by auto
  show "last (t # ts) \<le> fst (snd (last calls))" using hi sub by (metis last_in_set list.distinct(1) subsetD)
qed

lemma atoiValue_Some: "Atoi s = Some n \<Longrightarrow> atoiValue s = n"
  by (simp add: atoiValue_def)

section \<open>Watching through a fanout\<close>

text \<open>
  A hub's reading loop, one turn: it waits for the end when the stream is not enabled.
\<close>

definition hubTurn :: "bool \<Rightarrow> (string \<Rightarrow> string \<Rightarrow> XMessage list option) \<Rightarrow> string \<Rightarrow> Hub \<Rightarrow> string \<times> Hub" where
  "hubTurn enabled xread lastID h = (if \<not> enabled then (lastID, h) else readTurn xread lastID h)"

text \<open>Everything that can happen to the manager of a running fanout, whatever Redis answers and when.\<close>

inductive fanout_reach :: "FanoutProcess \<Rightarrow> Mgr \<Rightarrow> bool" for p where
  fr_start: "fanout_reach p (fo_manager p)"
| fr_subscribe: "fanout_reach p m \<Longrightarrow> fanout_reach p (Subscribe (fo_stream p) xrange ob i gid frm m)"
| fr_detach: "fanout_reach p m \<Longrightarrow> fanout_reach p (snd (unsubDetach h i m))"
| fr_close: "fanout_reach p m \<Longrightarrow> fanout_reach p (unsubClose gid h m)"
| fr_turn: "fanout_reach p m \<Longrightarrow> mg_objs m h = Some hb \<Longrightarrow>
    fanout_reach p (m\<lparr>mg_objs := (mg_objs m)(h \<mapsto> snd (hubTurn (fo_stream p) xread lastID hb))\<rparr>)"
| fr_receive: "fanout_reach p m \<Longrightarrow> mg_objs m h = Some hb \<Longrightarrow>
    fanout_reach p (m\<lparr>mg_objs := (mg_objs m)(h \<mapsto> receive i hb)\<rparr>)"

definition silentHub :: "Hub \<Rightarrow> bool" where
  "silentHub h \<longleftrightarrow> hb_history h = [] \<and> (\<forall>(i, s) \<in> set (hb_subs h). sb_Initial s = [] \<and> sb_ch s = [] \<and> sb_got s = [])"

lemma silent_steps:
  "silentHub h \<Longrightarrow> silentHub (attach i frm h)"
  "silentHub h \<Longrightarrow> silentHub (snd (detach i h))"
  "silentHub h \<Longrightarrow> silentHub (receive i h)"
  "silentHub h \<Longrightarrow> silentHub (snd (hubTurn False xread lastID h))"
  "silentHub h \<Longrightarrow> silentHub (h\<lparr>hb_cancelled := b\<rparr>)"
  "silentHub (snd (loadHistory False xrange (newHub gid)))"
  by (auto simp: silentHub_def attach_def filterAfter_def detach_def Let_def receive_def hubTurn_def loadHistory_def newHub_def Replay_def)

lemma silent_fanout:
  assumes "fanout_reach p m" and "\<not> fo_stream p" and "fo_manager p = NewManager"
  shows "mg_objs m h = Some hb \<Longrightarrow> silentHub hb"
  using assms(1)
proof (induction arbitrary: h hb)
  case fr_start
  then show ?case by (simp add: assms(3) NewManager_def)
next
  case (fr_subscribe m xrange ob i gid frm)
  then show ?case using assms(2) by (fastforce simp: Subscribe_def Let_def intro: silent_steps split: option.splits if_splits)
next
  case (fr_detach m h' i)
  then show ?case by (fastforce simp: unsubDetach_def Let_def case_prod_beta intro: silent_steps split: option.splits if_splits)
next
  case (fr_close m gid h')
  then show ?case by (fastforce simp: unsubClose_def intro: silent_steps split: option.splits if_splits)
next
  case (fr_turn m h' hb' xread lastID)
  then show ?case using assms(2) by (auto intro: silent_steps split: if_splits)
next
  case (fr_receive m h' hb' i)
  then show ?case by (auto intro: silent_steps split: if_splits)
qed

section \<open>An example\<close>

text \<open>A world in which what is not required works or fails, as \<open>ok\<close> says.\<close>

definition demoOutside :: "bool \<Rightarrow> (nat \<times> Objects) Outside" where
  "demoOutside ok =
     \<lparr>out_exporter = (\<lambda>_. ok), out_merged = True, out_migrate = (\<lambda>dsn n. if n < 3 then Some ''starting'' else None),
      out_connect = (\<lambda>dsn n. True), out_stopped = (\<lambda>n. False), out_ping = (\<lambda>_. ok), out_grpc = (\<lambda>_. True), out_admin = (\<lambda>_. ok),
      out_topics = (\<lambda>bs n r ts. None), out_producer = (\<lambda>_. True), out_consumer = (\<lambda>_. True), out_s3 = demoS3,
      out_listen = (\<lambda>_. True), out_spawn = (\<lambda>_. Some [''uciok'', ''readyok'']), out_send = (\<lambda>_. True)\<rparr>"

definition demoVars :: "string \<Rightarrow> string" where
  "demoVars k =
     (if k = ''ACG_REDIS_ADDR'' then ''redis:6379''
      else if k = ''ACG_OTLP_ENDPOINT'' then ''jaeger:4317''
      else if k = ''ACG_KAFKA_BROKERS'' then ''kafka:9092''
      else if k = ''ACG_SESSION_SECRET'' then replicate 32 (CHR ''x'')
      else '''')"

definition demoCall :: Call where
  "demoCall = \<lparr>call_path = ''/graphql'', call_request = \<lparr>rq_cookie = None, rq_Authorization = ''''\<rparr>, call_ip = ''10.0.0.1''\<rparr>"

lemma demo_game_service: "\<exists>p. fst (game_service_main (demoOutside ok) demoVars s) = Inr p"
  unfolding game_service_starts hardDeps_def demoOutside_def demoVars_def by (auto intro: bexI [of _ 3])

lemma demo_redis: "redisFrom (demoOutside ok) demoVars = (if ok then Some ''redis:6379'' else None)"
  by (simp add: redisFrom_def Redis_Dial_def demoOutside_def demoVars_def)

lemma demo_gateway:
  assumes "env ''ACG_SESSION_SECRET'' = replicate 32 (CHR ''x'')"
  shows "\<exists>p. gateway_main (demoOutside ok) env = Inr p"
  using assms by (auto simp: gateway_main_def NewSigner_def Upstream_Dial_def demoOutside_def Let_def numeral_eq_Suc)

lemma demo_secret: "demoVars ''ACG_SESSION_SECRET'' = replicate 32 (CHR ''x'')"
  by (simp add: demoVars_def)

lemma demo_engine_worker: "\<exists>p. fst (engine_worker_main (demoOutside ok) demoVars s) = Inr p"
  by (simp add: engine_worker_main_def Uci_New_def handshake_def ready_def HasPrefix_def demoOutside_def Let_def split: prod.split)

lemma demo_analysis_worker: "\<exists>p. fst (analysis_worker_main (demoOutside ok) demoVars s) = Inr p"
  by (simp add: analysis_worker_main_def connectStore_def numeral_eq_Suc Engine_Dial_def NewProducer_def NewConsumer_def demoOutside_def demoVars_def
      Let_def split: prod.split)

section \<open>Properties\<close>

text \<open>
  A game service starts exactly when the migrations, one connection to Postgres, the addresses of the
  engine and of a configured session manager, the client of configured brokers and its own port are
  there: no failure of Redis, of the object store, of the topics or of tracing keeps it down.
\<close>

theorem game_service_starts_iff:
  "(\<exists>p. fst (game_service_main out env s) = Inr p) \<longleftrightarrow> hardDeps out env"
  by (rule game_service_starts)

text \<open>
  The optional systems do not enter into play: two game services started in any two worlds, with any two
  configurations that agree on whether there is a session manager, answer any sequence of requests with
  the same replies, leave the same tables and call the session manager in the same way, given the same
  database, engine, clock and identifiers.  They may differ in the analyses they ask for and in the files they archive.
\<close>

theorem enrichment_never_changes_play:
  assumes "fst (game_service_main out env s) = Inr p" and "fst (game_service_main out' env' s') = Inr p'"
    and "env ''ACG_SESSION_ADDR'' = '''' \<longleftrightarrow> env' ''ACG_SESSION_ADDR'' = ''''"
  shows "coreOf (handleGames (gs_srv p) E i rs db) = coreOf (handleGames (gs_srv p') E i rs db)"
  by (rule handleGames_core) (use game_service_process(1) [OF assms(1)] game_service_process(1) [OF assms(2)] assms(3) in blast)

theorem enrichment_never_changes_play_witness:
  "\<exists>p p'. fst (game_service_main (demoOutside True) demoVars (0, Map.empty)) = Inr p \<and> fst (game_service_main (demoOutside False) demoVars (0, Map.empty)) = Inr p' \<and>
     gs_relay p \<and> \<not> gs_relay p' \<and>
     coreOf (handleGames (gs_srv p) (\<lambda>_. demoEnv) 0 [ReqMove ''g1'' ''e2e4'' ''ann'', ReqResign ''g1'' ''bob''] demoGame) =
     coreOf (handleGames (gs_srv p') (\<lambda>_. demoEnv) 0 [ReqMove ''g1'' ''e2e4'' ''ann'', ReqResign ''g1'' ''bob''] demoGame)"
proof -
  obtain p p' where p: "fst (game_service_main (demoOutside True) demoVars (0, Map.empty)) = Inr p" "fst (game_service_main (demoOutside False) demoVars (0, Map.empty)) = Inr p'"
    using demo_game_service by metis
  show ?thesis using p game_service_process(5) [OF p(1)] game_service_process(5) [OF p(2)]
      enrichment_never_changes_play [OF p refl] by (simp add: demo_redis del: handleGames.simps)
qed

text \<open>
  C20. A gateway keeps to its limit: started while Redis answers and with a positive rate and a burst that are numbers,
  it lets through to the resolvers, of one caller's GraphQL and WebSocket requests, at most the burst, plus the rate times the time that passed,
  plus the requests during which Redis does not answer (the limiter then lets everything through); in every sequence of calls
  by any callers to any paths whose times do not decrease, from any buckets without negative tokens, which the script
  never stores.  (A rate of 0 or one that is not a number switches the limit off: \<open>gateway_without_a_limit\<close>.)
\<close>

theorem gateway_bounds_each_caller:
  assumes "gateway_main out env = Inr p" and "redisFrom out env \<noteq> None"
    and "Atoi (Getenv env ''ACG_RATE_LIMIT_RPS'' ''20'') = Some rps" and "0 < rps"
    and "Atoi (Getenv env ''ACG_RATE_LIMIT_BURST'' ''60'') = Some cap" and "0 \<le> cap"
    and "sorted (map (\<lambda>x. fst (snd x)) calls)" and "calls \<noteq> []"
    and "case buckets (''ratelimit:'' @ k) of None \<Rightarrow> True | Some (left, ts) \<Rightarrow> 0 \<le> left"
  shows "real (admitted jwt p k calls (fst (gatewayRun jwt p calls buckets))) \<le>
     real_of_int cap + real_of_int rps * real_of_int (fst (snd (last calls)) - fst (snd (hd calls))) / 1000 + real (unanswered jwt p k calls)"
proof -
  have lim: "gp_limiter p = NewLimiter (redisFrom out env) (real_of_int rps) cap"
    using gateway_process(1) [OF assms(1)] assms(3,5) by (simp add: atoiValue_Some)
  let ?span = "fst (snd (last calls)) - fst (snd (hd calls))"
  have span: "0 \<le> real_of_int rps * real_of_int ?span / 1000" using assms(4,7,8) by (cases calls) auto
  have run: "admitted jwt p k calls (fst (gatewayRun jwt p calls buckets)) =
      fst (serve (real_of_int rps) (real_of_int cap) (countedTimes jwt p k calls) (buckets (''ratelimit:'' @ k))) + unanswered jwt p k calls"
    using gatewayRun_serve [of p jwt k calls buckets] assms(2,4) by (simp add: lim NewLimiter_def)
  show ?thesis
  proof (cases "countedTimes jwt p k calls")
    case Nil
    then show ?thesis using run assms(6) span by simp
  next
    case (Cons t ts)
    note w = countedTimes_within [OF assms(7,8) Cons]
    have "real_of_int (last (t # ts) - t) \<le> real_of_int ?span" using w(2,3) by linarith
    then have "real_of_int rps * real_of_int (last (t # ts) - t) / 1000 \<le> real_of_int rps * real_of_int ?span / 1000"
      using assms(4) by (intro divide_right_mono mult_left_mono) auto
    moreover have "real (fst (serve (real_of_int rps) (real_of_int cap) (t # ts) (buckets (''ratelimit:'' @ k)))) \<le>
        real_of_int cap + real_of_int rps * real_of_int (last (t # ts) - t) / 1000"
      by (rule serve_from_bucket) (use assms(4,6,9) w(1) in simp_all)
    ultimately show ?thesis unfolding run Cons of_nat_add by linarith
  qed
qed

theorem gateway_bounds_each_caller_witness:
  "\<exists>p. gateway_main (demoOutside True) demoVars = Inr p \<and>
     real (admitted demoJwt p ''ip:10.0.0.1'' [(True, 0, demoCall), (True, 500, demoCall)]
       (fst (gatewayRun demoJwt p [(True, 0, demoCall), (True, 500, demoCall)] (\<lambda>_. None)))) \<le> 60 + 20 * 500 / 1000"
proof -
  obtain p where p: "gateway_main (demoOutside True) demoVars = Inr p" using demo_gateway [of demoVars True, OF demo_secret] by blast
  have "Atoi (Getenv demoVars ''ACG_RATE_LIMIT_RPS'' ''20'') = Some 20" "Atoi (Getenv demoVars ''ACG_RATE_LIMIT_BURST'' ''60'') = Some 60"
    unfolding demoVars_def Getenv_def by code_simp+
  from gateway_bounds_each_caller [OF p _ this(1) _ this(2), of "[(True, 0, demoCall), (True, 500, demoCall)]" "\<lambda>_. None" "''ip:10.0.0.1''" demoJwt]
  show ?thesis using p by (simp add: demo_redis unanswered_def)
qed

text \<open>
  A gateway started while Redis does not answer, or with a rate that is not a positive number, limits
  nobody: every request to the GraphQL and WebSocket paths reaches the resolvers, whatever Redis does later.
\<close>

theorem gateway_without_a_limit:
  assumes "gateway_main out env = Inr p" and "redisFrom out env = None \<or> atoiValue (Getenv env ''ACG_RATE_LIMIT_RPS'' ''20'') \<le> 0"
    and "call_path c \<in> {''/graphql'', ''/ws''}"
  shows "fst (route jwt p up now c buckets) = ToGraphQL (Middleware jwt (now div 1000) (gp_signer p) (call_request c))"
proof -
  have "graphqlPath c" using assms(3) by (auto simp: graphqlPath_def)
  moreover have "\<not> lim_client (gp_limiter p) \<or> lim_rate (gp_limiter p) \<le> 0"
    using assms(2) by (auto simp: gateway_process(1) [OF assms(1)] NewLimiter_def)
  ultimately show ?thesis by (auto simp: route_graphql Allow_def split: prod.split)
qed

theorem gateway_without_a_limit_witness:
  "\<exists>p. gateway_main (demoOutside True) (demoVars(''ACG_RATE_LIMIT_RPS'' := ''20/s'')) = Inr p \<and>
     fst (route demoJwt p True 7 demoCall (\<lambda>_. Some (0, 7))) = ToGraphQL (Middleware demoJwt 0 (gp_signer p) (call_request demoCall))"
proof -
  let ?env = "demoVars(''ACG_RATE_LIMIT_RPS'' := ''20/s'')"
  obtain p where p: "gateway_main (demoOutside True) ?env = Inr p" using demo_gateway [of ?env] by (auto simp: demoVars_def)
  have "atoiValue (Getenv ?env ''ACG_RATE_LIMIT_RPS'' ''20'') \<le> 0" unfolding demoVars_def Getenv_def by code_simp
  then show ?thesis using p gateway_without_a_limit [OF p, of demoCall demoJwt True 7] by (simp add: demoCall_def)
qed

text \<open>
  C30. A fanout started while Redis does not answer delivers nothing for as long as it runs: whatever Redis
  answers later, no spectator of any game is ever sent a move.
\<close>

theorem fanout_started_without_redis_is_silent:
  assumes "fanout_reach (fanout_main out env) m" and "redisFrom out env = None"
    and "mg_objs m h = Some hb" and "(i, sub) \<in> set (hb_subs hb)"
  shows "sb_Initial sub = [] \<and> sb_ch sub = [] \<and> sb_got sub = []"
  using silent_fanout [OF assms(1) _ _ assms(3)] assms(2,4) by (auto simp: fanout_main_def Redis_Enabled_def silentHub_def)

theorem fanout_started_without_redis_is_silent_witness:
  "\<exists>m hb sub. fanout_reach (fanout_main (demoOutside False) demoVars) m \<and> mg_objs m 0 = Some hb \<and> hb_subs hb = [(0, sub)] \<and>
     sb_Initial sub = [] \<and> sb_ch sub = [] \<and> sb_got sub = []"
proof -
  let ?p = "fanout_main (demoOutside False) demoVars"
  let ?m = "Subscribe (fo_stream ?p) (\<lambda>_ _. Some demoMsgs) 0 0 ''g1'' '''' (fo_manager ?p)"
  have r: "fanout_reach ?p ?m" by (rule fr_subscribe [OF fr_start])
  have d: "redisFrom (demoOutside False) demoVars = None" by (simp add: demo_redis)
  obtain hb sub where h: "mg_objs ?m 0 = Some hb" "hb_subs hb = [(0, sub)]"
    by (auto simp: fanout_main_def NewManager_def Subscribe_def attach_def loadHistory_def newHub_def Replay_def Let_def Redis_Enabled_def d)
  show ?thesis using r h fanout_started_without_redis_is_silent [OF r d h(1)] by auto
qed

text \<open>Whether setting up tracing fails, and what it means at the end.\<close>

definition tracingFails :: "'s Outside \<Rightarrow> (string \<Rightarrow> string) \<Rightarrow> bool" where
  "tracingFails out env \<longleftrightarrow> env ''ACG_OTLP_ENDPOINT'' \<noteq> '''' \<and> \<not> (out_exporter out (env ''ACG_OTLP_ENDPOINT'') \<and> out_merged out)"

lemma stop_traced: "stopProcess (tracingFrom out env) True = (if tracingFails out env then Panicked else ExitCode 0)"
  by (auto simp: stopProcess_def tracingFrom_def InitTracing_def tracingFails_def)

lemma worker_tracing:
  "fst (engine_worker_main out env s) = Inr e \<Longrightarrow> ep_tracing e = tracingFrom out env"
  "fst (analysis_worker_main out env s) = Inr a \<Longrightarrow> ap_tracing a = tracingFrom out env"
  by (auto simp: engine_worker_main_def analysis_worker_main_def Let_def split: sum.splits prod.splits if_splits option.splits)

text \<open>
  C29. A process that could not set up tracing runs, but panics when it is told to stop; without a collector, or
  with one that works, it stops with status 0.  This holds of every start of the game service, the gateway, the engine worker
  and the analysis worker, each in its own world and environment.
\<close>

theorem failed_tracing_panics_at_the_end:
  "(fst (game_service_main o1 e1 s1) = Inr g \<longrightarrow> stopProcess (gs_tracing g) True = (if tracingFails o1 e1 then Panicked else ExitCode 0)) \<and>
   (gateway_main o2 e2 = Inr w \<longrightarrow> stopProcess (gp_tracing w) True = (if tracingFails o2 e2 then Panicked else ExitCode 0)) \<and>
   (fst (engine_worker_main o3 e3 s3) = Inr e \<longrightarrow> stopProcess (ep_tracing e) True = (if tracingFails o3 e3 then Panicked else ExitCode 0)) \<and>
   (fst (analysis_worker_main o4 e4 s4) = Inr a \<longrightarrow> stopProcess (ap_tracing a) True = (if tracingFails o4 e4 then Panicked else ExitCode 0))"
proof (intro conjI impI)
  assume "fst (game_service_main o1 e1 s1) = Inr g"
  from game_service_process(4) [OF this] show "stopProcess (gs_tracing g) True = (if tracingFails o1 e1 then Panicked else ExitCode 0)"
    by (simp only: stop_traced)
next
  assume "gateway_main o2 e2 = Inr w"
  from gateway_process(2) [OF this] show "stopProcess (gp_tracing w) True = (if tracingFails o2 e2 then Panicked else ExitCode 0)"
    by (simp only: stop_traced)
next
  assume "fst (engine_worker_main o3 e3 s3) = Inr e"
  from worker_tracing(1) [OF this] show "stopProcess (ep_tracing e) True = (if tracingFails o3 e3 then Panicked else ExitCode 0)"
    by (simp only: stop_traced)
next
  assume "fst (analysis_worker_main o4 e4 s4) = Inr a"
  from worker_tracing(2) [OF this] show "stopProcess (ap_tracing a) True = (if tracingFails o4 e4 then Panicked else ExitCode 0)"
    by (simp only: stop_traced)
qed

theorem failed_tracing_panics_at_the_end_witness:
  "\<exists>g w. fst (game_service_main (demoOutside False) demoVars (0, Map.empty)) = Inr g \<and> gateway_main (demoOutside True) demoVars = Inr w \<and>
     stopProcess (gs_tracing g) True = Panicked \<and> stopProcess (gp_tracing w) True = ExitCode 0"
proof -
  obtain g w where p: "fst (game_service_main (demoOutside False) demoVars (0, Map.empty)) = Inr g" "gateway_main (demoOutside True) demoVars = Inr w"
    using demo_game_service [of False "(0, Map.empty)"] demo_gateway [of demoVars True, OF demo_secret] by blast
  have "stopProcess (gs_tracing g) True = (if tracingFails (demoOutside False) demoVars then Panicked else ExitCode 0)"
    "stopProcess (gp_tracing w) True = (if tracingFails (demoOutside True) demoVars then Panicked else ExitCode 0)"
    by (rule mp [OF conjunct1 [OF failed_tracing_panics_at_the_end] p(1)],
      rule mp [OF conjunct1 [OF conjunct2 [OF failed_tracing_panics_at_the_end]] p(2)])
  then show ?thesis using p by (simp add: tracingFails_def demoOutside_def demoVars_def)
qed

end
