(* ===== verification/Hub_Metrics.thy ===== *)
theory Hub_Metrics
  imports Fanout
begin

text \<open>
  The metrics of the fanout (\<open>services/fanout/internal/metrics/metrics.go\<close>) and the places where the
  hubs and the manager report to them (\<open>hub.go\<close>, \<open>manager.go\<close>): each operation of \<open>Fanout\<close>
  together with what it does to the gauges and counters.
\<close>

section \<open>Gauges and counters\<close>

record Meters =
  mt_hubs :: int
  mt_subs :: int
  mt_deltas :: int
  mt_drops :: int

definition New_Meters :: Meters where
  "New_Meters = \<lparr>mt_hubs = 0, mt_subs = 0, mt_deltas = 0, mt_drops = 0\<rparr>"

definition HubOpened :: "Meters \<Rightarrow> Meters" where "HubOpened t = t\<lparr>mt_hubs := mt_hubs t + 1\<rparr>"
definition HubClosed :: "Meters \<Rightarrow> Meters" where "HubClosed t = t\<lparr>mt_hubs := mt_hubs t - 1\<rparr>"
definition SubAdded :: "Meters \<Rightarrow> Meters" where "SubAdded t = t\<lparr>mt_subs := mt_subs t + 1\<rparr>"
definition SubRemoved :: "Meters \<Rightarrow> Meters" where "SubRemoved t = t\<lparr>mt_subs := mt_subs t - 1\<rparr>"
definition DeltaBroadcast :: "Meters \<Rightarrow> Meters" where "DeltaBroadcast t = t\<lparr>mt_deltas := mt_deltas t + 1\<rparr>"
definition SubDropped :: "Meters \<Rightarrow> Meters" where "SubDropped t = t\<lparr>mt_drops := mt_drops t + 1\<rparr>"

lemmas meters_defs = HubOpened_def HubClosed_def SubAdded_def SubRemoved_def DeltaBroadcast_def SubDropped_def

section \<open>Reporting\<close>

definition detachMetered :: "nat \<Rightarrow> Hub \<Rightarrow> Meters \<Rightarrow> Hub \<times> Meters" where
  "detachMetered i h t = (snd (detach i h), if list_ex (\<lambda>(k, s). k = i \<and> sb_in s) (hb_subs h) then SubRemoved t else t)"

text \<open>The loop over the subscribers, where one with a full channel is dropped.\<close>

fun reportDrops :: "(nat \<times> Sub) list \<Rightarrow> Meters \<Rightarrow> Meters" where
  "reportDrops [] t = t"
| "reportDrops ((i, s) # subs) t =
     reportDrops subs (if sb_in s \<and> \<not> length (sb_ch s) < sendBuffer then SubDropped (SubRemoved t) else t)"

definition broadcastMetered :: "Delta \<Rightarrow> Hub \<Rightarrow> Meters \<Rightarrow> Hub \<times> Meters" where
  "broadcastMetered d h t = (broadcast d h, reportDrops (hb_subs h) (DeltaBroadcast t))"

definition SubscribeMetered :: "bool \<Rightarrow> (string \<Rightarrow> string \<Rightarrow> XMessage list option) \<Rightarrow> nat \<Rightarrow> nat \<Rightarrow> string \<Rightarrow> string \<Rightarrow>
    Mgr \<times> Meters \<Rightarrow> Mgr \<times> Meters" where
  "SubscribeMetered enabled xrange ob i gameID frm mt =
     (case mt of (m, t) \<Rightarrow>
        (Subscribe enabled xrange ob i gameID frm m, SubAdded (if mg_hubs m gameID = None then HubOpened t else t)))"

definition closeMetered :: "string \<Rightarrow> nat \<Rightarrow> Mgr \<times> Meters \<Rightarrow> Mgr \<times> Meters" where
  "closeMetered gameID h mt =
     (case mt of (m, t) \<Rightarrow>
        (unsubClose gameID h m,
         if mg_hubs m gameID = Some h \<and> (case mg_objs m h of None \<Rightarrow> False | Some hb \<Rightarrow> isEmptyHub hb) then HubClosed t else t))"

text \<open>An operation on one hub, its lock held.\<close>

definition onHub :: "nat \<Rightarrow> (Hub \<Rightarrow> Meters \<Rightarrow> Hub \<times> Meters) \<Rightarrow> Mgr \<times> Meters \<Rightarrow> Mgr \<times> Meters" where
  "onHub h f mt =
     (case mt of (m, t) \<Rightarrow>
        (case mg_objs m h of
           None \<Rightarrow> (m, t)
         | Some hb \<Rightarrow> (case f hb t of (hb, t) \<Rightarrow> (m\<lparr>mg_objs := (mg_objs m)(h \<mapsto> hb)\<rparr>, t))))"

text \<open>Any interleaving of the critical sections, with a new identity for every hub and every subscriber.\<close>

inductive metered_reach :: "Mgr \<times> Meters \<Rightarrow> bool" where
  mt_new: "metered_reach (\<lparr>mg_hubs = Map.empty, mg_objs = Map.empty\<rparr>, New_Meters)"
| mt_subscribe: "metered_reach (m, t) \<Longrightarrow> mg_objs m ob = None \<Longrightarrow> (\<And>h hb. mg_objs m h = Some hb \<Longrightarrow> i \<notin> fst ` set (hb_subs hb)) \<Longrightarrow>
    metered_reach (SubscribeMetered enabled xrange ob i gid f (m, t))"
| mt_detach: "metered_reach mt \<Longrightarrow> metered_reach (onHub h (detachMetered i) mt)"
| mt_close: "metered_reach mt \<Longrightarrow> metered_reach (closeMetered gid h mt)"
| mt_broadcast: "metered_reach mt \<Longrightarrow> metered_reach (onHub h (broadcastMetered d) mt)"
| mt_receive: "metered_reach mt \<Longrightarrow> metered_reach (onHub h (\<lambda>hb t. (receive i hb, t)) mt)"

section \<open>What there is to count\<close>

definition watching :: "Hub \<Rightarrow> int" where
  "watching h = int (length (filter (\<lambda>(i, s). sb_in s) (hb_subs h)))"

definition kicked :: "Hub \<Rightarrow> int" where
  "kicked h = int (length (filter (\<lambda>(i, s). sb_kicked s) (hb_subs h)))"

definition sumHubs :: "(Hub \<Rightarrow> int) \<Rightarrow> Mgr \<Rightarrow> int" where
  "sumHubs f m = (\<Sum>h \<in> dom (mg_objs m). f (the (mg_objs m h)))"

text \<open>Whether a hub's subscribers are told apart, and those dropped are out.\<close>

definition tidy :: "Hub \<Rightarrow> bool" where
  "tidy hb \<longleftrightarrow> distinct (map fst (hb_subs hb)) \<and> (\<forall>(i, s) \<in> set (hb_subs hb). sb_kicked s \<longrightarrow> \<not> sb_in s)"

definition meters_ok :: "Mgr \<times> Meters \<Rightarrow> bool" where
  "meters_ok mt \<longleftrightarrow>
     (case mt of (m, t) \<Rightarrow>
        finite (dom (mg_objs m)) \<and> finite (dom (mg_hubs m)) \<and> mt_hubs t = int (HubCount m) \<and>
        mt_subs t = sumHubs watching m \<and> mt_drops t = sumHubs kicked m \<and>
        (\<forall>h hb. mg_objs m h = Some hb \<longrightarrow> tidy hb))"

lemma sumHubs_upd:
  assumes "finite (dom (mg_objs m))"
  shows "mg_objs m h = Some hb \<Longrightarrow> sumHubs f (m\<lparr>mg_hubs := hs, mg_objs := (mg_objs m)(h \<mapsto> hb')\<rparr>) = sumHubs f m + (f hb' - f hb)"
    and "mg_objs m h = None \<Longrightarrow> sumHubs f (m\<lparr>mg_hubs := hs, mg_objs := (mg_objs m)(h \<mapsto> hb')\<rparr>) = sumHubs f m + f hb'"
proof -
  have eq: "(\<Sum>x \<in> dom (mg_objs m) - {h}. f (the (((mg_objs m)(h \<mapsto> hb')) x))) = (\<Sum>x \<in> dom (mg_objs m) - {h}. f (the (mg_objs m x)))"
    by (rule sum.cong) auto
  { assume "mg_objs m h = Some hb"
    then have "h \<in> dom (mg_objs m)" by auto
    then show "sumHubs f (m\<lparr>mg_hubs := hs, mg_objs := (mg_objs m)(h \<mapsto> hb')\<rparr>) = sumHubs f m + (f hb' - f hb)"
      using assms eq \<open>mg_objs m h = Some hb\<close> by (simp add: sumHubs_def insert_absorb sum.remove [of _ h]) }
  assume "mg_objs m h = None"
  then have "h \<notin> dom (mg_objs m)" by auto
  then show "sumHubs f (m\<lparr>mg_hubs := hs, mg_objs := (mg_objs m)(h \<mapsto> hb')\<rparr>) = sumHubs f m + f hb'"
    using assms eq by (simp add: sumHubs_def)
qed

lemma watching_attach: "watching (attach i frm h) = watching h + 1" "kicked (attach i frm h) = kicked h"
  by (simp_all add: watching_def kicked_def attach_def)

lemma count_detach:
  assumes "distinct (map fst subs)"
  shows "int (length (filter (\<lambda>(k, s). sb_in s) (map (\<lambda>(k, s). (k, if k = i then s\<lparr>sb_in := False\<rparr> else s)) subs))) =
     int (length (filter (\<lambda>(k, s). sb_in s) subs)) - (if list_ex (\<lambda>(k, s). k = i \<and> sb_in s) subs then 1 else 0)"
  using assms
proof (induction subs)
  case (Cons x subs)
  obtain k s where x: "x = (k, s)" by fastforce
  show ?case
  proof (cases "k = i")
    case True
    then have none: "\<not> list_ex (\<lambda>(k, s). k = i \<and> sb_in s) subs" using Cons.prems x by (force simp: list_ex_iff)
    show ?thesis using Cons none True by (auto simp: x)
  qed (use Cons x in auto)
qed simp

lemma count_map:
  "(\<And>i s. P (g i s) = P s) \<Longrightarrow>
     length (filter (\<lambda>(i, s). P s) (map (\<lambda>(i, s). (i, g i s)) subs)) = length (filter (\<lambda>(i, s). P s) subs)"
  by (induction subs) auto

lemma kicked_detach: "kicked (snd (detach i h)) = kicked h"
  using count_map [of sb_kicked "\<lambda>k s. if k = i then s\<lparr>sb_in := False\<rparr> else s" "hb_subs h"]
  by (simp add: kicked_def detach_def Let_def)

lemma reportDrops_spec:
  assumes "\<forall>(i, s) \<in> set subs. sb_kicked s \<longrightarrow> \<not> sb_in s"
  shows "mt_hubs (reportDrops subs t) = mt_hubs t \<and> mt_deltas (reportDrops subs t) = mt_deltas t \<and>
     mt_subs (reportDrops subs t) - mt_subs t =
       int (length (filter (\<lambda>(i, s). sb_in s) (map (\<lambda>(i, s). (i, deliver d s)) subs))) - int (length (filter (\<lambda>(i, s). sb_in s) subs)) \<and>
     mt_drops (reportDrops subs t) - mt_drops t =
       int (length (filter (\<lambda>(i, s). sb_kicked s) (map (\<lambda>(i, s). (i, deliver d s)) subs))) - int (length (filter (\<lambda>(i, s). sb_kicked s) subs))"
  using assms
proof (induction subs arbitrary: t)
  case (Cons x subs)
  obtain i s where x: "x = (i, s)" by fastforce
  let ?t = "if sb_in s \<and> \<not> length (sb_ch s) < sendBuffer then SubDropped (SubRemoved t) else t"
  have "sb_kicked s \<longrightarrow> \<not> sb_in s" using Cons.prems x by simp
  then show ?case using Cons.IH [of ?t] Cons.prems by (auto simp: x deliver_def meters_defs)
qed simp

lemma receive_counts: "watching (receive i h) = watching h" "kicked (receive i h) = kicked h"
  using count_map [of sb_in "\<lambda>k s. if k = i \<and> sb_ch s \<noteq> [] then s\<lparr>sb_ch := tl (sb_ch s), sb_got := sb_got s @ [hd (sb_ch s)]\<rparr> else s" "hb_subs h"]
    count_map [of sb_kicked "\<lambda>k s. if k = i \<and> sb_ch s \<noteq> [] then s\<lparr>sb_ch := tl (sb_ch s), sb_got := sb_got s @ [hd (sb_ch s)]\<rparr> else s" "hb_subs h"]
  by (simp_all add: watching_def kicked_def receive_def)

lemma tidy_steps:
  "tidy h \<Longrightarrow> i \<notin> fst ` set (hb_subs h) \<Longrightarrow> tidy (attach i f h)"
  "tidy h \<Longrightarrow> tidy (snd (detach i h))"
  "tidy h \<Longrightarrow> tidy (broadcast d h)"
  "tidy h \<Longrightarrow> tidy (receive i h)"
  by (auto simp: tidy_def attach_def detach_def Let_def broadcast_def deliver_def receive_def comp_def case_prod_beta split: if_splits)

section \<open>The metrics count what there is\<close>

lemma metered_mgr: "metered_reach mt \<Longrightarrow> mgr_reach (fst mt)"
proof (induction rule: metered_reach.induct)
  case mt_new
  then show ?case by (simp add: mgr_reach.mr_new)
next
  case (mt_subscribe m t ob i enabled xrange gid f)
  then show ?case by (auto simp: SubscribeMetered_def intro: mr_step ms_subscribe)
next
  case (mt_detach mt h i)
  have "fst (onHub h (detachMetered i) mt) = snd (unsubDetach h i (fst mt))"
    by (simp add: onHub_def detachMetered_def unsubDetach_def Let_def case_prod_beta split: option.split)
  then show ?case using mt_detach mr_step ms_detach by metis
next
  case (mt_close mt gid h)
  then show ?case by (auto simp: closeMetered_def split: prod.split intro: mr_step ms_close)
next
  case (mt_broadcast mt h d)
  then show ?case by (auto simp: onHub_def broadcastMetered_def split: prod.split option.split intro: mr_step ms_broadcast)
next
  case (mt_receive mt h i)
  then show ?case by (auto simp: onHub_def split: prod.split option.split intro: mr_step ms_receive)
qed

lemma onHub_ok:
  assumes "meters_ok (m, t)" and "mg_objs m h = Some hb" and "f hb t = (hb', t')"
    and "mt_hubs t' = mt_hubs t" and "mt_subs t' - mt_subs t = watching hb' - watching hb" and "mt_drops t' - mt_drops t = kicked hb' - kicked hb"
    and "tidy hb'"
  shows "meters_ok (onHub h f (m, t))"
proof -
  have fin: "finite (dom (mg_objs m))" using assms(1) by (simp add: meters_ok_def)
  note u = sumHubs_upd(1) [where hs = "mg_hubs m" and hb' = hb', OF fin assms(2), simplified]
  show ?thesis using assms u [of watching] u [of kicked] by (auto simp: onHub_def meters_ok_def HubCount_def)
qed

lemma meters_ok_reach: "metered_reach mt \<Longrightarrow> meters_ok mt"
proof (induction rule: metered_reach.induct)
  case mt_new
  then show ?case by (simp add: meters_ok_def New_Meters_def HubCount_def sumHubs_def)
next
  case (mt_subscribe m t ob i enabled xrange gid f)
  have fin: "finite (dom (mg_objs m))" "finite (dom (mg_hubs m))" using mt_subscribe.IH by (simp_all add: meters_ok_def)
  show ?case
  proof (cases "mg_hubs m gid")
    case None
    let ?h = "attach i f (snd (loadHistory enabled xrange (newHub gid)))"
    have h: "watching ?h = 1" "kicked ?h = 0" "tidy ?h"
      by (auto simp: watching_def kicked_def tidy_def attach_def loadHistory_def newHub_def split: sum.split)
    note u = sumHubs_upd(2) [where hs = "(mg_hubs m)(gid \<mapsto> ob)" and hb' = ?h, OF fin(1) mt_subscribe(2)]
    show ?thesis using mt_subscribe.IH u [of watching] u [of kicked] h fin None
      by (auto simp: SubscribeMetered_def Subscribe_def meters_ok_def Let_def HubCount_def meters_defs card_insert_if domIff)
  next
    case (Some h)
    obtain hb where hb: "mg_objs m h = Some hb" using mgr_reach_ok [OF metered_mgr [OF mt_subscribe(1)]] Some unfolding mgr_ok_def fst_conv by blast
    have "tidy (attach i f hb)" using mt_subscribe.IH mt_subscribe(3) [OF hb] hb by (intro tidy_steps) (auto simp: meters_ok_def)
    moreover note u = sumHubs_upd(1) [where hs = "mg_hubs m" and hb' = "attach i f hb", OF fin(1) hb, simplified]
    ultimately show ?thesis using mt_subscribe.IH u [of watching] u [of kicked] Some hb
      by (auto simp: SubscribeMetered_def Subscribe_def meters_ok_def HubCount_def meters_defs watching_attach)
  qed
next
  case (mt_detach mt h i)
  obtain m t where mt: "mt = (m, t)" by fastforce
  show ?case
  proof (cases "mg_objs m h")
    case None
    then show ?thesis using mt_detach.IH by (simp add: mt onHub_def)
  next
    case (Some hb)
    then have tidy: "tidy hb" using mt_detach.IH by (simp add: mt meters_ok_def)
    then have "distinct (map fst (hb_subs hb))" by (simp add: tidy_def)
    note c = count_detach [OF this, of i]
    show ?thesis unfolding mt
    proof (rule onHub_ok [OF mt_detach.IH [unfolded mt] Some surjective_pairing])
      show "mt_subs (snd (detachMetered i hb t)) - mt_subs t = watching (fst (detachMetered i hb t)) - watching hb"
        using c by (simp add: detachMetered_def watching_def detach_def Let_def meters_defs)
    qed (simp_all add: detachMetered_def meters_defs kicked_detach tidy_steps(2) [OF tidy])
  qed
next
  case (mt_close mt gid h)
  obtain m t where mt: "mt = (m, t)" by fastforce
  show ?case
  proof (cases "mg_hubs m gid = Some h \<and> (case mg_objs m h of None \<Rightarrow> False | Some hb \<Rightarrow> isEmptyHub hb)")
    case False
    show ?thesis using mt_close.IH unfolding mt closeMetered_def unsubClose_def prod.case if_not_P [OF False] by simp
  next
    case True
    then obtain hb where hb: "mg_objs m h = Some hb" by (auto split: option.splits)
    have fin: "finite (dom (mg_objs m))" using mt_close.IH by (simp add: mt meters_ok_def)
    note u = sumHubs_upd(1) [where hs = "(mg_hubs m)(gid := None)" and hb' = "hb\<lparr>hb_cancelled := True\<rparr>", OF fin hb]
    have "0 < card (dom (mg_hubs m))" if "finite (dom (mg_hubs m))" using True that by (auto simp: card_gt_0_iff)
    moreover have "tidy (hb\<lparr>hb_cancelled := True\<rparr>)" using mt_close.IH hb by (simp add: mt meters_ok_def tidy_def)
    ultimately show ?thesis using mt_close.IH True u [of watching] u [of kicked]
      by (auto simp: mt hb closeMetered_def unsubClose_def meters_ok_def HubCount_def meters_defs watching_def kicked_def card_Diff_singleton_if)
  qed
next
  case (mt_broadcast mt h d)
  obtain m t where mt: "mt = (m, t)" by fastforce
  show ?case
  proof (cases "mg_objs m h")
    case None
    then show ?thesis using mt_broadcast.IH by (simp add: mt onHub_def)
  next
    case (Some hb)
    then have tidy: "tidy hb" using mt_broadcast.IH by (simp add: mt meters_ok_def)
    then have "\<forall>(i, s) \<in> set (hb_subs hb). sb_kicked s \<longrightarrow> \<not> sb_in s" by (simp add: tidy_def)
    note r = reportDrops_spec [OF this, of "DeltaBroadcast t" d]
    show ?thesis unfolding mt
      by (rule onHub_ok [OF mt_broadcast.IH [unfolded mt] Some surjective_pairing])
        (use r tidy_steps(3) [OF tidy] in \<open>simp_all add: broadcastMetered_def broadcast_def watching_def kicked_def meters_defs\<close>)
  qed
next
  case (mt_receive mt h i)
  obtain m t where mt: "mt = (m, t)" by fastforce
  show ?case
  proof (cases "mg_objs m h")
    case None
    then show ?thesis using mt_receive.IH by (simp add: mt onHub_def)
  next
    case (Some hb)
    then have "tidy hb" using mt_receive.IH by (simp add: mt meters_ok_def)
    then show ?thesis unfolding mt
      by (intro onHub_ok [where hb' = "receive i hb" and t' = t, OF mt_receive.IH [unfolded mt] Some]) (simp_all add: receive_counts tidy_steps)
  qed
qed

section \<open>Properties\<close>

text \<open>
  C15. The fanout's gauges tell the truth: however spectators come, leave, read slowly and are dropped, and
  hubs open and close, the gauge of hubs is the number of games being watched, the gauge of spectators
  is the number of subscribers that are in, and the counter of drops is the number of those kicked.
\<close>

theorem metrics_count_the_audience:
  assumes "metered_reach (m, t)"
  shows "mt_hubs t = int (HubCount m) \<and> mt_subs t = sumHubs watching m \<and> mt_drops t = sumHubs kicked m"
  using meters_ok_reach [OF assms] by (simp add: meters_ok_def)

theorem metrics_count_the_audience_witness:
  "\<exists>m t. metered_reach (m, t) \<and> sumHubs watching m = 1 \<and> mt_hubs t = int (HubCount m) \<and> mt_subs t = sumHubs watching m \<and> mt_drops t = sumHubs kicked m"
proof -
  let ?h1 = "attach 0 '''' (newHub ''g1'')" and ?h2 = "attach 1 '''' (attach 0 '''' (newHub ''g1''))"
  let ?m = "\<lambda>h. \<lparr>mg_hubs = [''g1'' \<mapsto> 0], mg_objs = [0 \<mapsto> h]\<rparr> :: Mgr" and ?t = "\<lambda>n. \<lparr>mt_hubs = 1, mt_subs = n, mt_deltas = 0, mt_drops = 0\<rparr> :: Meters"
  have "metered_reach (SubscribeMetered False (\<lambda>_ _. None) 0 0 ''g1'' '''' (\<lparr>mg_hubs = Map.empty, mg_objs = Map.empty\<rparr>, New_Meters))"
    by (rule mt_subscribe [OF mt_new]) simp_all
  then have r1: "metered_reach (?m ?h1, ?t 1)"
    by (simp add: SubscribeMetered_def Subscribe_def Let_def loadHistory_def Replay_def meters_defs New_Meters_def)
  have "metered_reach (SubscribeMetered False (\<lambda>_ _. None) 1 1 ''g1'' '''' (?m ?h1, ?t 1))"
    by (rule mt_subscribe [OF r1]) (auto simp: attach_def newHub_def split: if_splits)
  then have "metered_reach (?m ?h2, ?t 2)" by (simp add: SubscribeMetered_def Subscribe_def meters_defs)
  then have "metered_reach (onHub 0 (detachMetered 0) (?m ?h2, ?t 2))" by (rule mt_detach)
  then have r: "metered_reach (?m (snd (detach 0 ?h2)), ?t 1)" by (simp add: onHub_def detachMetered_def meters_defs attach_def)
  have "sumHubs watching (?m (snd (detach 0 ?h2))) = 1"
    by (simp add: sumHubs_def watching_def detach_def attach_def newHub_def Let_def)
  then show ?thesis using r metrics_count_the_audience [OF r] by blast
qed

end
