(* ===== verification/Match_Play.thy ===== *)
theory Match_Play
  imports Matchmaking Game_Requests
begin

text \<open>
  Matchmaking with the game service behind it: \<open>enterQueue\<close> creates its games with the real handler, the
  notifications travel to the sockets that watch (\<open>NotifyMatched\<close> and \<open>WatchMatches\<close> of
  \<open>pkg/redisx/matchmaking.go\<close>), and other requests go on in between.  A lobby is the queues, the
  tables and the sockets.  Entering a queue, with the game and the notice that may follow, is one step of a lobby: in the code
  the pairing script is atomic and the calls around it are not.  The expiry of an idle queue in Redis is not modelled.
\<close>

section \<open>Notifications\<close>

text \<open>The sockets that watch: whose they are, and the identifiers that have reached them.\<close>

type_synonym Sockets = "nat \<rightharpoonup> string \<times> string list"

definition NotifyMatched :: "bool \<Rightarrow> bool \<Rightarrow> string \<Rightarrow> string \<Rightarrow> Sockets \<Rightarrow> (unit + unit) \<times> Sockets" where
  "NotifyMatched enabled up userID gameID socks =
     (if \<not> enabled then (Inr (), socks)
      else if \<not> up then (Inl (), socks)
      else (Inr (), \<lambda>k. map_option (\<lambda>(u, ids). (u, if u = userID then ids @ [gameID] else ids)) (socks k)))"

text \<open>\<open>k\<close> is the new socket.\<close>

definition WatchMatches :: "bool \<Rightarrow> bool \<Rightarrow> nat \<Rightarrow> string \<Rightarrow> Sockets \<Rightarrow> (unit + unit) \<times> Sockets" where
  "WatchMatches enabled up k userID socks =
     (if \<not> enabled \<or> \<not> up then (Inl (), socks) else (Inr (), socks(k \<mapsto> (userID, []))))"

fun notifyAll :: "(string \<times> string) list \<Rightarrow> Sockets \<Rightarrow> Sockets" where
  "notifyAll [] socks = socks"
| "notifyAll ((u, g) # notes) socks = notifyAll notes (snd (NotifyMatched True True u g socks))"

section \<open>The lobby\<close>

record Lobby =
  lb_queues :: "string \<Rightarrow> Queue"
  lb_db :: DB
  lb_socks :: Sockets

definition createWith :: "Srv \<Rightarrow> Env \<Rightarrow> CreateGameRequest \<Rightarrow> DB \<Rightarrow> (Code + ProtoGame) \<times> DB" where
  "createWith srv env req db = (case CreateGame srv env req db of (r, db, fx) \<Rightarrow> (r, db))"

definition enterLobby :: "Srv \<Rightarrow> Env \<Rightarrow> string \<Rightarrow> (nat \<Rightarrow> bool) \<Rightarrow> (string \<Rightarrow> unit + int) \<Rightarrow> nat option \<Rightarrow> int \<Rightarrow> int \<Rightarrow> int option \<Rightarrow> Lobby \<Rightarrow>
    (QueueError + Ticket) \<times> Lobby" where
  "enterLobby srv env uid up getUser coin now initialMs inc l =
     (case enterQueue (Some uid) True up getUser (createWith srv env) coin now initialMs inc (lb_queues l) (lb_db l) of
        (r, qs, notes, db) \<Rightarrow> (r, \<lparr>lb_queues = qs, lb_db = db, lb_socks = notifyAll notes (lb_socks l)\<rparr>))"

text \<open>No token carries the empty identifier, so a caller has one.\<close>

inductive lobby_reach :: "Lobby \<Rightarrow> bool" where
  lr_start: "lobby_reach \<lparr>lb_queues = \<lambda>_. \<lparr>q_set = [], q_since = Map.empty\<rparr>, lb_db = db, lb_socks = Map.empty\<rparr>"
| lr_enter: "lobby_reach l \<Longrightarrow> uid \<noteq> '''' \<Longrightarrow> lobby_reach (snd (enterLobby srv env uid up getUser coin now initialMs inc l))"
| lr_leave: "lobby_reach l \<Longrightarrow> lobby_reach (l\<lparr>lb_queues := snd (leaveQueue (Some uid) True up initialMs inc (lb_queues l))\<rparr>)"
| lr_watch: "lobby_reach l \<Longrightarrow> lobby_reach (l\<lparr>lb_socks := snd (WatchMatches True up k uid (lb_socks l))\<rparr>)"
| lr_close: "lobby_reach l \<Longrightarrow> lobby_reach (l\<lparr>lb_socks := (lb_socks l)(k := None)\<rparr>)"
| lr_request: "lobby_reach l \<Longrightarrow> lobby_reach (l\<lparr>lb_db := fst (snd (handleGame srv env r (lb_db l)))\<rparr>)"

section \<open>One pairing\<close>

lemma Enqueue_pair:
  assumes "Enqueue True up uid elo now q = (Inr (Some (opp, w)), q')"
  shows "up" and "opp \<in> fst ` set (q_set q)" and "opp \<noteq> uid" and "q_set q' = zrem [opp, uid] (q_set q)"
proof -
  obtain r q2 where t: "tryPair uid elo now q = (r, q2)" by fastforce
  have u: "up" "r \<noteq> None" "fst (the r) = opp" "q' = q2" using assms t by (auto simp: Enqueue_def split: if_splits option.splits)
  have "(\<exists>e. (opp, e) \<in> set (q_set q)) \<and> opp \<noteq> uid \<and> q_set q' = zrem [opp, uid] (q_set q)"
    by (cases rule: tryPair_cases [of uid elo now q]) (use t u in \<open>auto simp: acceptable_def\<close>)
  then show "opp \<in> fst ` set (q_set q)" "opp \<noteq> uid" "q_set q' = zrem [opp, uid] (q_set q)" by force+
  show up by (rule u)
qed

lemma Enqueue_members: "fst ` set (q_set (snd (Enqueue en up u elo now q))) \<subseteq> insert u (fst ` set (q_set q))"
proof (cases "en \<and> up")
  case True
  then show ?thesis unfolding Enqueue_snd
    by (cases rule: tryPair_cases [of u elo now q]) (auto simp: zrem_def set_zadd)
qed (auto simp: Enqueue_snd)

text \<open>What a successful creation stores.\<close>

lemma created:
  assumes "createWith srv env req db = (Inr g, db')" and "cr_WhiteId req \<noteq> ''''" and "cr_BlackId req \<noteq> ''''" and "\<not> cr_VsEngine req"
  shows "\<exists>row. find_game db' (pg_Id g) = Some row \<and> g_white row = cr_WhiteId req \<and> g_black row = Some (cr_BlackId req) \<and>
    g_rated row = cr_Rated req \<and> \<not> g_vs_engine row \<and> g_status row = ''IN_PROGRESS'' \<and> find_game db (pg_Id g) = None \<and>
    pg_WhiteId g = cr_WhiteId req \<and> pg_BlackId g = cr_BlackId req"
proof -
  have find: "find P (xs @ ys) = (case find P xs of None \<Rightarrow> find P ys | Some x \<Rightarrow> Some x)" for P :: "GameRow \<Rightarrow> bool" and xs ys
    by (induction xs) auto
  obtain fx where c: "createFor srv env req (cr_WhiteId req) db = (Inr g, db', fx)"
    using assms(1,2) by (auto simp: createWith_def CreateGame_def split: prod.splits)
  then obtain s where s: "Store_CreateGame (env_up env 1) (env_newGame env) (env_now env) (paramsOf req (cr_WhiteId req)) db = (Inr s, db')" "g = toProtoGame s []"
    unfolding createFor_def paramsOf_def [symmetric] by (auto simp: Let_def split: sum.splits prod.splits if_splits)
  then show ?thesis using assms(2-4) by (auto simp: Store_CreateGame_def paramsOf_def toProtoGame_def find_game_def find Let_def split: if_splits)
qed

text \<open>The ways \<open>enterQueue\<close> ends.\<close>

lemma enterQueue_cases:
  assumes "enterQueue (Some uid) True up getUser createGame coin now initialMs inc qs s = (r, qs', nts, s')"
  obtains (early) "qs' = qs" and "s' = s" and "nts = []" and "r = Inl UserLookup"
  | (queued) elo x q where "Enqueue True (up 0) uid elo now (qs (timeControlKey initialMs inc)) = (x, q)"
      and "qs' = qs(timeControlKey initialMs inc := q)" and "s' = s" and "nts = []" and "r = Inl QueueFailed \<or> (\<exists>d. r = Inr (Waiting d))"
  | (refused) elo opp w q req c where "Enqueue True (up 0) uid elo now (qs (timeControlKey initialMs inc)) = (Inr (Some (opp, w)), q)"
      and "createGame req s = (Inl c, s')" and "qs' = qs(timeControlKey initialMs inc := snd (Enqueue True (up 2) opp elo now q))"
      and "nts = []" and "r = Inl (GameRefused c)"
  | (paired) elo opp w q req g d where "Enqueue True (up 0) uid elo now (qs (timeControlKey initialMs inc)) = (Inr (Some (opp, w)), q)"
      and "(cr_WhiteId req, cr_BlackId req) = assignColours coin uid opp" and "\<not> cr_VsEngine req" and "cr_Rated req"
      and "createGame req s = (Inr g, s')" and "qs' = qs(timeControlKey initialMs inc := q)" and "nts = (if up 3 then [(opp, pg_Id g)] else [])"
      and "r = Inr (Matched g d)"
proof (cases "getUser uid")
  case (Inl e)
  then show thesis using assms early by (simp add: enterQueue_def)
next
  case (Inr elo)
  let ?tc = "timeControlKey initialMs inc"
  obtain x q where e: "Enqueue True (up 0) uid elo now (qs ?tc) = (x, q)" by fastforce
  note eq = assms [unfolded enterQueue_def option.case Inr sum.case Let_def e prod.case if_not_P [OF not_not [THEN iffD2, OF TrueI]]]
  show thesis
  proof (cases x)
    case (Inl u)
    show thesis by (rule queued [OF e]) (use eq in \<open>simp_all add: Inl\<close>)
  next
    case x: (Inr p)
    show thesis
    proof (cases p)
      case None
      show thesis by (rule queued [OF e]) (use eq in \<open>auto simp: x None\<close>)
    next
      case (Some ow)
      obtain opp w where ow: "ow = (opp, w)" by fastforce
      obtain white black where wb: "assignColours coin uid opp = (white, black)" by fastforce
      let ?req = "\<lparr>cr_WhiteId = white, cr_BlackId = black, cr_VsEngine = False, cr_EngineDepth = 0, cr_Rated = True,
        cr_InitialMs = initialMs, cr_IncrementMs = (case inc of Some i \<Rightarrow> i | None \<Rightarrow> 0)\<rparr>"
      obtain y s2 where y: "createGame ?req s = (y, s2)" by fastforce
      note eq' = eq [unfolded x Some ow wb sum.case option.case prod.case, unfolded y prod.case]
      show thesis
      proof (cases y)
        case (Inl c)
        show thesis by (rule refused [OF e [unfolded x Some ow], of ?req c]) (use eq' y in \<open>simp_all add: Inl\<close>)
      next
        case (Inr g)
        show thesis by (rule paired [OF e [unfolded x Some ow], of ?req g]) (use eq' y wb in \<open>auto simp: Inr\<close>)
      qed
    qed
  qed
qed

lemma paired:
  assumes "enterQueue (Some uid) True up getUser (createWith srv env) coin now initialMs inc qs db = (Inr (Matched g depth), qs', notes, db')"
    and "uid \<noteq> ''''" and "'''' \<notin> fst ` set (q_set (qs (timeControlKey initialMs inc)))"
  obtains opp row where "opp \<noteq> uid" and "opp \<in> fst ` set (q_set (qs (timeControlKey initialMs inc)))"
    and "find_game db' (pg_Id g) = Some row" and "find_game db (pg_Id g) = None"
    and "(g_white row, g_black row) \<in> {(uid, Some opp), (opp, Some uid)}" and "(pg_WhiteId g, pg_BlackId g) \<in> {(uid, opp), (opp, uid)}"
    and "g_rated row" and "\<not> g_vs_engine row" and "g_status row = ''IN_PROGRESS''"
    and "notes = (if up 3 then [(opp, pg_Id g)] else [])"
    and "set (q_set (qs' (timeControlKey initialMs inc))) = {c \<in> set (q_set (qs (timeControlKey initialMs inc))). fst c \<noteq> uid \<and> fst c \<noteq> opp}"
proof (cases rule: enterQueue_cases [OF assms(1)])
  case (4 elo opp w q req g' d)
  then have g: "g' = g" by simp
  note p = Enqueue_pair [OF 4(1)]
  have ne: "opp \<noteq> ''''" using p(2) assms(3) by metis
  have seats: "(cr_WhiteId req, cr_BlackId req) \<in> {(uid, opp), (opp, uid)}" using 4(2) by (auto simp: assignColours_def split: if_splits)
  then have "cr_WhiteId req \<noteq> ''''" "cr_BlackId req \<noteq> ''''" using ne assms(2) by auto
  with created [OF 4(5)] obtain row where row: "find_game db' (pg_Id g) = Some row" "g_white row = cr_WhiteId req" "g_black row = Some (cr_BlackId req)"
    "g_rated row = cr_Rated req" "\<not> g_vs_engine row" "g_status row = ''IN_PROGRESS''" "find_game db (pg_Id g) = None"
    "pg_WhiteId g = cr_WhiteId req" "pg_BlackId g = cr_BlackId req" using 4(3) g by auto
  show thesis
    by (rule that [OF p(3,2) row(1,7)]) (use row seats 4(4,6,7) g p(4) in \<open>auto simp: zrem_def\<close>)
qed simp_all

section \<open>Runs\<close>

text \<open>Nobody without a name waits; who is told of a game has a seat in it.\<close>

definition lobby_ok :: "Lobby \<Rightarrow> bool" where
  "lobby_ok l \<longleftrightarrow> (\<forall>tc. '''' \<notin> fst ` set (q_set (lb_queues l tc))) \<and>
     (\<forall>k uid ids. lb_socks l k = Some (uid, ids) \<longrightarrow> (\<forall>gid \<in> set ids. seated (lb_db l) gid uid))"

lemma seated_row: "find_game db gid = Some row \<Longrightarrow> seated db gid p \<longleftrightarrow> g_white row = p \<or> g_black row = Some p"
  by (simp add: seated_def)

lemma createWith_seated: "createWith srv env req db = (r, db') \<Longrightarrow> seated db gid p \<Longrightarrow> seated db' gid p"
  using seated_handle [of db gid p srv env "ReqCreate req"] by (auto simp: createWith_def handleGame_def split: prod.splits)

lemma enterQueue_seated:
  assumes "enterQueue (Some uid) True up getUser (createWith srv env) coin now initialMs inc qs db = (r, qs', notes, db')" and "seated db gid p"
  shows "seated db' gid p"
  using assms(2) by (cases rule: enterQueue_cases [OF assms(1)]) (auto dest: createWith_seated)

lemma enterQueue_members:
  assumes "enterQueue (Some uid) True up getUser createGame coin now initialMs inc qs s = (r, qs', notes, s')"
  shows "fst ` set (q_set (qs' tc)) \<subseteq> insert uid (fst ` set (q_set (qs tc)))"
proof (cases rule: enterQueue_cases [OF assms])
  case (2 elo x q)
  then show ?thesis using Enqueue_members [of True "up 0" uid elo now "qs (timeControlKey initialMs inc)"] by auto
next
  case (3 elo opp w q req c)
  let ?w = "\<lambda>q. fst ` set (q_set q)"
  have "?w q \<subseteq> insert uid (?w (qs (timeControlKey initialMs inc)))"
    using 3(1) Enqueue_members [of True "up 0" uid elo now "qs (timeControlKey initialMs inc)"] by simp
  then have "?w (snd (Enqueue True (up 2) opp elo now q)) \<subseteq> insert uid (?w (qs (timeControlKey initialMs inc)))"
    using Enqueue_pair(2) [OF 3(1)] Enqueue_members [of True "up 2" opp elo now q] by blast
  then show ?thesis using 3(3) by auto
next
  case (4 elo opp w q req g d)
  then show ?thesis using Enqueue_members [of True "up 0" uid elo now "qs (timeControlKey initialMs inc)"] by auto
qed auto

lemma enterQueue_notes:
  assumes "enterQueue (Some uid) True up getUser createGame coin now initialMs inc qs s = (r, qs', notes, s')" and "notes \<noteq> []"
  shows "\<exists>g depth. r = Inr (Matched g depth)"
  using assms(2) by (cases rule: enterQueue_cases [OF assms(1)]) auto

lemma leaveQueue_members:
  "fst ` set (q_set (snd (leaveQueue (Some uid) True up initialMs inc qs) tc)) \<subseteq> fst ` set (q_set (qs tc))"
  by (auto simp: leaveQueue_def Leave_def zrem_def Let_def)

lemma lobby_ok_reach: "lobby_reach l \<Longrightarrow> lobby_ok l"
proof (induction rule: lobby_reach.induct)
  case (lr_start db)
  then show ?case by (simp add: lobby_ok_def)
next
  case (lr_enter l uid srv env up getUser coin now initialMs inc)
  obtain r qs nts db where e: "enterQueue (Some uid) True up getUser (createWith srv env) coin now initialMs inc (lb_queues l) (lb_db l) = (r, qs, nts, db)"
    by (metis prod.collapse)
  have names: "'''' \<notin> fst ` set (q_set (qs tc))" for tc
    using enterQueue_members [OF e, of tc] lr_enter.IH lr_enter.hyps(2) by (auto simp: lobby_ok_def)
  have kept: "seated db gid u" if "lb_socks l k = Some (u, ids)" "gid \<in> set ids" for k u ids gid
    using enterQueue_seated [OF e] lr_enter.IH that by (auto simp: lobby_ok_def)
  have "seated db gid u" if "notifyAll nts (lb_socks l) k = Some (u, ids)" "gid \<in> set ids" for k u ids gid
  proof (cases "nts = []")
    case True
    then show ?thesis using kept that by simp
  next
    case False
    obtain g depth where r: "r = Inr (Matched g depth)" using enterQueue_notes [OF e False] by blast
    have nn: "'''' \<notin> fst ` set (q_set (lb_queues l (timeControlKey initialMs inc)))" using lr_enter.IH by (simp add: lobby_ok_def)
    obtain opp row where p: "find_game db (pg_Id g) = Some row" "(g_white row, g_black row) \<in> {(uid, Some opp), (opp, Some uid)}"
        "nts = (if up 3 then [(opp, pg_Id g)] else [])"
      by (rule paired [OF e [unfolded r] lr_enter.hyps(2) nn]) (rule that; assumption)
    have "nts = [(opp, pg_Id g)]" using p(3) False by (simp split: if_splits)
    moreover have "seated db (pg_Id g) opp" using seated_row [OF p(1)] p(2) by auto
    ultimately show ?thesis using that kept by (auto simp: NotifyMatched_def split: if_splits)
  qed
  then show ?case using names by (auto simp: e enterLobby_def lobby_ok_def)
next
  case (lr_leave l uid up initialMs inc)
  have "'''' \<notin> fst ` set (q_set (lb_queues l tc))" for tc using lr_leave.IH by (simp add: lobby_ok_def)
  then have "'''' \<notin> fst ` set (q_set (snd (leaveQueue (Some uid) True up initialMs inc (lb_queues l)) tc))" for tc
    using leaveQueue_members [of uid up initialMs inc "lb_queues l" tc] by blast
  then show ?case using lr_leave.IH by (simp add: lobby_ok_def)
next
  case (lr_watch l up k uid)
  then show ?case by (auto simp: lobby_ok_def WatchMatches_def split: if_splits)
next
  case (lr_close l k)
  then show ?case by (auto simp: lobby_ok_def split: if_splits)
next
  case (lr_request l srv env r)
  then show ?case using seated_handle by (fastforce simp: lobby_ok_def)
qed

section \<open>A pairing\<close>

lemmas pairing_defs = enterQueue_def Enqueue_def tryPair_def QueueDepth_def band_def gap_def initialBand_def bandPerSec_def maxBand_def Let_def

text \<open>Bob watches and waits at 1000; Ann comes at 2000.\<close>

definition emptyLobby :: Lobby where
  "emptyLobby = \<lparr>lb_queues = \<lambda>_. \<lparr>q_set = [], q_since = Map.empty\<rparr>, lb_db = demoUsers, lb_socks = Map.empty\<rparr>"

definition bobWaits :: Lobby where
  "bobWaits = \<lparr>lb_queues = (\<lambda>_. \<lparr>q_set = [], q_since = Map.empty\<rparr>)
       (timeControlKey 60000 None := \<lparr>q_set = [(''bob'', 1200)], q_since = [''bob'' \<mapsto> 1000]\<rparr>),
     lb_db = demoUsers, lb_socks = [0 \<mapsto> (''bob'', [])]\<rparr>"

lemma bobWaits_reach: "lobby_reach bobWaits"
proof -
  have "lobby_reach emptyLobby" unfolding emptyLobby_def by (rule lr_start)
  then have "lobby_reach (emptyLobby\<lparr>lb_socks := snd (WatchMatches True True 0 ''bob'' (lb_socks emptyLobby))\<rparr>)" by (rule lr_watch)
  then have w: "lobby_reach (emptyLobby\<lparr>lb_socks := [0 \<mapsto> (''bob'', [])]\<rparr>)" by (simp add: WatchMatches_def emptyLobby_def)
  have "snd (enterLobby demoSrv demoEnv ''bob'' (\<lambda>_. True) (\<lambda>_. Inr 1200) None 1000 60000 None (emptyLobby\<lparr>lb_socks := [0 \<mapsto> (''bob'', [])]\<rparr>)) = bobWaits"
    by (simp add: enterLobby_def emptyLobby_def bobWaits_def pairing_defs zadd_def zorder_def)
  then show ?thesis using lr_enter [OF w, of "''bob''" demoSrv demoEnv "\<lambda>_. True" "\<lambda>_. Inr 1200" None 1000 60000 None] by simp
qed

lemma ann_matched:
  "\<exists>g depth l'. enterLobby demoSrv demoEnv ''ann'' (\<lambda>_. True) (\<lambda>_. Inr 1250) None 2000 60000 None bobWaits = (Inr (Matched g depth), l') \<and> pg_Id g = ''g2''"
  by (simp add: enterLobby_def bobWaits_def pairing_defs zrem_def assignColours_def createWith_def CreateGame_def createFor_def Store_CreateGame_def
      demoUsers_def demoUser_def demoEnv_def demoSrv_def New_Server_def find_game_def has_user_def toProtoGame_def)

section \<open>Properties\<close>

text \<open>
  C21. Who is told of a match plays in it: however players enter and leave the queues, connect and disconnect and
  play in the meantime, every identifier that reaches a player's socket is a stored game in which that
  player has a seat.
\<close>

theorem notified_players_have_a_seat:
  assumes "lobby_reach l" and "lb_socks l k = Some (uid, ids)"
  shows "list_all (\<lambda>gid. seated (lb_db l) gid uid) ids"
  using lobby_ok_reach [OF assms(1)] assms(2) by (auto simp: lobby_ok_def list_all_iff)

theorem notified_players_have_a_seat_witness:
  "\<exists>l. lobby_reach l \<and> lb_socks l 0 = Some (''bob'', [''g2'']) \<and> list_all (\<lambda>gid. seated (lb_db l) gid ''bob'') [''g2'']"
proof -
  let ?enter = "enterLobby demoSrv demoEnv ''ann'' (\<lambda>_. True) (\<lambda>_. Inr 1250) None 2000 60000 None bobWaits"
  have r: "lobby_reach (snd ?enter)" by (rule lr_enter [OF bobWaits_reach]) simp
  have s: "lb_socks (snd ?enter) 0 = Some (''bob'', [''g2''])"
    by (simp add: enterLobby_def bobWaits_def pairing_defs zrem_def assignColours_def createWith_def CreateGame_def createFor_def Store_CreateGame_def
        demoUsers_def demoUser_def demoEnv_def demoSrv_def New_Server_def find_game_def has_user_def toProtoGame_def NotifyMatched_def)
  show ?thesis using r s notified_players_have_a_seat [OF r s] by blast
qed

text \<open>
  C14. A pairing brings two players to one game: when a caller is told of a match, a new rated game in progress is
  stored with the caller and another player, who was waiting for the same time control, in its two
  seats; neither waits any more, and every socket of the other player has the game's identifier as its
  latest message, provided Redis took the message.
\<close>

theorem paired_players_share_a_game:
  assumes "lobby_reach l" and "uid \<noteq> ''''" and "enterLobby srv env uid up getUser coin now initialMs inc l = (Inr (Matched g depth), l')" and "up 3"
  shows "\<exists>opp row. opp \<noteq> uid \<and> opp \<in> fst ` set (q_set (lb_queues l (timeControlKey initialMs inc))) \<and>
    find_game (lb_db l) (pg_Id g) = None \<and> find_game (lb_db l') (pg_Id g) = Some row \<and>
    (g_white row, g_black row) \<in> {(uid, Some opp), (opp, Some uid)} \<and> g_rated row \<and> \<not> g_vs_engine row \<and> g_status row = ''IN_PROGRESS'' \<and>
    {uid, opp} \<inter> fst ` set (q_set (lb_queues l' (timeControlKey initialMs inc))) = {} \<and>
    (\<forall>k ids. lb_socks l k = Some (opp, ids) \<longrightarrow> lb_socks l' k = Some (opp, ids @ [pg_Id g]))"
proof -
  obtain nts where e: "enterQueue (Some uid) True up getUser (createWith srv env) coin now initialMs inc (lb_queues l) (lb_db l) =
      (Inr (Matched g depth), lb_queues l', nts, lb_db l')" and s: "lb_socks l' = notifyAll nts (lb_socks l)"
    using assms(3) by (auto simp: enterLobby_def split: prod.splits)
  have nn: "'''' \<notin> fst ` set (q_set (lb_queues l (timeControlKey initialMs inc)))" using lobby_ok_reach [OF assms(1)] by (simp add: lobby_ok_def)
  obtain opp row where p: "opp \<noteq> uid" "opp \<in> fst ` set (q_set (lb_queues l (timeControlKey initialMs inc)))"
    "find_game (lb_db l) (pg_Id g) = None" "find_game (lb_db l') (pg_Id g) = Some row" 
    "(g_white row, g_black row) \<in> {(uid, Some opp), (opp, Some uid)}" "g_rated row" "\<not> g_vs_engine row"
    "g_status row = ''IN_PROGRESS''" "nts = (if up 3 then [(opp, pg_Id g)] else [])"
    "set (q_set (lb_queues l' (timeControlKey initialMs inc))) = {c \<in> set (q_set (lb_queues l (timeControlKey initialMs inc))). fst c \<noteq> uid \<and> fst c \<noteq> opp}"
    by (rule paired [OF e assms(2) nn]) (rule that; assumption)
  have "\<forall>k ids. lb_socks l k = Some (opp, ids) \<longrightarrow> lb_socks l' k = Some (opp, ids @ [pg_Id g])"
    using p(9) assms(4) by (simp add: s NotifyMatched_def)
  moreover have "{uid, opp} \<inter> fst ` set (q_set (lb_queues l' (timeControlKey initialMs inc))) = {}" using p(10) by auto
  ultimately show ?thesis using p(1-8) by - (rule exI [of _ opp], rule exI [of _ row], simp)
qed

theorem paired_players_share_a_game_witness:
  "\<exists>g depth l' row. enterLobby demoSrv demoEnv ''ann'' (\<lambda>_. True) (\<lambda>_. Inr 1250) None 2000 60000 None bobWaits = (Inr (Matched g depth), l') \<and>
     find_game (lb_db l') (pg_Id g) = Some row \<and> (g_white row, g_black row) \<in> {(''ann'', Some ''bob''), (''bob'', Some ''ann'')} \<and>
     lb_socks l' 0 = Some (''bob'', [pg_Id g])"
proof -
  obtain g depth l' where m: "enterLobby demoSrv demoEnv ''ann'' (\<lambda>_. True) (\<lambda>_. Inr 1250) None 2000 60000 None bobWaits = (Inr (Matched g depth), l')"
    using ann_matched by blast
  obtain opp row where p: "opp \<in> fst ` set (q_set (lb_queues bobWaits (timeControlKey 60000 None)))" "find_game (lb_db l') (pg_Id g) = Some row"
    "(g_white row, g_black row) \<in> {(''ann'', Some opp), (opp, Some ''ann'')}"
    "\<forall>k ids. lb_socks bobWaits k = Some (opp, ids) \<longrightarrow> lb_socks l' k = Some (opp, ids @ [pg_Id g])"
    using paired_players_share_a_game [OF bobWaits_reach _ m] by auto
  then have "opp = ''bob''" by (simp add: bobWaits_def)
  then show ?thesis using m p by (auto simp: bobWaits_def)
qed

text \<open>
  C40. A failed creation strands a third player: when the game of a pairing cannot be created, the opponent is put back
  with the caller's rating, and if somebody else waiting is acceptable to both then, that player and the
  opponent are taken out of the queue for a pairing nobody creates a game for or is told about.
\<close>

theorem failed_pairing_strands_a_third_player:
  assumes "getUser uid = Inr elo" and "Enqueue True (up 0) uid elo now (lb_queues l (timeControlKey initialMs inc)) = (Inr (Some (opp, w)), q)"
    and "\<And>req. fst (createWith srv env req (lb_db l)) = Inl c" and "up 2"
    and "(third, e) \<in> set (q_set q)" and "acceptable now (q_since q) opp elo (third, e)"
  shows "\<exists>l' stranded. enterLobby srv env uid up getUser coin now initialMs inc l = (Inl (GameRefused c), l') \<and>
    stranded \<notin> {uid, opp} \<and> stranded \<in> fst ` set (q_set (lb_queues l (timeControlKey initialMs inc))) \<and>
    {uid, opp, stranded} \<inter> fst ` set (q_set (lb_queues l' (timeControlKey initialMs inc))) = {} \<and> lb_socks l' = lb_socks l"
proof -
  let ?tc = "timeControlKey initialMs inc"
  obtain white black where wb: "assignColours coin uid opp = (white, black)" by fastforce
  let ?req = "\<lparr>cr_WhiteId = white, cr_BlackId = black, cr_VsEngine = False, cr_EngineDepth = 0, cr_Rated = True,
    cr_InitialMs = initialMs, cr_IncrementMs = (case inc of Some i \<Rightarrow> i | None \<Rightarrow> 0)\<rparr>"
  obtain db where c: "createWith srv env ?req (lb_db l) = (Inl c, db)" using assms(3) [of ?req] by (metis prod.collapse)
  let ?q = "snd (Enqueue True (up 2) opp elo now q)"
  have e: "enterLobby srv env uid up getUser coin now initialMs inc l =
      (Inl (GameRefused c), \<lparr>lb_queues = (lb_queues l)(?tc := ?q), lb_db = db, lb_socks = lb_socks l\<rparr>)"
    by (simp add: enterLobby_def enterQueue_def assms(1,2) wb c)
  have q: "q_set q = zrem [opp, uid] (q_set (lb_queues l ?tc))" by (rule Enqueue_pair(4) [OF assms(2)])
  obtain s es where s: "(s, es) \<in> set (q_set q)" "s \<noteq> opp" "q_set ?q = zrem [s, opp] (q_set q)"
  proof (cases rule: tryPair_cases [of opp elo now q])
    case (pair best e')
    then show ?thesis using that [of best e'] assms(4) by (simp add: Enqueue_snd acceptable_def)
  next
    case wait
    then show ?thesis using assms(5,6) by blast
  qed
  have "{uid, opp, s} \<inter> fst ` set (q_set ?q) = {}" using q s(3) by (auto simp: zrem_def)
  moreover have "s \<notin> {uid, opp}" "s \<in> fst ` set (q_set (lb_queues l ?tc))" using s(1,2) q by (force simp: zrem_def)+
  ultimately show ?thesis using e by (intro exI [of _ "\<lparr>lb_queues = (lb_queues l)(?tc := ?q), lb_db = db, lb_socks = lb_socks l\<rparr>"] exI [of _ s]) simp
qed

text \<open>Ann and Bob wait, Eve comes, and the database has gone away.\<close>

theorem failed_pairing_strands_a_third_player_witness:
  "\<exists>l' stranded. enterLobby demoSrv (demoEnv\<lparr>env_up := \<lambda>_. False\<rparr>) ''eve'' (\<lambda>_. True) (\<lambda>_. Inr 1250) None 3000 60000 None
       (bobWaits\<lparr>lb_queues := \<lambda>_. demoQueue\<rparr>) = (Inl (GameRefused Internal), l') \<and>
     stranded \<notin> {''eve'', ''bob''} \<and> {''eve'', ''bob'', stranded} \<inter> fst ` set (q_set (lb_queues l' (timeControlKey 60000 None))) = {}"
proof -
  let ?l = "bobWaits\<lparr>lb_queues := \<lambda>_. demoQueue\<rparr>" and ?env = "demoEnv\<lparr>env_up := \<lambda>_. False\<rparr>"
  let ?q = "\<lparr>q_set = [(''ann'', 1200)], q_since = [''ann'' \<mapsto> 1000]\<rparr>"
  have fails: "fst (createWith demoSrv ?env req db) = Inl Internal" for req db
    by (simp add: createWith_def CreateGame_def createFor_def CreateGuestUser_def Store_CreateGame_def Let_def split: prod.split)
  have "Enqueue True True ''eve'' 1250 3000 demoQueue = (Inr (Some (''bob'', 1000)), \<lparr>q_set = [(''ann'', 1200)], q_since = (q_since demoQueue)(''bob'' := None, ''eve'' := None)\<rparr>)"
    by (simp add: demoQueue_def pairing_defs zrem_def)
  moreover have "(q_since demoQueue)(''bob'' := None, ''eve'' := None) = [''ann'' \<mapsto> 1000]" by (auto simp: demoQueue_def)
  ultimately have e: "Enqueue True True ''eve'' 1250 3000 (lb_queues ?l (timeControlKey 60000 None)) = (Inr (Some (''bob'', 1000)), ?q)" by simp
  have a: "acceptable 3000 (q_since ?q) ''bob'' 1250 (''ann'', 1200)" by (simp add: acceptable_def pairing_defs)
  from failed_pairing_strands_a_third_player [of "\<lambda>_. Inr 1250" "''eve''" 1250 "\<lambda>_. True" 3000 ?l 60000 None "''bob''" 1000 ?q demoSrv ?env Internal "''ann''" 1200 None]
  show ?thesis using e a fails by auto
qed

end
