(* ===== verification/Telemetry.thy ===== *)
theory Telemetry
  imports Game_Requests Complex_Main
begin

text \<open>
  The metrics of the services (\<open>pkg/telemetry/metrics.go\<close>, \<open>serve.go\<close>) and the places where the game
  service reports to them (\<open>server.go\<close>): the collectors a service registers, the interceptor of
  every gRPC call, and the counting of games and moves.  A counter with labels is a function from
  the values of its labels; a histogram is the list of what it has observed.
\<close>

section \<open>Collectors\<close>

datatype CollectorKind = CounterVec "string list" | HistogramVec "string list" "real list" | Gauge | Counter | Histogram "real list"

text \<open>The names and kinds a service registers under its label, without the collectors of the runtime.\<close>

definition collectors :: "(string \<times> CollectorKind) list" where
  "collectors =
    [(''acg_rpc_requests_total'', CounterVec [''method'', ''outcome'']),
     (''acg_rpc_duration_seconds'', HistogramVec [''method''] [1/1000, 5/1000, 1/100, 25/1000, 5/100, 1/10, 1/4, 1/2, 1, 5/2, 5, 10, 30]),
     (''acg_games_active'', Gauge), (''acg_moves_total'', Counter), (''acg_games_finished_total'', CounterVec [''result'']),
     (''acg_engine_analyses_total'', Counter), (''acg_eval_cache_hits_total'', Counter), (''acg_eval_cache_misses_total'', Counter),
     (''acg_matchmaking_wait_seconds'', Histogram [1/2, 1, 2, 5, 10, 30, 60, 120])]"

text \<open>\<open>MustRegister\<close> panics on a name that is taken, and a histogram on buckets that do not increase.\<close>

fun buckets_of :: "CollectorKind \<Rightarrow> real list" where
  "buckets_of (HistogramVec ls bs) = bs"
| "buckets_of (Histogram bs) = bs"
| "buckets_of k = []"

lemma collectors_register: "distinct (map fst collectors) \<and> list_all (\<lambda>(n, k). sorted_wrt (<) (buckets_of k)) collectors"
  by (simp add: collectors_def)

record Metrics =
  RPCRequests :: "string \<times> string \<Rightarrow> nat"
  RPCDuration :: "string \<Rightarrow> real list"
  GamesActive :: int
  MovesTotal :: nat
  GamesFinished :: "string \<Rightarrow> nat"

definition NewMetrics :: Metrics where
  "NewMetrics = \<lparr>RPCRequests = \<lambda>_. 0, RPCDuration = \<lambda>_. [], GamesActive = 0, MovesTotal = 0, GamesFinished = \<lambda>_. 0\<rparr>"

section \<open>Calls\<close>

definition ObserveRPC :: "string \<Rightarrow> real \<Rightarrow> bool \<Rightarrow> Metrics \<Rightarrow> Metrics" where
  "ObserveRPC mthd seconds failed m =
     (let outcome = (if failed then ''error'' else ''ok'')
      in m\<lparr>RPCRequests := (RPCRequests m)((mthd, outcome) := RPCRequests m (mthd, outcome) + 1),
           RPCDuration := (RPCDuration m)(mthd := RPCDuration m mthd @ [seconds])\<rparr>)"

text \<open>\<open>path.Base\<close>: the last element of a path.\<close>

definition pathBase :: "string \<Rightarrow> string" where
  "pathBase p =
     (if p = '''' then ''.''
      else
        let p = rev (dropWhile (\<lambda>c. c = CHR ''/'') (rev p));
            b = rev (takeWhile (\<lambda>c. c \<noteq> CHR ''/'') (rev p))
        in if b = '''' then ''/'' else b)"

text \<open>The handler's answer passes unchanged; \<open>seconds\<close> is how long it took.\<close>

definition UnaryServerInterceptor :: "('q \<Rightarrow> 's \<Rightarrow> ('e + 'a) \<times> 's) \<Rightarrow> string \<Rightarrow> real \<Rightarrow> 'q \<Rightarrow> Metrics \<times> 's \<Rightarrow> ('e + 'a) \<times> Metrics \<times> 's" where
  "UnaryServerInterceptor handler fullMethod seconds req ms =
     (case ms of (m, s) \<Rightarrow> (case handler req s of
        (resp, s) \<Rightarrow> (resp, ObserveRPC (pathBase fullMethod) seconds (case resp of Inl _ \<Rightarrow> True | Inr _ \<Rightarrow> False) m, s)))"

lemma interceptor_transparent:
  "UnaryServerInterceptor handler fm seconds req (m, s) = (resp, m', s') \<Longrightarrow> handler req s = (resp, s')"
  by (auto simp: UnaryServerInterceptor_def split: prod.splits)

text \<open>Each call is counted once, under its method and outcome, with its duration.\<close>

lemma interceptor_counts:
  assumes "UnaryServerInterceptor handler fm seconds req (m, s) = (resp, m', s')"
  shows "RPCRequests m' (mthd, out) = RPCRequests m (mthd, out) +
      (if mthd = pathBase fm \<and> out = (case resp of Inl _ \<Rightarrow> ''error'' | Inr _ \<Rightarrow> ''ok'') then 1 else 0)"
    and "length (RPCDuration m' mthd) = length (RPCDuration m mthd) + (if mthd = pathBase fm then 1 else 0)"
  using assms by (auto simp: UnaryServerInterceptor_def ObserveRPC_def Let_def split: prod.splits sum.splits)

lemma pathBase_example: "pathBase ''/game.v1.GameService/SubmitMove'' = ''SubmitMove''"
  by (simp add: pathBase_def)

section \<open>Games and moves\<close>

definition gameCreated :: "Metrics \<Rightarrow> Metrics" where
  "gameCreated m = m\<lparr>GamesActive := GamesActive m + 1\<rparr>"

definition gameEnded :: "Result \<Rightarrow> Metrics \<Rightarrow> Metrics" where
  "gameEnded result m =
     m\<lparr>GamesActive := GamesActive m - 1,
       GamesFinished := (GamesFinished m)(resultToDB result := GamesFinished m (resultToDB result) + 1)\<rparr>"

definition recordMove :: "bool \<Rightarrow> Result \<Rightarrow> Metrics \<Rightarrow> Metrics" where
  "recordMove ended result m =
     (let m = m\<lparr>MovesTotal := MovesTotal m + 1\<rparr> in if ended then gameEnded result m else m)"

text \<open>The effects of the handlers on the metrics.\<close>

fun applyMetric :: "Effect \<Rightarrow> Metrics \<Rightarrow> Metrics" where
  "applyMetric MetricGameCreated m = gameCreated m"
| "applyMetric MetricMove m = recordMove False InProgress m"
| "applyMetric (MetricGameEnded r) m = gameEnded r m"
| "applyMetric e m = m"

lemma recordMove_effects: "fold applyMetric (moveMetrics pl) m = recordMove (pl_result pl \<noteq> InProgress) (pl_result pl) m"
  by (simp add: moveMetrics_def recordMove_def)

lemma gauge_is_difference:
  "GamesActive (fold applyMetric fx m) = GamesActive m + int (length (filter (\<lambda>e. e = MetricGameCreated) fx)) -
     int (length (filter (\<lambda>e. \<exists>r. e = MetricGameEnded r) fx))"
proof (induction fx arbitrary: m)
  case (Cons e fx)
  show ?case using Cons [of "applyMetric e m"] by (cases e) (simp_all add: gameCreated_def gameEnded_def recordMove_def)
qed simp

end
