(* ===== verification/Spec2Isabelle.thy ===== *)
theory Spec2Isabelle
  imports Spectating Matchmaking Rate_Limit Presence Chess_Game Engine Analysis_Pipeline Live_Updates
    Object_Store Engine_Play Processes Hub_Metrics Match_Play Telemetry
begin

text \<open>
  A verification library for the Go code of the chess platform: the rules engine, the services that
  store and play games, the event pipeline that carries moves to spectators, the analysis workers,
  the Redis-backed views, the accounts and the GraphQL gateway.  Every definition is a translation of
  code under \<open>src/\<close>; names are those of the code, with a prefix where two packages share one
  (\<open>Store_\<close>, \<open>Server_\<close>, \<open>Gw_\<close>, \<open>Memory_\<close>, \<open>Redis_\<close>, \<open>Session_\<close>).

  \<^bold>\<open>How the program works.\<close>  A client talks to the gateway, which identifies it from a signed
  token and calls the services.  The game service keeps games and moves in PostgreSQL; a move is
  planned from the stored position, checked by the rules engine, and written together with an outbox
  row.  A relay copies outbox rows to one Redis stream per game; the fanout service's hubs read the
  streams and hand the moves to spectators.  The gateway pushes snapshots to subscribers through
  a bus of its own.  When a game ends it is rated, folded into the opening statistics, announced on
  Kafka and analysed by workers that ask the engine service, whose evaluations are cached in Redis.

  \<^bold>\<open>Machine and library.\<close>
  \<^item> \<open>Prelude\<close>: 64- and 32-bit wrap-around, total indexing with the default for an
    index the code never uses, updates of table rows; \<open>Go_Strings\<close>: the parts of \<open>strings\<close>, \<open>strconv\<close> and
    \<open>unicode\<close> that the code calls, with \<open>Atoi\<close>/\<open>Itoa\<close> and \<open>Split\<close>/\<open>Join\<close> inverse to each other;
    \<open>Go_Json\<close>: JSON documents, written and read; \<open>Config\<close> (\<open>pkg/config\<close>): the environment, and the
    retry loops with which the services wait for their database.

  \<^bold>\<open>Rules of chess\<close> (\<open>pkg/chess\<close>).
  \<^item> \<open>Chess_Board\<close>, \<open>Chess_Move\<close>: the packed board bytes and UCI moves (\<open>board.go\<close>, \<open>move.go\<close>).
  \<^item> \<open>Chess_Attack\<close>: \<open>IsAttacked\<close> decides geometric attack; the two kinds of sliders are instances
    of the locale \<open>slider_dirs\<close>.
  \<^item> \<open>Chess_Movegen\<close>, \<open>Chess_Rules\<close>: generation and application (\<open>movegen.go\<close>), and the rules
    stated without it; \<open>LegalMoves\<close> yields exactly the legal moves.
  \<^item> \<open>Chess_Position\<close>: what every reachable position satisfies (one king a side, consistent castling
    rights and en-passant square, counters in range), preserved by every legal move.
  \<^item> \<open>Chess_Fen\<close>, \<open>Chess_Outcome\<close>, \<open>Chess_San\<close>: FEN in both directions, the end of a game, SAN and the
    PGN writer (\<open>fen.go\<close>, \<open>outcome.go\<close>, \<open>san.go\<close>); \<open>Chess_Game\<close>: the properties over games.

  \<^bold>\<open>Games\<close> (\<open>pkg/store\<close>, \<open>services/game-service/internal/server\<close>).
  \<^item> \<open>Store\<close>, \<open>Store_Accounts\<close>: the tables as lists of rows, one definition per transaction, with the
    constraints of the migrations as failures; \<open>Rating\<close>: Elo (\<open>pkg/rating\<close>).
  \<^item> \<open>Game_Server\<close>: the handlers and what follows the end of a game (\<open>server.go\<close>, \<open>history.go\<close>).
  \<^item> \<open>Game_Record\<close>: the record of play and the system of interleaved requests \<open>sys_step\<close>, whose steps are
    single statements: a request reads the row of its game, then the moves, plans, and writes later.  The
    parameter \<open>T\<close> is the set of games of which a move may be stored between the two queries of a reading (a torn
    reading); \<open>UNIV\<close> allows every interleaving.  What holds of all games and what only of those outside \<open>T\<close> is
    \<open>sys_ok\<close>.  \<open>Game_Play\<close>: the theorems on the handlers, and what a torn reading does.
  \<^item> \<open>Store_Once\<close>: the locale \<open>at_most_once\<close>, interpreted by rating, opening ingestion and redemption
    of sign-in tokens; \<open>Auth_Server\<close>: accounts and signing in (\<open>auth.go\<close>); \<open>Game_History\<close>: reports, pages,
    the leaderboard and the opening explorer.
  \<^item> \<open>Engine_Play\<close>: the terminal client (\<open>cmd/play\<close>) over the handlers, and games against an engine that
    does not answer, or that wins.
  \<^item> \<open>Game_Requests\<close>: the requests on games as one datatype; histories of requests run with and without the
    optional systems, and the players of a game over its life.  \<open>Match_Play\<close>: the pairing script, the game
    service and the notices to the waiting sockets together (\<open>graph/matchmaking.go\<close>).

  \<^bold>\<open>Events.\<close>
  \<^item> \<open>Event_Log\<close> (\<open>pkg/eventlog\<close>): the relay over the locale \<open>outbox_source\<close>; the stream of a game, read without
    repetitions, announces the game's rows in order, and enough cycles complete it.
  \<^item> \<open>Fanout\<close> (\<open>services/fanout/internal/hub\<close>): hubs, their subscribers and the manager; \<open>Hub_Metrics\<close>
    (\<open>services/fanout/internal/metrics\<close>): the gauges that the manager and the hubs keep.
  \<^item> \<open>Spectating\<close>: service, relay and hub together, so that streams carry the stored moves, and the spectator's socket
    (\<open>services/fanout/internal/server\<close>); the theorem below is its end-to-end statement.
  \<^item> \<open>Kafka\<close> (\<open>pkg/kafkax\<close>): the consumer loop against the laws of the client, with records that come together
    with errors; \<open>Analysis_Pipeline\<close>
    (\<open>services/analysis-worker/main.go\<close>): the handler it runs, over the reports, the filter and the series.

  \<^bold>\<open>Engine and analysis.\<close>
  \<^item> \<open>Analysis\<close> (\<open>pkg/analysis\<close>), \<open>Analysis_Worker\<close> (\<open>services/analysis-worker\<close>), \<open>Redis_Signals\<close>
    (\<open>pkg/redisx/novelty.go\<close>, \<open>integrity.go\<close>): reports and fair-play signals.
  \<^item> \<open>Opening_Book\<close>, \<open>Book_File\<close> (\<open>pkg/openingbook\<close>): a book built from lines only offers legal moves, and
    survives its file; \<open>Object_Store\<close> (\<open>pkg/objstore\<close>, \<open>services/engine-worker/main.go\<close>): the store, the
    replicas of the engine worker that load their book from it, and the links to archived games.
  \<^item> \<open>Engine\<close>: the UCI dialogue, the engine service, and the client with its cache, an instance of the
    locale \<open>eval_cache\<close>.

  \<^bold>\<open>Views and edge.\<close>
  \<^item> \<open>Matchmaking\<close>, \<open>Rate_Limit\<close>, \<open>Presence\<close> (\<open>pkg/redisx\<close>): the pairing and token-bucket scripts, rankings,
    presence and audience counters.
  \<^item> \<open>Gateway\<close> (\<open>services/gateway\<close>): tokens, cookies and every resolver composed with its handler.
  \<^item> \<open>Live_Updates\<close>: the in-process and Redis buses, both instances of the locale \<open>dropping_queue\<close>, with history
    variables for what each channel was made for and what was published to it; the subscriptions, the clock and the session manager's client.

  \<^bold>\<open>Processes.\<close>
  \<^item> \<open>Clients\<close>: dialling: Redis, Kafka, the engine, the session manager, the services behind the gateway,
    the engine process, and tracing; each client that may be missing is an option, as the code has nil.
  \<^item> \<open>Startup\<close>: the five \<open>main\<close> functions from the environment to serving, as functions of the record
    \<open>Outside\<close> of what the systems outside answer; a process that does not start is a \<open>Refusal\<close>.  The
    gateway's routes with their middleware.
  \<^item> \<open>Processes\<close>: what starts without what, and what a process started that way does.
  \<^item> \<open>Telemetry\<close> (\<open>pkg/telemetry\<close>): the collectors, the interceptor and the counting of games and moves.

  \<^bold>\<open>Conventions and bounds.\<close>  Errors are sums; a database call that may fail takes its fate as an
  argument, so that a theorem over all of them covers every failure.  Loops are structural or
  bounded by a number of turns; where the code loops for ever the theorems hold after any number
  of turns, or give the number that is enough (\<open>relay_catches_up\<close>: a cycle for every 200 waiting
  rows; \<open>hub_follows_stream\<close>: a turn for every 128 messages of a sorted stream).  Theorems on games assume fewer than
  2^62 moves, so that no counter wraps.  \<open>float64\<close> is a real number; rounding to columns is
  a parameter.  Concurrency is the interleaving of statements and critical sections: \<open>sys_step\<close> for requests,
  \<open>hub_step\<close> and \<open>mgr_step\<close> for hubs, \<open>bus_step\<close> for the gateway's bus, \<open>platform_reach\<close> for service and
  relay.  The theorems on one handler run its database calls without others in between; an entry into the matchmaking queue is one
  step of \<open>lobby_reach\<close>.  SQL, Redis, Kafka, JWT, bcrypt, protobuf and the JSON of reports and events appear as the operations the code relies
  on, or as parameters with named laws (\<open>jwt_law\<close>, \<open>client_laws\<close>, \<open>s3_laws\<close>).

  \<^bold>\<open>Where the code falls short.\<close>  Some theorems show unwanted behaviour of the code as it is:
  \<open>torn_reading_stores_an_illegal_move\<close>, \<open>late_move_reopens_game\<close>, \<open>reconnect_loses_tenth\<close>, \<open>Evaluate_missing_losses_flag\<close>,
  \<open>failed_record_is_committed\<close>, \<open>fetch_error_loses_records\<close>, \<open>retry_loses_novelty\<close>, \<open>last_update_can_be_lost\<close>,
  \<open>unanswered_move_gives_away_the_engines_turn\<close>, \<open>failed_read_replaces_the_book\<close>, \<open>Load_takes_any_move\<close>,
  \<open>terminal_client_never_moves\<close>, \<open>game_ended_by_the_engine_is_never_wound_up\<close>,
  \<open>failed_pairing_strands_a_third_player\<close>, \<open>failed_tracing_panics_at_the_end\<close>,
  \<open>gateway_without_a_limit\<close>, \<open>fanout_started_without_redis_is_silent\<close>.

  \<^bold>\<open>Not modelled.\<close>  Generated code (GraphQL and protobuf, almost half of the lines of the repository) is
  the output of tools whose sources are not here; with it goes the GraphQL transport, so that the
  resolvers are called with decoded arguments.  Of the processes, listening, signals, the order in which
  servers are shut down, the log and the HTTP server of the metrics are calls of the standard library
  without a state of the program.  Migrations run a tool over SQL files: their constraints are in
  \<open>Store\<close>.  The session manager (Erlang) and the web client are other programs.
\<close>

section \<open>Properties that span components\<close>

text \<open>
  C1. What a spectator watches is the game.  In every state that the game service and the relay can reach
  together, with any interleaving of their statements, failure or repetition, and for a hub that has read any initial part of a
  game's stream, the moves that a connected fresh spectator has been handed (backlog, received and
  queued, each ply taken once) are a beginning of the game's stored moves: numbered from 1, each legal in the
  starting position or in one stored with an earlier move, and shown with the position it leads to.  They follow each other
  legally from the starting position unless the game is one of \<open>T\<close>, those of which a move was stored between the two
  queries with which another request read the game.  When the relay
  has handed on every row and the hub has read the whole stream, it is the whole game.
\<close>

theorem spectators_watch_a_legal_game:
  assumes "platform_reach T db ps rl" and "hub_reach h" and "hb_history h = map deltaFrom (stream_decode (take k (streamOf (key gid) rl)))"
    and "(i, s) \<in> set (hb_subs h)" and "sb_in s" and "sb_from s = ''''"
  shows "\<exists>m. map shown (newPlies {} (sb_Initial s @ sb_got s @ sb_ch s)) = map played (take m (moves_of gid (moves db))) \<and>
    map fst (map shown (newPlies {} (sb_Initial s @ sb_got s @ sb_ch s))) = [1..int (min m (length (moves_of gid (moves db))))] \<and>
    branches [StartFEN] (take m (moves_of gid (moves db))) \<and>
    (gid \<notin> T \<longrightarrow> (\<exists>b. follows startBoard (take m (moves_of gid (moves db))) b)) \<and>
    ((\<forall>r \<in> set (outbox db). ob_published r) \<and> length (streamOf (key gid) rl) \<le> k \<longrightarrow> length (moves_of gid (moves db)) \<le> m)"
proof -
  let ?ms = "moves_of gid (moves db)"
  note ok = platform_ok [OF assms(1)]
  obtain m where m: "map shown (newPlies {} (sb_Initial s @ sb_got s @ sb_ch s)) = map played (take m ?ms)"
    "(\<forall>r \<in> set (outbox db). ob_published r) \<and> length (streamOf (key gid) rl) \<le> k \<longrightarrow> length ?ms \<le> m"
    using stream_prefix [OF assms(1), of k gid] spectator_view [OF assms(2,4-6)] assms(3) by metis
  moreover have "map fst (map played (take m ?ms)) = [1..int (min m (length ?ms))]" using numbered_take [OF ok, of m gid] by (simp add: played_def comp_def)
  moreover have "branches [StartFEN] (take m ?ms)" by (rule branches_take) (use ok in \<open>simp add: sys_ok_def\<close>)
  moreover have "\<exists>b. follows startBoard (take m ?ms) b" if "gid \<notin> T"
    using ok that follows_take by (auto simp: sys_ok_def legal_game_def)
  ultimately show ?thesis by metis
qed

theorem spectators_watch_a_legal_game_witness:
  "\<exists>h s. hub_reach h \<and> (7, s) \<in> set (hb_subs h) \<and>
     map shown (newPlies {} (sb_Initial s @ sb_got s @ sb_ch s)) = [(1, ''e2e4'', FEN afterE4)]"
proof -
  obtain db rl where p: "platform_reach {} db [] rl" "moves db = [\<lparr>mv_game = ''g1'', mv_ply = 1, mv_uci = ''e2e4'', mv_fen_after = FEN afterE4\<rparr>]"
      "\<forall>r \<in> set (outbox db). ob_published r" "map ob_game (outbox db) = [''g1'']" "length (streamOf (key ''g1'') rl) \<le> 1" by (rule demo_published)
  define hist where "hist = map deltaFrom (stream_decode (take 1 (streamOf (key ''g1'') rl)))"
  define h where "h = attach 7 '''' ((newHub ''g1'')\<lparr>hb_history := hist\<rparr>)"
  have h: "hub_reach h" unfolding h_def
    by (rule hub_reach.hr_step [OF hub_reach.hr_new hub_step.hs_attach]) (simp_all add: newHub_def)
  obtain s where s: "(7, s) \<in> set (hb_subs h)" "sb_in s" "sb_from s = ''''" by (simp add: h_def attach_def newHub_def)
  have "hb_history h = hist" by (simp add: h_def attach_def)
  from spectators_watch_a_legal_game [OF p(1) h this [unfolded hist_def] s] obtain m where
    m: "map shown (newPlies {} (sb_Initial s @ sb_got s @ sb_ch s)) = map played (take m (moves_of ''g1'' (moves db)))"
       "length (moves_of ''g1'' (moves db)) \<le> m" using p(3,5) by blast
  have "moves_of ''g1'' (moves db) = moves db" by (simp add: p(2) moves_of_def)
  then have "map shown (newPlies {} (sb_Initial s @ sb_got s @ sb_ch s)) = [(1, ''e2e4'', FEN afterE4)]"
    using m by (simp only: p(2)) (simp add: played_def)
  with h s(1) show ?thesis by (intro exI [of _ h] exI [of _ s] conjI)
qed

end
